(* ===== verification/Prelude.thy ===== *)
theory Prelude
  imports Main "HOL-Library.Sublist"
begin

text \<open>
  What every component of the development shares: the collections of rules the component
  proofs draw on, first-error checking over lists (the shape of the validators of
  \<^verbatim>\<open>pkg/contract\<close>), reachability of a transition system with the invariant rule, and the
  interface of a chunked stream processor.
\<close>

section \<open>Rule collections\<close>

named_theorems go_simps "unfolding rules of the Go library layer"
named_theorems check_simps "when a checker accepts"
named_theorems step_defs "the definitions of a component's atomic steps"
named_theorems inv_defs "the conjuncts of a component's invariant"

section \<open>First-error checking\<close>

text \<open>
  A Go checker returns \<open>nil\<close> or an error; here \<open>None\<close> is \<open>nil\<close>. \<open>orelse\<close> runs the
  second checker only when the first accepted, as consecutive \<open>if err != nil \<close>
  returns do.
\<close>

definition orelse :: "'e option \<Rightarrow> 'e option \<Rightarrow> 'e option" where
  "orelse a b = (case a of None \<Rightarrow> b | Some e \<Rightarrow> Some e)"

definition guard_err :: "bool \<Rightarrow> 'e \<Rightarrow> 'e option" where
  "guard_err bad e = (if bad then Some e else None)"

text \<open>The loop \<open>for i, x := range xs \<close> that returns the first error.\<close>

fun check_from :: "nat \<Rightarrow> (nat \<Rightarrow> 'a \<Rightarrow> 'e option) \<Rightarrow> 'a list \<Rightarrow> 'e option" where
  "check_from i f [] = None"
| "check_from i f (x # xs) = orelse (f i x) (check_from (Suc i) f xs)"

abbreviation check_each :: "(nat \<Rightarrow> 'a \<Rightarrow> 'e option) \<Rightarrow> 'a list \<Rightarrow> 'e option" where
  "check_each f xs \<equiv> check_from 0 f xs"

text \<open>
  The same loop where the body also sees the elements before the current one: a
  \<open>seen\<close> map of the source holds exactly the keys of those elements.
\<close>

fun check_prev :: "nat \<Rightarrow> (nat \<Rightarrow> 'a list \<Rightarrow> 'a \<Rightarrow> 'e option) \<Rightarrow> 'a list \<Rightarrow> 'a list \<Rightarrow> 'e option" where
  "check_prev i f prev [] = None"
| "check_prev i f prev (x # xs) = orelse (f i prev x) (check_prev (Suc i) f (prev @ [x]) xs)"

lemma orelse_None [simp, check_simps]: "orelse a b = None \<longleftrightarrow> a = None \<and> b = None"
  by (simp add: orelse_def split: option.split)

lemma orelse_None_left [simp]: "orelse None b = b"
  by (simp add: orelse_def)

lemma orelse_Some_left [simp]: "orelse (Some e) b = Some e"
  by (simp add: orelse_def)

lemma orelse_Some [check_simps]:
  "orelse a b = Some e \<longleftrightarrow> a = Some e \<or> (a = None \<and> b = Some e)"
  by (cases a) simp_all

lemma guard_err_None [simp, check_simps]: "guard_err bad e = None \<longleftrightarrow> \<not> bad"
  by (simp add: guard_err_def)

lemma guard_err_Some [simp, check_simps]: "guard_err bad e = Some e' \<longleftrightarrow> bad \<and> e = e'"
  by (simp add: guard_err_def)

lemma check_from_None [check_simps]:
  "check_from i f xs = None \<longleftrightarrow> (\<forall>k < length xs. f (i + k) (xs ! k) = None)"
proof (induction xs arbitrary: i)
  case Nil
  show ?case by simp
next
  case (Cons x xs)
  have "check_from i f (x # xs) = None \<longleftrightarrow>
    f i x = None \<and> (\<forall>k < length xs. f (Suc i + k) (xs ! k) = None)"
    by (simp add: Cons.IH)
  also have "\<dots> \<longleftrightarrow> (\<forall>k < length (x # xs). f (i + k) ((x # xs) ! k) = None)"
    by (auto simp: nth_Cons split: nat.splits)
  finally show ?case .
qed

lemma check_from_None_set:
  "check_from i (\<lambda>_. g) xs = None \<longleftrightarrow> (\<forall>x \<in> set xs. g x = None)"
  by (induction xs arbitrary: i) auto

lemma check_prev_None [check_simps]:
  "check_prev i f prev xs = None \<longleftrightarrow>
     (\<forall>k < length xs. f (i + k) (prev @ take k xs) (xs ! k) = None)"
proof (induction xs arbitrary: i prev)
  case Nil
  show ?case by simp
next
  case (Cons x xs)
  have "check_prev i f prev (x # xs) = None \<longleftrightarrow>
    f i prev x = None \<and> (\<forall>k < length xs. f (Suc i + k) ((prev @ [x]) @ take k xs) (xs ! k) = None)"
    by (simp add: Cons.IH)
  also have "\<dots> \<longleftrightarrow> (\<forall>k < length (x # xs). f (i + k) (prev @ take k (x # xs)) ((x # xs) ! k) = None)"
    by (auto simp: nth_Cons split: nat.splits)
  finally show ?case .
qed

text \<open>A duplicate check over the elements before the current one is distinctness.\<close>

lemma distinct_by_prefix:
  "distinct xs \<longleftrightarrow> (\<forall>k < length xs. xs ! k \<notin> set (take k xs))"
proof (induction xs rule: rev_induct)
  case Nil
  show ?case by simp
next
  case (snoc x xs)
  have "(\<forall>k < length (xs @ [x]). (xs @ [x]) ! k \<notin> set (take k (xs @ [x]))) \<longleftrightarrow>
    (\<forall>k < length xs. xs ! k \<notin> set (take k xs)) \<and> x \<notin> set xs"
    by (auto simp: nth_append less_Suc_eq)
  with snoc show ?case by auto
qed

lemma distinct_map_by_prefix:
  "distinct (map key xs) \<longleftrightarrow> (\<forall>k < length xs. key (xs ! k) \<notin> key ` set (take k xs))"
  by (simp add: distinct_by_prefix take_map)

lemma ball_nth: "(\<forall>k < length xs. P (xs ! k)) \<longleftrightarrow> (\<forall>x \<in> set xs. P x)"
  by (metis in_set_conv_nth)

text \<open>
  A loop whose body accepts an element when the element is good and its key is new accepts
  exactly the lists of good elements with distinct keys.
\<close>

lemma check_prev_keyed:
  assumes "\<And>i prev x. f i prev x = None \<longleftrightarrow> P x \<and> key x \<notin> key ` set prev"
  shows "check_prev i f [] xs = None \<longleftrightarrow> (\<forall>x \<in> set xs. P x) \<and> distinct (map key xs)"
  unfolding check_prev_None assms distinct_map_by_prefix ball_nth [symmetric] by auto

lemma check_prev_distinct:
  assumes "check_prev i f [] xs = None" and "\<And>i prev x. f i prev x = None \<Longrightarrow> key x \<notin> key ` set prev"
  shows "distinct (map key xs)"
  using assms(1) unfolding check_prev_None distinct_map_by_prefix by (auto dest: assms(2))

lemma check_prev_all:
  assumes "check_prev i f [] xs = None" and "\<And>i prev x. f i prev x = None \<Longrightarrow> P x"
  shows "\<forall>x \<in> set xs. P x"
  using assms(1) unfolding check_prev_None ball_nth [symmetric] by (auto dest: assms(2))

section \<open>Transition systems\<close>

text \<open>
  A component with shared state is an initial-state predicate and a relation whose steps
  are its atomic regions (what runs under its mutex), in any interleaving.
\<close>

inductive reachable :: "('s \<Rightarrow> bool) \<Rightarrow> ('s \<Rightarrow> 's \<Rightarrow> bool) \<Rightarrow> 's \<Rightarrow> bool"
  for init :: "'s \<Rightarrow> bool" and step :: "'s \<Rightarrow> 's \<Rightarrow> bool" where
  reach_init: "init s \<Longrightarrow> reachable init step s"
| reach_step: "reachable init step s \<Longrightarrow> step s t \<Longrightarrow> reachable init step t"

text \<open>The contract of an invariant: it starts true and every step keeps it.\<close>

locale inductive_invariant =
  fixes init :: "'s \<Rightarrow> bool" and step :: "'s \<Rightarrow> 's \<Rightarrow> bool" and inv :: "'s \<Rightarrow> bool"
  assumes inv_init: "init s \<Longrightarrow> inv s"
    and inv_step: "inv s \<Longrightarrow> step s t \<Longrightarrow> inv t"
begin

lemma inv_reachable: "reachable init step s \<Longrightarrow> inv s"
  by (induction rule: reachable.induct) (auto intro: inv_init inv_step)

end

text \<open>Reachability only grows with the step relation.\<close>

lemma reachable_mono:
  assumes "reachable init step s" and "\<And>s t. step s t \<Longrightarrow> step' s t"
  shows "reachable init step' s"
  using assms(1) by (induction rule: reachable.induct) (auto intro: reachable.intros assms(2))

section \<open>Chunked streams\<close>

text \<open>
  A byte stream arrives in chunks whose boundaries mean nothing. \<open>feed\<close> takes one chunk
  in a state and gives the next state and what it emits; \<open>ok s xs\<close> says that a stream \<open>xs\<close> may
  come in the state \<open>s\<close>. Feeding two chunks is feeding their concatenation, so what a whole
  stream emits does not depend on how it was cut.
\<close>

locale chunked_stream =
  fixes feed :: "'st \<Rightarrow> 'a list \<Rightarrow> 'st \<times> 'b list"
    and ok :: "'st \<Rightarrow> 'a list \<Rightarrow> bool"
  assumes feed_append:
    "ok s (xs @ ys) \<Longrightarrow> feed s (xs @ ys) =
       (fst (feed (fst (feed s xs)) ys), snd (feed s xs) @ snd (feed (fst (feed s xs)) ys))"
    and feed_nil: "ok s [] \<Longrightarrow> feed s [] = (s, [])"
    and ok_append: "ok s (xs @ ys) \<Longrightarrow> ok (fst (feed s xs)) ys"
begin

fun feed_all :: "'st \<Rightarrow> 'a list list \<Rightarrow> 'st \<times> 'b list" where
  "feed_all s [] = (s, [])"
| "feed_all s (c # cs) =
     (fst (feed_all (fst (feed s c)) cs), snd (feed s c) @ snd (feed_all (fst (feed s c)) cs))"

lemma feed_all_concat: "ok s (concat cs) \<Longrightarrow> feed_all s cs = feed s (concat cs)"
proof (induction cs arbitrary: s)
  case Nil
  then show ?case by (simp add: feed_nil)
next
  case (Cons c cs)
  then show ?case using ok_append [of s c "concat cs"] feed_append [of s c "concat cs"] by simp
qed

lemma chunking_irrelevant: "ok s (concat cs) \<Longrightarrow> concat cs = concat ds \<Longrightarrow> feed_all s cs = feed_all s ds"
  by (simp add: feed_all_concat)

end

end
