(* ===== verification/Delivery_Queue.thy ===== *)
theory Delivery_Queue
  imports Prelude
begin

text \<open>
  \<^verbatim>\<open>internal/delivery/queue.go\<close>: the bounded, ordered queue behind the \<open>OnEvent\<close> callbacks.
  Producers, one worker and the closers run concurrently and meet under \<open>q.mu\<close>; a step of
  the model is one region under the mutex, and steps of different goroutines interleave
  freely. A channel used as a broadcast (\<open>room\<close>, closed and replaced) is the number of the
  channel now in place: a producer that captured an earlier number finds its channel closed.
  \<open>ready\<close>, of capacity one, is whether it holds a token. The callback is a parameter: it
  returns, or panics.
\<close>

section \<open>The queue\<close>

definition DefaultEvents :: int where "DefaultEvents = 1024"
definition DefaultBytes :: int where "DefaultBytes = 16 * 2 ^ 20"

record QLimits =
  lim_events :: int
  lim_bytes :: int

definition Resolved :: "QLimits \<Rightarrow> QLimits" where
  "Resolved l =
     \<lparr>lim_events = (if lim_events l \<le> 0 then DefaultEvents else lim_events l),
      lim_bytes = (if lim_bytes l \<le> 0 then DefaultBytes else lim_bytes l)\<rparr>"

text \<open>
  A producer waiting for room: its entry in \<open>q.waiters\<close> (since when it waits) with the local
  variables of its \<open>Push\<close> (the value, its size, the room channel it captured).
\<close>

record 'a waiter =
  w_val :: 'a
  w_size :: int
  w_room :: nat
  w_since :: int

record 'a queue =
  q_limits :: QLimits
  q_items :: "('a \<times> int) list"
  q_bytes :: int
  q_room :: nat
  q_ready :: bool
  q_closed :: bool
  q_abandoned :: bool
  q_waiters :: "'a waiter list"
  q_delivering :: "int option"
  q_delivered :: nat
  q_lost :: nat
  q_drained :: bool

definition New :: "QLimits \<Rightarrow> 'a queue" where
  "New l =
     \<lparr>q_limits = Resolved l, q_items = [], q_bytes = 0, q_room = 0, q_ready = False,
      q_closed = False, q_abandoned = False, q_waiters = [], q_delivering = None,
      q_delivered = 0, q_lost = 0, q_drained = False\<rparr>"

definition signal :: "'a queue \<Rightarrow> 'a queue" where
  "signal q = q\<lparr>q_ready := True\<rparr>"

definition enqueue :: "'a \<Rightarrow> int \<Rightarrow> 'a queue \<Rightarrow> 'a queue" where
  "enqueue v n q = signal (q\<lparr>q_items := q_items q @ [(v, n)], q_bytes := q_bytes q + n\<rparr>)"

definition closeLocked :: "'a queue \<Rightarrow> 'a queue" where
  "closeLocked q =
     (if q_closed q then q else signal (q\<lparr>q_closed := True, q_room := Suc (q_room q)\<rparr>))"

datatype push_result = Pushed | ErrTooLarge | ErrAbandoned | Waiting

text \<open>Whether a value of \<open>n\<close> bytes is taken now: the queue is empty, or under both bounds.\<close>

definition has_room :: "'a queue \<Rightarrow> int \<Rightarrow> bool" where
  "has_room q n \<longleftrightarrow>
     q_items q = [] \<or>
     (int (length (q_items q)) < lim_events (q_limits q) \<and> q_bytes q + n \<le> lim_bytes (q_limits q))"

text \<open>
  One pass of \<open>Push\<close>'s loop under the mutex. A producer that must wait has an entry in
  \<open>q.waiters\<close>, made on its first wait and kept until it returns.
\<close>

definition Push_pass :: "'a \<Rightarrow> int \<Rightarrow> int \<Rightarrow> 'a queue \<Rightarrow> push_result \<times> 'a queue" where
  "Push_pass v n since q =
     (if q_closed q \<or> q_abandoned q then (ErrAbandoned, q\<lparr>q_lost := Suc (q_lost q)\<rparr>)
      else if has_room q n then (Pushed, enqueue v n q)
      else (Waiting, q\<lparr>q_waiters :=
              \<lparr>w_val = v, w_size = n, w_room = q_room q, w_since = since\<rparr> # q_waiters q\<rparr>))"

definition Push :: "('a \<Rightarrow> int) \<Rightarrow> 'a \<Rightarrow> int \<Rightarrow> 'a queue \<Rightarrow> push_result \<times> 'a queue" where
  "Push sz v now q =
     (if sz v > lim_bytes (q_limits q) then (ErrTooLarge, q) else Push_pass v (sz v) now q)"

text \<open>A waiting producer whose room channel was closed runs the loop again.\<close>

definition Push_woken :: "'a waiter \<Rightarrow> 'a queue \<Rightarrow> push_result \<times> 'a queue" where
  "Push_woken w q = Push_pass (w_val w) (w_size w) (w_since w) (q\<lparr>q_waiters := remove1 w (q_waiters q)\<rparr>)"

text \<open>A waiting producer whose \<open>abort\<close> closed gives up.\<close>

definition Push_abort :: "'a waiter \<Rightarrow> 'a queue \<Rightarrow> 'a queue" where
  "Push_abort w q = q\<lparr>q_lost := Suc (q_lost q), q_waiters := remove1 w (q_waiters q)\<rparr>"

definition PushLast :: "('a \<Rightarrow> int) \<Rightarrow> 'a \<Rightarrow> 'a queue \<Rightarrow> 'a queue" where
  "PushLast sz v q =
     (if q_closed q \<or> q_abandoned q then q\<lparr>q_lost := Suc (q_lost q)\<rparr>
      else closeLocked (enqueue v (sz v) q))"

definition Close :: "'a queue \<Rightarrow> 'a queue" where
  "Close q = closeLocked q"

definition Abandon :: "'a queue \<Rightarrow> 'a queue" where
  "Abandon q =
     closeLocked (q\<lparr>q_lost := q_lost q + length (q_items q), q_items := [], q_bytes := 0, q_abandoned := True\<rparr>)"

record QStats =
  st_limits :: QLimits
  st_queued :: nat
  st_queued_bytes :: int
  st_waiting_since :: "int option"
  st_delivering_since :: "int option"
  st_delivered :: nat
  st_undelivered :: nat

fun earliest :: "int list \<Rightarrow> int option" where
  "earliest [] = None"
| "earliest (t # ts) = (case earliest ts of None \<Rightarrow> Some t | Some u \<Rightarrow> Some (min t u))"

definition Stats :: "'a queue \<Rightarrow> QStats" where
  "Stats q =
     \<lparr>st_limits = q_limits q, st_queued = length (q_items q), st_queued_bytes = q_bytes q,
      st_waiting_since = earliest (map w_since (q_waiters q)), st_delivering_since = q_delivering q,
      st_delivered = q_delivered q, st_undelivered = q_lost q\<rparr>"

section \<open>The worker\<close>

text \<open>
  Where the worker goroutine is: about to look at the queue, waiting on \<open>ready\<close>, in the
  callback, or returned.
\<close>

datatype 'a worker = WLoop | WReady | WDeliver 'a | WExited

text \<open>\<open>run\<close>, from a lock to the next unlock.\<close>

definition run_look :: "int \<Rightarrow> 'a queue \<Rightarrow> 'a worker \<times> 'a queue" where
  "run_look now q =
     (case q_items q of
        [] \<Rightarrow> if q_closed q then (WExited, q\<lparr>q_drained := True\<rparr>) else (WReady, q)
      | (v, n) # rest \<Rightarrow>
          (WDeliver v,
           q\<lparr>q_items := rest, q_bytes := q_bytes q - n, q_room := Suc (q_room q), q_delivering := Some now\<rparr>))"

definition run_woken :: "'a queue \<Rightarrow> 'a worker \<times> 'a queue" where
  "run_woken q = (WLoop, q\<lparr>q_ready := False\<rparr>)"

text \<open>After \<open>deliverOne\<close>: \<open>ok\<close> is false when the callback panicked, which is recovered.\<close>

definition run_delivered :: "bool \<Rightarrow> 'a queue \<Rightarrow> 'a worker \<times> 'a queue" where
  "run_delivered ok q =
     (WLoop,
      if ok then q\<lparr>q_delivering := None, q_delivered := Suc (q_delivered q)\<rparr>
      else q\<lparr>q_delivering := None, q_lost := Suc (q_lost q)\<rparr>)"

section \<open>The system\<close>

text \<open>
  The queue with its worker, and what a property speaks of beside them: every value taken
  into the queue, every value handed to the callback and every value \<open>Abandon\<close> dropped, each
  in order, and how many pushes were made (those refused as too large left out).
\<close>

record 'a dsys =
  ds_q :: "'a queue"
  ds_worker :: "'a worker"
  ds_accepted :: "'a list"
  ds_handed :: "'a list"
  ds_dropped :: "'a list"
  ds_pushes :: nat

definition dq_init :: "'a dsys \<Rightarrow> bool" where
  "dq_init s \<longleftrightarrow>
     (\<exists>l. s = \<lparr>ds_q = New l, ds_worker = WLoop, ds_accepted = [], ds_handed = [],
               ds_dropped = [], ds_pushes = 0\<rparr>)"

text \<open>What a push's result adds to the values taken.\<close>

definition taken :: "push_result \<Rightarrow> 'a \<Rightarrow> 'a list" where
  "taken r v = (if r = Pushed then [v] else [])"

inductive dq_step :: "('a \<Rightarrow> int) \<Rightarrow> 'a dsys \<Rightarrow> 'a dsys \<Rightarrow> bool" for sz :: "'a \<Rightarrow> int" where
  push: "Push sz v now (ds_q s) = (r, q) \<Longrightarrow>
    dq_step sz s (s\<lparr>ds_q := q, ds_accepted := ds_accepted s @ taken r v,
      ds_pushes := ds_pushes s + (if r = ErrTooLarge then 0 else 1)\<rparr>)"
| woken: "w \<in> set (q_waiters (ds_q s)) \<Longrightarrow> w_room w \<noteq> q_room (ds_q s) \<Longrightarrow>
    Push_woken w (ds_q s) = (r, q) \<Longrightarrow>
    dq_step sz s (s\<lparr>ds_q := q, ds_accepted := ds_accepted s @ taken r (w_val w)\<rparr>)"
| abort: "w \<in> set (q_waiters (ds_q s)) \<Longrightarrow>
    dq_step sz s (s\<lparr>ds_q := Push_abort w (ds_q s)\<rparr>)"
| push_last: "dq_step sz s (s\<lparr>ds_q := PushLast sz v (ds_q s),
      ds_accepted := ds_accepted s @ (if q_closed (ds_q s) \<or> q_abandoned (ds_q s) then [] else [v]),
      ds_pushes := Suc (ds_pushes s)\<rparr>)"
| close: "dq_step sz s (s\<lparr>ds_q := Close (ds_q s)\<rparr>)"
| abandon: "dq_step sz s (s\<lparr>ds_q := Abandon (ds_q s),
      ds_dropped := ds_dropped s @ map fst (q_items (ds_q s))\<rparr>)"
| look: "ds_worker s = WLoop \<Longrightarrow> run_look now (ds_q s) = (w, q) \<Longrightarrow>
    dq_step sz s (s\<lparr>ds_q := q, ds_worker := w,
      ds_handed := ds_handed s @ (case w of WDeliver v \<Rightarrow> [v] | _ \<Rightarrow> [])\<rparr>)"
| ready: "ds_worker s = WReady \<Longrightarrow> q_ready (ds_q s) \<Longrightarrow> run_woken (ds_q s) = (w, q) \<Longrightarrow>
    dq_step sz s (s\<lparr>ds_q := q, ds_worker := w\<rparr>)"
| delivered: "ds_worker s = WDeliver v \<Longrightarrow> run_delivered ok (ds_q s) = (w, q) \<Longrightarrow>
    dq_step sz s (s\<lparr>ds_q := q, ds_worker := w\<rparr>)"

lemmas queue_ops [step_defs] =
  signal_def enqueue_def closeLocked_def Push_pass_def Push_def Push_woken_def Push_abort_def
  PushLast_def Close_def Abandon_def run_look_def run_woken_def run_delivered_def taken_def

section \<open>The invariant\<close>

definition sizes :: "('a \<times> int) list \<Rightarrow> int" where
  "sizes xs = sum_list (map snd xs)"

text \<open>Order: what was taken is what was handed on, then what is queued, then what was dropped.\<close>

definition dq_order :: "'a dsys \<Rightarrow> bool" where
  "dq_order s \<longleftrightarrow>
     ds_accepted s = ds_handed s @ map fst (q_items (ds_q s)) @ ds_dropped s \<and>
     (ds_dropped s \<noteq> [] \<longrightarrow> q_abandoned (ds_q s)) \<and>
     (q_abandoned (ds_q s) \<longrightarrow> q_items (ds_q s) = [] \<and> q_closed (ds_q s))"

text \<open>Bounds: both hold while the queue is open; the last value may exceed them.\<close>

definition queue_bounds :: "'a queue \<Rightarrow> bool" where
  "queue_bounds q \<longleftrightarrow>
     (let l = q_limits q in
      0 < lim_events l \<and> 0 < lim_bytes l \<and>
      q_bytes q = sizes (q_items q) \<and> (\<forall>(v, n) \<in> set (q_items q). 0 \<le> n) \<and>
      (\<forall>w \<in> set (q_waiters q). 0 \<le> w_size w \<and> w_size w \<le> lim_bytes l) \<and>
      (if q_closed q
       then int (length (q_items q)) \<le> lim_events l + 1 \<and> sizes (butlast (q_items q)) \<le> lim_bytes l
       else int (length (q_items q)) \<le> lim_events l \<and> q_bytes q \<le> lim_bytes l))"

definition dq_bounds :: "'a dsys \<Rightarrow> bool" where
  "dq_bounds s \<longleftrightarrow> queue_bounds (ds_q s)"

text \<open>Accounting: every push is delivered, lost, queued, in the callback or waiting.\<close>

definition in_callback :: "'a worker \<Rightarrow> nat" where
  "in_callback w = (case w of WDeliver _ \<Rightarrow> 1 | _ \<Rightarrow> 0)"

definition dq_account :: "'a dsys \<Rightarrow> bool" where
  "dq_account s \<longleftrightarrow>
     ds_pushes s = q_delivered (ds_q s) + q_lost (ds_q s) + length (q_items (ds_q s)) +
       in_callback (ds_worker s) + length (q_waiters (ds_q s))"

text \<open>
  Wake-ups: a producer waiting on the room channel in place finds no room, and the worker
  waiting on a \<open>ready\<close> no one has signalled finds nothing to do.
\<close>

definition room_wake :: "'a queue \<Rightarrow> bool" where
  "room_wake q \<longleftrightarrow>
     (\<forall>w \<in> set (q_waiters q). w_room w \<le> q_room q \<and>
        (w_room w = q_room q \<longrightarrow> \<not> q_closed q \<and> \<not> q_abandoned q \<and> \<not> has_room q (w_size w)))"

definition ready_wake :: "'a worker \<Rightarrow> 'a queue \<Rightarrow> bool" where
  "ready_wake k q \<longleftrightarrow>
     (k = WReady \<and> (q_items q \<noteq> [] \<or> q_closed q) \<longrightarrow> q_ready q) \<and>
     (k = WExited \<longleftrightarrow> q_drained q) \<and>
     (k = WExited \<longrightarrow> q_closed q \<and> q_items q = []) \<and>
     ((\<exists>v. k = WDeliver v) \<longleftrightarrow> q_delivering q \<noteq> None)"

definition dq_wake :: "'a dsys \<Rightarrow> bool" where
  "dq_wake s \<longleftrightarrow> room_wake (ds_q s) \<and> ready_wake (ds_worker s) (ds_q s)"

lemmas dq_inv_defs [inv_defs] = dq_order_def dq_bounds_def dq_account_def dq_wake_def


section \<open>Every step keeps the invariant\<close>

lemma sizes_simps [simp]:
  "sizes [] = 0" "sizes (x # xs) = snd x + sizes xs" "sizes (xs @ ys) = sizes xs + sizes ys"
  by (simp_all add: sizes_def)

lemma sizes_nonneg: "\<forall>(v, n) \<in> set xs. 0 \<le> n \<Longrightarrow> 0 \<le> sizes xs"
  by (induction xs) auto

lemma sizes_butlast_le: "\<forall>(v, n) \<in> set xs. 0 \<le> n \<Longrightarrow> sizes (butlast xs) \<le> sizes xs"
  by (cases xs rule: rev_cases) auto

lemma sizes_butlast_tl: "0 \<le> n \<Longrightarrow> sizes (butlast ((v, n) # xs)) \<ge> sizes (butlast xs)"
  by (cases xs) auto

lemma dq_order_step: "dq_order s \<Longrightarrow> dq_step sz s t \<Longrightarrow> dq_order t"
  by (erule dq_step.cases)
    (auto simp: dq_order_def queue_ops split: if_splits list.splits)

lemma length_remove1_member: "w \<in> set ws \<Longrightarrow> length ws = Suc (length (remove1 w ws))"
  by (induction ws) auto

lemma remove1_member: "x \<in> set (remove1 w ws) \<Longrightarrow> x \<in> set ws"
  by (meson notin_set_remove1)

lemma dq_account_step: "dq_account s \<Longrightarrow> dq_step sz s t \<Longrightarrow> dq_account t"
  by (erule dq_step.cases)
    (auto simp: dq_account_def in_callback_def queue_ops
       dest!: length_remove1_member split: if_splits list.splits)

lemma has_room_waiters [simp]: "has_room (q\<lparr>q_waiters := ws\<rparr>) n = has_room q n"
  by (simp add: has_room_def)

text \<open>Fewer waiters break neither bounds nor wake-ups.\<close>

lemma fewer_waiters:
  assumes "set ws \<subseteq> set (q_waiters q)"
  shows "queue_bounds q \<Longrightarrow> queue_bounds (q\<lparr>q_lost := k, q_waiters := ws\<rparr>)"
    and "queue_bounds q \<Longrightarrow> queue_bounds (q\<lparr>q_waiters := ws\<rparr>)"
    and "room_wake q \<Longrightarrow> room_wake (q\<lparr>q_lost := k, q_waiters := ws\<rparr>)"
    and "room_wake q \<Longrightarrow> room_wake (q\<lparr>q_waiters := ws\<rparr>)"
  using assms by (auto simp: queue_bounds_def room_wake_def Let_def has_room_def)

lemma queue_bounds_Push_pass:
  "queue_bounds q \<Longrightarrow> 0 \<le> n \<Longrightarrow> n \<le> lim_bytes (q_limits q) \<Longrightarrow> queue_bounds (snd (Push_pass v n now q))"
  by (auto simp: queue_bounds_def Let_def Push_pass_def enqueue_def signal_def has_room_def)

lemma room_wake_Push_pass:
  assumes "queue_bounds q" "room_wake q" "0 \<le> n"
  shows "room_wake (snd (Push_pass v n now q))"
proof -
  have "\<not> has_room q m \<Longrightarrow> \<not> has_room (enqueue v n q) m" for m
    using assms(3) by (auto simp: has_room_def enqueue_def signal_def)
  moreover have "q_waiters (enqueue v n q) = q_waiters q" "q_room (enqueue v n q) = q_room q"
    "q_closed (enqueue v n q) = q_closed q" "q_abandoned (enqueue v n q) = q_abandoned q"
    by (simp_all add: enqueue_def signal_def)
  ultimately show ?thesis
    using assms(2) by (auto simp: room_wake_def Push_pass_def has_room_def)
qed

lemma queue_bounds_closeLocked: "queue_bounds q \<Longrightarrow> queue_bounds (closeLocked q)"
  using sizes_butlast_le [of "q_items q"]
  by (auto simp: queue_bounds_def Let_def closeLocked_def signal_def)

lemma queue_bounds_PushLast: "queue_bounds q \<Longrightarrow> 0 \<le> sz v \<Longrightarrow> queue_bounds (PushLast sz v q)"
  by (auto simp: queue_bounds_def Let_def PushLast_def closeLocked_def enqueue_def signal_def)

lemma queue_bounds_Abandon: "queue_bounds q \<Longrightarrow> queue_bounds (Abandon q)"
  unfolding Abandon_def by (rule queue_bounds_closeLocked) (auto simp: queue_bounds_def Let_def)

lemma queue_bounds_look: "queue_bounds q \<Longrightarrow> queue_bounds (snd (run_look now q))"
proof (cases "q_items q")
  case (Cons e rest)
  moreover assume "queue_bounds q"
  ultimately show ?thesis
    using sizes_butlast_tl [of "snd e" rest "fst e"]
    by (cases e) (auto simp: queue_bounds_def Let_def run_look_def split: if_splits)
qed (auto simp: queue_bounds_def Let_def run_look_def)

lemma dq_bounds_step:
  assumes "\<And>v. 0 \<le> sz v" and "dq_bounds s" and "dq_step sz s t"
  shows "dq_bounds t"
  using assms(3,2)
proof cases
  case (push v now r q)
  with assms(1)[of v] assms(2) queue_bounds_Push_pass [of "ds_q s" "sz v" v now] show ?thesis
    by (auto simp: dq_bounds_def Push_def split: if_splits)
next
  case (woken w r q)
  have "queue_bounds (snd (Push_woken w (ds_q s)))"
    unfolding Push_woken_def
    by (rule queue_bounds_Push_pass)
      (use assms(2) woken(2) in \<open>auto simp: dq_bounds_def queue_bounds_def Let_def dest: remove1_member\<close>)
  with woken show ?thesis by (simp add: dq_bounds_def)
next
  case (abort w)
  with assms(2) fewer_waiters(1) [OF set_remove1_subset] show ?thesis
    by (simp add: dq_bounds_def Push_abort_def)
next
  case (push_last v)
  with assms(1,2) show ?thesis by (simp add: dq_bounds_def queue_bounds_PushLast)
next
  case close
  with assms(2) show ?thesis by (simp add: dq_bounds_def queue_bounds_closeLocked Close_def)
next
  case abandon
  with assms(2) show ?thesis by (simp add: dq_bounds_def queue_bounds_Abandon)
next
  case (look now w q)
  with assms(2) queue_bounds_look [of "ds_q s" now] show ?thesis by (simp add: dq_bounds_def)
next
  case (ready w q)
  with assms(2) show ?thesis by (auto simp: dq_bounds_def queue_bounds_def Let_def run_woken_def)
next
  case (delivered v ok w q)
  with assms(2) show ?thesis
    by (cases ok) (auto simp: dq_bounds_def queue_bounds_def Let_def run_delivered_def)
qed


lemma room_wake_closed:
  "room_wake q \<Longrightarrow> q_closed q \<or> q_abandoned q \<Longrightarrow> w \<in> set (q_waiters q) \<Longrightarrow> w_room w < q_room q"
  by (auto simp: room_wake_def nat_less_le)

lemma room_wake_closeLocked:
  assumes "\<forall>w \<in> set (q_waiters q). w_room w \<le> q_room q"
    and "q_closed q \<Longrightarrow> \<forall>w \<in> set (q_waiters q). w_room w < q_room q"
  shows "room_wake (closeLocked q)"
  using assms by (fastforce simp: room_wake_def closeLocked_def signal_def)

lemma room_wake_step:
  assumes "\<And>v. 0 \<le> sz v" and "dq_bounds s" and "room_wake (ds_q s)" and "dq_step sz s t"
  shows "room_wake (ds_q t)"
  using assms(4,2,3)
proof cases
  case (push v now r q)
  with assms(1)[of v] assms(2,3) room_wake_Push_pass [of "ds_q s" "sz v" v now] show ?thesis
    by (auto simp: dq_bounds_def Push_def split: if_splits)
next
  case (woken w r q)
  have "room_wake (snd (Push_woken w (ds_q s)))"
    unfolding Push_woken_def
    by (rule room_wake_Push_pass)
      (use assms(2,3) woken(2) in
        \<open>auto simp: dq_bounds_def fewer_waiters [OF set_remove1_subset] queue_bounds_def Let_def dest: remove1_member\<close>)
  with woken show ?thesis by simp
next
  case (abort w)
  with assms(3) fewer_waiters(3) [OF set_remove1_subset] show ?thesis by (simp add: Push_abort_def)
next
  case (push_last v)
  with assms(3) show ?thesis
    by (fastforce simp: PushLast_def enqueue_def signal_def closeLocked_def room_wake_def has_room_def)
next
  case close
  with assms(3) show ?thesis by (fastforce simp: Close_def closeLocked_def signal_def room_wake_def)
next
  case abandon
  with assms(3) show ?thesis
    by (fastforce simp: Abandon_def closeLocked_def signal_def room_wake_def)
next
  case (look now w q)
  with assms(3) show ?thesis
    by (fastforce simp: run_look_def room_wake_def has_room_def split: list.splits if_splits)
next
  case (ready w q)
  with assms(3) show ?thesis by (auto simp: room_wake_def run_woken_def has_room_def)
next
  case (delivered v ok w q)
  with assms(3) show ?thesis by (cases ok) (auto simp: room_wake_def run_delivered_def has_room_def)
qed

lemma ready_wake_step:
  "ready_wake (ds_worker s) (ds_q s) \<Longrightarrow> dq_step sz s t \<Longrightarrow> ready_wake (ds_worker t) (ds_q t)"
  by (erule dq_step.cases) (auto simp: ready_wake_def queue_ops split: if_splits list.splits)

definition dq_inv :: "'a dsys \<Rightarrow> bool" where
  "dq_inv s \<longleftrightarrow> dq_order s \<and> dq_bounds s \<and> dq_account s \<and> dq_wake s"

lemma dq_inv_init: "dq_init s \<Longrightarrow> dq_inv s"
  by (auto simp: dq_init_def dq_inv_def dq_inv_defs New_def Resolved_def queue_bounds_def Let_def
      room_wake_def ready_wake_def in_callback_def DefaultEvents_def DefaultBytes_def)

lemma dq_inv_step:
  "(\<And>v. 0 \<le> sz v) \<Longrightarrow> dq_inv s \<Longrightarrow> dq_step sz s t \<Longrightarrow> dq_inv t"
  unfolding dq_inv_def dq_wake_def
  by (blast intro: dq_order_step dq_bounds_step dq_account_step room_wake_step ready_wake_step)

text \<open>
  The transition system of a queue whose \<open>size\<close> callback is the length of a payload: the
  callbacks of both users of the queue count bytes, so they are never negative.
\<close>

definition payload :: "('a \<Rightarrow> nat) \<Rightarrow> 'a \<Rightarrow> int" where
  "payload len v = int (len v)"

interpretation dq: inductive_invariant dq_init "dq_step (payload len)" dq_inv
  for len :: "'a \<Rightarrow> nat"
  by unfold_locales (auto intro: dq_inv_init dq_inv_step [of "payload len"] simp: payload_def)


section \<open>Draining\<close>

text \<open>
  The worker's next move, whatever the rest of the system does: the clock and whether a
  callback returns are its inputs. It stays where it is while \<open>ready\<close> holds no token.
\<close>

definition worker_move :: "int \<Rightarrow> bool \<Rightarrow> 'a dsys \<Rightarrow> 'a dsys" where
  "worker_move now ok s =
     (case ds_worker s of
        WLoop \<Rightarrow>
          let (w, q) = run_look now (ds_q s) in
          s\<lparr>ds_q := q, ds_worker := w,
            ds_handed := ds_handed s @ (case w of WDeliver v \<Rightarrow> [v] | _ \<Rightarrow> [])\<rparr>
      | WReady \<Rightarrow>
          if q_ready (ds_q s)
          then let (w, q) = run_woken (ds_q s) in s\<lparr>ds_q := q, ds_worker := w\<rparr>
          else s
      | WDeliver v \<Rightarrow> let (w, q) = run_delivered ok (ds_q s) in s\<lparr>ds_q := q, ds_worker := w\<rparr>
      | WExited \<Rightarrow> s)"

lemma worker_move_step: "worker_move now ok s = s \<or> dq_step sz s (worker_move now ok s)"
  by (cases "ds_worker s")
    (auto simp: worker_move_def split: prod.splits intro: look ready delivered)

fun worker_run :: "(int \<times> bool) list \<Rightarrow> 'a dsys \<Rightarrow> 'a dsys" where
  "worker_run [] s = s"
| "worker_run ((now, ok) # ms) s = worker_run ms (worker_move now ok s)"

text \<open>How many moves a worker of a closed queue is from its exit.\<close>

definition moves_left :: "'a dsys \<Rightarrow> nat" where
  "moves_left s =
     2 * length (q_items (ds_q s)) +
     (case ds_worker s of WLoop \<Rightarrow> 1 | WReady \<Rightarrow> 2 | WDeliver _ \<Rightarrow> 2 | WExited \<Rightarrow> 0)"

lemma worker_move_closed:
  fixes now :: int and ok :: bool
  assumes "q_closed (ds_q s)" and "ready_wake (ds_worker s) (ds_q s)"
  defines "t \<equiv> worker_move now ok s"
  shows "q_closed (ds_q t)" and "ready_wake (ds_worker t) (ds_q t)"
    and "moves_left t \<le> moves_left s - 1"
    and "ds_handed t @ map fst (q_items (ds_q t)) = ds_handed s @ map fst (q_items (ds_q s))"
proof -
  show "ready_wake (ds_worker t) (ds_q t)"
    using worker_move_step [of now ok s "\<lambda>_. 0"] assms(2) ready_wake_step
    unfolding t_def by metis
  show "q_closed (ds_q t)" "moves_left t \<le> moves_left s - 1"
    "ds_handed t @ map fst (q_items (ds_q t)) = ds_handed s @ map fst (q_items (ds_q s))"
    using assms(1,2) unfolding t_def
    by (auto simp: worker_move_def queue_ops moves_left_def ready_wake_def
        split: worker.splits list.splits if_splits)
qed

lemma worker_run_drains:
  "q_closed (ds_q s) \<Longrightarrow> ready_wake (ds_worker s) (ds_q s) \<Longrightarrow> moves_left s \<le> length ms \<Longrightarrow>
   ds_worker (worker_run ms s) = WExited \<and> q_drained (ds_q (worker_run ms s)) \<and>
   ds_handed (worker_run ms s) = ds_handed s @ map fst (q_items (ds_q s))"
proof (induction ms arbitrary: s)
  case Nil
  then have "ds_worker s = WExited" "q_items (ds_q s) = []"
    by (auto simp: moves_left_def split: worker.splits)
  with Nil.prems(2) show ?case by (simp add: ready_wake_def)
next
  case (Cons m ms)
  obtain now ok where m: "m = (now, ok)" by (cases m)
  note move = worker_move_closed [OF Cons.prems(1,2), of now ok]
  from move(3) Cons.prems(3) have "moves_left (worker_move now ok s) \<le> length ms" by simp
  from Cons.IH [OF move(1,2) this] move(4) show ?case by (simp add: m)
qed

section \<open>A run\<close>

text \<open>The states after a push and after the last push, for runs on concrete values.\<close>

definition after_push :: "('a \<Rightarrow> int) \<Rightarrow> 'a \<Rightarrow> int \<Rightarrow> 'a dsys \<Rightarrow> 'a dsys" where
  "after_push sz v now s =
     (let (r, q) = Push sz v now (ds_q s) in
      s\<lparr>ds_q := q, ds_accepted := ds_accepted s @ taken r v,
        ds_pushes := ds_pushes s + (if r = ErrTooLarge then 0 else 1)\<rparr>)"

definition after_push_last :: "('a \<Rightarrow> int) \<Rightarrow> 'a \<Rightarrow> 'a dsys \<Rightarrow> 'a dsys" where
  "after_push_last sz v s =
     s\<lparr>ds_q := PushLast sz v (ds_q s),
       ds_accepted := ds_accepted s @ (if q_closed (ds_q s) \<or> q_abandoned (ds_q s) then [] else [v]),
       ds_pushes := Suc (ds_pushes s)\<rparr>"

definition started :: "QLimits \<Rightarrow> 'a dsys" where
  "started l = \<lparr>ds_q = New l, ds_worker = WLoop, ds_accepted = [], ds_handed = [],
                ds_dropped = [], ds_pushes = 0\<rparr>"

lemma reachable_started: "reachable dq_init (dq_step sz) (started l)"
  by (rule reach_init) (auto simp: dq_init_def started_def)

lemma reachable_push:
  "reachable dq_init (dq_step sz) s \<Longrightarrow> reachable dq_init (dq_step sz) (after_push sz v now s)"
  unfolding after_push_def Let_def split_beta by (erule reach_step) (rule push, simp)

lemma reachable_push_last:
  "reachable dq_init (dq_step sz) s \<Longrightarrow> reachable dq_init (dq_step sz) (after_push_last sz v s)"
  unfolding after_push_last_def by (erule reach_step) (rule push_last)

text \<open>A queue of one event: the first value is taken, the second waits.\<close>

definition full_queue :: "nat dsys" where
  "full_queue =
     after_push (payload id) 7 2 (after_push (payload id) 5 1 (started \<lparr>lim_events = 1, lim_bytes = 10\<rparr>))"

lemma full_queue_reachable: "reachable dq_init (dq_step (payload id)) full_queue"
  unfolding full_queue_def by (intro reachable_push reachable_started)

lemmas run_defs = full_queue_def after_push_def after_push_last_def started_def New_def Resolved_def
  payload_def has_room_def queue_ops

section \<open>Properties\<close>

text \<open>
  C1: in every reachable state of the queue, whatever the interleaving of producers, worker
  and closers, what was handed to the callback is what was taken into the queue, in the
  order it was taken, and what is missing at the end is what is still queued or what
  \<open>Abandon\<close> dropped; without \<open>Abandon\<close> nothing is dropped.
\<close>

theorem delivery_in_push_order:
  assumes "reachable dq_init (dq_step (payload len)) s"
  shows "ds_accepted s = ds_handed s @ map fst (q_items (ds_q s)) @ ds_dropped s \<and>
    (ds_dropped s = [] \<or> q_abandoned (ds_q s))"
  using dq.inv_reachable [OF assms] by (auto simp: dq_inv_def dq_order_def)

theorem delivery_in_push_order_witness:
  "ds_accepted full_queue = [5] \<and> ds_handed full_queue @ map fst (q_items (ds_q full_queue)) = [5]"
  using delivery_in_push_order [OF full_queue_reachable] by (simp add: run_defs)


text \<open>
  C36: a reachable queue that is open holds no more events and no more payload bytes than its
  limits, and its byte count is the sum of the sizes of what it holds; closed, it may exceed
  them by the one last value of \<open>PushLast\<close>.
\<close>

theorem delivery_bounds:
  assumes "reachable dq_init (dq_step (payload len)) s"
  shows "q_bytes (ds_q s) = sizes (q_items (ds_q s)) \<and>
    (if q_closed (ds_q s)
     then int (length (q_items (ds_q s))) \<le> lim_events (q_limits (ds_q s)) + 1 \<and>
       sizes (butlast (q_items (ds_q s))) \<le> lim_bytes (q_limits (ds_q s))
     else int (length (q_items (ds_q s))) \<le> lim_events (q_limits (ds_q s)) \<and>
       q_bytes (ds_q s) \<le> lim_bytes (q_limits (ds_q s)))"
  using dq.inv_reachable [OF assms]
  by (auto simp: dq_inv_def dq_bounds_def queue_bounds_def Let_def split: if_splits)

theorem delivery_bounds_witness:
  "\<not> q_closed (ds_q full_queue) \<and> q_bytes (ds_q full_queue) = 5 \<and>
   q_bytes (ds_q full_queue) \<le> lim_bytes (q_limits (ds_q full_queue))"
  using delivery_bounds [OF full_queue_reachable] by (simp add: run_defs)


text \<open>
  no push is lost from the statistics: every push that was not refused as too large is
  delivered, counted undelivered, queued, in the callback, or waiting for room.
\<close>

lemma delivery_accounting:
  assumes "reachable dq_init (dq_step (payload len)) s"
  shows "ds_pushes s = st_delivered (Stats (ds_q s)) + st_undelivered (Stats (ds_q s)) +
    st_queued (Stats (ds_q s)) + in_callback (ds_worker s) + length (q_waiters (ds_q s))"
  using dq.inv_reachable [OF assms] by (simp add: dq_inv_def dq_account_def Stats_def)

text \<open>
  no wake-up is lost. A producer waiting for room whose room channel has not been closed
  finds an open queue with no room for it, and then the worker is not stuck: it has something
  to deliver and is not waiting on a \<open>ready\<close> without a token.
\<close>

lemma delivery_no_lost_wakeup:
  assumes "reachable dq_init (dq_step (payload len)) s" and "w \<in> set (q_waiters (ds_q s))"
    and "w_room w = q_room (ds_q s)"
  shows "\<not> q_closed (ds_q s) \<and> \<not> has_room (ds_q s) (w_size w) \<and> q_items (ds_q s) \<noteq> [] \<and>
    worker_move now ok s \<noteq> s"
proof -
  have "room_wake (ds_q s)" "ready_wake (ds_worker s) (ds_q s)"
    using dq.inv_reachable [OF assms(1)] by (auto simp: dq_inv_def dq_wake_def)
  with assms(2,3) have *: "\<not> q_closed (ds_q s)" "\<not> has_room (ds_q s) (w_size w)"
    "q_items (ds_q s) \<noteq> []" "ds_worker s \<noteq> WExited" "ds_worker s = WReady \<Longrightarrow> q_ready (ds_q s)"
    by (auto simp: room_wake_def ready_wake_def has_room_def)
  have "ds_worker (worker_move now ok s) \<noteq> ds_worker s"
    using * by (auto simp: worker_move_def queue_ops split: worker.splits list.splits)
  with * show ?thesis by metis
qed

text \<open>
  C37: a closed queue drains: whatever its callbacks do, the worker exits and \<open>Drained\<close> closes
  within two moves per queued value and two more, every queued value having been handed to the
  callback in order.
\<close>

theorem delivery_drains:
  assumes "reachable dq_init (dq_step (payload len)) s" and "q_closed (ds_q s)"
    and "2 * length (q_items (ds_q s)) + 2 \<le> length ms"
  shows "ds_worker (worker_run ms s) = WExited \<and> q_drained (ds_q (worker_run ms s)) \<and>
    ds_handed (worker_run ms s) = ds_handed s @ map fst (q_items (ds_q s))"
proof (rule worker_run_drains [OF assms(2)])
  show "ready_wake (ds_worker s) (ds_q s)"
    using dq.inv_reachable [OF assms(1)] by (simp add: dq_inv_def dq_wake_def)
  show "moves_left s \<le> length ms"
    using assms(3) by (simp add: moves_left_def split: worker.splits)
qed

theorem delivery_drains_witness:
  "ds_handed (worker_run (replicate 6 (3, False)) (after_push_last (payload id) 99 full_queue)) = [5, 99]"
proof -
  let ?s = "after_push_last (payload id) 99 full_queue"
  have "reachable dq_init (dq_step (payload id)) ?s"
    by (intro reachable_push_last full_queue_reachable)
  moreover have "q_closed (ds_q ?s)" "2 * length (q_items (ds_q ?s)) + 2 \<le> length (replicate 6 (3 :: int, False))"
    and "ds_handed ?s @ map fst (q_items (ds_q ?s)) = [5, 99]"
    by (simp_all add: run_defs)
  ultimately show ?thesis using delivery_drains by metis
qed

end
