(* ===== verification/Go_Lib.thy ===== *)
theory Go_Lib
  imports Prelude
begin

text \<open>
  The part of the Go language and its standard library the modelled code uses: byte
  strings, \<^verbatim>\<open>strings\<close>, \<^verbatim>\<open>strconv\<close>, \<^verbatim>\<open>unicode/utf8\<close>, \<^verbatim>\<open>path\<close> and \<^verbatim>\<open>path/filepath\<close> on Unix.
  A Go string is a byte sequence and so is an Isabelle \<open>string\<close>; \<open>len\<close> is \<open>length\<close>, and
  \<^verbatim>\<open>strings.HasPrefix\<close>, \<^verbatim>\<open>HasSuffix\<close> and \<^verbatim>\<open>Contains\<close> are the library's \<open>prefix\<close>, \<open>suffix\<close> and
  \<open>sublist\<close>.
\<close>

section \<open>Bytes\<close>

abbreviation ord :: "char \<Rightarrow> nat" where
  "ord c \<equiv> of_char c"

definition is_lower :: "char \<Rightarrow> bool" where
  "is_lower c \<longleftrightarrow> 97 \<le> ord c \<and> ord c \<le> 122"

definition is_upper :: "char \<Rightarrow> bool" where
  "is_upper c \<longleftrightarrow> 65 \<le> ord c \<and> ord c \<le> 90"

definition is_digit :: "char \<Rightarrow> bool" where
  "is_digit c \<longleftrightarrow> 48 \<le> ord c \<and> ord c \<le> 57"

text \<open>ASCII lower-casing, the part of \<^verbatim>\<open>strings.ToLower\<close> that acts on ASCII text.\<close>

definition lower_char :: "char \<Rightarrow> char" where
  "lower_char c = (if is_upper c then char_of (ord c + 32) else c)"

definition to_lower :: "string \<Rightarrow> string" where
  "to_lower s = map lower_char s"

text \<open>
  \<^verbatim>\<open>strings.EqualFold\<close> where one side is ASCII: besides the ASCII letters, the Kelvin sign
  (bytes E2 84 AA) folds to \<open>k\<close> and the long s (bytes C5 BF) to \<open>s\<close>; no other code point
  folds to an ASCII one.
\<close>

fun fold_key :: "string \<Rightarrow> string" where
  "fold_key [] = []"
| "fold_key (a # b # c # s) =
     (if ord a = 226 \<and> ord b = 132 \<and> ord c = 170 then CHR ''k'' # fold_key s
      else if ord a = 197 \<and> ord b = 191 then CHR ''s'' # fold_key (c # s)
      else lower_char a # fold_key (b # c # s))"
| "fold_key [a, b] =
     (if ord a = 197 \<and> ord b = 191 then ''s'' else lower_char a # fold_key [b])"
| "fold_key [a] = [lower_char a]"

definition equal_fold :: "string \<Rightarrow> string \<Rightarrow> bool" where
  "equal_fold s t \<longleftrightarrow> fold_key s = fold_key t"

section \<open>Splitting\<close>

text \<open>\<^verbatim>\<open>strings.Split\<close> on one byte, \<^verbatim>\<open>strings.Join\<close>, and \<^verbatim>\<open>strings.Cut\<close> on one byte.\<close>

fun split_on :: "'a \<Rightarrow> 'a list \<Rightarrow> 'a list list" where
  "split_on c [] = [[]]"
| "split_on c (x # xs) =
     (if x = c then [] # split_on c xs
      else (x # hd (split_on c xs)) # tl (split_on c xs))"

fun join_on :: "'a \<Rightarrow> 'a list list \<Rightarrow> 'a list" where
  "join_on c [] = []"
| "join_on c [x] = x"
| "join_on c (x # y # ys) = x @ c # join_on c (y # ys)"

definition cut_on :: "'a \<Rightarrow> 'a list \<Rightarrow> ('a list \<times> 'a list) option" where
  "cut_on c s =
     (if c \<in> set s then Some (takeWhile (\<lambda>x. x \<noteq> c) s, tl (dropWhile (\<lambda>x. x \<noteq> c) s)) else None)"

text \<open>\<^verbatim>\<open>strings.CutPrefix\<close>.\<close>

definition cut_prefix :: "'a list \<Rightarrow> 'a list \<Rightarrow> 'a list option" where
  "cut_prefix p s = (if prefix p s then Some (drop (length p) s) else None)"

lemma split_on_ne [simp]: "split_on c s \<noteq> []"
  by (cases s) auto

text \<open>For evaluation: the rest is split once.\<close>

lemma split_on_code [code]:
  "split_on c [] = [[]]"
  "split_on c (x # xs) =
     (case split_on c xs of [] \<Rightarrow> [[x]] | r # rs \<Rightarrow> if x = c then [] # r # rs else (x # r) # rs)"
  by (auto split: list.split)

lemma join_on_Cons:
  "join_on c (x # xs) = (if xs = [] then x else x @ c # join_on c xs)"
  by (cases xs) auto

lemma join_split [simp]: "join_on c (split_on c s) = s"
proof (induction s)
  case Nil
  show ?case by simp
next
  case (Cons x s)
  obtain y ys where e: "split_on c s = y # ys"
    by (cases "split_on c s") auto
  with Cons show ?case by (auto simp: join_on_Cons)
qed

lemma split_on_no_sep: "x \<in> set (split_on c s) \<Longrightarrow> c \<notin> set x"
proof (induction s arbitrary: x)
  case Nil
  then show ?case by simp
next
  case (Cons y s)
  obtain z zs where e: "split_on c s = z # zs"
    by (cases "split_on c s") auto
  from Cons.prems e consider "x = []" | "y \<noteq> c" "x = y # z" | "x \<in> set (split_on c s)"
    by (auto split: if_splits)
  then show ?case
    using Cons.IH [of z] Cons.IH [of x] e by cases auto
qed

lemma split_on_append:
  assumes "c \<notin> set x"
  shows "split_on c (x @ c # s) = x # split_on c s"
  using assms by (induction x) auto

lemma split_on_single: "c \<notin> set x \<Longrightarrow> split_on c x = [x]"
  by (induction x) auto

lemma split_join:
  assumes "xs \<noteq> []" and "\<forall>x \<in> set xs. c \<notin> set x"
  shows "split_on c (join_on c xs) = xs"
  using assms
proof (induction c xs rule: join_on.induct)
  case (1 c)
  then show ?case by simp
next
  case (2 c x)
  then show ?case by (simp add: split_on_single)
next
  case (3 c x y ys)
  then show ?case by (simp add: split_on_append)
qed

lemma split_on_eq_iff [simp]: "split_on c s = split_on c t \<longleftrightarrow> s = t"
  by (metis join_split)

lemma split_on_append_gen:
  "split_on c (s @ c # t) = split_on c s @ split_on c t"
proof (induction s)
  case Nil
  show ?case by simp
next
  case (Cons x s)
  then show ?case by (cases "split_on c s") auto
qed

lemma cut_on_Some:
  "cut_on c s = Some (a, b) \<longleftrightarrow> s = a @ c # b \<and> c \<notin> set a"
proof
  assume h: "cut_on c s = Some (a, b)"
  then have c: "c \<in> set s" and a: "a = takeWhile (\<lambda>x. x \<noteq> c) s"
    and b: "b = tl (dropWhile (\<lambda>x. x \<noteq> c) s)"
    by (auto simp: cut_on_def split: if_splits)
  from c have ne: "dropWhile (\<lambda>x. x \<noteq> c) s \<noteq> []" by simp
  then have "hd (dropWhile (\<lambda>x. x \<noteq> c) s) = c"
    using hd_dropWhile [OF ne] by simp
  with ne b have "dropWhile (\<lambda>x. x \<noteq> c) s = c # b"
    by (metis list.collapse)
  with a show "s = a @ c # b \<and> c \<notin> set a"
    by (metis (mono_tags, lifting) set_takeWhileD takeWhile_dropWhile_id)
next
  assume "s = a @ c # b \<and> c \<notin> set a"
  then show "cut_on c s = Some (a, b)"
    by (simp add: cut_on_def takeWhile_append dropWhile_append)
qed

lemma cut_prefix_Some: "cut_prefix p s = Some r \<longleftrightarrow> s = p @ r"
  by (auto simp: cut_prefix_def prefix_def)

section \<open>Numbers as text\<close>

text \<open>\<^verbatim>\<open>strconv.Itoa\<close>, and \<^verbatim>\<open>strconv.Atoi\<close> with its 64-bit range and optional sign.\<close>

fun nat_text :: "nat \<Rightarrow> string" where
  "nat_text n = (if n < 10 then [char_of (48 + n)] else nat_text (n div 10) @ [char_of (48 + n mod 10)])"

declare nat_text.simps [simp del]

definition itoa :: "int \<Rightarrow> string" where
  "itoa i = (if i < 0 then CHR ''-'' # nat_text (nat (- i)) else nat_text (nat i))"

definition digits_value :: "string \<Rightarrow> nat" where
  "digits_value s = foldl (\<lambda>n c. 10 * n + (ord c - 48)) 0 s"

definition parse_digits :: "string \<Rightarrow> nat option" where
  "parse_digits s = (if s \<noteq> [] \<and> list_all is_digit s then Some (digits_value s) else None)"

definition atoi :: "string \<Rightarrow> int option" where
  "atoi s =
     (let neg = (s \<noteq> [] \<and> hd s = CHR ''-'');
          body = (if s \<noteq> [] \<and> (hd s = CHR ''-'' \<or> hd s = CHR ''+'') then tl s else s)
      in case parse_digits body of
           None \<Rightarrow> None
         | Some n \<Rightarrow> (let i = (if neg then - int n else int n)
                      in if - (2 ^ 63) \<le> i \<and> i < 2 ^ 63 then Some i else None))"

lemma ord_char_of_digit: "n < 10 \<Longrightarrow> ord (char_of (48 + n :: nat)) = 48 + n"
  by simp

lemma nat_text_ne [simp]: "nat_text n \<noteq> []"
  by (subst nat_text.simps) simp

lemma is_digit_char_of: "n < 10 \<Longrightarrow> is_digit (char_of (48 + n :: nat))"
  by (simp add: is_digit_def)

lemma nat_text_digits: "list_all is_digit (nat_text n)"
proof (induction n rule: nat_text.induct)
  case (1 n)
  show ?case
    using 1 by (subst nat_text.simps) (simp add: is_digit_char_of)
qed

lemma digits_value_snoc: "digits_value (s @ [c]) = 10 * digits_value s + (ord c - 48)"
  by (simp add: digits_value_def)

lemma digits_value_nat_text [simp]: "digits_value (nat_text n) = n"
proof (induction n rule: nat_text.induct)
  case (1 n)
  show ?case
  proof (cases "n < 10")
    case True
    then show ?thesis by (subst nat_text.simps) (simp add: digits_value_def)
  next
    case False
    with 1 show ?thesis
      by (subst nat_text.simps) (simp add: digits_value_snoc)
  qed
qed

lemma parse_nat_text [simp]: "parse_digits (nat_text n) = Some n"
  using nat_text_digits [of n] by (simp add: parse_digits_def)

lemma nat_text_no_sign:
  "hd (nat_text n) \<noteq> CHR ''-''" "hd (nat_text n) \<noteq> CHR ''+''"
proof -
  have "is_digit (hd (nat_text n))"
    using nat_text_digits [of n] by (cases "nat_text n") auto
  then show "hd (nat_text n) \<noteq> CHR ''-''" "hd (nat_text n) \<noteq> CHR ''+''"
    by (auto simp: is_digit_def)
qed

lemma atoi_itoa:
  assumes "- (2 ^ 63) \<le> i" and "i < 2 ^ 63"
  shows "atoi (itoa i) = Some i"
  using assms by (auto simp: atoi_def itoa_def nat_text_no_sign Let_def)

lemma atoi_range: "atoi s = Some i \<Longrightarrow> - (2 ^ 63) \<le> i \<and> i < 2 ^ 63"
  by (auto simp: atoi_def Let_def split: option.splits if_splits)

lemma nat_text_inj [simp]: "nat_text m = nat_text n \<longleftrightarrow> m = n"
  by (metis digits_value_nat_text)

lemma dot_notin_nat_text [simp]: "CHR ''.'' \<notin> set (nat_text n)"
  using nat_text_digits [of n] by (auto simp: list_all_iff is_digit_def)

section \<open>64-bit arithmetic\<close>

text \<open>The value an int64 has once a result has wrapped.\<close>

definition wrap64 :: "int \<Rightarrow> int" where
  "wrap64 i = (i + 2 ^ 63) mod 2 ^ 64 - 2 ^ 63"

lemma wrap64_id: "- (2 ^ 63) \<le> i \<Longrightarrow> i < 2 ^ 63 \<Longrightarrow> wrap64 i = i"
  by (simp add: wrap64_def)

lemma wrap64_range: "- (2 ^ 63) \<le> wrap64 i \<and> wrap64 i < 2 ^ 63"
  by (simp add: wrap64_def pos_mod_bound algebra_simps)

section \<open>UTF-8\<close>

text \<open>
  \<^verbatim>\<open>utf8.ValidString\<close>, on byte values: the ranges of RFC 3629, as the package's
  \<^verbatim>\<open>acceptRanges\<close> table has them. \<^verbatim>\<open>utf8.RuneStart\<close> is false on continuation bytes only.
\<close>

definition cont :: "nat \<Rightarrow> bool" where
  "cont b \<longleftrightarrow> 128 \<le> b \<and> b \<le> 191"

definition lead2 :: "nat \<Rightarrow> bool" where
  "lead2 a \<longleftrightarrow> 194 \<le> a \<and> a \<le> 223"

definition lead3 :: "nat \<Rightarrow> nat \<Rightarrow> bool" where
  "lead3 a b \<longleftrightarrow> 224 \<le> a \<and> a \<le> 239 \<and> cont b \<and> (a = 224 \<longrightarrow> 160 \<le> b) \<and> (a = 237 \<longrightarrow> b \<le> 159)"

definition lead4 :: "nat \<Rightarrow> nat \<Rightarrow> bool" where
  "lead4 a b \<longleftrightarrow> 240 \<le> a \<and> a \<le> 244 \<and> cont b \<and> (a = 240 \<longrightarrow> 144 \<le> b) \<and> (a = 244 \<longrightarrow> b \<le> 143)"

function utf8_valid :: "nat list \<Rightarrow> bool" where
  "utf8_valid [] = True"
| "utf8_valid (a # s) =
     (if a < 128 then utf8_valid s
      else (case s of
          [] \<Rightarrow> False
        | b # s1 \<Rightarrow>
            if lead2 a \<and> cont b then utf8_valid s1
            else (case s1 of
                [] \<Rightarrow> False
              | c # s2 \<Rightarrow>
                  if lead3 a b \<and> cont c then utf8_valid s2
                  else (case s2 of
                      [] \<Rightarrow> False
                    | d # s3 \<Rightarrow> lead4 a b \<and> cont c \<and> cont d \<and> utf8_valid s3))))"
  by pat_completeness auto
termination
  by (relation "measure length") auto

definition valid_string :: "string \<Rightarrow> bool" where
  "valid_string s = utf8_valid (map of_char s)"

definition rune_start :: "char \<Rightarrow> bool" where
  "rune_start c \<longleftrightarrow> \<not> cont (ord c)"

lemma utf8_valid_ascii: "\<forall>b \<in> set s. b < 128 \<Longrightarrow> utf8_valid s"
  by (induction s) auto

text \<open>A valid text that is not empty starts with a rune: one start byte and at most three others.\<close>

definition one_rune :: "nat list \<Rightarrow> bool" where
  "one_rune r \<longleftrightarrow> r \<noteq> [] \<and> length r \<le> 4 \<and> \<not> cont (hd r) \<and> list_all cont (tl r) \<and>
     (\<forall>t. utf8_valid (r @ t) = utf8_valid t)"

lemma one_rune_intros:
  "a < 128 \<Longrightarrow> one_rune [a]"
  "lead2 a \<Longrightarrow> cont b \<Longrightarrow> one_rune [a, b]"
  "lead3 a b \<Longrightarrow> cont c \<Longrightarrow> one_rune [a, b, c]"
  "lead4 a b \<Longrightarrow> cont c \<Longrightarrow> cont d \<Longrightarrow> one_rune [a, b, c, d]"
  by (auto simp: one_rune_def lead2_def lead3_def lead4_def cont_def)

lemma utf8_valid_rune:
  assumes "utf8_valid s" and "s \<noteq> []"
  obtains r t where "s = r @ t" and "one_rune r" and "utf8_valid t"
proof -
  obtain a s1 where s: "s = a # s1" using assms(2) by (cases s) auto
  consider "a < 128" "utf8_valid s1"
    | b s2 where "s1 = b # s2" "lead2 a" "cont b" "utf8_valid s2"
    | b c s3 where "s1 = b # c # s3" "lead3 a b" "cont c" "utf8_valid s3"
    | b c d s4 where "s1 = b # c # d # s4" "lead4 a b" "cont c" "cont d" "utf8_valid s4"
    using assms(1) unfolding s utf8_valid.simps(2) [of a s1]
    by (auto simp del: utf8_valid.simps split: if_splits list.splits)
  then show ?thesis
  proof cases
    case 1
    then show ?thesis using that [of "[a]" s1] one_rune_intros(1) s by simp
  next
    case 2
    then show ?thesis using that [of "[a, b]" s2] one_rune_intros(2) s by simp
  next
    case 3
    then show ?thesis using that [of "[a, b, c]" s3] one_rune_intros(3) s by simp
  next
    case 4
    then show ?thesis using that [of "[a, b, c, d]" s4] one_rune_intros(4) s by simp
  qed
qed

lemma one_rune_nth:
  assumes "one_rune r" and "n < length r"
  shows "cont (r ! n) = (n \<noteq> 0)"
proof -
  obtain a s where "r = a # s" "\<not> cont a" "list_all cont s" using assms(1) by (cases r) (auto simp: one_rune_def)
  with assms(2) show ?thesis by (cases n) (auto simp: list_all_length)
qed

lemma utf8_valid_take: "utf8_valid s \<Longrightarrow> n < length s \<Longrightarrow> n = 0 \<or> \<not> cont (s ! n) \<Longrightarrow> utf8_valid (take n s)"
proof (induction s arbitrary: n rule: length_induct)
  case (1 s)
  obtain r t where s: "s = r @ t" "one_rune r" "utf8_valid t" using utf8_valid_rune 1(2,3) by (metis list.size(3) not_less0)
  show ?case
  proof (cases "n < length r")
    case True
    then have "n = 0" using one_rune_nth [OF s(2) True] 1(4) by (simp add: s(1) nth_append)
    then show ?thesis by simp
  next
    case False
    have "utf8_valid (take (n - length r) t)"
      using 1(1,3,4) s False by (intro 1(1) [rule_format]) (auto simp: nth_append one_rune_def)
    then show ?thesis using False s(1,2) by (simp add: one_rune_def)
  qed
qed

lemma utf8_valid_near:
  "utf8_valid s \<Longrightarrow> n < length s \<Longrightarrow> \<exists>k \<le> 3. k \<le> n \<and> \<not> cont (s ! (n - k))"
proof (induction s arbitrary: n rule: length_induct)
  case (1 s)
  obtain r t where s: "s = r @ t" "one_rune r" "utf8_valid t" using utf8_valid_rune 1(2,3) by (metis list.size(3) not_less0)
  have r: "0 < length r" "length r \<le> 4" using s(2) by (auto simp: one_rune_def)
  show ?case
  proof (cases "n < length r")
    case True
    then show ?thesis using one_rune_nth [OF s(2), of 0] r s(1)
      by (intro exI [of _ n]) (auto simp: nth_append)
  next
    case False
    then obtain k where "k \<le> 3" "k \<le> n - length r" "\<not> cont (t ! (n - length r - k))"
      using 1(1) [rule_format, of t "n - length r"] 1(3) s r
      by (metis add_diff_inverse_nat length_append less_add_same_cancel2 nat_add_left_cancel_less)
    then show ?thesis using False s(1) by (intro exI [of _ k]) (auto simp: nth_append add.commute)
  qed
qed

section \<open>Paths\<close>

text \<open>
  \<^verbatim>\<open>path.Clean\<close>, which \<^verbatim>\<open>filepath.Clean\<close> is on Unix, by components: empty and \<open>.\<close> components
  go, a \<open>..\<close> takes the component before it away unless that is itself \<open>..\<close>, and at a root
  there is nothing to take. The accumulator holds the kept components, last first.
\<close>

abbreviation slash :: char where
  "slash \<equiv> CHR ''/''"

fun clean_comps :: "bool \<Rightarrow> string list \<Rightarrow> string list \<Rightarrow> string list" where
  "clean_comps rooted acc [] = rev acc"
| "clean_comps rooted acc (c # cs) =
     (if c = [] \<or> c = ''.'' then clean_comps rooted acc cs
      else if c = ''..'' then
        (if acc \<noteq> [] \<and> hd acc \<noteq> ''..'' then clean_comps rooted (tl acc) cs
         else if rooted then clean_comps rooted acc cs
         else clean_comps rooted (c # acc) cs)
      else clean_comps rooted (c # acc) cs)"

definition is_abs :: "string \<Rightarrow> bool" where
  "is_abs p \<longleftrightarrow> p \<noteq> [] \<and> hd p = slash"

definition path_clean :: "string \<Rightarrow> string" where
  "path_clean p =
     (if p = [] then ''.''
      else if is_abs p then slash # join_on slash (clean_comps True [] (split_on slash p))
      else (let q = join_on slash (clean_comps False [] (split_on slash p))
            in if q = [] then ''.'' else q))"

text \<open>\<^verbatim>\<open>filepath.Join\<close> of two parts: empty parts are left out, the rest joined and cleaned.\<close>

definition path_join :: "string \<Rightarrow> string \<Rightarrow> string" where
  "path_join a b =
     (if a = [] \<and> b = [] then []
      else if a = [] then path_clean b
      else if b = [] then path_clean a
      else path_clean (a @ slash # b))"

text \<open>\<^verbatim>\<open>fs.ValidPath\<close>: \<open>.\<close>, or valid UTF-8 whose components are all proper.\<close>

definition proper_comp :: "string \<Rightarrow> bool" where
  "proper_comp c \<longleftrightarrow> c \<noteq> [] \<and> c \<noteq> ''.'' \<and> c \<noteq> ''..''"

definition fs_valid_path :: "string \<Rightarrow> bool" where
  "fs_valid_path p \<longleftrightarrow> valid_string p \<and> (p = ''.'' \<or> list_all proper_comp (split_on slash p))"

lemma clean_comps_proper:
  "list_all proper_comp cs \<Longrightarrow> clean_comps r acc cs = rev acc @ cs"
  by (induction cs arbitrary: acc) (auto simp: proper_comp_def)

lemma clean_comps_rooted_proper:
  "list_all proper_comp acc \<Longrightarrow> list_all proper_comp (clean_comps True acc cs)"
proof (induction cs arbitrary: acc)
  case Nil
  then show ?case by (simp add: list_all_iff)
next
  case (Cons c cs)
  have "list_all proper_comp (tl acc)"
    using Cons.prems by (cases acc) auto
  with Cons show ?case by (simp add: proper_comp_def [of c])
qed

lemma clean_comps_subset: "set (clean_comps r acc cs) \<subseteq> set acc \<union> set cs"
proof (induction cs arbitrary: acc)
  case Nil
  show ?case by simp
next
  case (Cons c cs)
  have "set (clean_comps r (tl acc) cs) \<subseteq> set acc \<union> set (c # cs)"
    using Cons.IH [of "tl acc"] by (cases acc) auto
  moreover have "set (clean_comps r acc cs) \<subseteq> set acc \<union> set (c # cs)"
    using Cons.IH [of acc] by auto
  moreover have "set (clean_comps r (c # acc) cs) \<subseteq> set acc \<union> set (c # cs)"
    using Cons.IH [of "c # acc"] by auto
  ultimately show ?case by (simp only: clean_comps.simps split: if_split) blast
qed

text \<open>A clean absolute path is the root, or the root and proper components.\<close>

lemma clean_abs_iff:
  assumes "is_abs p"
  shows "path_clean p = p \<longleftrightarrow> p = [slash] \<or> list_all proper_comp (split_on slash (tl p))"
proof -
  obtain q where p: "p = slash # q"
    using assms by (cases p) (auto simp: is_abs_def)
  let ?cs = "clean_comps True [] (split_on slash q)"
  have clean: "path_clean p = slash # join_on slash ?cs"
    by (simp add: path_clean_def p is_abs_def)
  have proper: "list_all proper_comp ?cs"
    by (rule clean_comps_rooted_proper) simp
  have noslash: "\<forall>c \<in> set ?cs. slash \<notin> set c"
    using clean_comps_subset [of True "[]" "split_on slash q"] split_on_no_sep by fastforce
  show ?thesis
  proof
    assume "path_clean p = p"
    with clean p have j: "join_on slash ?cs = q" by simp
    show "p = [slash] \<or> list_all proper_comp (split_on slash (tl p))"
    proof (cases "?cs = []")
      case True
      with j p show ?thesis by simp
    next
      case False
      then have "split_on slash q = ?cs"
        using split_join [OF False noslash] j by simp
      with proper p show ?thesis by simp
    qed
  next
    assume "p = [slash] \<or> list_all proper_comp (split_on slash (tl p))"
    then show "path_clean p = p"
      using clean p by (auto simp: clean_comps_proper)
  qed
qed

lemma path_clean_proper_rel:
  assumes "p \<noteq> []" "\<not> is_abs p" "list_all proper_comp (split_on slash p)"
  shows "path_clean p = p"
  using assms by (simp add: path_clean_def clean_comps_proper)

text \<open>Joining a clean directory and a proper relative path is plain concatenation.\<close>

lemma split_abs: "is_abs p \<Longrightarrow> split_on slash p = [] # split_on slash (tl p)"
  by (cases p) (auto simp: is_abs_def)

lemma path_join_proper:
  assumes "is_abs d" "path_clean d = d" "d \<noteq> [slash]"
    and "list_all proper_comp (split_on slash r)" "r \<noteq> []"
  shows "path_join d r = d @ slash # r"
proof -
  have d: "list_all proper_comp (split_on slash (tl d))"
    using clean_abs_iff [OF assms(1)] assms(2,3) by simp
  have dne: "d \<noteq> []" using assms(1) by (auto simp: is_abs_def)
  have abs: "is_abs (d @ slash # r)" using assms(1) by (auto simp: is_abs_def)
  have "tl (d @ slash # r) = tl d @ slash # r" using dne by (cases d) auto
  then have "split_on slash (tl (d @ slash # r)) = split_on slash (tl d) @ split_on slash r"
    by (simp add: split_on_append_gen)
  with d assms(4) have "list_all proper_comp (split_on slash (tl (d @ slash # r)))" by simp
  then have "path_clean (d @ slash # r) = d @ slash # r"
    using clean_abs_iff [OF abs] by blast
  then show ?thesis using dne assms(5) by (simp add: path_join_def)
qed

end
