(* ===== verification/Contract_Core.thy ===== *)
theory Contract_Core
  imports Go_Lib
begin

text \<open>
  \<^verbatim>\<open>pkg/contract\<close>: the vocabulary of the Harness Adapter Interface (\<^verbatim>\<open>errors.go\<close>, \<^verbatim>\<open>bounds.go\<close>),
  its version (\<^verbatim>\<open>contract.go\<close>), ids (\<^verbatim>\<open>session.go\<close>), and the Descriptor with its capabilities
  (\<^verbatim>\<open>descriptor.go\<close>). An enumeration of the source is a datatype; where the code handles a
  value outside the set, the datatype has a constructor for it. An error keeps everything a
  caller acts on (its code, reason, certainty, field and required bytes); its message is for
  people and is left out.
\<close>

section \<open>Errors\<close>

datatype Code =
    CodeProtocol | CodeBatchTooLarge | CodeUnknownField | CodeUnexpected | CodeUnsupported
  | CodeInvalidSpec | CodeInvalidInput | CodeBusy | CodePromptPending | CodeBlocked
  | CodePromptGone | CodeInvalidChoice | CodeInterruptUnconfirmed | CodeOpenFailed
  | CodeExited | CodeClosed | CodeInternal

definition Code_Values :: "Code list" where
  "Code_Values =
     [CodeProtocol, CodeBatchTooLarge, CodeUnknownField, CodeUnexpected, CodeUnsupported,
      CodeInvalidSpec, CodeInvalidInput, CodeBusy, CodePromptPending, CodeBlocked,
      CodePromptGone, CodeInvalidChoice, CodeInterruptUnconfirmed, CodeOpenFailed,
      CodeExited, CodeClosed, CodeInternal]"

datatype Certainty = NotSubmitted | MaybeSubmitted

datatype OpenFailure =
    OpenAdapterMissing | OpenBinaryNotFound | OpenVersionUnsupported | OpenCapabilityMissing
  | OpenAuthRequired | OpenSessionNotFound | OpenSessionInUse | OpenConfigInvalid
  | OpenStateMismatch

record Error =
  e_code :: Code
  e_reason :: "OpenFailure option"
  e_certainty :: "Certainty option"
  e_field :: string
  e_required_bytes :: int

text \<open>\<open>&Error{Code: c}\<close> and the two literal forms the checkers use.\<close>

definition err :: "Code \<Rightarrow> Error" where
  "err c = \<lparr>e_code = c, e_reason = None, e_certainty = None, e_field = [], e_required_bytes = 0\<rparr>"

abbreviation err_field :: "Code \<Rightarrow> string \<Rightarrow> Error" where
  "err_field c f \<equiv> (err c)\<lparr>e_field := f\<rparr>"

abbreviation err_open :: "OpenFailure \<Rightarrow> Error" where
  "err_open r \<equiv> (err CodeOpenFailed)\<lparr>e_reason := Some r\<rparr>"

definition Errorf :: "Code \<Rightarrow> Error" where
  "Errorf c = err c"

definition OpenAbandoned :: Error where
  "OpenAbandoned = err CodeOpenFailed"

text \<open>
  \<open>Error.Is\<close>: a target matches by its code, and by its reason when it names one.
\<close>

definition Error_Is :: "Error \<Rightarrow> Error \<Rightarrow> bool" where
  "Error_Is e t \<longleftrightarrow> e_code t = e_code e \<and> (e_reason t = None \<or> e_reason t = e_reason e)"

text \<open>A Go error: one that wraps an \<open>*Error\<close>, or any other.\<close>

datatype goerror = Wraps Error | Plain

definition CodeOf :: "goerror \<Rightarrow> Code" where
  "CodeOf ge = (case ge of Wraps e \<Rightarrow> e_code e | Plain \<Rightarrow> CodeInternal)"

definition CertaintyOf :: "goerror \<Rightarrow> Certainty" where
  "CertaintyOf ge =
     (case ge of
        Wraps e \<Rightarrow> if e_certainty e = Some NotSubmitted then NotSubmitted else MaybeSubmitted
      | Plain \<Rightarrow> MaybeSubmitted)"

lemma err_sel [simp]:
  "e_code (err c) = c" "e_reason (err c) = None" "e_certainty (err c) = None"
  "e_field (err c) = []" "e_required_bytes (err c) = 0"
  by (simp_all add: err_def)

lemma Code_Values_all: "c \<in> set Code_Values" "distinct Code_Values"
  by (cases c) (simp_all add: Code_Values_def)

section \<open>Bounds\<close>

definition MaxInputBytes :: int where "MaxInputBytes = 2 ^ 20"
definition MinObserveBytes :: int where "MinObserveBytes = 64 * 2 ^ 10"
definition MaxObserveBytes :: int where "MaxObserveBytes = 16 * 2 ^ 20"
definition MaxObservationText :: nat where "MaxObservationText = 64 * 2 ^ 10"
definition MaxOpenConfigBytes :: nat where "MaxOpenConfigBytes = 64 * 2 ^ 10"
definition MaxCheckpointBytes :: nat where "MaxCheckpointBytes = 64 * 2 ^ 10"

text \<open>Durations are nanoseconds, as \<^verbatim>\<open>time.Duration\<close>; a product wraps as an int64 does.\<close>

definition Millisecond :: int where "Millisecond = 10 ^ 6"
definition Second :: int where "Second = 10 ^ 9"

definition MaxObserveWait :: int where "MaxObserveWait = 30 * Second"
definition DefaultInterruptDeadline :: int where "DefaultInterruptDeadline = 10 * Second"
definition MinInterruptDeadline :: int where "MinInterruptDeadline = 100 * Millisecond"
definition MaxInterruptDeadline :: int where "MaxInterruptDeadline = 60 * Second"
definition MaxDrain :: int where "MaxDrain = 60 * Second"

section \<open>Version\<close>

definition versionPrefix :: string where
  "versionPrefix = ''harness-adapter/''"

definition Major :: int where "Major = 1"
definition Minor :: int where "Minor = 9"

text \<open>The error of \<open>ParseVersion\<close> is a plain one: \<open>None\<close>.\<close>

definition ParseVersion :: "string \<Rightarrow> (int \<times> int) option" where
  "ParseVersion v =
     (case cut_prefix versionPrefix v of
        None \<Rightarrow> None
      | Some rest \<Rightarrow>
          (case cut_on (CHR ''.'') rest of
             None \<Rightarrow> None
           | Some (ma, mi) \<Rightarrow>
               (case atoi ma of
                  None \<Rightarrow> None
                | Some major \<Rightarrow>
                    if major < 1 \<or> ma \<noteq> itoa major then None
                    else (case atoi mi of
                            None \<Rightarrow> None
                          | Some minor \<Rightarrow>
                              if minor < 0 \<or> mi \<noteq> itoa minor then None
                              else Some (major, minor)))))"

definition MinorOf :: "string \<Rightarrow> int option" where
  "MinorOf v = map_option snd (ParseVersion v)"

definition Compatible :: "string \<Rightarrow> bool" where
  "Compatible v = (case ParseVersion v of None \<Rightarrow> False | Some (major, _) \<Rightarrow> major = Major)"

text \<open>The text of a version, \<open>harness-adapter/<major>.<minor>\<close>.\<close>

definition version_text :: "int \<Rightarrow> int \<Rightarrow> string" where
  "version_text major minor = versionPrefix @ itoa major @ CHR ''.'' # itoa minor"

lemma dot_notin_itoa: "0 \<le> i \<Longrightarrow> CHR ''.'' \<notin> set (itoa i)"
  by (simp add: itoa_def)

lemma ParseVersion_sound:
  assumes "ParseVersion v = Some (a, b)"
  shows "1 \<le> a \<and> a < 2 ^ 63 \<and> 0 \<le> b \<and> b < 2 ^ 63 \<and> v = version_text a b"
  using assms
  by (auto simp: ParseVersion_def version_text_def cut_prefix_Some cut_on_Some
      dest: atoi_range split: option.splits if_splits prod.splits)

lemma ParseVersion_complete:
  assumes "1 \<le> a" "a < 2 ^ 63" "0 \<le> b" "b < 2 ^ 63"
  shows "ParseVersion (version_text a b) = Some (a, b)"
proof -
  have "cut_prefix versionPrefix (version_text a b) = Some (itoa a @ CHR ''.'' # itoa b)"
    by (simp add: cut_prefix_Some version_text_def)
  moreover have "cut_on (CHR ''.'') (itoa a @ CHR ''.'' # itoa b) = Some (itoa a, itoa b)"
    using assms by (simp add: cut_on_Some dot_notin_itoa)
  moreover have "atoi (itoa a) = Some a" "atoi (itoa b) = Some b"
    using assms by (auto intro!: atoi_itoa)
  ultimately show ?thesis
    using assms by (simp add: ParseVersion_def)
qed

section \<open>Ids\<close>

text \<open>
  The source ranges over runes; a rune outside ASCII is in none of the ranges, and neither is
  any byte of its encoding, so the byte-wise reading accepts the same strings.
\<close>

definition id_char :: "char \<Rightarrow> bool" where
  "id_char r \<longleftrightarrow>
     is_lower r \<or> is_upper r \<or> is_digit r \<or> r = CHR ''.'' \<or> r = CHR ''_'' \<or> r = CHR '':'' \<or> r = CHR ''-''"

definition ValidID :: "string \<Rightarrow> bool" where
  "ValidID s \<longleftrightarrow> \<not> (s = [] \<or> length s > 128) \<and> list_all id_char s"

section \<open>Capabilities and the Descriptor\<close>

datatype Capability =
    CapResume | CapAssignSessionID | CapPrompts | CapStreamingText | CapToolsObserved
  | CapSubagents | CapRateLimits | CapRetryVisible | CapSessionLoad | CapAutonomousTurns
  | CapBackgroundTurns | CapBrokeredCredentials | CapLoginKeeper | CapConcurrentSessions
  | CapSessionWorkDir | CapOther string

definition SessionWorkDirSince :: int where "SessionWorkDirSince = 9"
definition VersionPolicySince :: int where "VersionPolicySince = 7"

fun Since :: "Capability \<Rightarrow> int" where
  "Since CapResume = 0"
| "Since CapAssignSessionID = 0"
| "Since CapPrompts = 0"
| "Since CapStreamingText = 0"
| "Since CapToolsObserved = 0"
| "Since CapSubagents = 0"
| "Since CapRateLimits = 0"
| "Since CapRetryVisible = 0"
| "Since CapSessionLoad = 1"
| "Since CapAutonomousTurns = 1"
| "Since CapBrokeredCredentials = 2"
| "Since CapLoginKeeper = 2"
| "Since CapBackgroundTurns = 3"
| "Since CapConcurrentSessions = 6"
| "Since CapSessionWorkDir = SessionWorkDirSince"
| "Since (CapOther _) = -1"

record HarnessInfo =
  h_name :: string
  h_version :: string
  h_adapter :: string

record Models =
  m_any :: bool
  m_ids :: "string list"

record SpecSupport =
  ss_models :: Models
  ss_efforts :: "string list"
  ss_instructions :: "string list"
  ss_skills :: bool
  ss_memory :: bool
  ss_connectors :: "string list"
  ss_postures :: "string list"
  ss_input_content :: "string list"

record Limits =
  l_max_input_bytes :: int
  l_max_sessions :: int

record LoadSupport =
  ls_formats :: "int list"
  ls_sources :: "string list"

record CredentialRoute =
  cr_kind :: string
  cr_hosts :: "string list"
  cr_headers :: "string list"

record Egress =
  eg_hosts :: "string list"
  eg_credentials :: "CredentialRoute list"

record KeeperSupport =
  k_kind :: string

record Descriptor =
  d_contract :: string
  d_harness :: HarnessInfo
  d_capabilities :: "Capability list"
  d_checkpoint_format :: int
  d_credential_kinds :: "string list"
  d_spec :: SpecSupport
  d_limits :: Limits
  d_load :: "LoadSupport option"
  d_egress :: "Egress option"
  d_keeper :: "KeeperSupport option"

definition Has :: "Descriptor \<Rightarrow> Capability \<Rightarrow> bool" where
  "Has d c \<longleftrightarrow> c \<in> set (d_capabilities d)"

definition supports :: "string list \<Rightarrow> string \<Rightarrow> bool" where
  "supports vals v \<longleftrightarrow> v \<in> set vals"

definition Allows :: "Models \<Rightarrow> string \<Rightarrow> bool" where
  "Allows m model \<longleftrightarrow> model = [] \<or> m_any m \<or> model \<in> set (m_ids m)"

definition Loads :: "Descriptor \<Rightarrow> int \<Rightarrow> string \<Rightarrow> bool" where
  "Loads d format ver =
     (case d_load d of
        None \<Rightarrow> False
      | Some l \<Rightarrow> Has d CapSessionLoad \<and> format \<in> set (ls_formats l) \<and> supports (ls_sources l) ver)"

definition Sessions :: "Descriptor \<Rightarrow> int" where
  "Sessions d =
     (if Has d CapConcurrentSessions \<and> l_max_sessions (d_limits d) > 1
      then l_max_sessions (d_limits d) else 1)"

definition CheckSessions :: "Descriptor \<Rightarrow> Error option" where
  "CheckSessions d =
     (let n = l_max_sessions (d_limits d) in
      if Has d CapConcurrentSessions \<and> n < 2 then Some (err_field CodeProtocol ''limits.max_sessions'')
      else if \<not> Has d CapConcurrentSessions \<and> n \<noteq> 0 then Some (err_field CodeProtocol ''limits.max_sessions'')
      else None)"

definition CheckCapabilities :: "Descriptor \<Rightarrow> Error option" where
  "CheckCapabilities d =
     (case MinorOf (d_contract d) of
        None \<Rightarrow> Some (err_field CodeProtocol ''contract'')
      | Some minor \<Rightarrow>
          check_each (\<lambda>_ c. guard_err (Since c > minor) (err_field CodeProtocol ''capabilities''))
            (d_capabilities d))"

lemma CheckSessions_Sessions:
  "CheckSessions d = None \<Longrightarrow>
   Sessions d = (if Has d CapConcurrentSessions then l_max_sessions (d_limits d) else 1)"
  by (auto simp: CheckSessions_def Sessions_def Let_def split: if_splits)

lemma CheckCapabilities_None:
  "CheckCapabilities d = None \<longleftrightarrow>
   (\<exists>minor. MinorOf (d_contract d) = Some minor \<and> (\<forall>c \<in> set (d_capabilities d). Since c \<le> minor))"
  by (auto simp: CheckCapabilities_def check_from_None_set not_less split: option.splits)

text \<open>\<^verbatim>\<open>checkVersion\<close> of \<^verbatim>\<open>pkg/adapter/adapter.go\<close>: the same major, and no newer minor.\<close>

definition checkVersion :: "string \<Rightarrow> Error option" where
  "checkVersion v =
     (case ParseVersion v of
        None \<Rightarrow> Some (err_field CodeProtocol ''contract'')
      | Some (major, minor) \<Rightarrow>
          if major \<noteq> Major \<or> minor > Minor then Some (err_field CodeProtocol ''contract'') else None)"

end
