(* ===== verification/Contract_Paths.thy ===== *)
theory Contract_Paths
  imports Contract_Core
begin

text \<open>
  The paths of \<^verbatim>\<open>pkg/contract/provision.go\<close> and \<^verbatim>\<open>session.go\<close>: an agent's roots (\<open>Layout\<close>),
  relative paths beneath them, \<open>RootPath.Within\<close>, and \<open>Relocate\<close>, which says where a saved
  path goes in a new environment. The lemmas read a path as its list of components, over
  which "at or beneath" is list prefix.
\<close>

section \<open>Roots\<close>

datatype Root = RootHome | RootConfig | RootWorkspace | RootSecrets | RootScratch | RootOther string

fun root_text :: "Root \<Rightarrow> string" where
  "root_text RootHome = ''home''"
| "root_text RootConfig = ''config''"
| "root_text RootWorkspace = ''workspace''"
| "root_text RootSecrets = ''secrets''"
| "root_text RootScratch = ''scratch''"
| "root_text (RootOther s) = s"

record Layout =
  lay_home :: string
  lay_config :: string
  lay_workspace :: string
  lay_secrets :: string
  lay_scratch :: string

fun Layout_Path :: "Layout \<Rightarrow> Root \<Rightarrow> string" where
  "Layout_Path l RootHome = lay_home l"
| "Layout_Path l RootConfig = lay_config l"
| "Layout_Path l RootWorkspace = lay_workspace l"
| "Layout_Path l RootSecrets = lay_secrets l"
| "Layout_Path l RootScratch = lay_scratch l"
| "Layout_Path l (RootOther _) = []"

definition clean_abs :: "string \<Rightarrow> bool" where
  "clean_abs p \<longleftrightarrow> p \<noteq> [] \<and> is_abs p \<and> path_clean p = p"

definition Layout_Validate :: "Layout \<Rightarrow> Error option" where
  "Layout_Validate l =
     check_prev 0 (\<lambda>_ prev r.
         let p = Layout_Path l r; e = err_field CodeInvalidSpec (''layout.'' @ root_text r) in
         if p = [] \<or> \<not> is_abs p \<or> path_clean p \<noteq> p then Some e
         else if p \<in> Layout_Path l ` set prev then Some e
         else None)
       [] [RootHome, RootConfig, RootWorkspace, RootSecrets, RootScratch]"

lemma Layout_Validate_None:
  "Layout_Validate l = None \<longleftrightarrow>
     clean_abs (lay_home l) \<and> clean_abs (lay_config l) \<and> clean_abs (lay_workspace l) \<and>
     clean_abs (lay_secrets l) \<and> clean_abs (lay_scratch l) \<and>
     distinct [lay_home l, lay_config l, lay_workspace l, lay_secrets l, lay_scratch l]"
  by (auto simp: Layout_Validate_def clean_abs_def Let_def split: if_splits)

section \<open>Relative paths\<close>

definition CheckRelPath :: "string \<Rightarrow> goerror option" where
  "CheckRelPath p =
     (if p = [] \<or> length p > 1024 then Some Plain
      else if prefix ''/'' p \<or> CHR 0x5C \<in> set p \<or> \<not> fs_valid_path p \<or> path_clean p \<noteq> p then Some Plain
      else check_each (\<lambda>_ c. guard_err (c = ''.'' \<or> c = ''..'' \<or> c = []) Plain) (split_on slash p))"

definition CheckWorkDir :: "string \<Rightarrow> Error option" where
  "CheckWorkDir p =
     (if p = [] then None
      else (case CheckRelPath p of None \<Rightarrow> None | Some _ \<Rightarrow> Some (err_field CodeProtocol ''work_dir'')))"

definition WorkDirPath :: "Layout \<Rightarrow> string \<Rightarrow> string" where
  "WorkDirPath l dir = (if dir = [] then lay_workspace l else path_join (lay_workspace l) dir)"

lemma CheckRelPath_None:
  "CheckRelPath p = None \<longleftrightarrow>
     p \<noteq> [] \<and> length p \<le> 1024 \<and> \<not> prefix ''/'' p \<and> CHR 0x5C \<notin> set p \<and> fs_valid_path p \<and>
     path_clean p = p \<and> list_all proper_comp (split_on slash p)"
proof -
  have "list_all proper_comp cs \<longleftrightarrow> (\<forall>c \<in> set cs. \<not> (c = ''.'' \<or> c = ''..'' \<or> c = []))" for cs
    unfolding list_all_iff proper_comp_def by blast
  then show ?thesis
    unfolding CheckRelPath_def by (simp add: check_from_None_set not_less) blast
qed

lemma prefix_slash_is_abs: "prefix ''/'' p \<longleftrightarrow> is_abs p"
  by (cases p) (auto simp: is_abs_def)

lemma CheckRelPath_proper:
  assumes "CheckRelPath p = None"
  shows "p \<noteq> []" "\<not> is_abs p" "list_all proper_comp (split_on slash p)" "length p \<le> 1024"
  using assms by (simp_all add: CheckRelPath_None prefix_slash_is_abs)

text \<open>The components test and the cleanliness test ask the same thing of such a path.\<close>

lemma CheckRelPath_iff:
  "CheckRelPath p = None \<longleftrightarrow>
     p \<noteq> [] \<and> length p \<le> 1024 \<and> CHR 0x5C \<notin> set p \<and> valid_string p \<and>
     list_all proper_comp (split_on slash p)"
proof -
  have "is_abs p \<Longrightarrow> \<not> list_all proper_comp (split_on slash p)"
    by (simp add: split_abs proper_comp_def)
  moreover have "p = ''.'' \<Longrightarrow> \<not> list_all proper_comp (split_on slash p)"
    by (simp add: proper_comp_def)
  ultimately show ?thesis
    using path_clean_proper_rel [of p]
    unfolding CheckRelPath_None fs_valid_path_def prefix_slash_is_abs by blast
qed

section \<open>Paths beneath a root\<close>

record RootPath =
  rp_root :: Root
  rp_path :: string

definition Within :: "RootPath \<Rightarrow> RootPath \<Rightarrow> bool" where
  "Within p q \<longleftrightarrow> rp_root p = rp_root q \<and> (rp_path p = rp_path q \<or> prefix (rp_path q @ ''/'') (rp_path p))"

definition comps :: "RootPath \<Rightarrow> string list" where
  "comps p = split_on slash (rp_path p)"

record Relocation =
  rel_from :: RootPath
  rel_to :: RootPath

text \<open>\<open>strings.TrimPrefix\<close> cuts the source's path, which \<open>Within\<close> has shown to be a prefix.\<close>

fun Relocate :: "Relocation list \<Rightarrow> RootPath \<Rightarrow> RootPath" where
  "Relocate [] p = p"
| "Relocate (r # rules) p =
     (if Within p (rel_from r)
      then \<lparr>rp_root = rp_root (rel_to r),
            rp_path = rp_path (rel_to r) @
              (case cut_prefix (rp_path (rel_from r)) (rp_path p) of Some t \<Rightarrow> t | None \<Rightarrow> rp_path p)\<rparr>
      else Relocate rules p)"

lemma join_on_append:
  assumes "xs \<noteq> []" "ys \<noteq> []"
  shows "join_on c (xs @ ys) = join_on c xs @ c # join_on c ys"
  using assms
proof (induction xs)
  case Nil
  then show ?case by simp
next
  case (Cons x xs)
  then show ?case by (cases "xs = []") (auto simp: join_on_Cons)
qed

text \<open>"At or beneath" is prefix on components.\<close>

lemma Within_comps: "Within p q \<longleftrightarrow> rp_root p = rp_root q \<and> prefix (comps q) (comps p)"
proof -
  have "(rp_path p = rp_path q \<or> prefix (rp_path q @ ''/'') (rp_path p)) \<longleftrightarrow>
        prefix (split_on slash (rp_path q)) (split_on slash (rp_path p))" (is "?l \<longleftrightarrow> ?r")
  proof
    assume ?l
    then show ?r
      by (auto simp: prefix_def split_on_append_gen)
  next
    assume ?r
    then obtain ts where ts: "split_on slash (rp_path p) = split_on slash (rp_path q) @ ts"
      by (auto simp: prefix_def)
    show ?l
    proof (cases "ts = []")
      case True
      with ts show ?thesis by simp
    next
      case False
      have "rp_path p = join_on slash (split_on slash (rp_path q) @ ts)"
        using ts by (metis join_split)
      also have "\<dots> = rp_path q @ slash # join_on slash ts"
        using False by (simp add: join_on_append)
      finally show ?thesis by (auto simp: prefix_def)
    qed
  qed
  then show ?thesis by (auto simp: Within_def comps_def)
qed

lemma Within_refl [simp]: "Within p p"
  by (simp add: Within_def)

lemma Within_trans: "Within p q \<Longrightarrow> Within q r \<Longrightarrow> Within p r"
  by (auto simp: Within_comps)

lemma Within_antisym: "Within p q \<Longrightarrow> Within q p \<Longrightarrow> p = q"
  by (auto simp: Within_comps comps_def intro!: RootPath.equality dest: prefix_order.antisym)

text \<open>Two paths above one path are nested.\<close>

lemma Within_linear: "Within p q \<Longrightarrow> Within p r \<Longrightarrow> Within q r \<or> Within r q"
  by (auto simp: Within_comps dest: prefix_same_cases)

section \<open>Relocation\<close>

text \<open>Which rule moves a path: the first whose source it is at or beneath.\<close>

fun moving_rule :: "Relocation list \<Rightarrow> RootPath \<Rightarrow> Relocation option" where
  "moving_rule [] p = None"
| "moving_rule (r # rules) p = (if Within p (rel_from r) then Some r else moving_rule rules p)"

definition move :: "Relocation \<Rightarrow> RootPath \<Rightarrow> RootPath" where
  "move r p = \<lparr>rp_root = rp_root (rel_to r),
     rp_path = rp_path (rel_to r) @ drop (length (rp_path (rel_from r))) (rp_path p)\<rparr>"

text \<open>No two rules' sources, and no two destinations, are one another or nested.\<close>

definition disjoint_ends :: "(Relocation \<Rightarrow> RootPath) \<Rightarrow> Relocation list \<Rightarrow> bool" where
  "disjoint_ends f rs \<longleftrightarrow>
     (\<forall>i < length rs. \<forall>j < i. \<not> Within (f (rs ! i)) (f (rs ! j)) \<and> \<not> Within (f (rs ! j)) (f (rs ! i)))"

lemma Relocate_moving:
  "Relocate rules p = (case moving_rule rules p of None \<Rightarrow> p | Some r \<Rightarrow> move r p)"
proof (induction rules)
  case Nil
  show ?case by simp
next
  case (Cons r rules)
  show ?case
  proof (cases "Within p (rel_from r)")
    case True
    then have "prefix (rp_path (rel_from r)) (rp_path p)"
      by (auto simp: Within_def prefix_def)
    then have "cut_prefix (rp_path (rel_from r)) (rp_path p) =
        Some (drop (length (rp_path (rel_from r))) (rp_path p))"
      by (simp add: cut_prefix_def)
    with True show ?thesis by (simp add: move_def)
  next
    case False
    with Cons show ?thesis by simp
  qed
qed

lemma moving_rule_Some:
  "moving_rule rules p = Some r \<Longrightarrow> r \<in> set rules \<and> Within p (rel_from r)"
  by (induction rules) (auto split: if_splits)

lemma moving_rule_None:
  "moving_rule rules p = None \<longleftrightarrow> (\<forall>r \<in> set rules. \<not> Within p (rel_from r))"
  by (induction rules) auto

text \<open>A moved path keeps, beneath the destination, the components it had beneath the source.\<close>

lemma move_comps:
  assumes "Within p (rel_from r)"
  obtains ts where "comps p = comps (rel_from r) @ ts" "comps (move r p) = comps (rel_to r) @ ts"
proof -
  from assms consider "rp_path p = rp_path (rel_from r)"
    | t where "rp_path p = rp_path (rel_from r) @ slash # t"
    by (auto simp: Within_def prefix_def)
  then show thesis
  proof cases
    case 1
    then show ?thesis by (intro that [of "[]"]) (simp_all add: comps_def move_def)
  next
    case 2
    then show ?thesis
      by (intro that [of "split_on slash t"]) (simp_all add: comps_def move_def split_on_append_gen)
  qed
qed

lemma move_Within: "Within p (rel_from r) \<Longrightarrow> Within (move r p) (rel_to r)"
  by (erule move_comps) (auto simp: Within_comps move_def)

lemma disjoint_ends_eq:
  assumes "disjoint_ends f rs" "r \<in> set rs" "r' \<in> set rs" "Within (f r) (f r')"
  shows "r = r'"
proof -
  obtain i j where ij: "i < length rs" "rs ! i = r" "j < length rs" "rs ! j = r'"
    using assms(2,3) by (auto simp: in_set_conv_nth)
  show ?thesis
  proof (cases i j rule: linorder_cases)
    case less
    with assms(1,4) ij show ?thesis by (auto simp: disjoint_ends_def)
  next
    case equal
    with ij show ?thesis by simp
  next
    case greater
    with assms(1,4) ij show ?thesis by (auto simp: disjoint_ends_def)
  qed
qed

lemma move_inj:
  assumes "Within p (rel_from r)" "Within q (rel_from r)" "move r p = move r q"
  shows "p = q"
proof -
  obtain ts where ts: "comps p = comps (rel_from r) @ ts" "comps (move r p) = comps (rel_to r) @ ts"
    using move_comps [OF assms(1)] .
  obtain us where us: "comps q = comps (rel_from r) @ us" "comps (move r q) = comps (rel_to r) @ us"
    using move_comps [OF assms(2)] .
  from ts us assms(3) have "ts = us" by simp
  with ts us have "comps p = comps q" by simp
  then have "rp_path p = rp_path q" by (simp add: comps_def)
  moreover have "rp_root p = rp_root q" using assms(1,2) by (simp add: Within_def)
  ultimately show ?thesis by (auto intro: RootPath.equality)
qed

text \<open>Rules with disjoint sources: the moving rule is the only one that could move the path.\<close>

lemma moving_rule_unique:
  assumes "disjoint_ends rel_from rules" "r \<in> set rules" "Within p (rel_from r)"
  shows "moving_rule rules p = Some r"
proof (cases "moving_rule rules p")
  case None
  with assms show ?thesis by (auto simp: moving_rule_None)
next
  case (Some r')
  then have r': "r' \<in> set rules" "Within p (rel_from r')"
    using moving_rule_Some by auto
  from Within_linear [OF assms(3) r'(2)] have "r = r'"
    using disjoint_ends_eq [OF assms(1)] assms(2) r'(1) by blast
  with Some show ?thesis by simp
qed

text \<open>Two moved paths never land on one another: destinations are disjoint, and each rule is injective.\<close>

lemma Relocate_moved_inj:
  assumes from_d: "disjoint_ends rel_from rules" and to_d: "disjoint_ends rel_to rules"
    and p: "moving_rule rules p = Some r" and q: "moving_rule rules q = Some r'"
    and eq: "Relocate rules p = Relocate rules q"
  shows "p = q"
proof -
  have pr: "r \<in> set rules" "Within p (rel_from r)" and qr: "r' \<in> set rules" "Within q (rel_from r')"
    using moving_rule_Some p q by auto
  have e: "move r p = move r' q"
    using eq p q by (simp add: Relocate_moving)
  have "Within (move r p) (rel_to r)" "Within (move r p) (rel_to r')"
    using move_Within [OF pr(2)] move_Within [OF qr(2)] e by simp_all
  then have "Within (rel_to r) (rel_to r') \<or> Within (rel_to r') (rel_to r)"
    by (rule Within_linear)
  then have "r = r'"
    using disjoint_ends_eq [OF to_d] pr(1) qr(1) by blast
  with pr qr e show ?thesis by (auto intro: move_inj)
qed

end
