(* ===== verification/Contract_Provision.thy ===== *)
theory Contract_Provision
  imports Contract_Paths "HOL-Library.Char_ord" "HOL-Library.List_Lexorder"
begin

text \<open>
  The rest of \<^verbatim>\<open>pkg/contract/provision.go\<close>: the Agent Spec and what a Descriptor admits of it
  (\<open>CheckSpec\<close>), the minor a request may use (\<open>CheckMinor\<close>), what a provisioned result may
  hold (\<open>ProvisionResult.Validate\<close>) and which saved Sessions may be loaded (\<open>CheckLoad\<close>).
  Go maps that the code ranges over in sorted order are association lists; the messages of
  errors are left out. \<open>RewriteFirstLine\<close> works on JSON text and is not modelled.
\<close>

unbundle bit_operations_syntax

section \<open>The Agent Spec\<close>

datatype VersionPolicy = VersionUnset | VersionStrict | VersionFlexible | VersionOther string

definition VersionPolicy_Valid :: "VersionPolicy \<Rightarrow> bool" where
  "VersionPolicy_Valid p \<longleftrightarrow> p = VersionUnset \<or> p = VersionStrict \<or> p = VersionFlexible"

definition Admits :: "VersionPolicy \<Rightarrow> string \<Rightarrow> string \<Rightarrow> bool" where
  "Admits p pinned running \<longleftrightarrow> p \<noteq> VersionStrict \<or> (running \<noteq> [] \<and> running = pinned)"

record Instructions =
  ins_persona :: string
  ins_workspace :: string

record SkillFile =
  sf_path :: string
  sf_content :: string

record Skill =
  sk_name :: string
  sk_files :: "SkillFile list"

record StdioConnector =
  st_command :: string
  st_args :: "string list"
  st_env :: "(string \<times> string) list"

record HTTPConnector =
  ht_url :: string
  ht_headers :: "(string \<times> string) list"
  ht_headers_file :: "(string \<times> string) list"
  ht_headers_env :: "(string \<times> string) list"

record Connector =
  c_name :: string
  c_stdio :: "StdioConnector option"
  c_http :: "HTTPConnector option"

record MemoryFile =
  mf_path :: string
  mf_content :: string

record AgentSpec =
  as_model :: string
  as_effort :: string
  as_instructions :: Instructions
  as_skills :: "Skill list"
  as_connectors :: "Connector list"
  as_memory :: "MemoryFile list option"
  as_posture :: string
  as_credential :: "string option"
  as_version_policy :: VersionPolicy

record LoadSource =
  lo_format :: int
  lo_harness :: HarnessInfo
  lo_layout :: Layout
  lo_workspace :: string
  lo_work_dirs :: "string list"

record ProvisionRequest =
  pr_contract :: string
  pr_harness_root :: string
  pr_layout :: Layout
  pr_spec :: AgentSpec
  pr_load :: "LoadSource option"

definition MaxLoadWorkDirs :: nat where "MaxLoadWorkDirs = 1024"

definition CheckMinor :: "ProvisionRequest \<Rightarrow> Error option" where
  "CheckMinor req =
     (case MinorOf (pr_contract req) of
        None \<Rightarrow> Some (err_field CodeProtocol ''contract'')
      | Some minor \<Rightarrow>
          if as_version_policy (pr_spec req) \<noteq> VersionUnset \<and> minor < VersionPolicySince
          then Some (err_field CodeProtocol ''spec.version_policy'')
          else (case pr_load req of
                  None \<Rightarrow> None
                | Some l \<Rightarrow>
                    guard_err (length (lo_work_dirs l) > 0 \<and> minor < SessionWorkDirSince)
                      (err_field CodeProtocol ''load.work_dirs'')))"

section \<open>Names, tokens and headers\<close>

definition name_char :: "char \<Rightarrow> bool" where
  "name_char r \<longleftrightarrow>
     is_lower r \<or> is_upper r \<or> is_digit r \<or> r = CHR ''.'' \<or> r = CHR ''_'' \<or> r = CHR ''-''"

definition validName :: "string \<Rightarrow> bool" where
  "validName s \<longleftrightarrow> \<not> (s = [] \<or> length s > 64) \<and> list_all name_char s"

definition separators :: string where
  "separators = CHR 0x22 # ''(),/:;<=>?@['' @ CHR 0x5C # '']{}''"

definition token_char :: "char \<Rightarrow> bool" where
  "token_char r \<longleftrightarrow> \<not> (ord r > 126 \<or> ord r \<le> 32 \<or> r \<in> set separators)"

definition validToken :: "string \<Rightarrow> bool" where
  "validToken s \<longleftrightarrow> s \<noteq> [] \<and> list_all token_char s"

text \<open>
  \<open>validHeaders\<close> walks \<open>headers\<close>, \<open>headers_env\<close> and \<open>headers_file\<close> in that order, each by
  sorted name; \<open>seen\<close> holds the lower-cased names before the current one.
\<close>

definition header_entries :: "HTTPConnector \<Rightarrow> (string \<times> string \<times> string) list" where
  "header_entries h =
     map (\<lambda>(n, v). (''headers'', n, v)) (sort_key fst (ht_headers h)) @
     map (\<lambda>(n, v). (''headers_env'', n, v)) (sort_key fst (ht_headers_env h)) @
     map (\<lambda>(n, v). (''headers_file'', n, v)) (sort_key fst (ht_headers_file h))"

definition header_key :: "string \<times> string \<times> string \<Rightarrow> string" where
  "header_key e = to_lower (fst (snd e))"

definition validHeaders :: "string \<Rightarrow> HTTPConnector \<Rightarrow> Error option" where
  "validHeaders field h =
     check_prev 0 (\<lambda>_ prev (part, n, p).
         if \<not> validToken n then Some (err_field CodeInvalidSpec (field @ ''.'' @ part))
         else if to_lower n \<in> header_key ` set prev then Some (err_field CodeInvalidSpec (field @ ''.'' @ part))
         else guard_err (part = ''headers_file'' \<and> (\<not> is_abs p \<or> path_clean p \<noteq> p))
                (err_field CodeInvalidSpec (field @ ''.headers_file'')))
       [] (header_entries h)"

lemma header_key_triple [simp]: "header_key (part, n, p) = to_lower n"
  by (simp add: header_key_def)

lemma validHeaders_None:
  "validHeaders field h = None \<longleftrightarrow>
     (\<forall>(part, n, p) \<in> set (header_entries h).
        validToken n \<and> (part = ''headers_file'' \<longrightarrow> is_abs p \<and> path_clean p = p)) \<and>
     distinct (map header_key (header_entries h))"
proof -
  let ?ok = "\<lambda>e. validToken (fst (snd e)) \<and>
     (fst e = ''headers_file'' \<longrightarrow> is_abs (snd (snd e)) \<and> path_clean (snd (snd e)) = snd (snd e))"
  have "validHeaders field h = None \<longleftrightarrow>
    (\<forall>e \<in> set (header_entries h). ?ok e) \<and> distinct (map header_key (header_entries h))"
    unfolding validHeaders_def
  proof (rule check_prev_keyed)
    fix i :: nat and prev and x :: "string \<times> string \<times> string"
    show "(case x of (part, n, p) \<Rightarrow>
          if \<not> validToken n then Some (err_field CodeInvalidSpec (field @ ''.'' @ part))
          else if to_lower n \<in> header_key ` set prev then Some (err_field CodeInvalidSpec (field @ ''.'' @ part))
          else guard_err (part = ''headers_file'' \<and> (\<not> is_abs p \<or> path_clean p \<noteq> p))
                 (err_field CodeInvalidSpec (field @ ''.headers_file''))) = None \<longleftrightarrow>
        ?ok x \<and> header_key x \<notin> header_key ` set prev"
      by (cases x) (simp; blast)
  qed
  then show ?thesis by (simp add: case_prod_unfold)
qed

section \<open>CheckSpec\<close>

abbreviation unsupported :: "string \<Rightarrow> Error" where
  "unsupported f \<equiv> err_field CodeUnsupported f"

abbreviation invalid_spec :: "string \<Rightarrow> Error" where
  "invalid_spec f \<equiv> err_field CodeInvalidSpec f"

definition at_index :: "string \<Rightarrow> nat \<Rightarrow> string" where
  "at_index name i = name @ ''['' @ itoa (int i) @ '']''"

definition checkConnector :: "Descriptor \<Rightarrow> nat \<Rightarrow> Connector list \<Rightarrow> Connector \<Rightarrow> Error option" where
  "checkConnector d i prev c =
     (let field = at_index ''connectors'' i in
      if \<not> validName (c_name c) then Some (invalid_spec (field @ ''.name''))
      else if c_name c \<in> c_name ` set prev then Some (invalid_spec (field @ ''.name''))
      else if (c_stdio c = None) = (c_http c = None) then Some (invalid_spec field)
      else if c_stdio c \<noteq> None \<and> \<not> supports (ss_connectors (d_spec d)) ''stdio''
        then Some (unsupported (field @ ''.stdio''))
      else if c_http c \<noteq> None \<and> \<not> supports (ss_connectors (d_spec d)) ''http''
        then Some (unsupported (field @ ''.http''))
      else (case c_stdio c of
              Some st \<Rightarrow> guard_err (st_command st = []) (invalid_spec (field @ ''.stdio.command''))
            | None \<Rightarrow>
                (case c_http c of
                   None \<Rightarrow> None
                 | Some h \<Rightarrow>
                     if ht_url h = [] then Some (invalid_spec (field @ ''.http.url''))
                     else validHeaders (field @ ''.http'') h)))"

text \<open>The files of a skill or of memory: clean relative paths, none given twice.\<close>

definition checkPaths :: "string \<Rightarrow> ('f \<Rightarrow> string) \<Rightarrow> 'f list \<Rightarrow> Error option" where
  "checkPaths field path files =
     check_prev 0 (\<lambda>j prev f.
         if CheckRelPath (path f) \<noteq> None then Some (invalid_spec (at_index field j @ ''.path''))
         else guard_err (path f \<in> path ` set prev) (invalid_spec (at_index field j @ ''.path'')))
       [] files"

definition checkSkill :: "nat \<Rightarrow> Skill list \<Rightarrow> Skill \<Rightarrow> Error option" where
  "checkSkill i prev sk =
     (let field = at_index ''skills'' i in
      if \<not> validName (sk_name sk) \<or> sk_name sk = ''.'' \<or> sk_name sk = ''..''
        then Some (invalid_spec (field @ ''.name''))
      else if sk_name sk \<in> sk_name ` set prev then Some (invalid_spec (field @ ''.name''))
      else orelse (checkPaths (field @ ''.files'') sf_path (sk_files sk))
             (guard_err (''SKILL.md'' \<notin> sf_path ` set (sk_files sk)) (invalid_spec field)))"

definition checkPosture :: "Descriptor \<Rightarrow> string \<Rightarrow> Error option" where
  "checkPosture d p =
     (if p = [] then None
      else if p = ''bypass'' \<or> p = ''gated'' then
        guard_err (\<not> supports (ss_postures (d_spec d)) p) (unsupported ''permission_posture'')
      else Some (invalid_spec ''permission_posture''))"

definition checkVersionPolicy :: "Descriptor \<Rightarrow> VersionPolicy \<Rightarrow> Error option" where
  "checkVersionPolicy d p =
     (if \<not> VersionPolicy_Valid p then Some (invalid_spec ''version_policy'')
      else guard_err
        (p \<noteq> VersionUnset \<and>
         (case MinorOf (d_contract d) of None \<Rightarrow> True | Some minor \<Rightarrow> minor < VersionPolicySince))
        (unsupported ''version_policy''))"

definition CheckSpec :: "Descriptor \<Rightarrow> AgentSpec \<Rightarrow> Error option" where
  "CheckSpec d s =
     orelse (guard_err (\<not> Allows (ss_models (d_spec d)) (as_model s)) (unsupported ''model''))
    (orelse (guard_err (as_effort s \<noteq> [] \<and> \<not> supports (ss_efforts (d_spec d)) (as_effort s))
               (unsupported ''effort''))
    (orelse (guard_err (ins_persona (as_instructions s) \<noteq> [] \<and>
                        \<not> supports (ss_instructions (d_spec d)) ''persona'')
               (unsupported ''instructions.persona''))
    (orelse (guard_err (ins_workspace (as_instructions s) \<noteq> [] \<and>
                        \<not> supports (ss_instructions (d_spec d)) ''workspace'')
               (unsupported ''instructions.workspace''))
    (orelse (guard_err (length (as_skills s) > 0 \<and> \<not> ss_skills (d_spec d)) (unsupported ''skills''))
    (orelse (guard_err (as_memory s \<noteq> None \<and> \<not> ss_memory (d_spec d)) (unsupported ''memory''))
    (orelse (check_prev 0 (checkConnector d) [] (as_connectors s))
    (orelse (checkPosture d (as_posture s))
    (orelse (case as_credential s of
               None \<Rightarrow> None
             | Some k \<Rightarrow> guard_err (\<not> supports (d_credential_kinds d) k) (unsupported ''credential.kind''))
    (orelse (checkVersionPolicy d (as_version_policy s))
    (orelse (check_prev 0 checkSkill [] (as_skills s))
            (case as_memory s of
               None \<Rightarrow> None
             | Some files \<Rightarrow> checkPaths ''memory.files'' mf_path files)))))))))))"

lemma checkPaths_None:
  "checkPaths field path files = None \<longleftrightarrow>
     (\<forall>f \<in> set files. CheckRelPath (path f) = None) \<and> distinct (map path files)"
  unfolding checkPaths_def by (rule check_prev_keyed) simp

lemma checkConnector_None:
  assumes "checkConnector d i prev c = None"
  shows "validName (c_name c)" "c_name c \<notin> c_name ` set prev"
    "c_stdio c \<noteq> None \<Longrightarrow> c_http c = None \<and> supports (ss_connectors (d_spec d)) ''stdio''"
    "c_http c = Some h \<Longrightarrow> c_stdio c = None \<and> supports (ss_connectors (d_spec d)) ''http'' \<and>
       ht_url h \<noteq> [] \<and> (\<exists>field. validHeaders field h = None)"
    "c_stdio c \<noteq> None \<or> c_http c \<noteq> None"
  using assms by (auto simp: checkConnector_def Let_def split: if_splits option.splits)

lemma checkSkill_None:
  "checkSkill i prev sk = None \<longleftrightarrow>
     validName (sk_name sk) \<and> sk_name sk \<noteq> ''.'' \<and> sk_name sk \<noteq> ''..'' \<and> sk_name sk \<notin> sk_name ` set prev \<and>
     (\<forall>f \<in> set (sk_files sk). CheckRelPath (sf_path f) = None) \<and> distinct (map sf_path (sk_files sk)) \<and>
     ''SKILL.md'' \<in> sf_path ` set (sk_files sk)"
  unfolding checkSkill_def Let_def by (simp add: checkPaths_None) blast

lemmas CheckSpec_parts = CheckSpec_def orelse_None guard_err_None

section \<open>Provisioned results\<close>

record File =
  f_root :: Root
  f_path :: string
  f_mode :: string
  f_text :: "string option"
  f_bytes :: "string option"

record Rewrite =
  rw_path :: RootPath
  rw_field :: string
  rw_from :: string
  rw_to :: string

record ProvisionResult =
  res_files :: "File list"
  res_open_config :: string
  res_history_roots :: "RootPath list"
  res_secret_paths :: "RootPath list"
  res_relocations :: "Relocation list"
  res_rewrites :: "Rewrite list"

definition Content :: "File \<Rightarrow> string" where
  "Content f = (case f_text f of Some t \<Rightarrow> t | None \<Rightarrow> (case f_bytes f of Some b \<Rightarrow> b | None \<Rightarrow> []))"

text \<open>\<^verbatim>\<open>strconv.ParseUint(s, 8, 32)\<close>, and the mode with at least three digits.\<close>

definition octal_value :: "string \<Rightarrow> nat" where
  "octal_value s = foldl (\<lambda>n c. 8 * n + (ord c - 48)) 0 s"

definition parse_octal :: "string \<Rightarrow> nat option" where
  "parse_octal s =
     (if s \<noteq> [] \<and> list_all (\<lambda>c. 48 \<le> ord c \<and> ord c \<le> 55) s \<and> octal_value s < 2 ^ 32
      then Some (octal_value s) else None)"

definition FileMode :: "File \<Rightarrow> nat option" where
  "FileMode f =
     (case parse_octal (f_mode f) of
        None \<Rightarrow> None
      | Some m \<Rightarrow> if length (f_mode f) < 3 then None else Some m)"

definition Archived :: "ProvisionResult \<Rightarrow> RootPath \<Rightarrow> bool" where
  "Archived r p \<longleftrightarrow>
     (\<exists>h \<in> set (res_history_roots r). Within p h) \<and> \<not> (\<exists>s \<in> set (res_secret_paths r). Within p s)"

abbreviation invalid_result :: "string \<Rightarrow> Error" where
  "invalid_result f \<equiv> err_field CodeProtocol f"

definition file_key :: "File \<Rightarrow> Root \<times> string" where
  "file_key f = (f_root f, f_path f)"

text \<open>\<open>0o644\<close> is 420; \<open>mode &^ 0o644\<close> keeps the bits outside it.\<close>

definition checkFile :: "nat \<Rightarrow> File list \<Rightarrow> File \<Rightarrow> Error option" where
  "checkFile i prev f =
     (let field = at_index ''files'' i in
      if \<not> (f_root f = RootConfig \<or> f_root f = RootWorkspace \<or> f_root f = RootHome)
        then Some (invalid_result (field @ ''.root''))
      else if CheckRelPath (f_path f) \<noteq> None then Some (invalid_result (field @ ''.path''))
      else if file_key f \<in> file_key ` set prev then Some (invalid_result (field @ ''.path''))
      else if (f_text f = None) = (f_bytes f = None) then Some (invalid_result field)
      else (case FileMode f of
              None \<Rightarrow> Some (invalid_result (field @ ''.mode''))
            | Some mode \<Rightarrow> guard_err (int mode AND NOT 420 \<noteq> 0) (invalid_result (field @ ''.mode''))))"

definition checkPath :: "string \<Rightarrow> RootPath \<Rightarrow> Error option" where
  "checkPath field p =
     (if rp_root p \<noteq> RootHome \<and> rp_root p \<noteq> RootConfig \<and> rp_root p \<noteq> RootWorkspace \<and> rp_root p \<noteq> RootScratch
        then Some (invalid_result (field @ ''.root''))
      else guard_err (CheckRelPath (rp_path p) \<noteq> None) (invalid_result (field @ ''.path'')))"

definition checkRelocation ::
  "ProvisionResult \<Rightarrow> nat \<Rightarrow> Relocation list \<Rightarrow> Relocation \<Rightarrow> Error option" where
  "checkRelocation r i prev m =
     (let field = at_index ''history_relocations'' i in
      orelse (checkPath (field @ ''.from'') (rel_from m))
     (orelse (checkPath (field @ ''.to'') (rel_to m))
     (orelse (guard_err (\<not> Archived r (rel_from m) \<or> \<not> Archived r (rel_to m)) (invalid_result field))
             (check_each (\<lambda>_ oth.
                 if Within (rel_from m) (rel_from oth) \<or> Within (rel_from oth) (rel_from m)
                   then Some (invalid_result (field @ ''.from''))
                 else guard_err (Within (rel_to m) (rel_to oth) \<or> Within (rel_to oth) (rel_to m))
                        (invalid_result (field @ ''.to'')))
               prev))))"

definition checkRewrite ::
  "ProvisionResult \<Rightarrow> nat \<Rightarrow> Rewrite list \<Rightarrow> Rewrite \<Rightarrow> Error option" where
  "checkRewrite r i prev w =
     (let field = at_index ''history_rewrites'' i in
      orelse (checkPath (field @ ''.path'') (rw_path w))
     (orelse (guard_err (\<not> Archived r (rw_path w)) (invalid_result (field @ ''.path'')))
     (orelse (guard_err (rw_field w = [] \<or> rw_from w = [] \<or> rw_from w = rw_to w) (invalid_result field))
             (check_each (\<lambda>_ oth.
                 guard_err ((Within (rw_path w) (rw_path oth) \<or> Within (rw_path oth) (rw_path w)) \<and>
                            (rw_field w \<noteq> rw_field oth \<or> rw_from w = rw_from oth))
                   (invalid_result (field @ ''.path'')))
               prev))))"

definition ProvisionResult_Validate :: "ProvisionResult \<Rightarrow> Error option" where
  "ProvisionResult_Validate r =
     orelse (check_prev 0 checkFile [] (res_files r))
    (orelse (guard_err (length (res_open_config r) > MaxOpenConfigBytes) (invalid_result ''open_config''))
    (orelse (check_each (\<lambda>i p. checkPath (at_index ''paths'' i) p) (res_history_roots r @ res_secret_paths r))
    (orelse (check_prev 0 (checkRelocation r) [] (res_relocations r))
            (check_prev 0 (checkRewrite r) [] (res_rewrites r)))))"

text \<open>What an accepted file is.\<close>

definition file_ok :: "File \<Rightarrow> bool" where
  "file_ok f \<longleftrightarrow>
     f_root f \<in> {RootConfig, RootWorkspace, RootHome} \<and> CheckRelPath (f_path f) = None \<and>
     (f_text f = None) \<noteq> (f_bytes f = None) \<and>
     (\<exists>m. FileMode f = Some m \<and> int m AND NOT 420 = 0)"

lemma checkFile_None: "checkFile i prev f = None \<longleftrightarrow> file_ok f \<and> file_key f \<notin> file_key ` set prev"
  unfolding checkFile_def file_ok_def Let_def by (auto split: option.splits if_splits)

lemma checkFiles_None:
  "check_prev 0 checkFile [] fs = None \<longleftrightarrow> (\<forall>f \<in> set fs. file_ok f) \<and> distinct (map file_key fs)"
  by (rule check_prev_keyed) (simp add: checkFile_None)

text \<open>No bit outside \<open>0o644\<close>: at most that value.\<close>

lemma and_not_zero_le:
  assumes "(i :: int) AND NOT m = 0" "0 \<le> m"
  shows "i \<le> m"
proof -
  have "i AND m = i"
  proof (rule bit_eqI)
    fix n
    have "\<not> bit (i AND NOT m) n" using assms(1) by simp
    then show "bit (i AND m) n = bit i n" by (auto simp: bit_simps)
  qed
  then show ?thesis
    using assms(2) AND_upper2 [of m i] by simp
qed

lemma file_ok_mode:
  assumes "file_ok f"
  shows "\<exists>m. FileMode f = Some m \<and> m \<le> 420"
proof -
  obtain m where m: "FileMode f = Some m" "int m AND NOT 420 = 0"
    using assms unfolding file_ok_def by blast
  have "int m \<le> 420" by (rule and_not_zero_le [OF m(2)]) simp
  with m(1) show ?thesis by simp
qed

lemma checkRelocation_None:
  assumes "checkRelocation r i prev m = None"
  shows "Archived r (rel_from m)" "Archived r (rel_to m)"
    "CheckRelPath (rp_path (rel_from m)) = None" "CheckRelPath (rp_path (rel_to m)) = None"
    "\<forall>oth \<in> set prev. \<not> Within (rel_from m) (rel_from oth) \<and> \<not> Within (rel_from oth) (rel_from m) \<and>
       \<not> Within (rel_to m) (rel_to oth) \<and> \<not> Within (rel_to oth) (rel_to m)"
  using assms
  by (auto simp: checkRelocation_def checkPath_def Let_def check_from_None_set split: if_splits)

lemma relocations_disjoint:
  assumes "check_prev 0 (checkRelocation r) [] ms = None"
  shows "disjoint_ends rel_from ms" "disjoint_ends rel_to ms"
proof -
  have "\<not> Within (rel_from (ms ! i)) (rel_from (ms ! j)) \<and> \<not> Within (rel_from (ms ! j)) (rel_from (ms ! i)) \<and>
        \<not> Within (rel_to (ms ! i)) (rel_to (ms ! j)) \<and> \<not> Within (rel_to (ms ! j)) (rel_to (ms ! i))"
    if "i < length ms" "j < i" for i j
  proof -
    have "checkRelocation r i (take i ms) (ms ! i) = None"
      using assms that by (simp add: check_prev_None)
    moreover have "ms ! j \<in> set (take i ms)"
      using that by (metis length_take less_trans min.absorb4 nth_mem nth_take)
    ultimately show ?thesis using checkRelocation_None(5) by blast
  qed
  then show "disjoint_ends rel_from ms" "disjoint_ends rel_to ms"
    by (simp_all add: disjoint_ends_def)
qed

section \<open>Loads\<close>

definition checkWorkDirs :: "string list \<Rightarrow> Error option" where
  "checkWorkDirs ws =
     check_prev 0 (\<lambda>i prev w.
         if CheckRelPath w \<noteq> None then Some (invalid_spec (at_index ''load.work_dirs'' i))
         else guard_err (w \<in> set prev) (invalid_spec (at_index ''load.work_dirs'' i)))
       [] ws"

definition CheckLoad :: "Descriptor \<Rightarrow> LoadSource \<Rightarrow> Error option" where
  "CheckLoad d l =
     (case d_load d of
        None \<Rightarrow> Some (unsupported ''load'')
      | Some ls \<Rightarrow>
          if \<not> Has d CapSessionLoad then Some (unsupported ''load'')
          else if h_name (lo_harness l) \<noteq> h_name (d_harness d) then Some (unsupported ''load.harness.name'')
          else if lo_format l \<notin> set (ls_formats ls) then Some (unsupported ''load.format'')
          else if \<not> supports (ls_sources ls) (h_version (lo_harness l))
            then Some (unsupported ''load.harness.version'')
          else (case Layout_Validate (lo_layout l) of
                  Some e \<Rightarrow> Some (invalid_spec (''load.'' @ e_field e))
                | None \<Rightarrow>
                    if \<not> is_abs (lo_workspace l) \<or> path_clean (lo_workspace l) \<noteq> lo_workspace l
                      then Some (invalid_spec ''load.workspace'')
                    else if lo_work_dirs l = [] then None
                    else if \<not> Has d CapSessionWorkDir then Some (unsupported ''load.work_dirs'')
                    else if length (lo_work_dirs l) > MaxLoadWorkDirs
                      then Some (invalid_spec ''load.work_dirs'')
                    else checkWorkDirs (lo_work_dirs l)))"

lemma CheckLoad_Loads:
  "CheckLoad d l = None \<Longrightarrow>
   Loads d (lo_format l) (h_version (lo_harness l)) \<and> h_name (lo_harness l) = h_name (d_harness d) \<and>
   Layout_Validate (lo_layout l) = None"
  by (auto simp: CheckLoad_def Loads_def split: option.splits if_splits)

lemma checkWorkDirs_None:
  "checkWorkDirs ws = None \<longleftrightarrow> (\<forall>w \<in> set ws. CheckRelPath w = None) \<and> distinct ws"
proof -
  have "checkWorkDirs ws = None \<longleftrightarrow>
    (\<forall>w \<in> set ws. CheckRelPath w = None) \<and> distinct (map (\<lambda>w. w) ws)"
    unfolding checkWorkDirs_def by (rule check_prev_keyed) simp
  then show ?thesis by simp
qed

lemma CheckLoad_work_dirs:
  assumes "CheckLoad d l = None"
  shows "(\<forall>w \<in> set (lo_work_dirs l). CheckRelPath w = None) \<and> distinct (lo_work_dirs l) \<and>
         length (lo_work_dirs l) \<le> MaxLoadWorkDirs \<and>
         (lo_work_dirs l \<noteq> [] \<longrightarrow> Has d CapSessionWorkDir)"
  using assms unfolding CheckLoad_def
  by (auto simp: checkWorkDirs_None split: option.splits if_splits)

end
