(* ===== verification/Contract_Broker.thy ===== *)
theory Contract_Broker
  imports Contract_Provision
begin

text \<open>
  \<^verbatim>\<open>pkg/contract/broker.go\<close> and \<^verbatim>\<open>CheckKeeper\<close> of \<^verbatim>\<open>keeper.go\<close>: the network a harness reaches
  (\<open>Egress\<close>), what stands in for a credential (\<open>PlaceholderResult\<close>) and the checks that keep
  a secret out of the harness's reach. The lemmas say what an accepted value guarantees.
\<close>

definition MinNonceBytes :: nat where "MinNonceBytes = 16"
definition MaxSwapBytes :: nat where "MaxSwapBytes = 16 * 2 ^ 10"

fun find_route :: "CredentialRoute list \<Rightarrow> string \<Rightarrow> CredentialRoute option" where
  "find_route [] kind = None"
| "find_route (r # rs) kind = (if cr_kind r = kind then Some r else find_route rs kind)"

definition Route :: "Egress option \<Rightarrow> string \<Rightarrow> CredentialRoute option" where
  "Route e kind = (case e of None \<Rightarrow> None | Some eg \<Rightarrow> find_route (eg_credentials eg) kind)"

record PlaceholderRequest =
  ph_contract :: string
  ph_kind :: string
  ph_model :: string
  ph_credential :: string
  ph_nonce :: string

record Swap =
  sw_placeholder :: string
  sw_secret :: string
  sw_hosts :: "string list"
  sw_headers :: "string list"

record PlaceholderResult =
  pl_file :: string
  pl_swaps :: "Swap list"

definition subset_of :: "string list \<Rightarrow> string list \<Rightarrow> bool" where
  "subset_of part whole \<longleftrightarrow> list_all (supports whole) part"

definition subsetFold :: "string list \<Rightarrow> string list \<Rightarrow> bool" where
  "subsetFold part whole \<longleftrightarrow> list_all (\<lambda>p. list_ex (equal_fold p) whole) part"

definition visible :: "char \<Rightarrow> bool" where
  "visible c \<longleftrightarrow> \<not> (ord c < 33 \<or> ord c > 126)"

definition headerValue :: "string \<Rightarrow> goerror option" where
  "headerValue v =
     (if v = [] \<or> length v > MaxSwapBytes then Some Plain
      else guard_err (\<not> list_all visible v) Plain)"

definition checkSwap :: "CredentialRoute \<Rightarrow> nat \<Rightarrow> Swap list \<Rightarrow> Swap \<Rightarrow> Error option" where
  "checkSwap route i prev s =
     (let field = at_index ''swaps'' i in
      if headerValue (sw_placeholder s) \<noteq> None \<or> length (sw_placeholder s) < 16
        then Some (invalid_result (field @ ''.placeholder''))
      else if headerValue (sw_secret s) \<noteq> None then Some (invalid_result (field @ ''.secret''))
      else if sw_placeholder s \<in> sw_placeholder ` set prev
        then Some (invalid_result (field @ ''.placeholder''))
      else if sw_hosts s = [] \<or> \<not> subset_of (sw_hosts s) (cr_hosts route)
        then Some (invalid_result (field @ ''.hosts''))
      else guard_err (sw_headers s = [] \<or> \<not> subsetFold (sw_headers s) (cr_headers route))
             (invalid_result (field @ ''.headers'')))"

definition checkLeak :: "PlaceholderResult \<Rightarrow> nat \<Rightarrow> Swap \<Rightarrow> Error option" where
  "checkLeak r i s =
     (let e = invalid_result (at_index ''swaps'' i @ ''.secret'') in
      if sublist (sw_secret s) (pl_file r) then Some e
      else check_each (\<lambda>_ oth. guard_err (sublist (sw_secret s) (sw_placeholder oth) \<or>
                                        sublist (sw_placeholder oth) (sw_secret s)) e)
             (pl_swaps r))"

definition PlaceholderResult_Validate :: "PlaceholderResult \<Rightarrow> CredentialRoute \<Rightarrow> Error option" where
  "PlaceholderResult_Validate r route =
     (if pl_file r = [] then Some (invalid_result ''file'')
      else if pl_swaps r = [] then Some (invalid_result ''swaps'')
      else orelse (check_prev 0 (checkSwap route) [] (pl_swaps r))
                  (check_each (checkLeak r) (pl_swaps r)))"

section \<open>Hosts, field names and the Descriptor's egress\<close>

definition host_char :: "char \<Rightarrow> bool" where
  "host_char c \<longleftrightarrow> is_lower c \<or> is_digit c \<or> c = CHR ''-''"

definition valid_label :: "string \<Rightarrow> bool" where
  "valid_label l \<longleftrightarrow>
     \<not> (l = [] \<or> length l > 63 \<or> hd l = CHR ''-'' \<or> last l = CHR ''-'') \<and> list_all host_char l"

text \<open>\<^verbatim>\<open>strings.Trim(last, "0123456789")\<close>.\<close>

definition trim_digits :: "string \<Rightarrow> string" where
  "trim_digits s = rev (dropWhile is_digit (rev (dropWhile is_digit s)))"

definition ValidHost :: "string \<Rightarrow> bool" where
  "ValidHost h =
     (if length h > 253 then False
      else let labels = split_on (CHR ''.'') h in
        if length labels < 2 then False
        else if \<not> list_all valid_label labels then False
        else trim_digits (last labels) \<noteq> [])"

definition field_specials :: string where
  "field_specials = ''!#$%&'' @ CHR 0x27 # ''*+-.^_'' @ CHR 0x60 # ''|~''"

definition field_char :: "char \<Rightarrow> bool" where
  "field_char c \<longleftrightarrow> is_lower c \<or> is_upper c \<or> is_digit c \<or> c \<in> set field_specials"

definition validFieldName :: "string \<Rightarrow> bool" where
  "validFieldName s \<longleftrightarrow> \<not> (s = [] \<or> length s > 128) \<and> list_all field_char s"

definition checkRoute :: "Descriptor \<Rightarrow> nat \<Rightarrow> CredentialRoute list \<Rightarrow> CredentialRoute \<Rightarrow> Error option" where
  "checkRoute d i prev r =
     (let field = at_index ''egress.credentials'' i in
      if \<not> supports (d_credential_kinds d) (cr_kind r) then Some (invalid_result (field @ ''.kind''))
      else if cr_kind r \<in> cr_kind ` set prev then Some (invalid_result (field @ ''.kind''))
      else if cr_hosts r = [] \<or> cr_headers r = [] then Some (invalid_result field)
      else orelse
        (check_each (\<lambda>j h. guard_err (\<not> ValidHost h) (invalid_result (at_index (field @ ''.hosts'') j)))
           (cr_hosts r))
        (check_each (\<lambda>j h. guard_err (\<not> validFieldName h) (invalid_result (at_index (field @ ''.headers'') j)))
           (cr_headers r)))"

definition CheckEgress :: "Descriptor \<Rightarrow> Error option" where
  "CheckEgress d =
     (case d_egress d of
        None \<Rightarrow> guard_err (Has d CapBrokeredCredentials) (invalid_result ''egress'')
      | Some e \<Rightarrow>
          if \<not> Has d CapBrokeredCredentials then Some (invalid_result ''egress'')
          else orelse
            (check_each (\<lambda>i h. guard_err (\<not> ValidHost h) (invalid_result (at_index ''egress.hosts'' i)))
               (eg_hosts e))
            (check_prev 0 (checkRoute d) [] (eg_credentials e)))"

definition CheckKeeper :: "Descriptor \<Rightarrow> Error option" where
  "CheckKeeper d =
     (let e = invalid_result ''keeper'' in
      case d_keeper d of
        None \<Rightarrow> guard_err (Has d CapLoginKeeper) e
      | Some k \<Rightarrow>
          if \<not> Has d CapLoginKeeper then Some e
          else if \<not> supports (d_credential_kinds d) (k_kind k) then Some e
          else guard_err (Route (d_egress d) (k_kind k) = None \<or> \<not> Has d CapBrokeredCredentials) e)"

section \<open>What an accepted value guarantees\<close>

definition swap_ok :: "CredentialRoute \<Rightarrow> Swap \<Rightarrow> bool" where
  "swap_ok route s \<longleftrightarrow>
     headerValue (sw_placeholder s) = None \<and> 16 \<le> length (sw_placeholder s) \<and>
     headerValue (sw_secret s) = None \<and>
     sw_hosts s \<noteq> [] \<and> set (sw_hosts s) \<subseteq> set (cr_hosts route) \<and>
     sw_headers s \<noteq> [] \<and> subsetFold (sw_headers s) (cr_headers route)"

lemma subset_of_iff: "subset_of part whole \<longleftrightarrow> set part \<subseteq> set whole"
  by (auto simp: subset_of_def list_all_iff supports_def)

lemma checkSwap_None:
  "checkSwap route i prev s = None \<longleftrightarrow>
     swap_ok route s \<and> sw_placeholder s \<notin> sw_placeholder ` set prev"
  unfolding checkSwap_def swap_ok_def Let_def subset_of_iff by (simp add: not_less)

lemma checkLeak_None:
  "checkLeak r i s = None \<longleftrightarrow>
     \<not> sublist (sw_secret s) (pl_file r) \<and>
     (\<forall>oth \<in> set (pl_swaps r). \<not> sublist (sw_secret s) (sw_placeholder oth) \<and>
        \<not> sublist (sw_placeholder oth) (sw_secret s))"
  by (simp add: checkLeak_def Let_def check_from_None_set)

lemma checkLeaks_None:
  "check_from i (checkLeak r) ss = None \<longleftrightarrow> (\<forall>s \<in> set ss. checkLeak r 0 s = None)"
  by (induction ss arbitrary: i) (auto simp: checkLeak_None)

lemma PlaceholderResult_Validate_None:
  "PlaceholderResult_Validate r route = None \<longleftrightarrow>
     pl_file r \<noteq> [] \<and> pl_swaps r \<noteq> [] \<and>
     (\<forall>s \<in> set (pl_swaps r). swap_ok route s) \<and> distinct (map sw_placeholder (pl_swaps r)) \<and>
     (\<forall>s \<in> set (pl_swaps r). \<not> sublist (sw_secret s) (pl_file r) \<and>
        (\<forall>oth \<in> set (pl_swaps r). \<not> sublist (sw_secret s) (sw_placeholder oth) \<and>
           \<not> sublist (sw_placeholder oth) (sw_secret s)))"
proof -
  have "check_prev 0 (checkSwap route) [] (pl_swaps r) = None \<longleftrightarrow>
    (\<forall>s \<in> set (pl_swaps r). swap_ok route s) \<and> distinct (map sw_placeholder (pl_swaps r))"
    by (rule check_prev_keyed) (rule checkSwap_None)
  then show ?thesis
    by (simp add: PlaceholderResult_Validate_def checkLeaks_None checkLeak_None)
qed

text \<open>The two readings of a header's name: \<open>validFieldName\<close> is \<open>validToken\<close> with a bound.\<close>

lemma field_specials_ord:
  "c \<in> set field_specials \<longleftrightarrow>
     ord c \<in> {33, 35, 36, 37, 38, 39, 42, 43, 45, 46, 94, 95, 96, 124, 126}"
  by (simp add: field_specials_def of_char_eq_iff [where ?'a = nat, symmetric] del: of_char_eq_iff)

lemma separators_ord:
  "c \<in> set separators \<longleftrightarrow>
     ord c \<in> {34, 40, 41, 44, 47, 58, 59, 60, 61, 62, 63, 64, 91, 92, 93, 123, 125}"
  by (simp add: separators_def of_char_eq_iff [where ?'a = nat, symmetric] del: of_char_eq_iff)

lemma field_char_token: "field_char c = token_char c"
  unfolding field_char_def token_char_def field_specials_ord separators_ord
    is_lower_def is_upper_def is_digit_def insert_iff empty_iff
  by presburger

lemma find_route_Some: "find_route rs kind = Some r \<Longrightarrow> r \<in> set rs \<and> cr_kind r = kind"
  by (induction rs) (auto split: if_splits)

lemma find_route_distinct:
  "distinct (map cr_kind rs) \<Longrightarrow> r \<in> set rs \<Longrightarrow> find_route rs (cr_kind r) = Some r"
  by (induction rs) (auto simp: image_iff)

definition route_ok :: "Descriptor \<Rightarrow> CredentialRoute \<Rightarrow> bool" where
  "route_ok d r \<longleftrightarrow>
     supports (d_credential_kinds d) (cr_kind r) \<and> cr_hosts r \<noteq> [] \<and> cr_headers r \<noteq> [] \<and>
     (\<forall>h \<in> set (cr_hosts r). ValidHost h) \<and> (\<forall>h \<in> set (cr_headers r). validFieldName h)"

lemma guard_each_None:
  "check_from i (\<lambda>j x. guard_err (\<not> P x) (e j)) xs = None \<longleftrightarrow> (\<forall>x \<in> set xs. P x)"
  by (induction xs arbitrary: i) auto

lemma checkRoute_None:
  "checkRoute d i prev r = None \<longleftrightarrow> route_ok d r \<and> cr_kind r \<notin> cr_kind ` set prev"
  unfolding checkRoute_def route_ok_def Let_def by (simp add: guard_each_None)

lemma CheckEgress_None:
  "CheckEgress d = None \<longleftrightarrow>
     (case d_egress d of
        None \<Rightarrow> \<not> Has d CapBrokeredCredentials
      | Some e \<Rightarrow> Has d CapBrokeredCredentials \<and> (\<forall>h \<in> set (eg_hosts e). ValidHost h) \<and>
          (\<forall>r \<in> set (eg_credentials e). route_ok d r) \<and> distinct (map cr_kind (eg_credentials e)))"
proof -
  have "check_prev 0 (checkRoute d) [] rs = None \<longleftrightarrow>
    (\<forall>r \<in> set rs. route_ok d r) \<and> distinct (map cr_kind rs)" for rs
    by (rule check_prev_keyed) (rule checkRoute_None)
  then show ?thesis
    by (simp add: CheckEgress_def guard_each_None split: option.split)
qed

lemma trim_digits_ne: "trim_digits s \<noteq> [] \<longleftrightarrow> \<not> list_all is_digit s"
proof -
  have "rev (dropWhile is_digit (rev (dropWhile is_digit s))) = [] \<longleftrightarrow> list_all is_digit (dropWhile is_digit s)"
    by (simp add: dropWhile_eq_Nil_conv list_all_iff)
  also have "\<dots> \<longleftrightarrow> list_all is_digit s"
    by (metis (mono_tags, lifting) dropWhile_eq_Nil_conv hd_dropWhile list.pred_inject(1) list.set_sel(1) list_all_iff)
  finally show ?thesis by (simp add: trim_digits_def)
qed

lemma ValidHost_iff:
  "ValidHost h \<longleftrightarrow>
     length h \<le> 253 \<and> 2 \<le> length (split_on (CHR ''.'') h) \<and>
     list_all valid_label (split_on (CHR ''.'') h) \<and>
     \<not> list_all is_digit (last (split_on (CHR ''.'') h))"
  by (auto simp: ValidHost_def Let_def trim_digits_ne)

end
