(* ===== verification/Contract_Session.thy ===== *)
theory Contract_Session
  imports Contract_Paths
begin

text \<open>
  \<^verbatim>\<open>pkg/contract/session.go\<close> and \<^verbatim>\<open>observation.go\<close>: the requests of a Session with their
  validators, its state, and the observations an adapter reports. A time is nanoseconds since
  the epoch; an optional field (\<open>omitempty\<close> pointer) is an option, and a string enumeration is a
  datatype with a constructor for a value outside the set where the code meets one. The JSON
  payload of an observation is kept as the value that is encoded.
\<close>

section \<open>Opening\<close>

datatype OpenMode = OpenFresh | OpenReopen | OpenModeOther string

record Checkpoint =
  cp_format :: int
  cp_data :: string

definition Checkpoint_validate :: "Checkpoint option \<Rightarrow> Error option" where
  "Checkpoint_validate c =
     (case c of
        None \<Rightarrow> None
      | Some c \<Rightarrow>
          if cp_format c < 1 then Some (err_field CodeProtocol ''checkpoint.format'')
          else if length (cp_data c) > MaxCheckpointBytes then Some (err_field CodeProtocol ''checkpoint.data'')
          else None)"

record CredentialFile =
  cf_kind :: string
  cf_file :: string

record OpenRequest =
  or_mode :: OpenMode
  or_session_id :: string
  or_open_config :: string
  or_layout :: Layout
  or_credential :: "CredentialFile option"
  or_checkpoint :: "Checkpoint option"
  or_loaded :: bool
  or_work_dir :: string

definition checkMode :: "OpenRequest \<Rightarrow> Error option" where
  "checkMode r =
     (case or_mode r of
        OpenFresh \<Rightarrow> guard_err (or_checkpoint r \<noteq> None) (err_field CodeProtocol ''checkpoint'')
      | OpenReopen \<Rightarrow> guard_err (or_session_id r = []) (err_field CodeProtocol ''session_id'')
      | OpenModeOther _ \<Rightarrow> Some (err_field CodeProtocol ''mode''))"

definition OpenRequest_Validate :: "OpenRequest \<Rightarrow> Error option" where
  "OpenRequest_Validate r =
     orelse (checkMode r)
    (orelse (guard_err (or_loaded r \<and> or_mode r \<noteq> OpenReopen) (err_field CodeProtocol ''loaded''))
    (orelse (guard_err (or_session_id r \<noteq> [] \<and> \<not> ValidID (or_session_id r)) (err_field CodeProtocol ''session_id''))
    (orelse (guard_err (length (or_open_config r) > MaxOpenConfigBytes) (err_field CodeProtocol ''open_config''))
    (orelse (CheckWorkDir (or_work_dir r))
            (Checkpoint_validate (or_checkpoint r))))))"

text \<open>What an accepted request is.\<close>

lemma OpenRequest_Validate_None:
  "OpenRequest_Validate r = None \<longleftrightarrow>
     (or_mode r = OpenFresh \<and> or_checkpoint r = None \<and> \<not> or_loaded r \<or>
      or_mode r = OpenReopen \<and> or_session_id r \<noteq> []) \<and>
     (or_session_id r \<noteq> [] \<longrightarrow> ValidID (or_session_id r)) \<and>
     length (or_open_config r) \<le> MaxOpenConfigBytes \<and>
     (or_work_dir r = [] \<or> CheckRelPath (or_work_dir r) = None) \<and>
     (\<forall>c. or_checkpoint r = Some c \<longrightarrow> 1 \<le> cp_format c \<and> length (cp_data c) \<le> MaxCheckpointBytes)"
  by (cases "or_mode r"; cases "or_checkpoint r")
    (auto simp: OpenRequest_Validate_def checkMode_def Checkpoint_validate_def CheckWorkDir_def not_less
      split: option.splits if_splits)

section \<open>Input\<close>

record ContentPart =
  p_type :: string
  p_text :: string

record Input =
  in_id :: string
  in_content :: "ContentPart list"

definition ContentText :: string where "ContentText = ''text''"

definition TextInput :: "string \<Rightarrow> string \<Rightarrow> Input" where
  "TextInput inputID text = \<lparr>in_id = inputID, in_content = [\<lparr>p_type = ContentText, p_text = text\<rparr>]\<rparr>"

abbreviation refused :: "Code \<Rightarrow> Error" where
  "refused c \<equiv> (err c)\<lparr>e_certainty := Some NotSubmitted\<rparr>"

text \<open>
  The loop over the parts: the first part of another type is the error, otherwise the size of
  the texts and whether one of them is nonempty.
\<close>

fun scan_parts :: "nat \<Rightarrow> bool \<Rightarrow> ContentPart list \<Rightarrow> Error + nat \<times> bool" where
  "scan_parts n text [] = Inr (n, text)"
| "scan_parts n text (p # ps) =
     (if p_type p \<noteq> ContentText then Inl (refused CodeInvalidInput)
      else scan_parts (n + length (p_text p)) (text \<or> p_text p \<noteq> []) ps)"

definition Input_Validate :: "int \<Rightarrow> Input \<Rightarrow> Error option" where
  "Input_Validate maxBytes i =
     (if \<not> ValidID (in_id i) then Some ((refused CodeProtocol)\<lparr>e_field := ''input_id''\<rparr>)
      else if in_content i = [] then Some (refused CodeInvalidInput)
      else
        case scan_parts 0 False (in_content i) of
          Inl e \<Rightarrow> Some e
        | Inr (n, text) \<Rightarrow>
            if \<not> text then Some (refused CodeInvalidInput)
            else if maxBytes > 0 \<and> int n > maxBytes then Some (refused CodeInvalidInput)
            else None)"

definition JoinText :: "Input \<Rightarrow> string" where
  "JoinText i =
     foldl (\<lambda>s (k, p). s @ (if k > 0 then [CHR 0x0A] else []) @ p_text p) []
       (enumerate 0 (in_content i))"

lemma scan_parts_Inl: "scan_parts n b ps = Inl e \<Longrightarrow> e = refused CodeInvalidInput"
  by (induction n b ps rule: scan_parts.induct) (auto split: if_splits)

lemma scan_parts_Inr:
  "scan_parts n b ps = Inr (m, t) \<longleftrightarrow>
     (\<forall>p \<in> set ps. p_type p = ContentText) \<and> m = n + sum_list (map (length \<circ> p_text) ps) \<and>
     t = (b \<or> (\<exists>p \<in> set ps. p_text p \<noteq> []))"
  by (induction n b ps arbitrary: m t rule: scan_parts.induct) auto

lemma Input_Validate_None:
  "Input_Validate maxBytes i = None \<longleftrightarrow>
     ValidID (in_id i) \<and> (\<forall>p \<in> set (in_content i). p_type p = ContentText) \<and>
     (\<exists>p \<in> set (in_content i). p_text p \<noteq> []) \<and>
     (0 < maxBytes \<longrightarrow> int (sum_list (map (length \<circ> p_text) (in_content i))) \<le> maxBytes)"
proof (cases "scan_parts 0 False (in_content i)")
  case (Inl e)
  then have "\<not> (\<forall>p \<in> set (in_content i). p_type p = ContentText)"
    using scan_parts_Inr [of 0 False "in_content i"] by fastforce
  with Inl show ?thesis by (auto simp: Input_Validate_def)
next
  case (Inr r)
  obtain n t where "r = (n, t)" by (cases r)
  with Inr show ?thesis
    using scan_parts_Inr [of 0 False "in_content i" n t]
    by (auto simp: Input_Validate_def not_less)
qed

text \<open>An input that is refused was never handed to the harness, and the error says so.\<close>

lemma Input_Validate_certainty:
  "Input_Validate maxBytes i = Some e \<Longrightarrow> e_certainty e = Some NotSubmitted"
  by (auto simp: Input_Validate_def dest!: scan_parts_Inl split: if_splits sum.splits prod.splits)

lemma JoinText_join_on: "JoinText i = join_on (CHR 0x0A) (map p_text (in_content i))"
proof -
  let ?f = "\<lambda>s (k, p). s @ (if k > (0::nat) then [CHR 0x0A] else []) @ p_text p"
  have later: "0 < k \<Longrightarrow> foldl ?f s (enumerate k ps) = s @ concat (map (\<lambda>p. CHR 0x0A # p_text p) ps)" for k s ps
    by (induction ps arbitrary: k s) (auto)
  have joined: "join_on (CHR 0x0A) (map p_text (p # ps)) = p_text p @ concat (map (\<lambda>p. CHR 0x0A # p_text p) ps)" for p ps
    by (induction ps arbitrary: p) auto
  show ?thesis
  proof (cases "in_content i")
    case (Cons p ps)
    then show ?thesis using joined [of p ps] by (simp add: JoinText_def later)
  qed (simp add: JoinText_def)
qed

section \<open>Interrupts and answers\<close>

record InterruptRequest =
  ir_input_id :: string
  ir_turn_id :: string
  ir_deadline_ms :: int

definition Deadline :: "InterruptRequest \<Rightarrow> int" where
  "Deadline r =
     (if ir_deadline_ms r \<le> 0 then DefaultInterruptDeadline else wrap64 (ir_deadline_ms r * Millisecond))"

definition InterruptRequest_Validate :: "InterruptRequest \<Rightarrow> Error option" where
  "InterruptRequest_Validate r =
     (if ir_input_id r \<noteq> [] \<and> ir_turn_id r \<noteq> [] then Some (err_field CodeProtocol ''turn_id'')
      else if ir_turn_id r \<noteq> [] \<and> \<not> ValidID (ir_turn_id r) then Some (err_field CodeProtocol ''turn_id'')
      else if ir_turn_id r = [] \<and> \<not> ValidID (ir_input_id r) then Some (err_field CodeProtocol ''input_id'')
      else if ir_deadline_ms r \<noteq> 0 \<and> (Deadline r < MinInterruptDeadline \<or> Deadline r > MaxInterruptDeadline)
      then Some (err_field CodeProtocol ''deadline_ms'')
      else None)"

datatype InterruptOutcome = InterruptStopped | InterruptCancelled | InterruptNoTurn | InterruptTooLate

record Choice =
  c_option_id :: string
  c_option_ids :: "string list"
  c_text :: string

definition Choice_Validate :: "Choice \<Rightarrow> Error option" where
  "Choice_Validate c =
     (let n = (if c_option_id c \<noteq> [] then 1 else 0) + (if length (c_option_ids c) > 0 then 1 else 0) +
              (if c_text c \<noteq> [] then 1 else 0 :: nat)
      in if n \<noteq> 1 then Some (err CodeInvalidChoice) else None)"

lemma Choice_Validate_None:
  "Choice_Validate c = None \<longleftrightarrow>
     (c_option_id c \<noteq> [] \<and> c_option_ids c = [] \<and> c_text c = []) \<or>
     (c_option_id c = [] \<and> c_option_ids c \<noteq> [] \<and> c_text c = []) \<or>
     (c_option_id c = [] \<and> c_option_ids c = [] \<and> c_text c \<noteq> [])"
  by (auto simp: Choice_Validate_def Let_def)

lemma Deadline_range:
  "InterruptRequest_Validate r = None \<Longrightarrow> MinInterruptDeadline \<le> Deadline r \<and> Deadline r \<le> MaxInterruptDeadline"
  by (cases "ir_deadline_ms r = 0")
    (auto simp: InterruptRequest_Validate_def Deadline_def DefaultInterruptDeadline_def Second_def
      MinInterruptDeadline_def MaxInterruptDeadline_def Millisecond_def not_less split: if_splits)

lemma InterruptRequest_Validate_id:
  "InterruptRequest_Validate r = None \<Longrightarrow>
   (ir_turn_id r = [] \<and> ValidID (ir_input_id r)) \<or> (ir_input_id r = [] \<and> ValidID (ir_turn_id r))"
  by (auto simp: InterruptRequest_Validate_def split: if_splits)

section \<open>State\<close>

datatype Phase =
    PhaseUnopened | PhaseStarting | PhaseIdle | PhaseBusy | PhaseAwaitingAnswer | PhaseBlocked | PhaseExited

datatype BlockReason = BlockUsageLimited | BlockAuthRequired | BlockBilling | BlockUnrecognizedDialog

record Block =
  b_reason :: BlockReason
  b_resume_at :: "int option"

record PromptOption =
  po_id :: string
  po_label :: string

record PromptInfo =
  pi_prompt_id :: string
  pi_kind :: string
  pi_prompt :: string
  pi_options :: "PromptOption list"
  pi_multi_select :: bool

record RetryInfo =
  ri_attempt :: int
  ri_max :: int

datatype BackgroundKind = BackgroundCommand | BackgroundSubagent | BackgroundOther

record BackgroundTask =
  bt_id :: string
  bt_kind :: BackgroundKind
  bt_description :: string

record State =
  st_phase :: Phase
  st_turn_id :: string
  st_input_id :: string
  st_prompt :: "PromptInfo option"
  st_block :: "Block option"
  st_retry :: "RetryInfo option"
  st_background :: "BackgroundTask list"

datatype CloseReason = ClosePark | CloseDelete | CloseUpgrade | CloseReset | CloseOther string

record CloseResult =
  cl_stopped :: bool
  cl_drained :: bool

record OpenResult =
  op_session_id :: string
  op_state :: State
  op_harness_version :: string

record SendResult =
  sr_turn_id :: string

record RecordRequest =
  rr_session_id :: string
  rr_open_config :: string
  rr_layout :: Layout
  rr_checkpoint :: "Checkpoint option"
  rr_work_dir :: string

datatype RecoveredOutcome =
    RecoveredCompleted | RecoveredErrored | RecoveredInterrupted | RecoveredCancelled
  | RecoveredRefused | RecoveredNotFound | RecoveredUnknown

record Recovered =
  rc_outcome :: RecoveredOutcome
  rc_turn_id :: string

section \<open>Observations\<close>

datatype Kind =
    KindTurnStarted | KindTurnEnded | KindUserInput | KindAssistantText | KindToolUse | KindToolResult
  | KindAPIError | KindTextDelta | KindToolStarted | KindToolFinished | KindSubagentStarted
  | KindSubagentStopped | KindPromptRaised | KindPromptResolved | KindRateLimit | KindRetrying
  | KindBlocked | KindUnblocked | KindSessionExited | KindBackgroundTasks

fun kind_text :: "Kind \<Rightarrow> string" where
  "kind_text KindTurnStarted = ''turn_started''"
| "kind_text KindTurnEnded = ''turn_ended''"
| "kind_text KindUserInput = ''user_input''"
| "kind_text KindAssistantText = ''assistant_text''"
| "kind_text KindToolUse = ''tool_use''"
| "kind_text KindToolResult = ''tool_result''"
| "kind_text KindAPIError = ''api_error''"
| "kind_text KindTextDelta = ''text_delta''"
| "kind_text KindToolStarted = ''tool_started''"
| "kind_text KindToolFinished = ''tool_finished''"
| "kind_text KindSubagentStarted = ''subagent_started''"
| "kind_text KindSubagentStopped = ''subagent_stopped''"
| "kind_text KindPromptRaised = ''prompt_raised''"
| "kind_text KindPromptResolved = ''prompt_resolved''"
| "kind_text KindRateLimit = ''rate_limit''"
| "kind_text KindRetrying = ''retrying''"
| "kind_text KindBlocked = ''blocked''"
| "kind_text KindUnblocked = ''unblocked''"
| "kind_text KindSessionExited = ''session_exited''"
| "kind_text KindBackgroundTasks = ''background_tasks''"

fun Kind_Capability :: "Kind \<Rightarrow> Capability option" where
  "Kind_Capability KindTextDelta = Some CapStreamingText"
| "Kind_Capability KindToolStarted = Some CapToolsObserved"
| "Kind_Capability KindToolFinished = Some CapToolsObserved"
| "Kind_Capability KindSubagentStarted = Some CapSubagents"
| "Kind_Capability KindSubagentStopped = Some CapSubagents"
| "Kind_Capability KindPromptRaised = Some CapPrompts"
| "Kind_Capability KindPromptResolved = Some CapPrompts"
| "Kind_Capability KindRateLimit = Some CapRateLimits"
| "Kind_Capability KindRetrying = Some CapRetryVisible"
| "Kind_Capability KindBackgroundTasks = Some CapBackgroundTurns"
| "Kind_Capability _ = None"

datatype Origin = OriginRecord | OriginLive

datatype TurnOutcome = TurnCompleted | TurnErrored | TurnInterrupted | TurnCancelled | TurnRefused

datatype ErrorClass =
  ErrorAPI | ErrorOverloaded | ErrorUsageLimit | ErrorAuth | ErrorBilling | ErrorMaxOutput | ErrorInternal

record TurnError =
  te_class :: ErrorClass
  te_http_status :: int
  te_retry_after_s :: int
  te_resume_at :: "int option"

record TurnEndedData =
  ted_outcome :: TurnOutcome
  ted_text :: string
  ted_error :: "TurnError option"

record RetryingData =
  rd_attempt :: int
  rd_max :: int
  rd_delay_ms :: int
  rd_http_status :: int

datatype ExitClass = ExitClean | ExitCrashed | ExitKilled | ExitBinaryMissing | ExitAuth

record SessionExitedData =
  se_class :: ExitClass
  se_exit_code :: "int option"
  se_signal :: string
  se_detail :: string

record RateLimitWindow =
  rw_name :: string
  rw_used_pct :: "string option"
  rw_resets_at :: "int option"

record RateLimitData =
  rl_status :: string
  rl_windows :: "RateLimitWindow list"

text \<open>
  The payloads the Session makes itself (a percentage, a float the code only passes on, is its
  decimal text); what a profile's reader puts in a record
  observation is \<open>DataRaw\<close>, its encoding.
\<close>

datatype ObsData =
    DataEmpty
  | DataTurnEnded TurnEndedData
  | DataRetrying RetryingData
  | DataBackground "BackgroundTask list"
  | DataRateLimit RateLimitData
  | DataPrompt PromptInfo
  | DataPromptResolved string string
  | DataBlock Block
  | DataExited SessionExitedData
  | DataRaw string

record Observation =
  o_id :: string
  o_kind :: Kind
  o_origin :: Origin
  o_time :: int
  o_turn_id :: string
  o_input_id :: string
  o_entry :: string
  o_data :: ObsData
  o_truncated :: bool

definition ObservationID :: "Kind \<Rightarrow> string \<Rightarrow> string" where
  "ObservationID kind key = kind_text kind @ '':'' @ key"

definition NewObservation :: "Kind \<Rightarrow> string \<Rightarrow> Origin \<Rightarrow> int \<Rightarrow> ObsData \<Rightarrow> Observation" where
  "NewObservation kind key origin at data =
     \<lparr>o_id = ObservationID kind key, o_kind = kind, o_origin = origin, o_time = at, o_turn_id = [],
      o_input_id = [], o_entry = [], o_data = data, o_truncated = False\<rparr>"

definition Observation_Key :: "Observation \<Rightarrow> string" where
  "Observation_Key ob =
     (case cut_prefix (kind_text (o_kind ob) @ '':'') (o_id ob) of Some key \<Rightarrow> key | None \<Rightarrow> o_id ob)"

record Reset =
  re_reason :: string
  re_previous :: "Checkpoint option"

record Rescan =
  rs_reason :: string

record Fault =
  fa_kind :: string
  fa_detail :: string

record Batch =
  ba_id :: string
  ba_items :: "Observation list"
  ba_checkpoint :: "Checkpoint option"
  ba_reset :: "Reset option"
  ba_rescan :: "Rescan option"
  ba_faults :: "Fault list"
  ba_end_of_record :: bool

definition empty_batch :: Batch where
  "empty_batch =
     \<lparr>ba_id = [], ba_items = [], ba_checkpoint = None, ba_reset = None, ba_rescan = None,
      ba_faults = [], ba_end_of_record = False\<rparr>"

definition NeedsAck :: "Batch \<Rightarrow> bool" where
  "NeedsAck b \<longleftrightarrow> ba_id b \<noteq> []"

text \<open>A kind's text holds no colon, so an observation's id gives its kind and its key.\<close>

lemma kind_text_no_colon: "CHR '':'' \<notin> set (kind_text k)"
  by (cases k) simp_all

lemma kind_text_inj: "kind_text k = kind_text k' \<longleftrightarrow> k = k'"
  by (cases k; cases k') simp_all

lemma append_sep_eq:
  "c \<notin> set xs \<Longrightarrow> c \<notin> set ys \<Longrightarrow> xs @ c # us = ys @ c # vs \<longleftrightarrow> xs = ys \<and> us = vs"
proof (induction xs arbitrary: ys)
  case Nil
  then show ?case by (cases ys) auto
next
  case (Cons x xs)
  then show ?case by (cases ys) auto
qed

lemma ObservationID_inj: "ObservationID k x = ObservationID k' y \<longleftrightarrow> k = k' \<and> x = y"
  using append_sep_eq [OF kind_text_no_colon kind_text_no_colon, of k x k' y]
  by (auto simp: ObservationID_def kind_text_inj)

lemma Observation_Key_New: "Observation_Key (NewObservation k key orig at d) = key"
  by (simp add: Observation_Key_def NewObservation_def ObservationID_def cut_prefix_def)

end
