(* ===== verification/Contract_Properties.thy ===== *)
theory Contract_Properties
  imports Contract_Broker Contract_Session
begin

text \<open>
  What the validators of \<^verbatim>\<open>pkg/contract\<close> guarantee of a value they accept, stated over the
  definitions of the contract theories.
\<close>

text \<open>
  a version is read exactly when it is written as the contract writes it: \<open>ParseVersion\<close>
  accepts the text of every version with a positive int64 major and a non-negative minor, gives
  back its numbers, and accepts nothing else.
\<close>

lemma version_roundtrip:
  "ParseVersion v = Some (a, b) \<longleftrightarrow>
     1 \<le> a \<and> a < 2 ^ 63 \<and> 0 \<le> b \<and> b < 2 ^ 63 \<and> v = version_text a b"
  using ParseVersion_sound [of v a b] ParseVersion_complete [of a b] by blast


definition demo_result :: ProvisionResult where
  "demo_result =
     \<lparr>res_files = [\<lparr>f_root = RootConfig, f_path = ''a/b'', f_mode = ''0600'', f_text = Some ''x'', f_bytes = None\<rparr>],
      res_open_config = ''{}'', res_history_roots = [\<lparr>rp_root = RootHome, rp_path = ''h''\<rparr>],
      res_secret_paths = [],
      res_relocations = [\<lparr>rel_from = \<lparr>rp_root = RootHome, rp_path = ''h/a''\<rparr>,
                          rel_to = \<lparr>rp_root = RootHome, rp_path = ''h/b''\<rparr>\<rparr>],
      res_rewrites = []\<rparr>"

lemma demo_paths: "CheckRelPath ''a/b'' = None" "CheckRelPath ''h/a'' = None" "CheckRelPath ''h/b'' = None"
    "CheckRelPath ''h'' = None"
  by (simp_all add: CheckRelPath_iff proper_comp_def valid_string_def)

lemma demo_mode: "parse_octal ''0600'' = Some 384"
  by (simp add: parse_octal_def octal_value_def)

lemma demo_result_valid: "ProvisionResult_Validate demo_result = None"
  by (simp add: demo_result_def ProvisionResult_Validate_def checkFile_def checkRelocation_def checkPath_def
      demo_paths FileMode_def demo_mode Let_def Archived_def Within_def MaxOpenConfigBytes_def)


text \<open>
  a validated placeholder result leaks no secret. No swap's secret occurs in the file the
  harness is given, nor in any placeholder, nor a placeholder in a secret; placeholders are
  distinct; and a secret is only put in a request to hosts and headers of the credential's
  route.
\<close>

lemma placeholder_no_leak:
  assumes "PlaceholderResult_Validate r route = None" and "s \<in> set (pl_swaps r)"
  shows "\<not> sublist (sw_secret s) (pl_file r) \<and> sw_secret s \<noteq> [] \<and>
    (\<forall>oth \<in> set (pl_swaps r). \<not> sublist (sw_secret s) (sw_placeholder oth) \<and>
       \<not> sublist (sw_placeholder oth) (sw_secret s) \<and>
       (sw_placeholder oth = sw_placeholder s \<longrightarrow> oth = s)) \<and>
    set (sw_hosts s) \<subseteq> set (cr_hosts route) \<and>
    (\<forall>h \<in> set (sw_headers s). \<exists>h' \<in> set (cr_headers route). equal_fold h h')"
proof -
  from assms(1) have ok: "\<forall>s \<in> set (pl_swaps r). swap_ok route s"
    and dist: "distinct (map sw_placeholder (pl_swaps r))"
    and leak: "\<forall>s \<in> set (pl_swaps r). \<not> sublist (sw_secret s) (pl_file r) \<and>
        (\<forall>oth \<in> set (pl_swaps r). \<not> sublist (sw_secret s) (sw_placeholder oth) \<and>
           \<not> sublist (sw_placeholder oth) (sw_secret s))"
    by (simp_all add: PlaceholderResult_Validate_None)
  have "inj_on sw_placeholder (set (pl_swaps r))" using dist by (simp add: distinct_map)
  then have "\<forall>oth \<in> set (pl_swaps r). sw_placeholder oth = sw_placeholder s \<longrightarrow> oth = s"
    using assms(2) by (auto dest: inj_onD)
  moreover have "swap_ok route s" using ok assms(2) by blast
  then have "sw_secret s \<noteq> []" "set (sw_hosts s) \<subseteq> set (cr_hosts route)"
    "\<forall>h \<in> set (sw_headers s). \<exists>h' \<in> set (cr_headers route). equal_fold h h'"
    by (auto simp: swap_ok_def headerValue_def subsetFold_def list_all_iff list_ex_iff split: if_splits)
  ultimately show ?thesis using leak assms(2) by blast
qed

definition demo_route :: CredentialRoute where
  "demo_route = \<lparr>cr_kind = ''key'', cr_hosts = [''api.example.com''], cr_headers = [''Authorization'']\<rparr>"

definition demo_swap :: Swap where
  "demo_swap = \<lparr>sw_placeholder = ''hw-placeholder-00'', sw_secret = ''s3cret'',
                sw_hosts = [''api.example.com''], sw_headers = [''authorization'']\<rparr>"

text \<open>
  The two readings of a header's name agree: a field name a credential may be put in is an
  HTTP token of at most 128 characters.
\<close>

lemma field_name_is_token: "validFieldName s \<longleftrightarrow> validToken s \<and> length s \<le> 128"
proof -
  have "field_char = token_char" by (rule ext) (rule field_char_token)
  then show ?thesis by (auto simp: validFieldName_def validToken_def)
qed

text \<open>
  a Descriptor whose egress and keeper are accepted is usable: every credential route is
  found by its kind, names hosts that are host names and headers that are tokens, and the
  keeper's kind has such a route.
\<close>

lemma descriptor_routes:
  assumes "CheckEgress d = None" and "CheckKeeper d = None"
  shows "(\<forall>e r. d_egress d = Some e \<longrightarrow> r \<in> set (eg_credentials e) \<longrightarrow>
       Route (d_egress d) (cr_kind r) = Some r \<and> (\<forall>h \<in> set (cr_hosts r). ValidHost h) \<and>
       (\<forall>h \<in> set (cr_headers r). validToken h)) \<and>
     (\<forall>k. d_keeper d = Some k \<longrightarrow>
       (\<exists>r. Route (d_egress d) (k_kind k) = Some r \<and> cr_kind r = k_kind k \<and> route_ok d r))"
proof (intro conjI allI impI)
  fix e r
  assume e: "d_egress d = Some e" and r: "r \<in> set (eg_credentials e)"
  from assms(1) e have "route_ok d r" "distinct (map cr_kind (eg_credentials e))"
    using r by (auto simp: CheckEgress_None)
  then show "Route (d_egress d) (cr_kind r) = Some r" "\<forall>h \<in> set (cr_hosts r). ValidHost h"
    "\<forall>h \<in> set (cr_headers r). validToken h"
    using e r find_route_distinct [of "eg_credentials e" r]
    by (auto simp: Route_def route_ok_def validFieldName_def validToken_def list_all_iff field_char_token)
next
  fix k
  assume k: "d_keeper d = Some k"
  with assms(2) obtain r where r: "Route (d_egress d) (k_kind k) = Some r"
    by (auto simp: CheckKeeper_def Let_def split: if_splits)
  then obtain e where e: "d_egress d = Some e" "find_route (eg_credentials e) (k_kind k) = Some r"
    by (auto simp: Route_def split: option.splits)
  from find_route_Some [OF e(2)] assms(1) e(1) r
  show "\<exists>r. Route (d_egress d) (k_kind k) = Some r \<and> cr_kind r = k_kind k \<and> route_ok d r"
    by (auto simp: CheckEgress_None)
qed

definition demo_descriptor :: Descriptor where
  "demo_descriptor =
     \<lparr>d_contract = ''harness-adapter/1.9'', d_harness = \<lparr>h_name = ''h'', h_version = ''1'', h_adapter = ''a''\<rparr>,
      d_capabilities = [CapBrokeredCredentials, CapLoginKeeper], d_checkpoint_format = 1,
      d_credential_kinds = [''key''],
      d_spec = \<lparr>ss_models = \<lparr>m_any = True, m_ids = []\<rparr>, ss_efforts = [], ss_instructions = [], ss_skills = False,
                ss_memory = False, ss_connectors = [], ss_postures = [], ss_input_content = []\<rparr>,
      d_limits = \<lparr>l_max_input_bytes = 0, l_max_sessions = 0\<rparr>, d_load = None,
      d_egress = Some \<lparr>eg_hosts = [], eg_credentials = [demo_route]\<rparr>,
      d_keeper = Some \<lparr>k_kind = ''key''\<rparr>\<rparr>"

text \<open>
  an interrupt whose request is accepted names exactly one turn by an id, and waits for at
  least 100 ms and at most 60 s.
\<close>

lemma interrupt_request_bounds:
  assumes "InterruptRequest_Validate r = None"
  shows "100 * Millisecond \<le> Deadline r \<and> Deadline r \<le> 60 * Second \<and>
    (ir_input_id r = [] \<longleftrightarrow> ir_turn_id r \<noteq> []) \<and> (ValidID (ir_input_id r) \<or> ValidID (ir_turn_id r))"
  using Deadline_range [OF assms] InterruptRequest_Validate_id [OF assms]
  by (auto simp: MinInterruptDeadline_def MaxInterruptDeadline_def ValidID_def)

text \<open>
  the documented range of \<open>deadline_ms\<close>, 100 to 60000, is not what is checked: a negative
  value is accepted and stands for the default, and a value whose nanoseconds wrap around int64
  into the range is accepted too.
\<close>

lemma interrupt_deadline_unchecked:
  "InterruptRequest_Validate \<lparr>ir_input_id = ''i'', ir_turn_id = [], ir_deadline_ms = -5\<rparr> = None \<and>
   InterruptRequest_Validate \<lparr>ir_input_id = ''i'', ir_turn_id = [], ir_deadline_ms = 2 ^ 58 + 1000\<rparr> = None \<and>
   Deadline \<lparr>ir_input_id = ''i'', ir_turn_id = [], ir_deadline_ms = 2 ^ 58 + 1000\<rparr> = Second"
  by code_simp

text \<open>
  The id of an observation determines its kind and its key, and \<open>Key\<close> reads the key back.
\<close>

lemma observation_id_roundtrip:
  "(ObservationID k x = ObservationID k' y \<longleftrightarrow> k = k' \<and> x = y) \<and>
   Observation_Key (NewObservation k x orig at d) = x"
  by (simp add: ObservationID_inj Observation_Key_New)

end
