(* ===== verification/Adapter_Cursor.thy ===== *)
theory Adapter_Cursor
  imports Contract_Session
begin

text \<open>
  \<^verbatim>\<open>pkg/adapter/cursor.go\<close>: the cursor that delivers observations as batches, the live ones in
  the order they were learned and the record's a chunk at a time. The sizes of JSON encodings
  are parameters (\<open>CodecSizes\<close>), and so is what the profile's \<open>Reader\<close> returns: no theorem
  here depends on either. A reader's own handle on a chunk (\<open>Token\<close>) is the type variable
  \<open>'t\<close>. The notify channel, closed and replaced on a change, is the number of the one in place.
\<close>

section \<open>Chunks, entries and the cursor\<close>

record 't Chunk =
  ch_items :: "Observation list"
  ch_checkpoint :: "Checkpoint option"
  ch_reset :: "Reset option"
  ch_rescan :: "Rescan option"
  ch_faults :: "Fault list"
  ch_token :: 't

definition Chunk_empty :: "'t Chunk \<Rightarrow> bool" where
  "Chunk_empty c \<longleftrightarrow>
     ch_items c = [] \<and> ch_checkpoint c = None \<and> ch_reset c = None \<and> ch_rescan c = None \<and> ch_faults c = []"

text \<open>\<open>encodedSize\<close>, \<open>metaSize\<close> and \<open>checkpointSize\<close>.\<close>

record 't CodecSizes =
  encodedSize :: "Observation \<Rightarrow> nat"
  metaSize :: "'t Chunk \<Rightarrow> nat"
  checkpointSize :: "Checkpoint \<Rightarrow> nat"

record 't centry =
  en_obs :: "Observation option"
  en_size :: int
  en_meta :: "'t Chunk option"
  en_last :: bool

record 't cursor =
  cu_queue :: "'t centry list"
  cu_chunk :: "'t Chunk option"
  cu_out :: "Batch option"
  cu_outN :: nat
  cu_outCommit :: bool
  cu_lastAcked :: string
  cu_seq :: nat
  cu_observing :: bool
  cu_notify :: nat
  cu_endOfRec :: bool

definition newCursor :: "bool \<Rightarrow> 't cursor" where
  "newCursor endOfRecord =
     \<lparr>cu_queue = [], cu_chunk = None, cu_out = None, cu_outN = 0, cu_outCommit = False,
      cu_lastAcked = [], cu_seq = 0, cu_observing = False, cu_notify = 0, cu_endOfRec = endOfRecord\<rparr>"

definition wakeLocked :: "'t cursor \<Rightarrow> 't cursor" where
  "wakeLocked c = c\<lparr>cu_notify := Suc (cu_notify c)\<rparr>"

definition batchOverhead :: int where "batchOverhead = 256"

definition bound :: "'t CodecSizes \<Rightarrow> Observation \<Rightarrow> Observation" where
  "bound z ob =
     (if int (encodedSize z ob) + batchOverhead \<le> MaxObserveBytes then ob
      else ob\<lparr>o_data := DataRaw ''{}'', o_truncated := True\<rparr>)"

section \<open>Queueing\<close>

definition live_entry :: "'t CodecSizes \<Rightarrow> Observation \<Rightarrow> 't centry" where
  "live_entry z ob =
     (let ob' = bound z ob in
      \<lparr>en_obs = Some ob', en_size = int (encodedSize z ob'), en_meta = None, en_last = False\<rparr>)"

definition push :: "'t CodecSizes \<Rightarrow> Observation list \<Rightarrow> 't cursor \<Rightarrow> 't cursor" where
  "push z obs c = wakeLocked (c\<lparr>cu_queue := cu_queue c @ map (live_entry z) obs\<rparr>)"

definition chunk_entries :: "'t CodecSizes \<Rightarrow> 't Chunk \<Rightarrow> 't centry list" where
  "chunk_entries z ch =
     (if ch_items ch = []
      then [\<lparr>en_obs = None, en_size = int (metaSize z ch), en_meta = Some ch, en_last = True\<rparr>]
      else map (\<lambda>(i, ob).
             let ob' = bound z ob in
             \<lparr>en_obs = Some ob',
              en_size = int (encodedSize z ob') + (if i = 0 then int (metaSize z ch) else 0),
              en_meta = (if i = 0 then Some ch else None),
              en_last = (i = length (ch_items ch) - 1)\<rparr>)
           (enumerate 0 (ch_items ch)))"

text \<open>
  \<open>read\<close>'s second region under the mutex, with the chunk the reader returned: another read may
  have queued one meanwhile.
\<close>

definition read_install :: "'t CodecSizes \<Rightarrow> 't Chunk \<Rightarrow> 't cursor \<Rightarrow> bool \<times> 't cursor" where
  "read_install z ch c =
     (if Chunk_empty ch \<or> cu_chunk c \<noteq> None then (False, c)
      else (True, wakeLocked (c\<lparr>cu_chunk := Some ch, cu_queue := cu_queue c @ chunk_entries z ch\<rparr>)))"

text \<open>\<open>rd\<close> is the reader's answer, \<open>None\<close> without a reader.\<close>

definition read ::
  "'t CodecSizes \<Rightarrow> (goerror + 't Chunk) option \<Rightarrow> 't cursor \<Rightarrow> (goerror + bool) \<times> 't cursor"
where
  "read z rd c =
     (if cu_chunk c \<noteq> None then (Inr False, c)
      else
        case rd of
          None \<Rightarrow> (Inr False, c)
        | Some (Inl e) \<Rightarrow> (Inl e, c)
        | Some (Inr ch) \<Rightarrow> (let (more, c') = read_install z ch c in (Inr more, c')))"

section \<open>Building a batch\<close>

definition entry_add :: "'t CodecSizes \<Rightarrow> 't Chunk option \<Rightarrow> 't centry \<Rightarrow> int" where
  "entry_add z chunk e =
     en_size e + 1 +
     (if en_last e then
        case chunk of
          None \<Rightarrow> 0
        | Some ch \<Rightarrow> (case ch_checkpoint ch of None \<Rightarrow> 0 | Some cp \<Rightarrow> int (checkpointSize z cp))
      else 0)"

text \<open>What one entry adds to the batch.\<close>

definition add_entry :: "'t Chunk option \<Rightarrow> 't centry \<Rightarrow> Batch \<Rightarrow> Batch" where
  "add_entry chunk e b =
     (let b1 = (case en_obs e of None \<Rightarrow> b | Some ob \<Rightarrow> b\<lparr>ba_items := ba_items b @ [ob]\<rparr>);
          b2 = (case en_meta e of
                  None \<Rightarrow> b1
                | Some m \<Rightarrow> b1\<lparr>ba_reset := ch_reset m, ba_rescan := ch_rescan m,
                               ba_faults := ba_faults b1 @ ch_faults m\<rparr>)
      in if en_last e
         then (case chunk of None \<Rightarrow> b2 | Some ch \<Rightarrow> b2\<lparr>ba_checkpoint := ch_checkpoint ch\<rparr>)
         else b2)"

fun build_loop ::
  "'t CodecSizes \<Rightarrow> 't Chunk option \<Rightarrow> int \<Rightarrow> int \<Rightarrow> nat \<Rightarrow> bool \<Rightarrow> Batch \<Rightarrow> 't centry list \<Rightarrow>
     Error + nat \<times> bool \<times> Batch"
where
  "build_loop z chunk maxBytes sz n commit b [] = Inr (n, commit, b)"
| "build_loop z chunk maxBytes sz n commit b (e # es) =
     (let add = entry_add z chunk e in
      if sz + add > maxBytes then
        if n = 0 then Inl ((err CodeBatchTooLarge)\<lparr>e_required_bytes := sz + add\<rparr>)
        else Inr (n, commit, b)
      else
        build_loop z chunk maxBytes (sz + add) (Suc n) (commit \<or> en_last e) (add_entry chunk e b) es)"

definition batch_id :: "nat \<Rightarrow> string" where
  "batch_id n = CHR ''b'' # itoa (int n)"

definition buildLocked :: "'t CodecSizes \<Rightarrow> int \<Rightarrow> 't cursor \<Rightarrow> (Error + Batch) \<times> 't cursor" where
  "buildLocked z maxBytes c =
     (case cu_out c of
        Some b \<Rightarrow> (Inr b, c)
      | None \<Rightarrow>
          case build_loop z (cu_chunk c) maxBytes batchOverhead 0 False empty_batch (cu_queue c) of
            Inl e \<Rightarrow> (Inl e, c)
          | Inr (n, commit, b) \<Rightarrow>
              let seq = Suc (cu_seq c); b' = b\<lparr>ba_id := batch_id seq\<rparr> in
              (Inr b', c\<lparr>cu_seq := seq, cu_out := Some b', cu_outN := n, cu_outCommit := commit\<rparr>))"

section \<open>Observe, ack and settled\<close>

definition observe_check :: "int \<Rightarrow> int \<Rightarrow> 't cursor \<Rightarrow> Error option" where
  "observe_check wait maxBytes c =
     (if wait < 0 \<or> wait > MaxObserveWait then Some (err_field CodeProtocol ''wait_ms'')
      else if maxBytes < MinObserveBytes \<or> maxBytes > MaxObserveBytes
      then Some (err_field CodeProtocol ''max_bytes'')
      else if cu_observing c then Some (Errorf CodeUnexpected)
      else None)"

text \<open>The region of a pass of \<open>observe\<close>'s loop after its read: an answer, or \<open>None\<close> to wait.\<close>

definition observe_look ::
  "'t CodecSizes \<Rightarrow> int \<Rightarrow> 't cursor \<Rightarrow> (Error + Batch) option \<times> 't cursor"
where
  "observe_look z maxBytes c =
     (if cu_out c \<noteq> None \<or> cu_queue c \<noteq> [] then (let (r, c') = buildLocked z maxBytes c in (Some r, c'))
      else if cu_endOfRec c \<and> cu_chunk c = None then (Some (Inr (empty_batch\<lparr>ba_end_of_record := True\<rparr>)), c)
      else (None, c))"

text \<open>
  The passes of an undisturbed \<open>observe\<close>, one per answer of the reader: after the last of them
  the wait is over (the deadline passed, or the context ended).
\<close>

fun observe_loop ::
  "'t CodecSizes \<Rightarrow> int \<Rightarrow> (goerror + 't Chunk) option list \<Rightarrow> 't cursor \<Rightarrow> (Error + Batch) \<times> 't cursor"
where
  "observe_loop z maxBytes [] c = (Inr empty_batch, c)"
| "observe_loop z maxBytes (rd # rds) c =
     (case read z rd c of
        (Inl e, c') \<Rightarrow> (Inl (err CodeInternal), c')
      | (Inr _, c') \<Rightarrow>
          (case observe_look z maxBytes c' of
             (Some r, c'') \<Rightarrow> (r, c'')
           | (None, c'') \<Rightarrow> observe_loop z maxBytes rds c''))"

definition observe ::
  "'t CodecSizes \<Rightarrow> int \<Rightarrow> int \<Rightarrow> (goerror + 't Chunk) option list \<Rightarrow> 't cursor \<Rightarrow> (Error + Batch) \<times> 't cursor"
where
  "observe z wait maxBytes rds c =
     (case observe_check wait maxBytes c of
        Some e \<Rightarrow> (Inl e, c)
      | None \<Rightarrow>
          let (r, c') = observe_loop z maxBytes rds (c\<lparr>cu_observing := True\<rparr>)
          in (r, c'\<lparr>cu_observing := False\<rparr>))"

text \<open>The second component is the chunk \<open>ack\<close> has the reader commit.\<close>

definition ack :: "string \<Rightarrow> 't cursor \<Rightarrow> Error option \<times> 't Chunk option \<times> 't cursor" where
  "ack batchID c =
     (if (case cu_out c of None \<Rightarrow> False | Some b \<Rightarrow> ba_id b = batchID) then
        (None, if cu_outCommit c then cu_chunk c else None,
         wakeLocked (c\<lparr>cu_queue := drop (cu_outN c) (cu_queue c), cu_lastAcked := batchID,
           cu_out := None, cu_outN := 0, cu_outCommit := False,
           cu_chunk := (if cu_outCommit c then None else cu_chunk c)\<rparr>))
      else if batchID \<noteq> [] \<and> batchID = cu_lastAcked c then (None, None, c)
      else (Some (Errorf CodeUnexpected), None, c))"

definition settled ::
  "'t CodecSizes \<Rightarrow> (goerror + 't Chunk) option \<Rightarrow> 't cursor \<Rightarrow> bool \<times> 't cursor"
where
  "settled z rd c =
     (if cu_out c \<noteq> None \<or> cu_queue c \<noteq> [] \<or> cu_chunk c \<noteq> None then (False, c)
      else let (r, c') = read z rd c in (r = Inr False, c'))"

section \<open>The system\<close>

text \<open>
  The cursor with what a property speaks of beside it: every observation queued, every
  observation in an acknowledged batch, in order, and the chunks the reader was told to
  commit. A step is one region under \<open>c.mu\<close>.
\<close>

record 't csys =
  cs_cur :: "'t cursor"
  cs_queued :: "Observation list"
  cs_acked :: "Observation list"
  cs_committed :: "'t Chunk list"

definition obs_of :: "'t centry list \<Rightarrow> Observation list" where
  "obs_of es = concat (map (\<lambda>e. case en_obs e of None \<Rightarrow> [] | Some ob \<Rightarrow> [ob]) es)"

definition cu_init :: "'t csys \<Rightarrow> bool" where
  "cu_init s \<longleftrightarrow>
     (\<exists>r. s = \<lparr>cs_cur = newCursor r, cs_queued = [], cs_acked = [], cs_committed = []\<rparr>)"

inductive cu_step :: "'t CodecSizes \<Rightarrow> 't csys \<Rightarrow> 't csys \<Rightarrow> bool" for z :: "'t CodecSizes" where
  push: "cu_step z s (s\<lparr>cs_cur := push z obs (cs_cur s), cs_queued := cs_queued s @ map (bound z) obs\<rparr>)"
| install: "read_install z ch (cs_cur s) = (fresh, c) \<Longrightarrow>
    cu_step z s (s\<lparr>cs_cur := c,
      cs_queued := cs_queued s @ (if fresh then map (bound z) (ch_items ch) else [])\<rparr>)"
| observing: "cu_step z s (s\<lparr>cs_cur := (cs_cur s)\<lparr>cu_observing := v\<rparr>\<rparr>)"
| look: "observe_look z maxBytes (cs_cur s) = (r, c) \<Longrightarrow> cu_step z s (s\<lparr>cs_cur := c\<rparr>)"
| ack: "ack batchID (cs_cur s) = (r, ch, c) \<Longrightarrow>
    cu_step z s (s\<lparr>cs_cur := c,
      cs_acked := cs_acked s @
        (case cu_out (cs_cur s) of Some b \<Rightarrow> if ba_id b = batchID then ba_items b else [] | None \<Rightarrow> []),
      cs_committed := cs_committed s @ (case ch of Some x \<Rightarrow> [x] | None \<Rightarrow> [])\<rparr>)"


section \<open>Entries and batches\<close>

definition is_live :: "'t centry \<Rightarrow> bool" where
  "is_live e \<longleftrightarrow> \<not> en_last e"

lemma obs_of_simps [simp]:
  "obs_of [] = []" "obs_of (xs @ ys) = obs_of xs @ obs_of ys"
  "obs_of (e # es) = (case en_obs e of None \<Rightarrow> [] | Some ob \<Rightarrow> [ob]) @ obs_of es"
  by (simp_all add: obs_of_def)

lemma obs_of_live [simp]: "obs_of (map (live_entry z) obs) = map (bound z) obs"
  by (induction obs) (simp_all add: live_entry_def Let_def)

lemma live_entry_live [simp]: "is_live (live_entry z ob)"
  by (simp add: live_entry_def Let_def is_live_def)

lemma chunk_entries_nonempty [simp]: "chunk_entries z ch \<noteq> []"
  by (auto simp: chunk_entries_def enumerate_eq_zip)

lemma obs_of_chunk [simp]: "obs_of (chunk_entries z ch) = map (bound z) (ch_items ch)"
proof -
  have "obs_of (map g (enumerate k obs)) = map (bound z) obs"
    if "\<And>i ob. en_obs (g (i, ob)) = Some (bound z ob)" for g :: "nat \<times> Observation \<Rightarrow> 'a centry" and k obs
    using that by (induction obs arbitrary: k) auto
  then show ?thesis by (simp add: chunk_entries_def Let_def)
qed

text \<open>Only a chunk's last entry is marked as the last.\<close>

lemma chunk_entries_last: "k < length (chunk_entries z ch) \<Longrightarrow>
    en_last (chunk_entries z ch ! k) \<longleftrightarrow> Suc k = length (chunk_entries z ch)"
  by (auto simp: chunk_entries_def Let_def nth_enumerate_eq)

lemma chunk_part_last:
  assumes "done @ rest = chunk_entries z ch" and "rest \<noteq> []"
  shows "en_last (last rest)" and "e \<in> set (butlast rest) \<Longrightarrow> is_live e"
proof -
  have last: "last rest = chunk_entries z ch ! (length (chunk_entries z ch) - 1)"
    using assms by (metis last_append last_conv_nth chunk_entries_nonempty)
  then show "en_last (last rest)" by (simp add: chunk_entries_last)
  assume "e \<in> set (butlast rest)"
  then obtain i where i: "i < length rest - 1" "e = rest ! i"
    by (auto simp: in_set_conv_nth nth_butlast)
  then have "e = chunk_entries z ch ! (length done + i)"
    using assms by (metis nth_append_length_plus)
  moreover have "length done + length rest = length (chunk_entries z ch)"
    using assms by (metis length_append)
  ultimately show "is_live e" using i by (simp add: is_live_def chunk_entries_last)
qed

lemma add_entry_items [simp]:
  "ba_items (add_entry chunk e b) = ba_items b @ (case en_obs e of None \<Rightarrow> [] | Some ob \<Rightarrow> [ob])"
  by (auto simp: add_entry_def Let_def split: option.splits)

lemma add_entry_checkpoint [simp]:
  "ba_checkpoint (add_entry chunk e b) =
     (if en_last e \<and> chunk \<noteq> None then ch_checkpoint (the chunk) else ba_checkpoint b)"
  by (auto simp: add_entry_def Let_def split: option.splits)

text \<open>What the loop takes: a nonempty head of the queue, as long as it fits.\<close>

definition batch_bytes :: "'t CodecSizes \<Rightarrow> 't Chunk option \<Rightarrow> 't centry list \<Rightarrow> int" where
  "batch_bytes z chunk es = sum_list (map (entry_add z chunk) es)"

lemma build_loop_Inr:
  "build_loop z chunk maxBytes sz n commit b es = Inr (m, commit', b') \<Longrightarrow>
   \<exists>k \<le> length es. m = n + k \<and> commit' = (commit \<or> (\<exists>e \<in> set (take k es). en_last e)) \<and>
     ba_items b' = ba_items b @ obs_of (take k es) \<and>
     ba_checkpoint b' =
       (if chunk \<noteq> None \<and> (\<exists>e \<in> set (take k es). en_last e) then ch_checkpoint (the chunk) else ba_checkpoint b) \<and>
     (k = 0 \<or> sz + batch_bytes z chunk (take k es) \<le> maxBytes) \<and>
     (k < length es \<longrightarrow> 0 < m \<and> sz + batch_bytes z chunk (take (Suc k) es) > maxBytes)"
proof (induction z chunk maxBytes sz n commit b es rule: build_loop.induct)
  case (1 z chunk maxBytes sz n commit b)
  then show ?case by auto
next
  case (2 z chunk maxBytes sz n commit b e es)
  show ?case
  proof (cases "sz + entry_add z chunk e > maxBytes")
    case True
    with 2(2) show ?thesis
      by (intro exI [of _ 0]) (auto simp: Let_def batch_bytes_def split: if_splits)
  next
    case False
    with 2 obtain k where k: "k \<le> length es" "m = Suc n + k"
      "commit' = (commit \<or> en_last e \<or> (\<exists>e \<in> set (take k es). en_last e))"
      "ba_items b' = ba_items (add_entry chunk e b) @ obs_of (take k es)"
      "ba_checkpoint b' = (if chunk \<noteq> None \<and> (\<exists>e \<in> set (take k es). en_last e)
         then ch_checkpoint (the chunk) else ba_checkpoint (add_entry chunk e b))"
      "k = 0 \<or> sz + entry_add z chunk e + batch_bytes z chunk (take k es) \<le> maxBytes"
      "k < length es \<Longrightarrow> sz + entry_add z chunk e + batch_bytes z chunk (take (Suc k) es) > maxBytes"
      by (auto simp: Let_def)
    with False show ?thesis
      by (intro exI [of _ "Suc k"]) (auto simp: batch_bytes_def)
  qed
qed

lemma build_loop_Inl:
  "build_loop z chunk maxBytes sz n commit b es = Inl x \<longleftrightarrow>
   n = 0 \<and> es \<noteq> [] \<and> sz + entry_add z chunk (hd es) > maxBytes \<and>
   x = (err CodeBatchTooLarge)\<lparr>e_required_bytes := sz + entry_add z chunk (hd es)\<rparr>"
proof -
  have "0 < n \<Longrightarrow> build_loop z chunk maxBytes sz n commit b es \<noteq> Inl x" for n sz commit b es
    by (induction es arbitrary: n sz commit b) (auto simp: Let_def)
  then show ?thesis by (cases es) (auto simp: Let_def)
qed


section \<open>The invariant\<close>

text \<open>
  Where the pending chunk stands in the queue: its entries are contiguous between live ones;
  those already acknowledged are the last things acknowledged.
\<close>

definition chunk_at ::
  "'t CodecSizes \<Rightarrow> 't Chunk \<Rightarrow> Observation list \<Rightarrow> 't centry list \<Rightarrow>
     't centry list \<Rightarrow> 't centry list \<Rightarrow> 't centry list \<Rightarrow> 't centry list \<Rightarrow> bool"
where
  "chunk_at z ch acked q pre dn rest post \<longleftrightarrow>
     q = pre @ rest @ post \<and> dn @ rest = chunk_entries z ch \<and> rest \<noteq> [] \<and>
     (\<forall>e \<in> set pre \<union> set post. is_live e) \<and> (dn = [] \<or> pre = []) \<and> suffix (obs_of dn) acked"

definition chunk_place :: "'t CodecSizes \<Rightarrow> 't csys \<Rightarrow> bool" where
  "chunk_place z s \<longleftrightarrow>
     (case cu_chunk (cs_cur s) of
        None \<Rightarrow> \<forall>e \<in> set (cu_queue (cs_cur s)). is_live e
      | Some ch \<Rightarrow> \<exists>pre dn rest post. chunk_at z ch (cs_acked s) (cu_queue (cs_cur s)) pre dn rest post)"

lemma chunk_placeI:
  "cu_chunk (cs_cur s) = Some ch \<Longrightarrow> chunk_at z ch (cs_acked s) (cu_queue (cs_cur s)) pre dn rest post \<Longrightarrow>
   chunk_place z s"
  by (auto simp: chunk_place_def)

lemma chunk_placeE:
  assumes "chunk_place z s" and "cu_chunk (cs_cur s) = Some ch"
  obtains pre dn rest post where "chunk_at z ch (cs_acked s) (cu_queue (cs_cur s)) pre dn rest post"
  using assms by (auto simp: chunk_place_def)

definition out_batch :: "'t cursor \<Rightarrow> bool" where
  "out_batch c \<longleftrightarrow>
     (case cu_out c of
        None \<Rightarrow> True
      | Some b \<Rightarrow>
          0 < cu_outN c \<and> cu_outN c \<le> length (cu_queue c) \<and>
          cu_outCommit c = (\<exists>e \<in> set (take (cu_outN c) (cu_queue c)). en_last e) \<and>
          ba_items b = obs_of (take (cu_outN c) (cu_queue c)) \<and>
          ba_checkpoint b =
            (if cu_outCommit c \<and> cu_chunk c \<noteq> None then ch_checkpoint (the (cu_chunk c)) else None) \<and>
          ba_id b = batch_id (cu_seq c))"

definition ids_fresh :: "'t cursor \<Rightarrow> bool" where
  "ids_fresh c \<longleftrightarrow>
     (cu_lastAcked c = [] \<or>
      (\<exists>k \<le> cu_seq c. cu_lastAcked c = batch_id k \<and> (cu_out c \<noteq> None \<longrightarrow> k < cu_seq c)))"

definition log_complete :: "'t csys \<Rightarrow> bool" where
  "log_complete s \<longleftrightarrow> cs_queued s = cs_acked s @ obs_of (cu_queue (cs_cur s))"

definition commits_acked :: "'t CodecSizes \<Rightarrow> 't csys \<Rightarrow> bool" where
  "commits_acked z s \<longleftrightarrow>
     (\<forall>ch \<in> set (cs_committed s). sublist (map (bound z) (ch_items ch)) (cs_acked s))"

definition cu_inv :: "'t CodecSizes \<Rightarrow> 't csys \<Rightarrow> bool" where
  "cu_inv z s \<longleftrightarrow>
     chunk_place z s \<and> out_batch (cs_cur s) \<and> ids_fresh (cs_cur s) \<and> log_complete s \<and> commits_acked z s"

lemmas cu_inv_defs [inv_defs] = cu_inv_def chunk_place_def out_batch_def ids_fresh_def log_complete_def commits_acked_def

lemma batch_id_inj [simp]: "batch_id m = batch_id n \<longleftrightarrow> m = n"
  by (simp add: batch_id_def itoa_def)

lemma batch_id_nonempty [simp]: "batch_id n \<noteq> []"
  by (simp add: batch_id_def)

text \<open>Appending live entries, or the entries of a chunk when none is pending.\<close>

lemma chunk_place_append_live:
  assumes "chunk_place z s" and "\<And>e. e \<in> set es \<Longrightarrow> is_live e"
    and "cu_queue c = cu_queue (cs_cur s) @ es" and "cu_chunk c = cu_chunk (cs_cur s)"
    and "cs_acked t = cs_acked s" and "cs_cur t = c"
  shows "chunk_place z t"
proof (cases "cu_chunk (cs_cur s)")
  case None
  with assms show ?thesis by (auto simp: chunk_place_def)
next
  case (Some ch)
  with assms(1) obtain pre dn rest post where
    "chunk_at z ch (cs_acked s) (cu_queue (cs_cur s)) pre dn rest post"
    by (rule chunk_placeE)
  with assms(2-) have "chunk_at z ch (cs_acked t) (cu_queue (cs_cur t)) pre dn rest (post @ es)"
    by (auto simp: chunk_at_def)
  then show ?thesis by (rule chunk_placeI [rotated]) (use assms Some in simp)
qed

lemma out_batch_append:
  "out_batch c \<Longrightarrow> cu_queue c' = cu_queue c @ es \<Longrightarrow> cu_out c' = cu_out c \<Longrightarrow> cu_outN c' = cu_outN c \<Longrightarrow>
   cu_outCommit c' = cu_outCommit c \<Longrightarrow> cu_seq c' = cu_seq c \<Longrightarrow>
   cu_chunk c' = cu_chunk c \<or> cu_chunk c = None \<and> \<not> cu_outCommit c \<Longrightarrow> out_batch c'"
  by (auto simp: out_batch_def split: option.splits)

lemma cu_inv_push:
  assumes "cu_inv z s"
  shows "cu_inv z (s\<lparr>cs_cur := push z obs (cs_cur s), cs_queued := cs_queued s @ map (bound z) obs\<rparr>)"
    (is "cu_inv z ?t")
proof -
  have q: "cu_queue (cs_cur ?t) = cu_queue (cs_cur s) @ map (live_entry z) obs"
    and same: "cu_chunk (cs_cur ?t) = cu_chunk (cs_cur s)" "cu_out (cs_cur ?t) = cu_out (cs_cur s)"
    "cu_outN (cs_cur ?t) = cu_outN (cs_cur s)" "cu_outCommit (cs_cur ?t) = cu_outCommit (cs_cur s)"
    "cu_seq (cs_cur ?t) = cu_seq (cs_cur s)" "cu_lastAcked (cs_cur ?t) = cu_lastAcked (cs_cur s)"
    by (simp_all add: push_def wakeLocked_def)
  have "chunk_place z ?t"
    by (rule chunk_place_append_live [of z s "map (live_entry z) obs" "cs_cur ?t"])
      (use assms q same in \<open>auto simp: cu_inv_def\<close>)
  moreover have "out_batch (cs_cur ?t)"
    by (rule out_batch_append [of "cs_cur s" _ "map (live_entry z) obs"]) (use assms q same in \<open>auto simp: cu_inv_def\<close>)
  moreover have "ids_fresh (cs_cur ?t)" using assms unfolding cu_inv_def ids_fresh_def same by blast
  moreover have "log_complete ?t" using assms q by (simp add: cu_inv_def log_complete_def)
  ultimately show ?thesis using assms by (simp add: cu_inv_def commits_acked_def)
qed

lemma no_commit_without_chunk:
  "chunk_place z s \<Longrightarrow> out_batch (cs_cur s) \<Longrightarrow> cu_chunk (cs_cur s) = None \<Longrightarrow> cu_out (cs_cur s) \<noteq> None \<Longrightarrow>
   \<not> cu_outCommit (cs_cur s)"
  by (auto simp: chunk_place_def out_batch_def is_live_def) (meson in_set_takeD)

lemma cu_inv_install:
  assumes "cu_inv z s" and "read_install z ch (cs_cur s) = (fresh, c)"
  shows "cu_inv z (s\<lparr>cs_cur := c, cs_queued := cs_queued s @ (if fresh then map (bound z) (ch_items ch) else [])\<rparr>)"
    (is "cu_inv z ?t")
proof (cases fresh)
  case False
  with assms(2) have "?t = s" by (auto simp: read_install_def split: if_splits)
  with assms(1) show ?thesis by simp
next
  case True
  with assms(2) have no: "cu_chunk (cs_cur s) = None"
    and c: "c = wakeLocked ((cs_cur s)\<lparr>cu_chunk := Some ch, cu_queue := cu_queue (cs_cur s) @ chunk_entries z ch\<rparr>)"
    by (auto simp: read_install_def split: if_splits)
  have "\<forall>e \<in> set (cu_queue (cs_cur s)). is_live e"
    using assms(1) no by (simp add: cu_inv_def chunk_place_def)
  then have "chunk_at z ch (cs_acked ?t) (cu_queue (cs_cur ?t)) (cu_queue (cs_cur s)) [] (chunk_entries z ch) []"
    by (simp add: chunk_at_def c wakeLocked_def)
  then have "chunk_place z ?t" by (rule chunk_placeI [rotated]) (simp add: c wakeLocked_def)
  moreover have "out_batch c"
  proof (cases "cu_out (cs_cur s)")
    case None
    then show ?thesis by (simp add: out_batch_def c wakeLocked_def)
  next
    case (Some b)
    with assms(1) no have "\<not> cu_outCommit (cs_cur s)"
      by (auto simp: cu_inv_def dest!: no_commit_without_chunk)
    then show ?thesis
      by (intro out_batch_append [of "cs_cur s" c "chunk_entries z ch"])
        (use assms(1) no in \<open>auto simp: cu_inv_def c wakeLocked_def\<close>)
  qed
  moreover have "ids_fresh c" using assms(1) by (simp add: cu_inv_def ids_fresh_def c wakeLocked_def)
  moreover have "log_complete ?t" using assms(1) True by (simp add: cu_inv_def log_complete_def c wakeLocked_def)
  ultimately show ?thesis using assms(1) by (simp add: cu_inv_def commits_acked_def)
qed

lemma cu_inv_observing: "cu_inv z s \<Longrightarrow> cu_inv z (s\<lparr>cs_cur := (cs_cur s)\<lparr>cu_observing := v\<rparr>\<rparr>)"
  by (auto simp: cu_inv_defs split: option.splits)


text \<open>Taking \<open>n\<close> entries off the queue takes the chunk's last one exactly when it takes them all.\<close>

lemma chunk_at_last:
  assumes "chunk_at z ch acked q pre dn rest post"
  shows "(\<exists>e \<in> set (take n q). en_last e) \<longleftrightarrow> length pre + length rest \<le> n"
proof -
  have parts: "q = pre @ rest @ post" "dn @ rest = chunk_entries z ch" "rest \<noteq> []"
    "\<forall>e \<in> set pre. \<not> en_last e" "\<forall>e \<in> set post. \<not> en_last e"
    using assms by (auto simp: chunk_at_def is_live_def)
  note ends = chunk_part_last [OF parts(2,3)]
  have "\<not> (\<exists>e \<in> set (take n q). en_last e)" if "n < length pre + length rest"
  proof -
    have "take n q = take n pre @ take (n - length pre) rest" using that by (simp add: parts(1))
    moreover have "n - length pre < length rest"
      using that parts(3) by (metis add.commute add_diff_inverse_nat length_greater_0_conv less_diff_conv2 not_less diff_is_0_eq' nat_le_linear)
    then have "take (n - length pre) rest = take (n - length pre) (butlast rest)"
      by (simp add: take_butlast)
    ultimately have "set (take n q) \<subseteq> set pre \<union> set (butlast rest)"
      using set_take_subset [of n pre] set_take_subset [of "n - length pre" "butlast rest"] by auto
    with parts(4) ends(2) show ?thesis by (auto simp: is_live_def)
  qed
  moreover have "last rest \<in> set (take n q)" if "length pre + length rest \<le> n"
    using that parts(3) by (simp add: parts(1))
  ultimately show ?thesis using ends(1) by (meson not_less)
qed

lemma chunk_at_take:
  assumes "chunk_at z ch acked q pre dn rest post" and "n < length pre + length rest"
  shows "\<exists>pre' dn' rest'. chunk_at z ch (acked @ obs_of (take n q)) (drop n q) pre' dn' rest' post"
proof (cases "n \<le> length pre")
  case True
  have "chunk_at z ch (acked @ obs_of (take n q)) (drop n q) (drop n pre) dn rest post"
  proof (cases "dn = []")
    case dn: True
    then show ?thesis using assms(1) True by (auto simp: chunk_at_def dest: in_set_dropD)
  next
    case False
    with assms(1) True have "pre = []" "n = 0" by (auto simp: chunk_at_def)
    with assms(1) show ?thesis by (auto simp: chunk_at_def)
  qed
  then show ?thesis by blast
next
  case False
  let ?k = "n - length pre"
  have eq: "take n q = pre @ take ?k rest" "drop n q = drop ?k rest @ post"
    using assms False by (auto simp: chunk_at_def)
  have "suffix (obs_of (dn @ take ?k rest)) (acked @ obs_of (pre @ take ?k rest))"
    using assms(1) by (auto simp: chunk_at_def suffix_def)
  moreover have "(dn @ take ?k rest) @ drop ?k rest = chunk_entries z ch"
    using assms(1) by (simp add: chunk_at_def)
  ultimately have "chunk_at z ch (acked @ obs_of (take n q)) (drop n q) [] (dn @ take ?k rest) (drop ?k rest) post"
    using assms False unfolding chunk_at_def eq by auto
  then show ?thesis by blast
qed

lemma chunk_at_commit:
  assumes "chunk_at z ch acked q pre dn rest post" and "length pre + length rest \<le> n"
  shows "\<forall>e \<in> set (drop n q). is_live e"
    and "sublist (map (bound z) (ch_items ch)) (acked @ obs_of (take n q))"
proof -
  have parts: "q = pre @ rest @ post" "dn @ rest = chunk_entries z ch" "\<forall>e \<in> set post. is_live e"
    "dn = [] \<or> pre = []" "suffix (obs_of dn) acked"
    using assms(1) by (auto simp: chunk_at_def)
  let ?k = "n - length pre - length rest"
  show "\<forall>e \<in> set (drop n q). is_live e"
    using parts(3) assms(2) by (auto simp: parts(1) dest: in_set_dropD)
  have items: "obs_of dn @ obs_of rest = map (bound z) (ch_items ch)"
    using parts(2) by (metis obs_of_chunk obs_of_simps(2))
  obtain before where before: "acked = before @ obs_of dn" using parts(5) by (auto simp: suffix_def)
  have taken: "take n q = pre @ rest @ take ?k post"
    using assms(2) by (simp add: parts(1))
  from parts(4) show "sublist (map (bound z) (ch_items ch)) (acked @ obs_of (take n q))"
  proof
    assume "dn = []"
    then have "acked @ obs_of (take n q) = (acked @ obs_of pre) @ map (bound z) (ch_items ch) @ obs_of (take ?k post)"
      using items taken by simp
    then show ?thesis unfolding sublist_def by blast
  next
    assume "pre = []"
    then have "acked @ obs_of (take n q) = before @ map (bound z) (ch_items ch) @ obs_of (take ?k post)"
      using items taken before by simp
    then show ?thesis unfolding sublist_def by blast
  qed
qed

lemma cu_inv_look:
  assumes "cu_inv z s" and "observe_look z maxBytes (cs_cur s) = (r, c)"
  shows "cu_inv z (s\<lparr>cs_cur := c\<rparr>)"
proof (cases "c = cs_cur s")
  case True
  with assms(1) show ?thesis by simp
next
  case False
  with assms(2) obtain n commit b where none: "cu_out (cs_cur s) = None" and ne: "cu_queue (cs_cur s) \<noteq> []"
    and loop: "build_loop z (cu_chunk (cs_cur s)) maxBytes batchOverhead 0 False empty_batch (cu_queue (cs_cur s)) = Inr (n, commit, b)"
    and c: "c = (cs_cur s)\<lparr>cu_seq := Suc (cu_seq (cs_cur s)), cu_out := Some (b\<lparr>ba_id := batch_id (Suc (cu_seq (cs_cur s)))\<rparr>),
        cu_outN := n, cu_outCommit := commit\<rparr>"
    by (auto simp: observe_look_def buildLocked_def Let_def split: if_splits option.splits sum.splits)
  from build_loop_Inr [OF loop] ne have "out_batch c"
    by (auto simp: c out_batch_def empty_batch_def)
  moreover have "ids_fresh c"
    using assms(1) none by (auto simp: c cu_inv_def ids_fresh_def)
  ultimately show ?thesis
    using assms(1)
    by (auto simp: c cu_inv_def chunk_place_def log_complete_def commits_acked_def split: option.splits)
qed

lemma sublist_grow: "sublist xs ys \<Longrightarrow> sublist xs (ys @ zs)"
  unfolding sublist_def by (metis append.assoc)

lemma cu_inv_ack:
  assumes "cu_inv z s" and "ack batchID (cs_cur s) = (r, ch, c)"
  shows "cu_inv z (s\<lparr>cs_cur := c,
      cs_acked := cs_acked s @
        (case cu_out (cs_cur s) of Some b \<Rightarrow> if ba_id b = batchID then ba_items b else [] | None \<Rightarrow> []),
      cs_committed := cs_committed s @ (case ch of Some x \<Rightarrow> [x] | None \<Rightarrow> [])\<rparr>)"
    (is "cu_inv z ?t")
proof (cases "\<exists>b. cu_out (cs_cur s) = Some b \<and> ba_id b = batchID")
  case False
  with assms(2) have "c = cs_cur s" "ch = None"
    by (auto simp: ack_def split: option.splits if_splits)
  with False have "?t = s" by (auto split: option.splits)
  with assms(1) show ?thesis by simp
next
  case True
  then obtain b where b: "cu_out (cs_cur s) = Some b" "ba_id b = batchID" by blast
  define n where "n = cu_outN (cs_cur s)"
  define q where "q = cu_queue (cs_cur s)"
  define taken where "taken = obs_of (take n q)"
  have inv: "chunk_place z s" "log_complete s" "commits_acked z s" using assms(1) by (simp_all add: cu_inv_def)
  have out: "ba_items b = taken" "cu_outCommit (cs_cur s) = (\<exists>e \<in> set (take n q). en_last e)"
    "batchID = batch_id (cu_seq (cs_cur s))"
    using assms(1) b by (auto simp: cu_inv_def out_batch_def taken_def n_def q_def)
  have c: "c = wakeLocked ((cs_cur s)\<lparr>cu_queue := drop n q, cu_lastAcked := batchID, cu_out := None, cu_outN := 0,
      cu_outCommit := False, cu_chunk := (if cu_outCommit (cs_cur s) then None else cu_chunk (cs_cur s))\<rparr>)"
    and ch: "ch = (if cu_outCommit (cs_cur s) then cu_chunk (cs_cur s) else None)"
    using assms(2) b by (simp_all add: ack_def n_def q_def)
  have acked: "cs_acked ?t = cs_acked s @ taken" using b out by simp
  have place: "chunk_place z ?t \<and> commits_acked z ?t"
  proof (cases "cu_chunk (cs_cur s)")
    case None
    with inv(1) have "\<forall>e \<in> set q. is_live e" by (simp add: chunk_place_def q_def)
    then show ?thesis
      using None inv(3) acked
      by (auto simp: chunk_place_def commits_acked_def c ch wakeLocked_def dest: in_set_dropD
          intro: sublist_grow)
  next
    case (Some x)
    with inv(1) obtain pre dn rest post where at: "chunk_at z x (cs_acked s) q pre dn rest post"
      unfolding q_def by (rule chunk_placeE)
    note commit = chunk_at_last [OF at, of n]
    show ?thesis
    proof (cases "length pre + length rest \<le> n")
      case True
      with commit out(2) have "cu_outCommit (cs_cur s)" by simp
      with chunk_at_commit [OF at True] inv(3) acked Some show ?thesis
        by (auto simp: chunk_place_def commits_acked_def c ch wakeLocked_def taken_def
            intro: sublist_grow)
    next
      case False
      with commit out(2) have "\<not> cu_outCommit (cs_cur s)" by simp
      moreover obtain pre' dn' rest' where "chunk_at z x (cs_acked s @ taken) (drop n q) pre' dn' rest' post"
        using chunk_at_take [OF at] False unfolding taken_def by (meson not_less)
      ultimately have "chunk_place z ?t"
        using Some acked by (intro chunk_placeI) (auto simp: c wakeLocked_def)
      moreover have "commits_acked z ?t"
        using inv(3) acked \<open>\<not> cu_outCommit (cs_cur s)\<close>
        by (auto simp: commits_acked_def ch intro: sublist_grow)
      ultimately show ?thesis ..
    qed
  qed
  have "log_complete ?t"
  proof -
    have "obs_of q = taken @ obs_of (drop n q)"
      unfolding taken_def by (metis append_take_drop_id obs_of_simps(2))
    with inv(2) acked show ?thesis by (simp add: log_complete_def c wakeLocked_def q_def)
  qed
  moreover have "out_batch c" "ids_fresh c"
    using out(3) by (auto simp: out_batch_def ids_fresh_def c wakeLocked_def)
  ultimately show ?thesis using place by (simp add: cu_inv_def)
qed


lemma cu_inv_init: "cu_init s \<Longrightarrow> cu_inv z s"
  by (auto simp: cu_init_def cu_inv_defs newCursor_def)

lemma cu_inv_step: "cu_inv z s \<Longrightarrow> cu_step z s t \<Longrightarrow> cu_inv z t"
  by (erule cu_step.cases)
    (simp_all only: cu_inv_push cu_inv_install cu_inv_observing cu_inv_look cu_inv_ack)

interpretation cu: inductive_invariant cu_init "cu_step z" "cu_inv z" for z :: "'t CodecSizes"
  by unfold_locales (fact cu_inv_init, fact cu_inv_step)

section \<open>Runs\<close>

definition cu_started :: "bool \<Rightarrow> 't csys" where
  "cu_started r = \<lparr>cs_cur = newCursor r, cs_queued = [], cs_acked = [], cs_committed = []\<rparr>"

definition after_install :: "'t CodecSizes \<Rightarrow> 't Chunk \<Rightarrow> 't csys \<Rightarrow> 't csys" where
  "after_install z ch s =
     s\<lparr>cs_cur := snd (read_install z ch (cs_cur s)),
       cs_queued := cs_queued s @ (if fst (read_install z ch (cs_cur s)) then map (bound z) (ch_items ch) else [])\<rparr>"

definition after_look :: "'t CodecSizes \<Rightarrow> int \<Rightarrow> 't csys \<Rightarrow> 't csys" where
  "after_look z maxBytes s = s\<lparr>cs_cur := snd (observe_look z maxBytes (cs_cur s))\<rparr>"

lemma reachable_cu_started: "reachable cu_init (cu_step z) (cu_started r)"
  by (rule reach_init) (auto simp: cu_init_def cu_started_def)

lemma reachable_install:
  "reachable cu_init (cu_step z) s \<Longrightarrow> reachable cu_init (cu_step z) (after_install z ch s)"
  unfolding after_install_def by (erule reach_step) (rule install, simp)

lemma reachable_look:
  "reachable cu_init (cu_step z) s \<Longrightarrow> reachable cu_init (cu_step z) (after_look z maxBytes s)"
  unfolding after_look_def by (erule reach_step) (rule look, rule prod.collapse [symmetric])

text \<open>A record's chunk of two items with its checkpoint, in a batch.\<close>

definition demo_sizes :: "unit CodecSizes" where
  "demo_sizes = \<lparr>encodedSize = (\<lambda>_. 100), metaSize = (\<lambda>_. 2), checkpointSize = (\<lambda>_. 30)\<rparr>"

definition demo_chunk :: "unit Chunk" where
  "demo_chunk =
     \<lparr>ch_items = [NewObservation KindUserInput ''e1'' OriginRecord 1 DataEmpty,
                  NewObservation KindAssistantText ''e2'' OriginRecord 2 DataEmpty],
      ch_checkpoint = Some \<lparr>cp_format = 1, cp_data = ''p''\<rparr>, ch_reset = None, ch_rescan = None,
      ch_faults = [], ch_token = ()\<rparr>"

definition demo_batch :: "unit csys" where
  "demo_batch = after_look demo_sizes 65536 (after_install demo_sizes demo_chunk (cu_started True))"

lemma demo_batch_reachable: "reachable cu_init (cu_step demo_sizes) demo_batch"
  unfolding demo_batch_def by (intro reachable_look reachable_install reachable_cu_started)

lemmas demo_defs = demo_batch_def demo_chunk_def demo_sizes_def after_look_def after_install_def cu_started_def
  newCursor_def read_install_def chunk_entries_def observe_look_def buildLocked_def Let_def wakeLocked_def
  Chunk_empty_def bound_def batchOverhead_def MaxObserveBytes_def entry_add_def add_entry_def empty_batch_def

section \<open>Properties\<close>

text \<open>
  C2: nothing learned is lost, repeated or reordered. In every reachable state, whatever
  reads, pushes, observes and acks interleave, the observations queued are those of the
  acknowledged batches, in order, followed by those still in the queue.
\<close>

theorem cursor_exactly_once:
  assumes "reachable cu_init (cu_step z) s"
  shows "cs_queued s = cs_acked s @ obs_of (cu_queue (cs_cur s))"
  using cu.inv_reachable [OF assms] by (simp add: cu_inv_def log_complete_def)

theorem cursor_exactly_once_witness:
  "map o_id (cs_queued demo_batch) = [''user_input:e1'', ''assistant_text:e2''] \<and>
   map o_id (obs_of (cu_queue (cs_cur demo_batch))) = [''user_input:e1'', ''assistant_text:e2'']"
  using cursor_exactly_once [OF demo_batch_reachable]
  by (simp add: demo_defs NewObservation_def ObservationID_def)

text \<open>
  C3: no checkpoint covers an item the Supervisor has not committed. A batch that carries a
  checkpoint carries the pending chunk's, and every item of that chunk is in a batch
  acknowledged before or in this one; a chunk the reader is told to commit has every item
  acknowledged.
\<close>

theorem cursor_checkpoint_covers:
  assumes "reachable cu_init (cu_step z) s"
  shows "(\<forall>b cp. cu_out (cs_cur s) = Some b \<longrightarrow> ba_checkpoint b = Some cp \<longrightarrow>
      (\<exists>ch. cu_chunk (cs_cur s) = Some ch \<and> ch_checkpoint ch = Some cp \<and>
        sublist (map (bound z) (ch_items ch)) (cs_acked s @ ba_items b))) \<and>
    (\<forall>ch \<in> set (cs_committed s). sublist (map (bound z) (ch_items ch)) (cs_acked s))"
proof (intro conjI allI impI)
  note inv = cu.inv_reachable [OF assms]
  then show "\<forall>ch \<in> set (cs_committed s). sublist (map (bound z) (ch_items ch)) (cs_acked s)"
    by (simp add: cu_inv_def commits_acked_def)
  fix b cp
  assume b: "cu_out (cs_cur s) = Some b" and cp: "ba_checkpoint b = Some cp"
  let ?n = "cu_outN (cs_cur s)" and ?q = "cu_queue (cs_cur s)"
  from inv b cp obtain ch where ch: "cu_chunk (cs_cur s) = Some ch" "ch_checkpoint ch = Some cp"
    and commit: "\<exists>e \<in> set (take ?n ?q). en_last e" and items: "ba_items b = obs_of (take ?n ?q)"
    by (auto simp: cu_inv_def out_batch_def split: if_splits)
  from inv ch obtain pre dn rest post where at: "chunk_at z ch (cs_acked s) ?q pre dn rest post"
    by (auto simp: cu_inv_def elim: chunk_placeE)
  from commit have "length pre + length rest \<le> ?n" by (simp add: chunk_at_last [OF at])
  from chunk_at_commit(2) [OF at this] ch items
  show "\<exists>ch. cu_chunk (cs_cur s) = Some ch \<and> ch_checkpoint ch = Some cp \<and>
      sublist (map (bound z) (ch_items ch)) (cs_acked s @ ba_items b)" by auto
qed

theorem cursor_checkpoint_covers_witness:
  "\<exists>b cp. cu_out (cs_cur demo_batch) = Some b \<and> ba_checkpoint b = Some cp \<and>
     sublist (map (bound demo_sizes) (ch_items demo_chunk)) (cs_acked demo_batch @ ba_items b)"
proof -
  have "cu_chunk (cs_cur demo_batch) = Some demo_chunk"
    and "\<exists>b. cu_out (cs_cur demo_batch) = Some b \<and> ba_checkpoint b = Some \<lparr>cp_format = 1, cp_data = ''p''\<rparr>"
    by (simp_all add: demo_defs)
  with cursor_checkpoint_covers [OF demo_batch_reachable] show ?thesis by fastforce
qed


text \<open>
  a batch handed out is the answer of every later observe, whatever its bound and whatever
  was learned since, until its own id is acknowledged: a step leaves it in place, or
  acknowledges exactly its items.
\<close>

lemma cursor_replays_until_ack:
  assumes "cu_step z s t" and "cu_out (cs_cur s) = Some b"
  shows "(cs_acked t = cs_acked s \<and>
       (\<forall>maxBytes. observe_look z maxBytes (cs_cur t) = (Some (Inr b), cs_cur t))) \<or>
     (cs_acked t = cs_acked s @ ba_items b \<and> cu_out (cs_cur t) = None \<and>
       cu_lastAcked (cs_cur t) = ba_id b)"
  using assms
proof cases
  case (push obs)
  with assms(2) show ?thesis by (simp add: push_def wakeLocked_def observe_look_def buildLocked_def)
next
  case (install ch fresh c)
  with assms(2) show ?thesis
    by (auto simp: read_install_def wakeLocked_def observe_look_def buildLocked_def split: if_splits)
next
  case (observing v)
  with assms(2) show ?thesis by (simp add: observe_look_def buildLocked_def)
next
  case (look maxBytes r c)
  with assms(2) show ?thesis by (auto simp: observe_look_def buildLocked_def)
next
  case (ack batchID r ch c)
  with assms(2) show ?thesis
    by (cases "ba_id b = batchID")
      (auto simp: ack_def wakeLocked_def observe_look_def buildLocked_def split: if_splits)
qed

text \<open>
  a fresh batch is the longest nonempty head of the queue that fits: its overhead, its
  entries and its checkpoint together stay within \<open>max_bytes\<close>, and one entry more would not.
\<close>

lemma cursor_batch_fits:
  assumes "cu_out c = None" and "cu_queue c \<noteq> []" and "buildLocked z maxBytes c = (Inr b, c')"
  shows "0 < cu_outN c' \<and> ba_items b = obs_of (take (cu_outN c') (cu_queue c)) \<and>
    batchOverhead + batch_bytes z (cu_chunk c) (take (cu_outN c') (cu_queue c)) \<le> maxBytes \<and>
    (cu_outN c' < length (cu_queue c) \<longrightarrow>
      batchOverhead + batch_bytes z (cu_chunk c) (take (Suc (cu_outN c')) (cu_queue c)) > maxBytes)"
proof -
  from assms(1,3) obtain n commit b0 where
    loop: "build_loop z (cu_chunk c) maxBytes batchOverhead 0 False empty_batch (cu_queue c) = Inr (n, commit, b0)"
    and "cu_outN c' = n" "ba_items b = ba_items b0"
    by (auto simp: buildLocked_def Let_def split: sum.splits)
  with build_loop_Inr [OF loop] assms(2) show ?thesis by (auto simp: empty_batch_def)
qed

text \<open>
  a refusal for size names the bound that is enough. When the next entry does not fit,
  the error is \<open>batch_too_large\<close>, nothing changes, and building with \<open>RequiredBytes\<close> or more
  gives a batch.
\<close>

lemma cursor_required_bytes:
  assumes "buildLocked z maxBytes c = (Inl e, c')"
  shows "c' = c \<and> e_code e = CodeBatchTooLarge \<and> maxBytes < e_required_bytes e \<and>
    (\<forall>m \<ge> e_required_bytes e. \<exists>b c''. buildLocked z m c = (Inr b, c''))"
proof -
  from assms have none: "cu_out c = None" and c': "c' = c"
    and loop: "build_loop z (cu_chunk c) maxBytes batchOverhead 0 False empty_batch (cu_queue c) = Inl e"
    by (auto simp: buildLocked_def Let_def split: option.splits sum.splits)
  have "\<exists>b c''. buildLocked z m c = (Inr b, c'')" if "e_required_bytes e \<le> m" for m
  proof (cases "build_loop z (cu_chunk c) m batchOverhead 0 False empty_batch (cu_queue c)")
    case (Inl e')
    with loop that show ?thesis by (auto simp: build_loop_Inl)
  next
    case (Inr r)
    with none show ?thesis by (cases r) (simp add: buildLocked_def Let_def)
  qed
  with loop c' show ?thesis by (auto simp: build_loop_Inl)
qed

text \<open>
  the net under oversized observations has a hole. An observation whose encoding is just
  within \<open>bound\<close>'s limit keeps its data, and then needs one byte more than any \<open>max_bytes\<close> an
  observe may name: no observe ever delivers it, nor anything behind it.
\<close>

lemma cursor_bound_too_wide:
  assumes "int (encodedSize z ob) + batchOverhead = MaxObserveBytes" and "maxBytes \<le> MaxObserveBytes"
  shows "bound z ob = ob \<and>
    (\<exists>e. observe_look z maxBytes (push z [ob] (newCursor r)) = (Some (Inl e), push z [ob] (newCursor r)) \<and>
      e_code e = CodeBatchTooLarge \<and> e_required_bytes e = MaxObserveBytes + 1)"
  using assms
  by (simp add: bound_def observe_look_def push_def newCursor_def wakeLocked_def live_entry_def Let_def
      buildLocked_def entry_add_def)

end
