(* ===== verification/Adapter_Frontend.thy ===== *)
theory Adapter_Frontend
  imports Contract_Broker Contract_Session
begin

text \<open>
  \<^verbatim>\<open>pkg/adapter/adapter.go\<close>: what the Harness Adapter checks before a profile's code runs
  (\<open>Provision\<close>, \<open>NewSession\<close>, \<open>OpenRecord\<close>), and what it checks of a profile's result. The
  profile's own \<open>Provision\<close> is a parameter.
\<close>

section \<open>Definitions\<close>

definition WorkingDir :: "string \<Rightarrow> string \<Rightarrow> string" where
  "WorkingDir configured dir = (if dir \<noteq> [] then dir else configured)"

definition CheckHarnessVersion :: "VersionPolicy \<Rightarrow> string \<Rightarrow> string \<Rightarrow> Error option" where
  "CheckHarnessVersion policy pinned running =
     (if Admits policy pinned running then None else Some (err_open OpenVersionUnsupported))"

definition Provision ::
  "Descriptor \<Rightarrow> (ProvisionRequest \<Rightarrow> Error + ProvisionResult) \<Rightarrow> ProvisionRequest \<Rightarrow> Error + ProvisionResult"
where
  "Provision d profile req =
     (case orelse (checkVersion (pr_contract req))
          (orelse (CheckMinor req)
          (orelse (Layout_Validate (pr_layout req))
          (orelse (guard_err (pr_harness_root req = [] \<or> \<not> is_abs (pr_harness_root req) \<or>
                              path_clean (pr_harness_root req) \<noteq> pr_harness_root req)
                     (err_field CodeInvalidSpec ''harness_root''))
          (orelse (CheckSpec d (pr_spec req))
                  (case pr_load req of None \<Rightarrow> None | Some l \<Rightarrow> CheckLoad d l))))) of
        Some e \<Rightarrow> Inl e
      | None \<Rightarrow>
          case profile req of
            Inl e \<Rightarrow> Inl e
          | Inr res \<Rightarrow>
              if ProvisionResult_Validate res \<noteq> None then Inl (err CodeInternal)
              else if pr_load req = None \<and> (length (res_relocations res) > 0 \<or> length (res_rewrites res) > 0)
              then Inl (err CodeInternal)
              else Inr res)"

definition NewSession_check :: "Descriptor \<Rightarrow> OpenRequest \<Rightarrow> Error option" where
  "NewSession_check d req =
     orelse (OpenRequest_Validate req)
    (orelse (guard_err (Layout_Validate (or_layout req) \<noteq> None) (err_field CodeProtocol ''layout''))
    (orelse (guard_err (or_mode req = OpenReopen \<and> \<not> Has d CapResume) (Errorf CodeUnsupported))
    (orelse (guard_err (or_mode req = OpenFresh \<and> or_session_id req \<noteq> [] \<and> \<not> Has d CapAssignSessionID)
               (Errorf CodeUnsupported))
    (orelse (guard_err (or_loaded req \<and> \<not> Has d CapSessionLoad) (Errorf CodeUnsupported))
            (guard_err (or_work_dir req \<noteq> [] \<and> \<not> Has d CapSessionWorkDir)
               (err_field CodeUnsupported ''work_dir''))))))"

definition OpenRecord_check :: "Descriptor \<Rightarrow> RecordRequest \<Rightarrow> Error option" where
  "OpenRecord_check d req =
     orelse (guard_err (\<not> ValidID (rr_session_id req)) (err_field CodeProtocol ''session_id''))
    (orelse (guard_err (Layout_Validate (rr_layout req) \<noteq> None) (err_field CodeProtocol ''layout''))
    (orelse (guard_err (length (rr_open_config req) > MaxOpenConfigBytes) (err_field CodeProtocol ''open_config''))
    (orelse (guard_err (case rr_checkpoint req of None \<Rightarrow> False | Some c \<Rightarrow> length (cp_data c) > MaxCheckpointBytes)
               (err_field CodeProtocol ''checkpoint.data''))
    (orelse (CheckWorkDir (rr_work_dir req))
            (guard_err (rr_work_dir req \<noteq> [] \<and> \<not> Has d CapSessionWorkDir)
               (err_field CodeUnsupported ''work_dir''))))))"

definition workDirOf :: "Layout \<Rightarrow> string \<Rightarrow> string" where
  "workDirOf l dir = (if dir = [] then [] else WorkDirPath l dir)"

text \<open>What \<open>os.Lstat\<close> says of a path.\<close>

datatype lstat = LstatError | LstatSymlink | LstatDir | LstatOther

text \<open>The walk of \<open>checkWorkDir\<close>: every path on the way down is a directory and no symbolic link.\<close>

fun checkWorkDir_from :: "(string \<Rightarrow> lstat) \<Rightarrow> string \<Rightarrow> string list \<Rightarrow> goerror option" where
  "checkWorkDir_from fs p [] = None"
| "checkWorkDir_from fs p (part # parts) =
     (let p' = path_join p part in
      case fs p' of LstatDir \<Rightarrow> checkWorkDir_from fs p' parts | _ \<Rightarrow> Some Plain)"

definition checkWorkDir :: "(string \<Rightarrow> lstat) \<Rightarrow> Layout \<Rightarrow> string \<Rightarrow> goerror option" where
  "checkWorkDir fs l dir = checkWorkDir_from fs (lay_workspace l) (split_on slash dir)"

section \<open>Helper lemmas\<close>

lemma Provision_Inr:
  assumes "Provision d profile req = Inr res"
  shows "checkVersion (pr_contract req) = None" "CheckMinor req = None" "Layout_Validate (pr_layout req) = None"
    "clean_abs (pr_harness_root req)" "CheckSpec d (pr_spec req) = None"
    "pr_load req = Some l \<Longrightarrow> CheckLoad d l = None"
    "profile req = Inr res" "ProvisionResult_Validate res = None"
    "pr_load req = None \<Longrightarrow> res_relocations res = [] \<and> res_rewrites res = []"
  using assms
  by (auto simp: Provision_def clean_abs_def split: option.splits sum.splits if_splits)

lemma clean_abs_append:
  "clean_abs w \<Longrightarrow> w \<noteq> [slash] \<Longrightarrow> list_all proper_comp (split_on slash r) \<Longrightarrow> r \<noteq> [] \<Longrightarrow>
   path_join w r = w @ slash # r \<and> clean_abs (w @ slash # r)"
proof -
  assume w: "clean_abs w" "w \<noteq> [slash]" and r: "list_all proper_comp (split_on slash r)" "r \<noteq> []"
  then have abs: "is_abs w" "path_clean w = w" by (auto simp: clean_abs_def)
  obtain q where q: "w = slash # q" using abs(1) by (cases w) (auto simp: is_abs_def)
  have "list_all proper_comp (split_on slash q)"
    using clean_abs_iff [OF abs(1)] abs(2) w(2) q by simp
  then have "list_all proper_comp (split_on slash (q @ slash # r))"
    using r by (simp add: split_on_append_gen)
  moreover have "is_abs (w @ slash # r)" by (simp add: q is_abs_def)
  ultimately have "clean_abs (w @ slash # r)"
    using clean_abs_iff [of "w @ slash # r"] by (simp add: clean_abs_def q)
  then show ?thesis using path_join_proper [OF abs w(2) r] by simp
qed

lemma checkWorkDir_from_None:
  assumes "clean_abs w" "w \<noteq> [slash]" "list_all proper_comp ps" "\<forall>p \<in> set ps. slash \<notin> set p"
    and "checkWorkDir_from fs w ps = None"
  shows "\<forall>k < length ps. fs (w @ slash # join_on slash (take (Suc k) ps)) = LstatDir"
  using assms
proof (induction ps arbitrary: w)
  case (Cons p ps)
  have one: "split_on slash p = [p]" using Cons.prems(4) by (simp add: split_on_single)
  then have join: "path_join w p = w @ slash # p" "clean_abs (w @ slash # p)" "w @ slash # p \<noteq> [slash]"
    using clean_abs_append [OF Cons.prems(1,2), of p] Cons.prems(3) by (auto simp: proper_comp_def append_eq_Cons_conv)
  with Cons.prems(5) have head: "fs (w @ slash # p) = LstatDir"
    and rest: "checkWorkDir_from fs (w @ slash # p) ps = None"
    by (auto simp: Let_def split: lstat.splits)
  have "\<forall>k < length ps. fs ((w @ slash # p) @ slash # join_on slash (take (Suc k) ps)) = LstatDir"
    by (rule Cons.IH) (use join rest Cons.prems in auto)
  then show ?case using head
    by (auto simp: nth_Cons less_Suc_eq_0_disj join_on_Cons)
qed simp


section \<open>Properties\<close>

text \<open>
  a Session works where it says. For an accepted open request with a working directory of
  its own, the adapter declares the capability, and the directory is the clean path of the
  request beneath the workspace, which the walk at open has found to be a directory reached
  through directories only, no symbolic link among them.
\<close>

lemma session_work_dir:
  assumes "NewSession_check d req = None" and "or_work_dir req \<noteq> []"
    and "lay_workspace (or_layout req) \<noteq> [slash]"
    and "checkWorkDir fs (or_layout req) (or_work_dir req) = None"
  shows "Has d CapSessionWorkDir \<and>
    workDirOf (or_layout req) (or_work_dir req) = lay_workspace (or_layout req) @ slash # or_work_dir req \<and>
    clean_abs (workDirOf (or_layout req) (or_work_dir req)) \<and>
    fs (workDirOf (or_layout req) (or_work_dir req)) = LstatDir \<and>
    (\<forall>k < length (split_on slash (or_work_dir req)).
      fs (lay_workspace (or_layout req) @ slash # join_on slash (take (Suc k) (split_on slash (or_work_dir req)))) = LstatDir)"
proof -
  let ?w = "lay_workspace (or_layout req)" and ?dir = "or_work_dir req"
  from assms(1,2) have cap: "Has d CapSessionWorkDir" and rel: "CheckRelPath ?dir = None"
    and lay: "Layout_Validate (or_layout req) = None"
    by (auto simp: NewSession_check_def OpenRequest_Validate_def CheckWorkDir_def split: option.splits)
  have w: "clean_abs ?w" using lay by (simp add: Layout_Validate_None)
  note proper = CheckRelPath_proper(3) [OF rel]
  have join: "path_join ?w ?dir = ?w @ slash # ?dir" "clean_abs (?w @ slash # ?dir)"
    using clean_abs_append [OF w assms(3) proper assms(2)] by auto
  have walk: "\<forall>k < length (split_on slash ?dir). fs (?w @ slash # join_on slash (take (Suc k) (split_on slash ?dir))) = LstatDir"
    by (rule checkWorkDir_from_None [OF w assms(3) proper])
      (use assms(4) in \<open>auto simp: checkWorkDir_def dest: split_on_no_sep\<close>)
  have "fs (?w @ slash # ?dir) = LstatDir"
    using walk [rule_format, of "length (split_on slash ?dir) - 1"] join_split [of slash ?dir] by simp
  with cap join walk assms(2) show ?thesis by (simp add: workDirOf_def WorkDirPath_def)
qed

definition demo_layout :: Layout where
  "demo_layout = \<lparr>lay_home = ''/h'', lay_config = ''/c'', lay_workspace = ''/w'', lay_secrets = ''/s'', lay_scratch = ''/t''\<rparr>"

definition demo_open :: OpenRequest where
  "demo_open =
     \<lparr>or_mode = OpenFresh, or_session_id = [], or_open_config = ''{}'', or_layout = demo_layout, or_credential = None,
      or_checkpoint = None, or_loaded = False, or_work_dir = ''a/b''\<rparr>"

definition demo_desc :: Descriptor where
  "demo_desc =
     \<lparr>d_contract = ''harness-adapter/1.9'', d_harness = \<lparr>h_name = ''h'', h_version = ''1'', h_adapter = ''a''\<rparr>,
      d_capabilities = [CapSessionWorkDir], d_checkpoint_format = 1, d_credential_kinds = [],
      d_spec = \<lparr>ss_models = \<lparr>m_any = True, m_ids = []\<rparr>, ss_efforts = [], ss_instructions = [], ss_skills = False,
                ss_memory = False, ss_connectors = [], ss_postures = [], ss_input_content = []\<rparr>,
      d_limits = \<lparr>l_max_input_bytes = 0, l_max_sessions = 0\<rparr>, d_load = None, d_egress = None, d_keeper = None\<rparr>"

lemma demo_layout_valid: "Layout_Validate demo_layout = None"
  by code_simp

lemma demo_rel: "CheckRelPath ''a/b'' = None"
  by (simp add: CheckRelPath_iff proper_comp_def valid_string_def)

text \<open>
  what the adapter provisions was asked for within the Descriptor and checked afterwards:
  a result is only returned for a supported spec and load, written in the adapter's version, and
  it is a validated one that moves or rewrites history only for a load.
\<close>

lemma provision_checked:
  assumes "Provision d profile req = Inr res"
  shows "profile req = Inr res \<and> ProvisionResult_Validate res = None \<and>
    (\<exists>minor \<le> Minor. ParseVersion (pr_contract req) = Some (Major, minor)) \<and>
    Allows (ss_models (d_spec d)) (as_model (pr_spec req)) \<and>
    (\<forall>l. pr_load req = Some l \<longrightarrow> Loads d (lo_format l) (h_version (lo_harness l))) \<and>
    (pr_load req = None \<longrightarrow> res_relocations res = [] \<and> res_rewrites res = []) \<and>
    distinct (map sk_name (as_skills (pr_spec req))) \<and>
    (\<forall>sk \<in> set (as_skills (pr_spec req)). validName (sk_name sk) \<and> ''SKILL.md'' \<in> sf_path ` set (sk_files sk))"
proof -
  note parts = Provision_Inr [OF assms]
  have spec: "Allows (ss_models (d_spec d)) (as_model (pr_spec req))"
    "check_prev 0 checkSkill [] (as_skills (pr_spec req)) = None"
    using parts(5) by (simp_all add: CheckSpec_def)
  have "distinct (map sk_name (as_skills (pr_spec req)))"
    by (rule check_prev_distinct [OF spec(2)]) (simp add: checkSkill_None)
  moreover have "\<forall>sk \<in> set (as_skills (pr_spec req)). validName (sk_name sk) \<and> ''SKILL.md'' \<in> sf_path ` set (sk_files sk)"
    by (rule check_prev_all [OF spec(2)]) (simp add: checkSkill_None)
  moreover have "\<exists>minor \<le> Minor. ParseVersion (pr_contract req) = Some (Major, minor)"
    using parts(1) by (auto simp: checkVersion_def not_less split: option.splits if_splits)
  moreover have "\<forall>l. pr_load req = Some l \<longrightarrow> Loads d (lo_format l) (h_version (lo_harness l))"
    using parts(6) CheckLoad_Loads by blast
  ultimately show ?thesis using parts spec(1) by blast
qed

definition demo_provision :: ProvisionRequest where
  "demo_provision =
     \<lparr>pr_contract = version_text 1 9, pr_harness_root = ''/x'', pr_layout = demo_layout,
      pr_spec = \<lparr>as_model = [], as_effort = [], as_instructions = \<lparr>ins_persona = [], ins_workspace = []\<rparr>,
                 as_skills = [], as_connectors = [], as_memory = None, as_posture = [], as_credential = None,
                 as_version_policy = VersionUnset\<rparr>,
      pr_load = None\<rparr>"

definition demo_rendered :: ProvisionResult where
  "demo_rendered = \<lparr>res_files = [], res_open_config = [], res_history_roots = [], res_secret_paths = [],
                    res_relocations = [], res_rewrites = []\<rparr>"

end
