(* ===== verification/Adapter_Session.thy ===== *)
theory Adapter_Session
  imports Contract_Session
begin

text \<open>
  \<^verbatim>\<open>pkg/adapter/session.go\<close>: the Session of the Harness Adapter. A handler is the regions it runs
  under \<open>s.mu\<close>, in its order, one definition each; between them it calls the transport or the
  marker store, whose answers are parameters. Turns and interrupts are shared objects: they
  live in heaps and the Session's maps hold their addresses. The clock is the parameter
  \<open>now\<close>. Of SHA-256, which names the turn of an input with a long id, the digest's hex form is
  the parameter \<open>H\<close>.
\<close>

section \<open>Turn ids and texts\<close>

definition TurnID :: "(string \<Rightarrow> string) \<Rightarrow> string \<Rightarrow> string" where
  "TurnID H inputID = (if length inputID \<le> 126 then ''t_'' @ inputID else ''t_'' @ take 32 (H inputID))"

definition AutoTurnID :: "(string \<Rightarrow> string) \<Rightarrow> string \<Rightarrow> string" where
  "AutoTurnID H native =
     (if length native \<le> 126 \<and> ValidID native then ''a_'' @ native else ''a_'' @ take 32 (H native))"

text \<open>The loop of \<open>Truncate\<close>: back to the start of a rune.\<close>

fun rune_cut :: "string \<Rightarrow> nat \<Rightarrow> nat" where
  "rune_cut s 0 = 0"
| "rune_cut s (Suc n) = (if rune_start (s ! Suc n) then Suc n else rune_cut s n)"

definition Truncate :: "string \<Rightarrow> string \<times> bool" where
  "Truncate s =
     (if length s \<le> MaxObservationText then (s, False)
      else (take (rune_cut s MaxObservationText) s, True))"

section \<open>Events\<close>

datatype EventKind = Started | Ended | Retrying | RateLimited | PromptRaised | PromptResolved | Exited | Background

record Event =
  ev_kind :: EventKind
  ev_native :: string
  ev_auto :: string
  ev_time :: "int option"
  ev_outcome :: TurnOutcome
  ev_text :: string
  ev_error :: "TurnError option"
  ev_retry :: RetryingData
  ev_rate_limit :: RateLimitData
  ev_resume_at :: "int option"
  ev_prompt :: "PromptInfo option"
  ev_prompt_id :: string
  ev_by :: string
  ev_exit :: SessionExitedData
  ev_tasks :: "BackgroundTask list"

section \<open>The Session\<close>

record turn =
  t_input :: string
  t_native :: string
  t_id :: string
  t_started :: bool
  t_ended :: bool
  t_outcome :: "TurnOutcome option"
  t_interrupt :: "nat option"
  t_retries :: nat

record autoTurn =
  at_native :: string
  at_id :: string
  at_started :: bool
  at_ended :: bool
  at_interrupt :: "nat option"

record session =
  ss_phase :: Phase
  ss_transport :: bool
  ss_sessionID :: string
  ss_locked :: bool
  ss_instance :: string
  ss_counter :: nat
  ss_heap :: "nat \<Rightarrow> turn"
  ss_next :: nat
  ss_turns :: "string \<rightharpoonup> nat"
  ss_byNative :: "string \<rightharpoonup> nat"
  ss_current :: "nat option"
  ss_aheap :: "nat \<Rightarrow> autoTurn"
  ss_anext :: nat
  ss_autos :: "(string \<times> nat) list"
  ss_auto :: "nat option"
  ss_ops :: "nat \<Rightarrow> InterruptOutcome option"
  ss_opnext :: nat
  ss_sending :: bool
  ss_gate :: "Block option"
  ss_gateTimer :: "int option"
  ss_resumeHint :: "int option"
  ss_prompt :: "PromptInfo option"
  ss_answered :: "string \<rightharpoonup> Choice"
  ss_retry :: "RetryInfo option"
  ss_background :: "BackgroundTask list"
  ss_exited :: bool
  ss_closing :: bool
  ss_closeRes :: "CloseResult option"

definition no_turn :: turn where
  "no_turn = \<lparr>t_input = [], t_native = [], t_id = [], t_started = False, t_ended = False, t_outcome = None,
              t_interrupt = None, t_retries = 0\<rparr>"

definition no_auto :: autoTurn where
  "no_auto = \<lparr>at_native = [], at_id = [], at_started = False, at_ended = False, at_interrupt = None\<rparr>"

definition newSession :: "string \<Rightarrow> session" where
  "newSession inst =
     \<lparr>ss_phase = PhaseUnopened, ss_transport = False, ss_sessionID = [], ss_locked = False, ss_instance = inst,
      ss_counter = 0, ss_heap = (\<lambda>_. no_turn), ss_next = 0, ss_turns = Map.empty, ss_byNative = Map.empty,
      ss_current = None, ss_aheap = (\<lambda>_. no_auto), ss_anext = 0, ss_autos = [], ss_auto = None,
      ss_ops = (\<lambda>_. None), ss_opnext = 0, ss_sending = False, ss_gate = None, ss_gateTimer = None,
      ss_resumeHint = None, ss_prompt = None, ss_answered = Map.empty, ss_retry = None, ss_background = [],
      ss_exited = False, ss_closing = False, ss_closeRes = None\<rparr>"

abbreviation upd_turn :: "nat \<Rightarrow> (turn \<Rightarrow> turn) \<Rightarrow> session \<Rightarrow> session" where
  "upd_turn t f s \<equiv> s\<lparr>ss_heap := (ss_heap s)(t := f (ss_heap s t))\<rparr>"

abbreviation upd_auto :: "nat \<Rightarrow> (autoTurn \<Rightarrow> autoTurn) \<Rightarrow> session \<Rightarrow> session" where
  "upd_auto t f s \<equiv> s\<lparr>ss_aheap := (ss_aheap s)(t := f (ss_aheap s t))\<rparr>"

section \<open>The harness's events\<close>

definition liveKeyLocked :: "session \<Rightarrow> string \<times> session" where
  "liveKeyLocked s =
     (let n = Suc (ss_counter s) in (ss_instance s @ ''.'' @ itoa (int n), s\<lparr>ss_counter := n\<rparr>))"

definition liveObs :: "Kind \<Rightarrow> string \<Rightarrow> turn option \<Rightarrow> int \<Rightarrow> ObsData \<Rightarrow> Observation" where
  "liveObs kind key t at data =
     (let ob = NewObservation kind key OriginLive at data in
      case t of None \<Rightarrow> ob | Some t \<Rightarrow> ob\<lparr>o_input_id := t_input t, o_turn_id := t_id t\<rparr>)"

definition restLocked :: "session \<Rightarrow> session" where
  "restLocked s =
     (if ss_phase s = PhaseBusy \<and> ss_current s = None \<and> ss_auto s = None then s\<lparr>ss_phase := PhaseIdle\<rparr> else s)"

definition interruptOutcome :: "TurnOutcome \<Rightarrow> InterruptOutcome" where
  "interruptOutcome ou =
     (case ou of TurnInterrupted \<Rightarrow> InterruptStopped | TurnCancelled \<Rightarrow> InterruptCancelled | _ \<Rightarrow> InterruptTooLate)"

definition blockFor :: "int \<Rightarrow> TurnError option \<Rightarrow> session \<Rightarrow> Block option" where
  "blockFor now e s =
     (case e of
        None \<Rightarrow> None
      | Some e \<Rightarrow>
          (case te_class e of
             ErrorUsageLimit \<Rightarrow>
               Some \<lparr>b_reason = BlockUsageLimited,
                     b_resume_at =
                       (case te_resume_at e of
                          Some at \<Rightarrow> Some at
                        | None \<Rightarrow>
                            (case ss_resumeHint s of
                               Some h \<Rightarrow> if h > now then Some h else None
                             | None \<Rightarrow> None))\<rparr>
           | ErrorAuth \<Rightarrow> Some \<lparr>b_reason = BlockAuthRequired, b_resume_at = None\<rparr>
           | ErrorBilling \<Rightarrow> Some \<lparr>b_reason = BlockBilling, b_resume_at = None\<rparr>
           | _ \<Rightarrow> None))"

text \<open>\<open>armGateLocked\<close> replaces the timer; what it runs when due is \<open>gate_fire\<close>.\<close>

definition armGateLocked :: "int \<Rightarrow> session \<Rightarrow> session" where
  "armGateLocked resume s = s\<lparr>ss_gateTimer := Some resume\<rparr>"

definition gate_fire :: "int \<Rightarrow> session \<Rightarrow> Observation list \<times> session" where
  "gate_fire now s =
     (if ss_phase s \<noteq> PhaseBlocked \<or> ss_gate s = None then ([], s)
      else
        let (key, s1) = liveKeyLocked (s\<lparr>ss_gate := None, ss_phase := PhaseIdle\<rparr>) in
        ([liveObs KindUnblocked key None now DataEmpty], s1))"

text \<open>Closing the gate: the Session is blocked, and says so.\<close>

definition close_gate :: "Block \<Rightarrow> int \<Rightarrow> session \<Rightarrow> Observation list \<times> session" where
  "close_gate b at s =
     (let (key, s1) = liveKeyLocked (s\<lparr>ss_gate := Some b, ss_phase := PhaseBlocked\<rparr>);
          s2 = (case b_resume_at b of
                  Some r \<Rightarrow> if b_reason b = BlockUsageLimited then armGateLocked r s1 else s1
                | None \<Rightarrow> s1)
      in ([liveObs KindBlocked key None at (DataBlock b)], s2))"

text \<open>The outcome a turn's end establishes for the interrupt of it that is still open.\<close>

definition settle_op :: "nat option \<Rightarrow> TurnOutcome \<Rightarrow> session \<Rightarrow> session" where
  "settle_op op ou s =
     (case op of
        None \<Rightarrow> s
      | Some p \<Rightarrow>
          if ss_ops s p = None then s\<lparr>ss_ops := (ss_ops s)(p := Some (interruptOutcome ou))\<rparr> else s)"

definition ended_obs :: "Kind \<Rightarrow> string \<Rightarrow> turn option \<Rightarrow> int \<Rightarrow> Event \<Rightarrow> Observation" where
  "ended_obs kind key t at ev =
     (let (text, cut) = Truncate (ev_text ev) in
      (liveObs kind key t at
         (DataTurnEnded \<lparr>ted_outcome = ev_outcome ev, ted_text = text, ted_error = ev_error ev\<rparr>))\<lparr>o_truncated := cut\<rparr>)"

definition endLocked :: "int \<Rightarrow> int \<Rightarrow> nat \<Rightarrow> Event \<Rightarrow> session \<Rightarrow> Observation list \<times> session" where
  "endLocked now at t ev s =
     (let tn = ss_heap s t;
          started = (if t_started tn then [] else [liveObs KindTurnStarted (t_input tn) (Some tn) at DataEmpty]);
          s1 = upd_turn t (\<lambda>x. x\<lparr>t_started := True, t_ended := True, t_outcome := Some (ev_outcome ev)\<rparr>) s;
          ended = [ended_obs KindTurnEnded (t_input tn) (Some tn) at ev];
          s2 = settle_op (t_interrupt tn) (ev_outcome ev) s1;
          s3 = (if ss_current s2 = Some t then s2\<lparr>ss_current := None\<rparr> else s2);
          resolved = (case ss_prompt s3 of
                        None \<Rightarrow> []
                      | Some p \<Rightarrow> [liveObs KindPromptResolved (pi_prompt_id p) (Some tn) at
                                    (DataPromptResolved (pi_prompt_id p) ''harness'')]);
          s4 = s3\<lparr>ss_prompt := None, ss_retry := None\<rparr>;
          obs = started @ ended @ resolved
      in
        if ss_phase s4 = PhaseExited then (obs, s4)
        else
          case blockFor now (ev_error ev) s4 of
            Some b \<Rightarrow> (let (blocked, s5) = close_gate b at s4 in (obs @ blocked, s5))
          | None \<Rightarrow>
              (obs, restLocked (if ss_phase s4 = PhaseAwaitingAnswer then s4\<lparr>ss_phase := PhaseBusy\<rparr> else s4)))"

text \<open>
  \<open>autoLocked\<close>'s lookup of the turn \<open>ev.Auto\<close> names: a new one is made when there is none, and
  with 64 kept, those that ended are forgotten first.
\<close>

definition auto_lookup :: "(string \<Rightarrow> string) \<Rightarrow> string \<Rightarrow> session \<Rightarrow> nat \<times> session" where
  "auto_lookup H native s =
     (case map_of (ss_autos s) native of
        Some a \<Rightarrow> (a, s)
      | None \<Rightarrow>
          let kept = (if length (ss_autos s) \<ge> 64
                      then filter (\<lambda>(_, a). \<not> at_ended (ss_aheap s a)) (ss_autos s) else ss_autos s);
              a = ss_anext s
          in (a, s\<lparr>ss_autos := (native, a) # kept, ss_anext := Suc a,
                   ss_aheap := (ss_aheap s)(a := no_auto\<lparr>at_native := native, at_id := AutoTurnID H native\<rparr>)\<rparr>))"

definition auto_obs :: "autoTurn \<Rightarrow> Observation \<Rightarrow> Observation" where
  "auto_obs at ob = ob\<lparr>o_turn_id := at_id at\<rparr>"

definition autoLocked ::
  "(string \<Rightarrow> string) \<Rightarrow> Descriptor \<Rightarrow> int \<Rightarrow> int \<Rightarrow> Event \<Rightarrow> session \<Rightarrow> Observation list \<times> session"
where
  "autoLocked H d now at ev s =
     (if (\<not> Has d CapAutonomousTurns \<and> \<not> Has d CapBackgroundTurns) \<or> (ev_kind ev \<noteq> Started \<and> ev_kind ev \<noteq> Ended)
      then ([], s)
      else
        let (a, s1) = auto_lookup H (ev_auto ev) s; an = ss_aheap s1 a in
        if at_ended an \<or> (ev_kind ev = Started \<and> at_started an) then ([], s1)
        else
          let started = (if at_started an then []
                         else [auto_obs an (liveObs KindTurnStarted (at_id an) None at DataEmpty)]);
              s2 = upd_auto a (\<lambda>x. x\<lparr>at_started := True\<rparr>) s1
          in
            if ev_kind ev = Started then
              (started, (if ss_phase s2 = PhaseIdle then s2\<lparr>ss_phase := PhaseBusy\<rparr> else s2)\<lparr>ss_auto := Some a\<rparr>)
            else
              let s3 = upd_auto a (\<lambda>x. x\<lparr>at_ended := True\<rparr>) s2;
                  obs = started @ [auto_obs an (ended_obs KindTurnEnded (at_id an) None at ev)];
                  s4 = settle_op (at_interrupt an) (ev_outcome ev) s3;
                  s5 = (if ss_auto s4 = Some a then s4\<lparr>ss_auto := None\<rparr> else s4)\<lparr>ss_retry := None\<rparr>
              in
                if ss_phase s5 = PhaseExited \<or> ss_current s5 \<noteq> None then (obs, s5)
                else
                  case blockFor now (ev_error ev) s5 of
                    Some b \<Rightarrow> (let (blocked, s6) = close_gate b at s5 in (obs @ blocked, s6))
                  | None \<Rightarrow> (obs, restLocked s5))"

text \<open>The turn an event concerns: by its native id, or the current one.\<close>

definition event_turn :: "Event \<Rightarrow> session \<Rightarrow> nat option" where
  "event_turn ev s =
     (case ss_byNative s (ev_native ev) of
        Some t \<Rightarrow> Some t
      | None \<Rightarrow> if ev_native ev = [] then ss_current s else None)"

definition turn_of :: "nat option \<Rightarrow> session \<Rightarrow> turn option" where
  "turn_of t s = map_option (ss_heap s) t"

definition on_started :: "int \<Rightarrow> nat \<Rightarrow> session \<Rightarrow> Observation list \<times> session" where
  "on_started at t s =
     (if t_started (ss_heap s t) then ([], s)
      else
        let tn = ss_heap s t; s1 = upd_turn t (\<lambda>x. x\<lparr>t_started := True\<rparr>) s in
        ([liveObs KindTurnStarted (t_input tn) (Some tn) at DataEmpty],
         if ss_current s1 = Some t \<and> \<not> t_ended tn \<and> ss_phase s1 = PhaseIdle then s1\<lparr>ss_phase := PhaseBusy\<rparr> else s1))"

definition on_retrying :: "Descriptor \<Rightarrow> int \<Rightarrow> nat \<Rightarrow> Event \<Rightarrow> session \<Rightarrow> Observation list \<times> session" where
  "on_retrying d at t ev s =
     (let s1 = s\<lparr>ss_retry := Some \<lparr>ri_attempt = rd_attempt (ev_retry ev), ri_max = rd_max (ev_retry ev)\<rparr>\<rparr> in
      if \<not> Has d CapRetryVisible then ([], s1)
      else
        let tn = ss_heap s1 t; n = Suc (t_retries tn) in
        ([liveObs KindRetrying (t_input tn @ '':'' @ itoa (int n)) (Some tn) at (DataRetrying (ev_retry ev))],
         upd_turn t (\<lambda>x. x\<lparr>t_retries := n\<rparr>) s1))"

definition on_background :: "Descriptor \<Rightarrow> int \<Rightarrow> Event \<Rightarrow> session \<Rightarrow> Observation list \<times> session" where
  "on_background d at ev s =
     (if \<not> Has d CapBackgroundTurns \<or> ss_phase s = PhaseExited then ([], s)
      else
        let (key, s1) = liveKeyLocked (s\<lparr>ss_background := ev_tasks ev\<rparr>) in
        ([liveObs KindBackgroundTasks key None at (DataBackground (ev_tasks ev))], s1))"

definition on_rate_limited ::
  "Descriptor \<Rightarrow> int \<Rightarrow> nat option \<Rightarrow> Event \<Rightarrow> session \<Rightarrow> Observation list \<times> session"
where
  "on_rate_limited d at t ev s =
     (let s1 = (case ev_resume_at ev of None \<Rightarrow> s | Some r \<Rightarrow> s\<lparr>ss_resumeHint := Some r\<rparr>) in
      if \<not> Has d CapRateLimits then ([], s1)
      else
        let (key, s2) = liveKeyLocked s1 in
        ([liveObs KindRateLimit key (turn_of t s2) at (DataRateLimit (ev_rate_limit ev))], s2))"

definition on_prompt_raised :: "int \<Rightarrow> nat \<Rightarrow> PromptInfo \<Rightarrow> session \<Rightarrow> Observation list \<times> session" where
  "on_prompt_raised at t p s =
     (if t_ended (ss_heap s t) then ([], s)
      else
        let s1 = s\<lparr>ss_prompt := Some p\<rparr>;
            s2 = (if ss_phase s1 = PhaseBusy \<or> ss_phase s1 = PhaseIdle
                  then s1\<lparr>ss_phase := PhaseAwaitingAnswer\<rparr> else s1)
        in ([liveObs KindPromptRaised (pi_prompt_id p) (Some (ss_heap s t)) at (DataPrompt p)], s2))"

definition on_prompt_resolved ::
  "int \<Rightarrow> nat option \<Rightarrow> Event \<Rightarrow> session \<Rightarrow> Observation list \<times> session"
where
  "on_prompt_resolved at t ev s =
     (case ss_prompt s of
        None \<Rightarrow> ([], s)
      | Some p \<Rightarrow>
          if pi_prompt_id p \<noteq> ev_prompt_id ev then ([], s)
          else
            let s1 = s\<lparr>ss_prompt := None\<rparr>;
                s2 = (if ss_phase s1 = PhaseAwaitingAnswer then s1\<lparr>ss_phase := PhaseBusy\<rparr> else s1)
            in ([liveObs KindPromptResolved (ev_prompt_id ev) (turn_of t s) at
                   (DataPromptResolved (ev_prompt_id ev) (ev_by ev))], s2))"

text \<open>\<open>exitOnce\<close>: the first \<open>Exited\<close> only.\<close>

definition on_exited :: "int \<Rightarrow> Event \<Rightarrow> session \<Rightarrow> Observation list \<times> session" where
  "on_exited at ev s =
     (if ss_exited s then ([], s)
      else
        let (key, s1) = liveKeyLocked s;
            exit = (ev_exit ev)\<lparr>se_detail := fst (Truncate (se_detail (ev_exit ev)))\<rparr>
        in ([liveObs KindSessionExited key None at (DataExited exit)],
            s1\<lparr>ss_phase := PhaseExited, ss_prompt := None, ss_retry := None, ss_background := [],
               ss_gateTimer := None, ss_locked := False, ss_exited := True\<rparr>))"

definition report ::
  "(string \<Rightarrow> string) \<Rightarrow> Descriptor \<Rightarrow> int \<Rightarrow> Event \<Rightarrow> session \<Rightarrow> Observation list \<times> session"
where
  "report H d now ev s =
     (let at = (case ev_time ev of Some at \<Rightarrow> at | None \<Rightarrow> now) in
      if ev_auto ev \<noteq> [] then autoLocked H d now at ev s
      else
        let t = event_turn ev s in
        case ev_kind ev of
          Started \<Rightarrow> (case t of None \<Rightarrow> ([], s) | Some t \<Rightarrow> on_started at t s)
        | Ended \<Rightarrow>
            (case t of
               None \<Rightarrow> ([], s)
             | Some t \<Rightarrow> if t_ended (ss_heap s t) then ([], s) else endLocked now at t ev s)
        | Retrying \<Rightarrow> (case t of None \<Rightarrow> ([], s) | Some t \<Rightarrow> on_retrying d at t ev s)
        | Background \<Rightarrow> on_background d at ev s
        | RateLimited \<Rightarrow> on_rate_limited d at t ev s
        | PromptRaised \<Rightarrow>
            (case (ev_prompt ev, t) of
               (Some p, Some t) \<Rightarrow> on_prompt_raised at t p s
             | _ \<Rightarrow> ([], s))
        | PromptResolved \<Rightarrow> on_prompt_resolved at t ev s
        | Exited \<Rightarrow> on_exited at ev s)"


section \<open>Open\<close>

definition Open_begin :: "session \<Rightarrow> Error option \<times> session" where
  "Open_begin s =
     (if ss_closing s then (Some (Errorf CodeClosed), s)
      else if ss_phase s \<noteq> PhaseUnopened then (Some (Errorf CodeUnexpected), s)
      else (None, s\<lparr>ss_phase := PhaseStarting\<rparr>))"

text \<open>\<open>fail\<close>: \<open>abandoned\<close> is whether the caller's context ended.\<close>

definition Open_fail :: "goerror \<Rightarrow> bool \<Rightarrow> session \<Rightarrow> Error \<times> session" where
  "Open_fail e abandoned s =
     (if ss_closing s then Errorf CodeClosed
      else
        case e of
          Wraps ce \<Rightarrow> ce
        | Plain \<Rightarrow> if abandoned then OpenAbandoned else err_open OpenConfigInvalid,
      s\<lparr>ss_phase := PhaseExited\<rparr>)"

definition Open_attach :: "string \<Rightarrow> session \<Rightarrow> session" where
  "Open_attach sid s =
     s\<lparr>ss_transport := True, ss_sessionID := sid, ss_locked := (if ss_exited s then ss_locked s else True)\<rparr>"

definition stateLocked :: "Descriptor \<Rightarrow> session \<Rightarrow> State" where
  "stateLocked d s =
     (let turns = (case ss_current s of
                     Some t \<Rightarrow>
                       if \<not> t_ended (ss_heap s t) \<and> (ss_phase s = PhaseBusy \<or> ss_phase s = PhaseAwaitingAnswer)
                       then (t_id (ss_heap s t), t_input (ss_heap s t)) else ([], [])
                   | None \<Rightarrow> ([], []));
          turnID = (case ss_auto s of
                      Some a \<Rightarrow>
                        if \<not> at_ended (ss_aheap s a) \<and> fst turns = [] \<and> ss_phase s = PhaseBusy
                        then at_id (ss_aheap s a) else fst turns
                    | None \<Rightarrow> fst turns)
      in \<lparr>st_phase = ss_phase s, st_turn_id = turnID, st_input_id = snd turns, st_prompt = ss_prompt s,
          st_block = ss_gate s, st_retry = (if Has d CapRetryVisible then ss_retry s else None),
          st_background = ss_background s\<rparr>)"

definition Open_finish :: "Descriptor \<Rightarrow> string \<Rightarrow> session \<Rightarrow> (Error + OpenResult) \<times> session" where
  "Open_finish d version s =
     (if ss_closing s then (Inl (Errorf CodeClosed), s)
      else
        let s1 = (if ss_phase s = PhaseStarting
                  then s\<lparr>ss_phase := (if ss_auto s \<noteq> None then PhaseBusy else PhaseIdle)\<rparr> else s)
        in (Inr \<lparr>op_session_id = ss_sessionID s1, op_state = stateLocked d s1, op_harness_version = version\<rparr>, s1))"

section \<open>Send\<close>

definition admitLocked :: "Descriptor \<Rightarrow> session \<Rightarrow> Error option" where
  "admitLocked d s =
     (if ss_closing s then Some (refused CodeClosed)
      else if ss_sending s then Some (refused CodeBusy)
      else
        case ss_phase s of
          PhaseIdle \<Rightarrow> None
        | PhaseBusy \<Rightarrow>
            if ss_current s = None \<and> ss_auto s \<noteq> None \<and> Has d CapAutonomousTurns then None
            else Some (refused CodeBusy)
        | PhaseAwaitingAnswer \<Rightarrow> Some (refused CodePromptPending)
        | PhaseBlocked \<Rightarrow> Some (refused CodeBlocked)
        | PhaseExited \<Rightarrow> Some (refused CodeExited)
        | _ \<Rightarrow> Some (refused CodeUnexpected))"

definition Send_begin :: "Descriptor \<Rightarrow> Input \<Rightarrow> session \<Rightarrow> Error option \<times> session" where
  "Send_begin d i s =
     (case Input_Validate (l_max_input_bytes (d_limits d)) i of
        Some e \<Rightarrow> (Some e, s)
      | None \<Rightarrow>
          (case admitLocked d s of
             Some e \<Rightarrow> (Some e, s)
           | None \<Rightarrow>
               if ss_turns s (in_id i) \<noteq> None then (Some ((refused CodeProtocol)\<lparr>e_field := ''input_id''\<rparr>), s)
               else (None, s\<lparr>ss_sending := True\<rparr>)))"

text \<open>What a failed marker write is to the caller: \<open>marked\<close> when the id already has one.\<close>

definition Send_unmarked :: "bool \<Rightarrow> Error" where
  "Send_unmarked marked =
     (if marked then (refused CodeProtocol)\<lparr>e_field := ''input_id''\<rparr>
      else (err CodeInternal)\<lparr>e_certainty := Some MaybeSubmitted\<rparr>)"

definition Send_register :: "(string \<Rightarrow> string) \<Rightarrow> string \<Rightarrow> string \<Rightarrow> session \<Rightarrow> nat \<times> session" where
  "Send_register H inputID native s =
     (let t = ss_next s in
      (t, s\<lparr>ss_next := Suc t,
            ss_heap := (ss_heap s)(t := no_turn\<lparr>t_input := inputID, t_native := native, t_id := TurnID H inputID\<rparr>),
            ss_turns := (ss_turns s)(inputID \<mapsto> t), ss_byNative := (ss_byNative s)(native \<mapsto> t),
            ss_current := Some t\<rparr>))"

text \<open>
  What \<open>Submit\<close> answered: nil, an error wrapping \<open>ErrNotSubmitted\<close>, or another one; and what
  \<open>Send\<close> makes of it.
\<close>

datatype submit_answer = SubmitOK | SubmitNot | SubmitError goerror

datatype send_verdict = SentOK | SentRefused Code | SentMaybe

fun Send_verdict :: "submit_answer \<Rightarrow> send_verdict" where
  "Send_verdict SubmitOK = SentOK"
| "Send_verdict SubmitNot = SentRefused CodeInternal"
| "Send_verdict (SubmitError (Wraps e)) =
     (if e_certainty e = Some NotSubmitted then SentRefused (e_code e) else SentMaybe)"
| "Send_verdict (SubmitError Plain) = SentMaybe"

definition Send_running :: "nat \<Rightarrow> session \<Rightarrow> session" where
  "Send_running t s =
     (if \<not> t_ended (ss_heap s t) \<and> ss_phase s = PhaseIdle then s\<lparr>ss_phase := PhaseBusy\<rparr> else s)"

text \<open>Nothing reached the harness: \<open>freed\<close> is whether the marker was withdrawn.\<close>

definition Send_refused :: "bool \<Rightarrow> nat \<Rightarrow> session \<Rightarrow> session" where
  "Send_refused freed t s =
     (let tn = ss_heap s t;
          s1 = (if ss_current s = Some t then s\<lparr>ss_current := None\<rparr> else s);
          s2 = s1\<lparr>ss_byNative := (ss_byNative s1)(t_native tn := None)\<rparr>;
          s3 = (if freed then s2\<lparr>ss_turns := (ss_turns s2)(t_input tn := None)\<rparr> else s2)
      in restLocked s3)"

definition Send_maybe_error :: "session \<Rightarrow> Error" where
  "Send_maybe_error s =
     (err (if ss_exited s then CodeExited else CodeInternal))\<lparr>e_certainty := Some MaybeSubmitted\<rparr>"

definition Send_end :: "session \<Rightarrow> session" where
  "Send_end s = s\<lparr>ss_sending := False\<rparr>"

section \<open>Interrupt\<close>

text \<open>
  What the region that looks the turn up decides: an answer, to join the interrupt \<open>op\<close>, or to
  ask the harness with a new one; \<open>IWait\<close> while a send is outstanding.
\<close>

datatype interrupt_next =
    IError Error
  | IAnswer InterruptOutcome
  | IJoin nat
  | IAsk nat
  | IWait

definition Interrupt_check :: "Descriptor \<Rightarrow> InterruptRequest \<Rightarrow> Error option" where
  "Interrupt_check d r =
     orelse (InterruptRequest_Validate r)
            (guard_err (ir_turn_id r \<noteq> [] \<and> \<not> Has d CapAutonomousTurns \<and> \<not> Has d CapBackgroundTurns)
               (Errorf CodeUnsupported))"

definition new_op :: "session \<Rightarrow> nat \<times> session" where
  "new_op s = (ss_opnext s, s\<lparr>ss_opnext := Suc (ss_opnext s), ss_ops := (ss_ops s)(ss_opnext s := None)\<rparr>)"

text \<open>
  \<open>interruptAuto\<close>: \<open>selfStarter\<close> is whether the transport can stop a turn it started itself. The
  source walks a map of distinct turns; at most one has the turn id.
\<close>

definition interruptAuto :: "bool \<Rightarrow> InterruptRequest \<Rightarrow> session \<Rightarrow> interrupt_next \<times> session" where
  "interruptAuto selfStarter r s =
     (case find (\<lambda>(_, a). at_id (ss_aheap s a) = ir_turn_id r) (ss_autos s) of
        None \<Rightarrow>
          (IAnswer (if ss_current s = None \<and> ss_auto s = None then InterruptNoTurn else InterruptTooLate), s)
      | Some (_, a) \<Rightarrow>
          (case at_interrupt (ss_aheap s a) of
             Some op \<Rightarrow> (IJoin op, s)
           | None \<Rightarrow>
               if at_ended (ss_aheap s a) \<or> ss_auto s \<noteq> Some a then (IAnswer InterruptTooLate, s)
               else if ss_phase s = PhaseExited then (IError (Errorf CodeInterruptUnconfirmed), s)
               else if \<not> selfStarter then (IError (Errorf CodeUnsupported), s)
               else
                 let (op, s1) = new_op s in (IAsk op, upd_auto a (\<lambda>x. x\<lparr>at_interrupt := Some op\<rparr>) s1)))"

definition Interrupt_begin :: "bool \<Rightarrow> InterruptRequest \<Rightarrow> session \<Rightarrow> interrupt_next \<times> session" where
  "Interrupt_begin selfStarter r s =
     (if ss_sending s then (IWait, s)
      else if ss_phase s = PhaseUnopened \<or> ss_phase s = PhaseStarting then (IError (Errorf CodeUnexpected), s)
      else if ir_turn_id r \<noteq> [] then interruptAuto selfStarter r s
      else
        case ss_turns s (ir_input_id r) of
          None \<Rightarrow>
            (IAnswer (if ss_current s = None \<and> ss_auto s = None then InterruptNoTurn else InterruptTooLate), s)
        | Some t \<Rightarrow>
            (case t_interrupt (ss_heap s t) of
               Some op \<Rightarrow> (IJoin op, s)
             | None \<Rightarrow>
                 if t_ended (ss_heap s t) \<or> ss_current s \<noteq> Some t then (IAnswer InterruptTooLate, s)
                 else if ss_phase s = PhaseExited then (IError (Errorf CodeInterruptUnconfirmed), s)
                 else
                   let (op, s1) = new_op s in (IAsk op, upd_turn t (\<lambda>x. x\<lparr>t_interrupt := Some op\<rparr>) s1)))"

text \<open>The transport did not take the interrupt \<open>op\<close> of the turn \<open>t\<close>: a repeat asks again.\<close>

definition Interrupt_failed :: "nat \<Rightarrow> nat \<Rightarrow> session \<Rightarrow> Error option \<times> session" where
  "Interrupt_failed t op s =
     (if ss_ops s op \<noteq> None then (None, s)
      else
        (Some (Errorf CodeInterruptUnconfirmed),
         if t_interrupt (ss_heap s t) = Some op then upd_turn t (\<lambda>x. x\<lparr>t_interrupt := None\<rparr>) s else s))"

definition interruptAuto_failed :: "nat \<Rightarrow> nat \<Rightarrow> session \<Rightarrow> Error option \<times> session" where
  "interruptAuto_failed a op s =
     (if ss_ops s op \<noteq> None then (None, s)
      else
        (Some (Errorf CodeInterruptUnconfirmed),
         if at_interrupt (ss_aheap s a) = Some op then upd_auto a (\<lambda>x. x\<lparr>at_interrupt := None\<rparr>) s else s))"

text \<open>
  \<open>awaitInterrupt\<close> by the case its \<open>select\<close> takes, any of those that are ready: nothing when the
  case is not ready. A deadline and a context are over when their case is taken.
\<close>

datatype await_case = OpDone | HarnessExited | DeadlineOver | ContextDone

definition awaitInterrupt :: "nat \<Rightarrow> await_case \<Rightarrow> session \<Rightarrow> (Error + InterruptOutcome) option" where
  "awaitInterrupt op c s =
     (let unconfirmed = Inl (Errorf CodeInterruptUnconfirmed) in
      case c of
        OpDone \<Rightarrow> map_option Inr (ss_ops s op)
      | HarnessExited \<Rightarrow>
          if ss_exited s then Some (case ss_ops s op of Some ou \<Rightarrow> Inr ou | None \<Rightarrow> unconfirmed) else None
      | _ \<Rightarrow> Some unconfirmed)"

section \<open>Answer\<close>

definition sameChoice :: "Choice \<Rightarrow> Choice \<Rightarrow> bool" where
  "sameChoice a b \<longleftrightarrow>
     \<not> (c_option_id a \<noteq> c_option_id b \<or> c_text a \<noteq> c_text b \<or> length (c_option_ids a) \<noteq> length (c_option_ids b)) \<and>
     list_all (\<lambda>(x, y). x = y) (zip (c_option_ids a) (c_option_ids b))"

definition choiceFits :: "PromptInfo \<Rightarrow> Choice \<Rightarrow> bool" where
  "choiceFits p c =
     (let has = (\<lambda>id. list_ex (\<lambda>opt. po_id opt = id) (pi_options p)) in
      if c_option_id c \<noteq> [] then has (c_option_id c)
      else if length (c_option_ids c) > 0 then
        (if \<not> pi_multi_select p then False else list_all has (c_option_ids c))
      else length (pi_options p) = 0)"

datatype answer_next = AReturn "Error option" | AAsk

definition Answer_begin :: "Descriptor \<Rightarrow> string \<Rightarrow> Choice \<Rightarrow> session \<Rightarrow> answer_next" where
  "Answer_begin d promptID c s =
     (if \<not> Has d CapPrompts then AReturn (Some (Errorf CodeUnsupported))
      else
        case Choice_Validate c of
          Some e \<Rightarrow> AReturn (Some e)
        | None \<Rightarrow>
            (case ss_answered s promptID of
               Some prev \<Rightarrow> if sameChoice prev c then AReturn None else AReturn (Some (Errorf CodePromptGone))
             | None \<Rightarrow>
                 (case ss_prompt s of
                    None \<Rightarrow> AReturn (Some (Errorf CodePromptGone))
                  | Some p \<Rightarrow>
                      if pi_prompt_id p \<noteq> promptID then AReturn (Some (Errorf CodePromptGone))
                      else if \<not> choiceFits p c then AReturn (Some (Errorf CodeInvalidChoice))
                      else AAsk)))"

definition Answer_done :: "string \<Rightarrow> Choice \<Rightarrow> session \<Rightarrow> session" where
  "Answer_done promptID c s = s\<lparr>ss_answered := (ss_answered s)(promptID \<mapsto> c)\<rparr>"

section \<open>Close\<close>

definition Close_check :: "CloseReason \<Rightarrow> int \<Rightarrow> Error option" where
  "Close_check reason drain =
     (case reason of
        CloseOther _ \<Rightarrow> Some (err_field CodeProtocol ''reason'')
      | _ \<Rightarrow> guard_err (drain < 0 \<or> drain > MaxDrain) (err_field CodeProtocol ''drain_ms''))"

text \<open>\<open>Close_begin\<close> gives the phase the closer found, or nothing when another closes already.\<close>

definition Close_begin :: "session \<Rightarrow> Phase option \<times> session" where
  "Close_begin s = (if ss_closing s then (None, s) else (Some (ss_phase s), s\<lparr>ss_closing := True\<rparr>))"

text \<open>
  The loop that drains: each look sees whether the harness exited, whether the cursor is
  settled, and whether the deadline passed; nothing while it still waits for the next look.
\<close>

record drain_look =
  dl_exited :: bool
  dl_settled :: bool
  dl_late :: bool

fun Close_drain :: "drain_look list \<Rightarrow> bool option" where
  "Close_drain [] = None"
| "Close_drain (l # ls) =
     (if dl_exited l \<and> dl_settled l then Some True else if dl_late l then Some False else Close_drain ls)"

definition Close_finish :: "CloseResult \<Rightarrow> session \<Rightarrow> session" where
  "Close_finish res s = s\<lparr>ss_phase := PhaseExited, ss_gateTimer := None, ss_closeRes := Some res\<rparr>"

end
