(* ===== verification/Adapter_Markers.thy ===== *)
theory Adapter_Markers
  imports Contract_Session
begin

text \<open>
  \<^verbatim>\<open>pkg/adapter/markers.go\<close>: the submission markers of an agent, one file per input in its
  scratch root, written once and synced before the harness gets the input. The store is the
  directory: its sentinel, the files a process sees, and the files a crash leaves; a file's
  contents are the marker they decode to, or nothing when they do not decode. The hex SHA-256
  digest that names a marker's file is a parameter \<open>H\<close>, of which nothing is assumed. What the
  operating system answers, errors included, is the parameter \<open>io\<close> of an operation.
\<close>

section \<open>The store\<close>

record Marker =
  mk_input_id :: string
  mk_native :: string
  mk_session_id :: string
  mk_at :: int

record store =
  sto_sentinel :: bool
  sto_files :: "string \<rightharpoonup> Marker option"
  sto_durable :: "string \<rightharpoonup> Marker option"
  sto_mtime :: int

text \<open>What the system calls of one operation answer.\<close>

datatype link_answer = LinkDone | LinkUnsupported | LinkFails

record IO =
  io_lstat_fails :: bool
  io_temp_fails :: bool
  io_link :: link_answer
  io_direct_fails :: bool
  io_sync_fails :: bool
  io_read_fails :: bool
  io_remove_fails :: bool
  io_mtime :: int

definition fileName :: "(string \<Rightarrow> string) \<Rightarrow> string \<Rightarrow> string" where
  "fileName H inputID = H inputID @ ''.json''"

text \<open>
  \<open>createStore\<close>: the store is renamed into place whole, with its sentinel, unless another
  process's store is there first (\<open>other\<close>), which is then the store.
\<close>

definition createStore :: "bool \<Rightarrow> store option \<Rightarrow> int \<Rightarrow> store option" where
  "createStore fails other now =
     (if fails then None
      else
        case other of
          Some s \<Rightarrow> Some s
        | None \<Rightarrow>
            Some \<lparr>sto_sentinel = True, sto_files = Map.empty, sto_durable = Map.empty, sto_mtime = now\<rparr>)"

text \<open>\<open>syncDir\<close> makes the directory's entries durable.\<close>

definition syncDir :: "IO \<Rightarrow> store \<Rightarrow> bool \<times> store" where
  "syncDir io s = (if io_sync_fails io then (False, s) else (True, s\<lparr>sto_durable := sto_files s\<rparr>))"

definition set_file :: "IO \<Rightarrow> string \<Rightarrow> Marker option option \<Rightarrow> store \<Rightarrow> store" where
  "set_file io f v s = s\<lparr>sto_files := (sto_files s)(f := v), sto_mtime := io_mtime io\<rparr>"

datatype publish_result = PublishOK | PublishExists | PublishFails

text \<open>
  \<open>publishExclusive\<close>: the synced temp file is linked to its name, which fails when the name is
  taken; a filesystem without hard links creates the name itself, exclusively too.
\<close>

definition publishExclusive :: "IO \<Rightarrow> string \<Rightarrow> Marker \<Rightarrow> store \<Rightarrow> publish_result \<times> store" where
  "publishExclusive io final mk s =
     (if io_temp_fails io then (PublishFails, s)
      else
        case io_link io of
          LinkDone \<Rightarrow>
            if sto_files s final \<noteq> None then (PublishExists, s)
            else (PublishOK, set_file io final (Some (Some mk)) s)
        | LinkUnsupported \<Rightarrow>
            if sto_files s final \<noteq> None then (PublishExists, s)
            else if io_direct_fails io then (PublishFails, s)
            else (PublishOK, set_file io final (Some (Some mk)) s)
        | LinkFails \<Rightarrow> (PublishFails, s))"

section \<open>Markers\<close>

text \<open>An opened store: the index of native ids, with when and at which mtime it was scanned.\<close>

record Markers =
  ms_loaded :: bool
  ms_byNative :: "string \<rightharpoonup> Marker"
  ms_scannedMod :: int
  ms_scannedAt :: int

definition markerScanSlack :: int where "markerScanSlack = 2 * Second"

definition newMarkers :: Markers where
  "newMarkers = \<lparr>ms_loaded = False, ms_byNative = Map.empty, ms_scannedMod = 0, ms_scannedAt = 0\<rparr>"

text \<open>\<open>dir\<close> is the store found at its place, \<open>None\<close> when there is none yet.\<close>

definition OpenMarkers ::
  "bool \<Rightarrow> bool \<Rightarrow> store option \<Rightarrow> store option \<Rightarrow> int \<Rightarrow> (Markers \<times> store) option"
where
  "OpenMarkers lstat_fails fails dir other now =
     (if lstat_fails then None
      else
        case dir of
          Some s \<Rightarrow> Some (newMarkers, s)
        | None \<Rightarrow> (case createStore fails other now of None \<Rightarrow> None | Some s \<Rightarrow> Some (newMarkers, s)))"

definition intact :: "store \<Rightarrow> bool" where
  "intact s \<longleftrightarrow> sto_sentinel s"

datatype write_result = WriteOK | ErrMarked | WriteError

text \<open>\<open>Write\<close> up to its \<open>Lstat\<close>: \<open>None\<close> when the claim goes on.\<close>

definition Write_check :: "(string \<Rightarrow> string) \<Rightarrow> IO \<Rightarrow> Marker \<Rightarrow> store \<Rightarrow> write_result option" where
  "Write_check H io mk s =
     (if \<not> ValidID (mk_input_id mk) \<or> mk_native mk = [] then Some WriteError
      else if \<not> intact s then Some WriteError
      else if io_lstat_fails io then Some WriteError
      else if sto_files s (fileName H (mk_input_id mk)) \<noteq> None then Some ErrMarked
      else None)"

text \<open>The rest of \<open>Write\<close>: another process may have published meanwhile.\<close>

definition Write_publish ::
  "(string \<Rightarrow> string) \<Rightarrow> IO \<Rightarrow> Marker \<Rightarrow> store \<Rightarrow> Markers \<Rightarrow> write_result \<times> store \<times> Markers"
where
  "Write_publish H io mk s m =
     (case publishExclusive io (fileName H (mk_input_id mk)) mk s of
        (PublishExists, s') \<Rightarrow> (ErrMarked, s', m)
      | (PublishFails, s') \<Rightarrow> (WriteError, s', m)
      | (PublishOK, s') \<Rightarrow>
          (case syncDir io s' of
             (False, s'') \<Rightarrow> (WriteError, s'', m)
           | (True, s'') \<Rightarrow>
               (WriteOK, s'',
                if ms_loaded m then m\<lparr>ms_byNative := (ms_byNative m)(mk_native mk \<mapsto> mk)\<rparr> else m)))"

definition Write ::
  "(string \<Rightarrow> string) \<Rightarrow> IO \<Rightarrow> Marker \<Rightarrow> store \<Rightarrow> Markers \<Rightarrow> write_result \<times> store \<times> Markers"
where
  "Write H io mk s m =
     (case Write_check H io mk s of Some r \<Rightarrow> (r, s, m) | None \<Rightarrow> Write_publish H io mk s m)"

text \<open>The first component is whether \<open>Withdraw\<close> returned nil.\<close>

definition Withdraw ::
  "(string \<Rightarrow> string) \<Rightarrow> IO \<Rightarrow> string \<Rightarrow> store \<Rightarrow> Markers \<Rightarrow> bool \<times> store \<times> Markers"
where
  "Withdraw H io inputID s m =
     (let path = fileName H inputID in
      if \<not> intact s then (False, s, m)
      else
        case sto_files s path of
          None \<Rightarrow> (True, s, m)
        | Some data \<Rightarrow>
            if io_read_fails io then (False, s, m)
            else if io_remove_fails io then (False, s, m)
            else
              case syncDir io (set_file io path None s) of
                (False, s') \<Rightarrow> (False, s', m)
              | (True, s') \<Rightarrow>
                  (True, s',
                   case data of
                     Some mk \<Rightarrow>
                       if ms_loaded m \<and> mk_native mk \<noteq> []
                       then m\<lparr>ms_byNative := (ms_byNative m)(mk_native mk := None)\<rparr> else m
                   | None \<Rightarrow> m))"

datatype lookup_result = Found Marker | NotFound | LookupError

definition Lookup :: "(string \<Rightarrow> string) \<Rightarrow> IO \<Rightarrow> string \<Rightarrow> store \<Rightarrow> lookup_result" where
  "Lookup H io inputID s =
     (if \<not> intact s then LookupError
      else
        case sto_files s (fileName H inputID) of
          None \<Rightarrow> NotFound
        | Some data \<Rightarrow>
            if io_read_fails io then LookupError
            else
              case data of
                None \<Rightarrow> LookupError
              | Some mk \<Rightarrow>
                  if mk_input_id mk \<noteq> inputID \<or> mk_native mk = [] then LookupError else Found mk)"

definition staleLocked :: "store \<Rightarrow> Markers \<Rightarrow> bool" where
  "staleLocked s m \<longleftrightarrow>
     \<not> ms_loaded m \<or> sto_mtime s \<noteq> ms_scannedMod m \<or> ms_scannedAt m - ms_scannedMod m < markerScanSlack"

text \<open>Whether a scan takes the file \<open>name\<close> with the contents \<open>data\<close> into the index.\<close>

definition indexed :: "(string \<Rightarrow> string) \<Rightarrow> string \<Rightarrow> Marker option \<Rightarrow> Marker option" where
  "indexed H name data =
     (case data of
        None \<Rightarrow> None
      | Some mk \<Rightarrow> if mk_native mk = [] \<or> fileName H (mk_input_id mk) \<noteq> name then None else Some mk)"

text \<open>\<open>names\<close> is the directory's listing, in its order.\<close>

fun scan :: "(string \<Rightarrow> string) \<Rightarrow> store \<Rightarrow> string list \<Rightarrow> (string \<rightharpoonup> Marker) \<Rightarrow> (string \<rightharpoonup> Marker)" where
  "scan H s [] idx = idx"
| "scan H s (name # names) idx =
     scan H s names
       (case sto_files s name of
          None \<Rightarrow> idx
        | Some data \<Rightarrow>
            (case indexed H name data of None \<Rightarrow> idx | Some mk \<Rightarrow> idx(mk_native mk \<mapsto> mk)))"

definition loadLocked :: "(string \<Rightarrow> string) \<Rightarrow> int \<Rightarrow> string list \<Rightarrow> store \<Rightarrow> Markers \<Rightarrow> Markers" where
  "loadLocked H now names s m =
     m\<lparr>ms_loaded := True, ms_scannedAt := now, ms_scannedMod := sto_mtime s,
       ms_byNative := scan H s names (ms_byNative m)\<rparr>"

definition ByNative ::
  "(string \<Rightarrow> string) \<Rightarrow> int \<Rightarrow> string list \<Rightarrow> string \<Rightarrow> store \<Rightarrow> Markers \<Rightarrow> Marker option \<times> Markers"
where
  "ByNative H now names native s m =
     (case ms_byNative m native of
        Some mk \<Rightarrow> (Some mk, m)
      | None \<Rightarrow>
          if \<not> staleLocked s m then (None, m)
          else let m' = loadLocked H now names s m in (ms_byNative m' native, m'))"

section \<open>Crashes\<close>

text \<open>
  A crash keeps, of each name, what the process saw or what was last synced; what it leaves is
  what the next process sees.
\<close>

definition crash :: "store \<Rightarrow> store \<Rightarrow> bool" where
  "crash s s' \<longleftrightarrow>
     sto_sentinel s' = sto_sentinel s \<and> sto_durable s' = sto_files s' \<and>
     (\<forall>f. sto_files s' f = sto_files s f \<or> sto_files s' f = sto_durable s f)"

text \<open>A name that is taken for good: now and after any crash.\<close>

definition claimed :: "store \<Rightarrow> string \<Rightarrow> bool" where
  "claimed s f \<longleftrightarrow> sto_files s f \<noteq> None \<and> sto_durable s f \<noteq> None"

lemmas marker_ops [step_defs] =
  syncDir_def set_file_def publishExclusive_def Write_check_def Write_publish_def Write_def
  Withdraw_def Lookup_def intact_def

lemma claimed_crash: "claimed s f \<Longrightarrow> crash s s' \<Longrightarrow> claimed s' f"
  by (auto simp: claimed_def crash_def dest: spec [of _ f])

lemma claimed_publish: "claimed s f \<Longrightarrow> claimed (fst (snd (Write_publish H io mk s m))) f"
  by (auto simp: claimed_def marker_ops split: link_answer.splits)

lemma Write_publish_OK:
  assumes "Write_publish H io mk s m = (WriteOK, s', m')"
  shows "sto_files s (fileName H (mk_input_id mk)) = None"
    and "sto_files s' = (sto_files s)(fileName H (mk_input_id mk) \<mapsto> Some mk)" and "sto_durable s' = sto_files s'"
  using assms by (auto simp: marker_ops split: link_answer.splits if_splits)

lemma Write_OK:
  assumes "Write H io mk s m = (WriteOK, s', m')"
  shows "sto_files s' (fileName H (mk_input_id mk)) = Some (Some mk)" and "sto_durable s' = sto_files s'"
    and "sto_sentinel s'" and "mk_native mk \<noteq> []"
proof -
  from assms have pub: "Write_publish H io mk s m = (WriteOK, s', m')"
    and ok: "mk_native mk \<noteq> []" "sto_sentinel s"
    by (auto simp: Write_def Write_check_def intact_def split: if_splits option.splits)
  have "sto_sentinel s' = sto_sentinel s"
    using pub by (auto simp: marker_ops split: link_answer.splits if_splits)
  with Write_publish_OK [OF pub] ok
  show "sto_files s' (fileName H (mk_input_id mk)) = Some (Some mk)" "sto_durable s' = sto_files s'"
    "sto_sentinel s'" "mk_native mk \<noteq> []" by simp_all
qed

lemma Withdraw_OK: "Withdraw H io i s m = (True, s', m') \<Longrightarrow> Lookup H io' i s' = NotFound"
  by (auto simp: marker_ops Let_def split: option.splits if_splits)

lemma claimed_withdraw:
  "claimed s f \<Longrightarrow> f \<noteq> fileName H i \<Longrightarrow> claimed (fst (snd (Withdraw H io i s m))) f"
  by (auto simp: claimed_def marker_ops Let_def split: option.splits)


section \<open>The store as an interface\<close>

text \<open>
  What a client of the store relies on: names are claimed for good, by one claim each, and only
  a withdrawal of a name ends its claim. \<open>publish n s ok s'\<close> is an attempt at a claim, successful
  or not, and \<open>withdraw n s s'\<close> an attempt to end one.
\<close>

locale claim_store =
  fixes claim :: "'st \<Rightarrow> 'n \<Rightarrow> bool"
    and publish :: "'n \<Rightarrow> 'st \<Rightarrow> bool \<Rightarrow> 'st \<Rightarrow> bool"
    and withdraw :: "'n \<Rightarrow> 'st \<Rightarrow> 'st \<Rightarrow> bool"
    and crashes :: "'st \<Rightarrow> 'st \<Rightarrow> bool"
  assumes publish_claims: "publish n s True s' \<Longrightarrow> \<not> claim s n \<and> claim s' n"
    and publish_keeps: "publish n s ok s' \<Longrightarrow> claim s k \<Longrightarrow> claim s' k"
    and withdraw_keeps: "withdraw n s s' \<Longrightarrow> k \<noteq> n \<Longrightarrow> claim s k \<Longrightarrow> claim s' k"
    and crash_keeps: "crashes s s' \<Longrightarrow> claim s k \<Longrightarrow> claim s' k"
begin

text \<open>
  Clients \<open>p\<close> own the names \<open>own p\<close> they claimed and may still withdraw; the names in \<open>spent\<close>
  were used. Every owner is alone with its name, and no name is owned that was used.
\<close>

definition owners :: "'st \<Rightarrow> ('p \<Rightarrow> 'n option) \<Rightarrow> 'n set \<Rightarrow> bool" where
  "owners s own spent \<longleftrightarrow>
     (\<forall>p n. own p = Some n \<longrightarrow> claim s n \<and> n \<notin> spent \<and> (\<forall>q. own q = Some n \<longrightarrow> q = p)) \<and>
     (\<forall>n \<in> spent. claim s n)"

lemma owners_spent: "owners s own spent \<Longrightarrow> n \<in> spent \<Longrightarrow> claim s n"
  by (simp add: owners_def)

lemma owners_fresh: "owners s own spent \<Longrightarrow> own p = Some n \<Longrightarrow> n \<notin> spent"
  by (simp add: owners_def)

lemma owners_publish:
  "owners s own spent \<Longrightarrow> publish n s ok s' \<Longrightarrow> owners s' (if ok then own(p := Some n) else own(p := None)) spent"
  using publish_claims [of n s s'] publish_keeps [of n s ok s'] unfolding owners_def
  by (cases ok) (simp_all, metis option.inject)

lemma owners_drop: "owners s own spent \<Longrightarrow> owners s (own(p := None)) spent"
  by (simp add: owners_def)

lemma owners_spend: "owners s own spent \<Longrightarrow> own p = Some n \<Longrightarrow> owners s (own(p := None)) (insert n spent)"
  unfolding owners_def by (metis fun_upd_other fun_upd_same insertE option.distinct(1))

lemma owners_withdraw:
  assumes "owners s own spent" and "own p = Some n" and "withdraw n s s'"
  shows "owners s' (own(p := None)) spent"
proof -
  have "q \<noteq> p \<Longrightarrow> own q = Some k \<Longrightarrow> k \<noteq> n" for q k using assms(1,2) unfolding owners_def by blast
  moreover have "k \<in> spent \<Longrightarrow> k \<noteq> n" for k using assms(1,2) unfolding owners_def by blast
  ultimately show ?thesis using assms withdraw_keeps [OF assms(3)] unfolding owners_def by simp
qed

lemma owners_crash: "owners s own spent \<Longrightarrow> crashes s s' \<Longrightarrow> owners s' (\<lambda>_. None) spent"
  using crash_keeps [of s s'] by (simp add: owners_def)

end

text \<open>The claims and withdrawals of the directory, whoever makes them.\<close>

definition publishes :: "(string \<Rightarrow> string) \<Rightarrow> string \<Rightarrow> store \<Rightarrow> bool \<Rightarrow> store \<Rightarrow> bool" where
  "publishes H f s ok s' \<longleftrightarrow>
     (\<exists>io mk m r m'. Write_publish H io mk s m = (r, s', m') \<and> f = fileName H (mk_input_id mk) \<and> ok = (r = WriteOK))"

definition withdraws :: "(string \<Rightarrow> string) \<Rightarrow> string \<Rightarrow> store \<Rightarrow> store \<Rightarrow> bool" where
  "withdraws H f s s' \<longleftrightarrow> (\<exists>io i m r m'. Withdraw H io i s m = (r, s', m') \<and> f = fileName H i)"

interpretation mks: claim_store claimed "publishes H" "withdraws H" crash for H
proof
  show "\<not> claimed s n \<and> claimed s' n" if "publishes H n s True s'" for n s s'
    using that Write_publish_OK by (fastforce simp: publishes_def claimed_def)
  show "claimed s' k" if "publishes H n s ok s'" "claimed s k" for n s ok s' k
    using that claimed_publish [OF that(2), of H] by (metis fst_conv snd_conv publishes_def)
  show "claimed s' k" if "withdraws H n s s'" "k \<noteq> n" "claimed s k" for n s s' k
    using that claimed_withdraw [OF that(3), of H] by (metis fst_conv snd_conv withdraws_def)
  show "claimed s' k" if "crash s s'" "claimed s k" for s s' k using claimed_crash that by blast
qed

section \<open>The index of native ids\<close>

text \<open>
  The store, one opened \<open>Markers\<close> on it and the clock. Other processes write and withdraw
  markers of the same store; a change moves the directory's mtime to a time less than
  \<open>markerScanSlack\<close> behind the clock, as a filesystem with coarse timestamps does.
\<close>

record nsys =
  ns_store :: store
  ns_m :: Markers
  ns_now :: int

definition ns_init :: "nsys \<Rightarrow> bool" where
  "ns_init s \<longleftrightarrow> ns_m s = newMarkers"

definition recent :: "int \<Rightarrow> IO \<Rightarrow> bool" where
  "recent now io \<longleftrightarrow> now - markerScanSlack < io_mtime io"

inductive ns_step :: "(string \<Rightarrow> string) \<Rightarrow> nsys \<Rightarrow> nsys \<Rightarrow> bool" for H :: "string \<Rightarrow> string" where
  tick: "ns_now s \<le> now \<Longrightarrow> ns_step H s (s\<lparr>ns_now := now\<rparr>)"
| own_write: "recent (ns_now s) io \<Longrightarrow> Write H io mk (ns_store s) (ns_m s) = (r, st, m) \<Longrightarrow>
    ns_step H s (s\<lparr>ns_store := st, ns_m := m\<rparr>)"
| own_withdraw: "recent (ns_now s) io \<Longrightarrow> Withdraw H io i (ns_store s) (ns_m s) = (r, st, m) \<Longrightarrow>
    ns_step H s (s\<lparr>ns_store := st, ns_m := m\<rparr>)"
| other_write: "recent (ns_now s) io \<Longrightarrow> Write_publish H io mk (ns_store s) m0 = (r, st, m) \<Longrightarrow>
    ns_step H s (s\<lparr>ns_store := st\<rparr>)"
| other_withdraw: "recent (ns_now s) io \<Longrightarrow> Withdraw H io i (ns_store s) m0 = (r, st, m) \<Longrightarrow>
    ns_step H s (s\<lparr>ns_store := st\<rparr>)"
| by_native: "dom (sto_files (ns_store s)) \<subseteq> set names \<Longrightarrow>
    ByNative H (ns_now s) names native (ns_store s) (ns_m s) = (r, m) \<Longrightarrow>
    ns_step H s (s\<lparr>ns_m := m\<rparr>)"

text \<open>The index holds every readable marker of the store.\<close>

definition covers :: "(string \<Rightarrow> string) \<Rightarrow> store \<Rightarrow> Markers \<Rightarrow> bool" where
  "covers H s m \<longleftrightarrow>
     (\<forall>f data mk. sto_files s f = Some data \<longrightarrow> indexed H f data = Some mk \<longrightarrow> ms_byNative m (mk_native mk) \<noteq> None)"

definition ns_inv :: "(string \<Rightarrow> string) \<Rightarrow> nsys \<Rightarrow> bool" where
  "ns_inv H s \<longleftrightarrow>
     (ms_loaded (ns_m s) \<longrightarrow> ms_scannedAt (ns_m s) \<le> ns_now s) \<and>
     (\<not> staleLocked (ns_store s) (ns_m s) \<longrightarrow> covers H (ns_store s) (ns_m s))"

lemma Write_publish_mtime:
  "Write_publish H io mk s m = (r, s', m') \<Longrightarrow> (s' = s \<and> m' = m) \<or> sto_mtime s' = io_mtime io"
  by (auto simp: marker_ops split: link_answer.splits if_splits)

lemma Write_mtime: "Write H io mk s m = (r, s', m') \<Longrightarrow> (s' = s \<and> m' = m) \<or> sto_mtime s' = io_mtime io"
  by (auto simp: Write_def dest: Write_publish_mtime split: option.splits)

lemma Withdraw_mtime: "Withdraw H io i s m = (r, s', m') \<Longrightarrow> (s' = s \<and> m' = m) \<or> sto_mtime s' = io_mtime io"
  by (auto simp: marker_ops Let_def split: option.splits if_splits)

lemma scans_kept:
  "Write_publish H io mk s m = (r, s', m') \<Longrightarrow>
     ms_loaded m' = ms_loaded m \<and> ms_scannedAt m' = ms_scannedAt m \<and> ms_scannedMod m' = ms_scannedMod m"
  "Write H io mk s m = (r, s', m') \<Longrightarrow>
     ms_loaded m' = ms_loaded m \<and> ms_scannedAt m' = ms_scannedAt m \<and> ms_scannedMod m' = ms_scannedMod m"
  "Withdraw H io i s m = (b, s', m') \<Longrightarrow>
     ms_loaded m' = ms_loaded m \<and> ms_scannedAt m' = ms_scannedAt m \<and> ms_scannedMod m' = ms_scannedMod m"
  by (auto simp: marker_ops Let_def split: option.splits if_splits link_answer.splits)

text \<open>A change after a scan leaves the index stale.\<close>

lemma change_stale:
  "ms_scannedAt m \<le> now \<Longrightarrow> now - markerScanSlack < sto_mtime s \<Longrightarrow> staleLocked s m"
  by (auto simp: staleLocked_def)

lemma scan_keeps: "idx n \<noteq> None \<Longrightarrow> scan H s names idx n \<noteq> None"
  by (induction names arbitrary: idx) (auto split: option.splits simp: fun_upd_apply)

lemma scan_covers:
  "f \<in> set names \<Longrightarrow> sto_files s f = Some data \<Longrightarrow> indexed H f data = Some mk \<Longrightarrow>
   scan H s names idx (mk_native mk) \<noteq> None"
proof (induction names arbitrary: idx)
  case (Cons name names)
  show ?case
  proof (cases "f = name")
    case True
    with Cons.prems have "scan H s (name # names) idx = scan H s names (idx(mk_native mk \<mapsto> mk))"
      by simp
    then show ?thesis using scan_keeps [of "idx(mk_native mk \<mapsto> mk)" "mk_native mk"] by simp
  next
    case False
    with Cons show ?thesis by simp
  qed
qed simp

lemma load_covers:
  "dom (sto_files s) \<subseteq> set names \<Longrightarrow> covers H s (loadLocked H now names s m)"
proof (unfold covers_def, intro allI impI)
  fix f data mk
  assume "dom (sto_files s) \<subseteq> set names" and f: "sto_files s f = Some data" "indexed H f data = Some mk"
  then have "f \<in> set names" by auto
  from scan_covers [OF this f] show "ms_byNative (loadLocked H now names s m) (mk_native mk) \<noteq> None"
    by (simp add: loadLocked_def)
qed

lemma ns_inv_changed:
  assumes "ns_inv H s" and "recent (ns_now s) io" and "(st = ns_store s \<and> m = ns_m s) \<or> sto_mtime st = io_mtime io"
    and "ms_loaded m = ms_loaded (ns_m s) \<and> ms_scannedAt m = ms_scannedAt (ns_m s)"
  shows "ns_inv H (s\<lparr>ns_store := st, ns_m := m\<rparr>)"
  using assms(3)
proof
  assume "st = ns_store s \<and> m = ns_m s"
  with assms(1) show ?thesis by simp
next
  assume "sto_mtime st = io_mtime io"
  with assms have "ms_loaded m \<Longrightarrow> staleLocked st m"
    by (auto simp: ns_inv_def recent_def intro: change_stale [of _ "ns_now s"])
  then have "staleLocked st m" by (auto simp: staleLocked_def)
  with assms show ?thesis by (auto simp: ns_inv_def)
qed

lemma ns_inv_step: "ns_inv H s \<Longrightarrow> ns_step H s t \<Longrightarrow> ns_inv H t"
proof (erule ns_step.cases, goal_cases)
  case (1 s now)
  then show ?case by (auto simp: ns_inv_def)
next
  case (2 s io mk r st m)
  then show ?case using ns_inv_changed [of H s io st m] Write_mtime scans_kept(2) by blast
next
  case (3 s io i r st m)
  then show ?case using ns_inv_changed [of H s io st m] Withdraw_mtime scans_kept(3) by blast
next
  case (4 s io mk m0 r st m)
  then have "st = ns_store s \<or> sto_mtime st = io_mtime io" using Write_publish_mtime by blast
  with 4 show ?case using ns_inv_changed [of H s io st "ns_m s"] by auto
next
  case (5 s io i m0 r st m)
  then have "st = ns_store s \<or> sto_mtime st = io_mtime io" using Withdraw_mtime by blast
  with 5 show ?case using ns_inv_changed [of H s io st "ns_m s"] by auto
next
  case (6 s names native r m)
  then show ?case
    using load_covers [of "ns_store s" names H "ns_now s" "ns_m s"]
    by (auto simp: ns_inv_def ByNative_def Let_def loadLocked_def split: option.splits if_splits)
qed

lemma ns_inv_init: "ns_init s \<Longrightarrow> ns_inv H s"
  by (auto simp: ns_init_def ns_inv_def newMarkers_def staleLocked_def)

interpretation ns: inductive_invariant ns_init "ns_step H" "ns_inv H" for H
  by unfold_locales (fact ns_inv_init, fact ns_inv_step)


section \<open>Properties\<close>

definition no_faults :: "int \<Rightarrow> IO" where
  "no_faults now =
     \<lparr>io_lstat_fails = False, io_temp_fails = False, io_link = LinkDone, io_direct_fails = False,
      io_sync_fails = False, io_read_fails = False, io_remove_fails = False, io_mtime = now\<rparr>"

definition demo_store :: store where
  "demo_store = \<lparr>sto_sentinel = True, sto_files = Map.empty, sto_durable = Map.empty, sto_mtime = 0\<rparr>"

definition demo_marker :: Marker where
  "demo_marker = \<lparr>mk_input_id = ''in-1'', mk_native = ''n1'', mk_session_id = ''s'', mk_at = 5\<rparr>"

lemmas demo_marker_defs = no_faults_def demo_store_def demo_marker_def newMarkers_def ValidID_def id_char_def
  is_lower_def is_upper_def is_digit_def fileName_def

text \<open>
  C8: a marker that was written is found. When \<open>Write\<close> returns nil, a \<open>Lookup\<close> of its input
  id that can read finds the marker, at once and after any crash.
\<close>

theorem marker_survives:
  assumes "Write H io mk s m = (WriteOK, s', m')" and "s'' = s' \<or> crash s' s''"
    and "\<not> io_read_fails io'"
  shows "Lookup H io' (mk_input_id mk) s'' = Found mk"
proof -
  have "sto_files s'' (fileName H (mk_input_id mk)) = Some (Some mk)" "sto_sentinel s''"
    using Write_OK [OF assms(1)] assms(2) by (auto simp: crash_def)
  then show ?thesis using Write_OK(4) [OF assms(1)] assms(3) by (simp add: Lookup_def intact_def)
qed

theorem marker_survives_witness:
  "Lookup id (no_faults 9) ''in-1'' (fst (snd (Write id (no_faults 7) demo_marker demo_store newMarkers))) =
     Found demo_marker"
proof -
  obtain s' m' where w: "Write id (no_faults 7) demo_marker demo_store newMarkers = (WriteOK, s', m')"
    by (simp add: marker_ops demo_marker_defs)
  have "\<not> io_read_fails (no_faults 9)" by (simp add: no_faults_def)
  from marker_survives [OF w _ this, of s'] w show ?thesis by (simp add: demo_marker_def)
qed

text \<open>
  C9: a claim is exclusive. Two writers of one input id may both have found its name free; once
  one has published, the other is refused as marked or fails, and changes no file. So is any
  input whose digest collides.
\<close>

theorem marker_exclusive:
  assumes "Write_publish H io mk s m = (WriteOK, s', m')"
    and "fileName H (mk_input_id mk2) = fileName H (mk_input_id mk)"
  shows "\<exists>r. Write_publish H io2 mk2 s' m2 = (r, s', m2) \<and> r \<noteq> WriteOK"
proof -
  have "sto_files s' (fileName H (mk_input_id mk2)) = Some (Some mk)"
    using Write_publish_OK(2) [OF assms(1)] assms(2) by simp
  then show ?thesis
    by (cases "io_temp_fails io2"; cases "io_link io2")
      (simp_all add: Write_publish_def publishExclusive_def)
qed

theorem marker_exclusive_witness:
  "\<exists>r. Write_publish id (no_faults 8) (demo_marker\<lparr>mk_native := ''n2''\<rparr>)
         (fst (snd (Write_publish id (no_faults 7) demo_marker demo_store newMarkers))) newMarkers =
       (r, fst (snd (Write_publish id (no_faults 7) demo_marker demo_store newMarkers)), newMarkers) \<and> r \<noteq> WriteOK"
proof -
  obtain s' m' where w: "Write_publish id (no_faults 7) demo_marker demo_store newMarkers = (WriteOK, s', m')"
    by (simp add: marker_ops demo_marker_defs)
  have "fileName id (mk_input_id (demo_marker\<lparr>mk_native := ''n2''\<rparr>)) = fileName id (mk_input_id demo_marker)"
    by (simp add: demo_marker_def)
  from marker_exclusive [OF w this, of "no_faults 8" newMarkers] w show ?thesis by simp
qed

text \<open>
  absence is only reported by the intact store, and no marker is misread: \<open>Lookup\<close> answers
  "not found" exactly when the store is intact and holds no file for the id, and finds a marker
  only if it names the id it was asked for.
\<close>

lemma marker_lookup_sound:
  "(Lookup H io i s = NotFound \<longleftrightarrow> sto_sentinel s \<and> sto_files s (fileName H i) = None) \<and>
   (\<forall>mk. Lookup H io i s = Found mk \<longrightarrow>
      mk_input_id mk = i \<and> mk_native mk \<noteq> [] \<and> sto_files s (fileName H i) = Some (Some mk))"
  by (auto simp: Lookup_def intact_def split: option.splits if_splits)

text \<open>
  Withdrawing frees the id. When \<open>Withdraw\<close> returns nil the marker is gone, and \<open>Lookup\<close>
  reports its absence; every other file of the store is as it was.
\<close>

lemma marker_withdraw_frees:
  assumes "Withdraw H io i s m = (True, s', m')"
  shows "Lookup H io' i s' = NotFound \<and> (\<forall>f. f \<noteq> fileName H i \<longrightarrow> sto_files s' f = sto_files s f)"
  using assms by (auto simp: marker_ops Let_def split: option.splits if_splits)

text \<open>
  the native index is coherent with the store. However writes and withdrawals of this and
  other processes interleave, when \<open>ByNative\<close> misses, the store holds no readable marker with
  that native id, whether or not it read the store again.
\<close>

lemma by_native_complete:
  assumes "reachable ns_init (ns_step H) s" and "dom (sto_files (ns_store s)) \<subseteq> set names"
    and "fst (ByNative H (ns_now s) names native (ns_store s) (ns_m s)) = None"
    and "sto_files (ns_store s) f = Some (Some mk)" and "f = fileName H (mk_input_id mk)"
  shows "mk_native mk \<noteq> native \<or> mk_native mk = []"
proof (rule ccontr)
  assume "\<not> ?thesis"
  then have native: "mk_native mk = native" "indexed H f (Some mk) = Some mk"
    using assms(5) by (simp_all add: indexed_def)
  have "covers H (ns_store s) (snd (ByNative H (ns_now s) names native (ns_store s) (ns_m s)))"
    using ns.inv_reachable [OF assms(1)] load_covers [OF assms(2)] assms(3)
    by (auto simp: ns_inv_def ByNative_def Let_def split: option.splits if_splits)
  with assms(4) native have "ms_byNative (snd (ByNative H (ns_now s) names native (ns_store s) (ns_m s))) native \<noteq> None"
    unfolding covers_def by blast
  with assms(3) show False by (auto simp: ByNative_def Let_def split: option.splits if_splits)
qed

end
