(* ===== verification/Adapter_Record.thy ===== *)
theory Adapter_Record
  imports Adapter_Session Adapter_Markers
begin

text \<open>
  \<^verbatim>\<open>pkg/adapter/record.go\<close> and \<^verbatim>\<open>pkg/adapter/sessionlock.go\<close>, and what they are for: the Hosts
  of one agent share its marker store and its Session locks, crash at any point, and ask
  \<open>Recover\<close> afterwards what became of an input. The Sessions' sends run here as steps on the
  shared store, each between a marker's claim and its withdrawal; the Session theory has the
  same regions on the Session's own state.
\<close>

section \<open>Recover\<close>

text \<open>
  A record handle has the Session it was opened for. \<open>rd\<close> is the profile's \<open>Reader.Recover\<close>,
  \<open>None\<close> when it fails.
\<close>

definition Recover ::
  "(string \<Rightarrow> string) \<Rightarrow> (Marker \<Rightarrow> Recovered option) \<Rightarrow> string \<Rightarrow> IO \<Rightarrow> string \<Rightarrow> store \<Rightarrow> Error + Recovered"
where
  "Recover H rd session io inputID s =
     (if \<not> ValidID inputID then Inl (err_field CodeProtocol ''input_id'')
      else
        case Lookup H io inputID s of
          LookupError \<Rightarrow> Inr \<lparr>rc_outcome = RecoveredUnknown, rc_turn_id = []\<rparr>
        | NotFound \<Rightarrow> Inr \<lparr>rc_outcome = RecoveredNotFound, rc_turn_id = []\<rparr>
        | Found mk \<Rightarrow>
            if mk_session_id mk \<noteq> session then Inr \<lparr>rc_outcome = RecoveredUnknown, rc_turn_id = []\<rparr>
            else
              case rd mk of
                None \<Rightarrow> Inl (err CodeInternal)
              | Some got \<Rightarrow>
                  Inr (if rc_outcome got \<noteq> RecoveredUnknown \<and> rc_turn_id got = []
                       then got\<lparr>rc_turn_id := TurnID H inputID\<rparr> else got))"

section \<open>Session locks\<close>

text \<open>
  The locks of an agent's scratch root: which open file holds the \<open>flock\<close> of a name. \<open>fd\<close> is the
  file \<open>lockSession\<close> opened; \<open>ready\<close> whether the directory and the file could be opened, and
  \<open>flock_fails\<close> an error of \<open>flock\<close> other than that the lock is held.
\<close>

type_synonym locks = "string \<rightharpoonup> nat"

definition lock_file :: "(string \<Rightarrow> string) \<Rightarrow> string \<Rightarrow> string" where
  "lock_file H i = H i @ ''.lock''"

datatype lock_result = Locked nat | InUse Error | LockError

definition lockSession ::
  "(string \<Rightarrow> string) \<Rightarrow> bool \<Rightarrow> bool \<Rightarrow> nat \<Rightarrow> string \<Rightarrow> locks \<Rightarrow> lock_result \<times> locks"
where
  "lockSession H ready flock_fails fd i l =
     (if \<not> ready then (LockError, l)
      else if flock_fails then (LockError, l)
      else
        case l (lock_file H i) of
          Some _ \<Rightarrow> (InUse (err_open OpenSessionInUse), l)
        | None \<Rightarrow> (Locked fd, l(lock_file H i \<mapsto> fd)))"

text \<open>Closing the file lets its lock go; so does the end of its process.\<close>

definition release :: "nat option \<Rightarrow> locks \<Rightarrow> locks" where
  "release fd l = (case fd of None \<Rightarrow> l | Some fd \<Rightarrow> (\<lambda>f. if l f = Some fd then None else l f))"

section \<open>Hosts on one store\<close>

text \<open>
  A send of a Host: nothing, about to claim, holding its marker, with the input in the harness,
  or told that nothing was submitted and about to withdraw.
\<close>

datatype sender = WNone | WClaim Marker | WHeld Marker | WGiven Marker | WTakeBack Marker

record agent =
  ag_store :: store
  ag_sends :: "nat \<Rightarrow> sender"
  ag_given :: "string list"

definition ag_init :: "agent \<Rightarrow> bool" where
  "ag_init a \<longleftrightarrow> ag_sends a = (\<lambda>_. WNone) \<and> ag_given a = []"

text \<open>
  The transport keeps its word: an answer that \<open>Send\<close> takes as "not submitted" comes only when
  the harness has not got the input. \<open>stop\<close> is the end of a Host at any point, \<open>ag_crash\<close> the
  machine's, which ends them all.
\<close>

inductive ag_step :: "(string \<Rightarrow> string) \<Rightarrow> agent \<Rightarrow> agent \<Rightarrow> bool" for H :: "string \<Rightarrow> string" where
  check: "ag_sends a p = WNone \<Longrightarrow> Write_check H io mk (ag_store a) = None \<Longrightarrow>
    ag_step H a (a\<lparr>ag_sends := (ag_sends a)(p := WClaim mk)\<rparr>)"
| publish: "ag_sends a p = WClaim mk \<Longrightarrow> Write_publish H io mk (ag_store a) m = (r, s, m') \<Longrightarrow>
    ag_step H a (a\<lparr>ag_store := s, ag_sends := (ag_sends a)(p := if r = WriteOK then WHeld mk else WNone)\<rparr>)"
| give: "ag_sends a p = WHeld mk \<Longrightarrow>
    ag_step H a (a\<lparr>ag_sends := (ag_sends a)(p := WGiven mk), ag_given := ag_given a @ [mk_input_id mk]\<rparr>)"
| not_submitted: "ag_sends a p = WHeld mk \<Longrightarrow> Send_verdict ans = SentRefused c \<Longrightarrow>
    ag_step H a (a\<lparr>ag_sends := (ag_sends a)(p := WTakeBack mk)\<rparr>)"
| returned: "ag_sends a p = WHeld mk \<or> ag_sends a p = WGiven mk \<Longrightarrow> Send_verdict ans \<in> {SentOK, SentMaybe} \<Longrightarrow>
    ag_step H a (a\<lparr>ag_sends := (ag_sends a)(p := WNone)\<rparr>)"
| take_back: "ag_sends a p = WTakeBack mk \<Longrightarrow> Withdraw H io (mk_input_id mk) (ag_store a) m = (b, s, m') \<Longrightarrow>
    ag_step H a (a\<lparr>ag_store := s, ag_sends := (ag_sends a)(p := WNone)\<rparr>)"
| stop: "ag_step H a (a\<lparr>ag_sends := (ag_sends a)(p := WNone)\<rparr>)"
| ag_crash: "crash (ag_store a) s \<Longrightarrow> ag_step H a (a\<lparr>ag_store := s, ag_sends := (\<lambda>_. WNone)\<rparr>)"

text \<open>The name a send owns, and the names of the inputs a harness has got.\<close>

fun held :: "(string \<Rightarrow> string) \<Rightarrow> sender \<Rightarrow> string option" where
  "held H (WHeld mk) = Some (fileName H (mk_input_id mk))"
| "held H (WTakeBack mk) = Some (fileName H (mk_input_id mk))"
| "held H _ = None"

definition owned :: "(string \<Rightarrow> string) \<Rightarrow> agent \<Rightarrow> nat \<Rightarrow> string option" where
  "owned H a p = held H (ag_sends a p)"

definition ag_inv :: "(string \<Rightarrow> string) \<Rightarrow> agent \<Rightarrow> bool" where
  "ag_inv H a \<longleftrightarrow>
     mks.owners (ag_store a) (owned H a) (fileName H ` set (ag_given a)) \<and> distinct (ag_given a)"

lemma owned_upd: "owned H (a\<lparr>ag_sends := (ag_sends a)(p := w)\<rparr>) = (owned H a)(p := held H w)"
  "owned H (a\<lparr>ag_store := s\<rparr>) = owned H a" "owned H (a\<lparr>ag_given := g\<rparr>) = owned H a"
  "owned H (a\<lparr>ag_store := s, ag_sends := (ag_sends a)(p := w)\<rparr>) = (owned H a)(p := held H w)"
  "owned H (a\<lparr>ag_sends := (ag_sends a)(p := w), ag_given := g\<rparr>) = (owned H a)(p := held H w)"
  "owned H (a\<lparr>ag_store := s, ag_sends := (\<lambda>_. WNone)\<rparr>) = (\<lambda>_. None)"
  by (auto simp: owned_def)

lemma ag_inv_step:
  assumes "ag_inv H a" and "ag_step H a b"
  shows "ag_inv H b"
proof -
  let ?own = "owned H a" and ?spent = "fileName H ` set (ag_given a)"
  have own: "mks.owners (ag_store a) ?own ?spent" and once: "distinct (ag_given a)"
    using assms(1) by (auto simp: ag_inv_def)
  from assms(2) show ?thesis
  proof cases
    case (check p io mk)
    then show ?thesis using mks.owners_drop [OF own, of p] once by (simp add: ag_inv_def owned_upd)
  next
    case (publish p mk io m r s m')
    have "publishes H (fileName H (mk_input_id mk)) (ag_store a) (r = WriteOK) s"
      using publish(3) unfolding publishes_def by blast
    from mks.owners_publish [OF own this, of p] show ?thesis
      using once publish(1) by (cases "r = WriteOK") (simp_all add: ag_inv_def owned_upd)
  next
    case (give p mk)
    have p: "?own p = Some (fileName H (mk_input_id mk))" using give by (simp add: owned_def)
    have "mk_input_id mk \<notin> set (ag_given a)" using mks.owners_fresh [OF own p] by auto
    with mks.owners_spend [OF own p] once give(1) show ?thesis by (simp add: ag_inv_def owned_upd)
  next
    case (not_submitted p mk ans c)
    have "?own(p := Some (fileName H (mk_input_id mk))) = ?own" using not_submitted by (auto simp: owned_def)
    with own once not_submitted(1) show ?thesis by (simp add: ag_inv_def owned_upd)
  next
    case (returned p mk ans)
    then show ?thesis using mks.owners_drop [OF own, of p] once by (simp add: ag_inv_def owned_upd)
  next
    case (take_back p mk io m b' s m')
    have "withdraws H (fileName H (mk_input_id mk)) (ag_store a) s"
      using take_back(3) unfolding withdraws_def by blast
    moreover have "?own p = Some (fileName H (mk_input_id mk))" using take_back by (simp add: owned_def)
    ultimately show ?thesis using mks.owners_withdraw [OF own] once take_back(1) by (simp add: ag_inv_def owned_upd)
  next
    case (stop p)
    then show ?thesis using mks.owners_drop [OF own, of p] once by (simp add: ag_inv_def owned_upd)
  next
    case (ag_crash s)
    then show ?thesis using mks.owners_crash [OF own] once by (simp add: ag_inv_def owned_upd)
  qed
qed

lemma ag_inv_init: "ag_init a \<Longrightarrow> ag_inv H a"
  by (simp add: ag_init_def ag_inv_def mks.owners_def owned_def)

interpretation ag: inductive_invariant ag_init "ag_step H" "ag_inv H" for H
  by unfold_locales (fact ag_inv_init, fact ag_inv_step)

section \<open>Hosts and locks\<close>

text \<open>\<open>lk_held\<close> is the Session each open file locks.\<close>

record lsys =
  lk_locks :: locks
  lk_held :: "nat \<Rightarrow> string option"

definition lk_init :: "lsys \<Rightarrow> bool" where
  "lk_init s \<longleftrightarrow> lk_locks s = Map.empty \<and> lk_held s = Map.empty"

inductive lk_step :: "(string \<Rightarrow> string) \<Rightarrow> lsys \<Rightarrow> lsys \<Rightarrow> bool" for H :: "string \<Rightarrow> string" where
  lock: "lk_held s fd = None \<Longrightarrow> lockSession H ready fails fd i (lk_locks s) = (r, l) \<Longrightarrow>
    lk_step H s (s\<lparr>lk_locks := l, lk_held := (lk_held s)(fd := if r = Locked fd then Some i else None)\<rparr>)"
| unlock: "lk_step H s (s\<lparr>lk_locks := release (Some fd) (lk_locks s), lk_held := (lk_held s)(fd := None)\<rparr>)"

definition lk_inv :: "(string \<Rightarrow> string) \<Rightarrow> lsys \<Rightarrow> bool" where
  "lk_inv H s \<longleftrightarrow>
     (\<forall>f fd. lk_locks s f = Some fd \<longleftrightarrow> (\<exists>i. lk_held s fd = Some i \<and> f = lock_file H i))"

lemma lk_inv_step: "lk_inv H s \<Longrightarrow> lk_step H s t \<Longrightarrow> lk_inv H t"
proof (erule lk_step.cases, goal_cases)
  case (1 s' fd ready fails i r l)
  then show ?case
    by (auto simp: lk_inv_def lockSession_def split: if_splits option.splits) (metis option.distinct(1))
next
  case (2 s' fd)
  then show ?case by (auto simp: lk_inv_def release_def split: if_splits) (metis option.inject)
qed

lemma lk_inv_init: "lk_init s \<Longrightarrow> lk_inv H s"
  by (auto simp: lk_init_def lk_inv_def)

interpretation lk: inductive_invariant lk_init "lk_step H" "lk_inv H" for H
  by unfold_locales (fact lk_inv_init, fact lk_inv_step)

section \<open>Properties\<close>

text \<open>
  C4: an input reaches a harness at most once. Over all Hosts of an agent, their interleavings
  and their crashes, no input id is handed to a harness twice, whatever digests collide.
\<close>

theorem input_given_once:
  assumes "reachable ag_init (ag_step H) a"
  shows "distinct (ag_given a)"
  using ag.inv_reachable [OF assms] by (simp add: ag_inv_def)

definition idle_agent :: agent where
  "idle_agent = \<lparr>ag_store = demo_store, ag_sends = (\<lambda>_. WNone), ag_given = []\<rparr>"

definition marked_store :: store where
  "marked_store = fst (snd (Write_publish id (no_faults 7) demo_marker demo_store newMarkers))"

definition given_agent :: agent where
  "given_agent = \<lparr>ag_store = marked_store, ag_sends = (\<lambda>_. WNone)(0 := WGiven demo_marker), ag_given = [''in-1'']\<rparr>"

lemma given_agent_reachable: "reachable ag_init (ag_step id) given_agent"
proof -
  define a1 where "a1 = idle_agent\<lparr>ag_sends := (\<lambda>_. WNone)(0 := WClaim demo_marker)\<rparr>"
  define a2 where "a2 = a1\<lparr>ag_store := marked_store, ag_sends := (\<lambda>_. WNone)(0 := WHeld demo_marker)\<rparr>"
  have "ag_init idle_agent" by (simp add: ag_init_def idle_agent_def)
  then have 0: "reachable ag_init (ag_step id) idle_agent" by (rule reach_init)
  have "ag_step id idle_agent (idle_agent\<lparr>ag_sends := (ag_sends idle_agent)(0 := WClaim demo_marker)\<rparr>)"
    by (rule check [where io = "no_faults 7"]) (simp_all add: idle_agent_def marker_ops demo_marker_defs)
  then have "ag_step id idle_agent a1" by (simp add: a1_def idle_agent_def)
  with 0 have 1: "reachable ag_init (ag_step id) a1" by (rule reach_step)
  have "Write_publish id (no_faults 7) demo_marker (ag_store a1) newMarkers =
      (WriteOK, marked_store, snd (snd (Write_publish id (no_faults 7) demo_marker demo_store newMarkers)))"
    by (simp add: a1_def idle_agent_def marked_store_def marker_ops demo_marker_defs)
  from publish [OF _ this, of 0] have "ag_step id a1 a2" by (simp add: a1_def a2_def)
  with 1 have 2: "reachable ag_init (ag_step id) a2" by (rule reach_step)
  have "ag_step id a2 given_agent" using give [of a2 0 demo_marker id]
    by (simp add: a2_def a1_def idle_agent_def given_agent_def demo_marker_def)
  with 2 show ?thesis by (rule reach_step)
qed

theorem input_given_once_witness: "ag_given given_agent = [''in-1''] \<and> distinct (ag_given given_agent)"
  using input_given_once [OF given_agent_reachable] by (simp add: given_agent_def)

text \<open>
  C5: what \<open>Recover\<close> calls not found never ran. For a Reader that leaves \<open>not_found\<close> to the
  marker store, when \<open>Recover\<close> answers \<open>not_found\<close> no Host has handed the input to a harness,
  whatever crashed before.
\<close>

theorem recover_not_found_never_ran:
  assumes "reachable ag_init (ag_step H) a"
    and "Recover H rd session io i (ag_store a) = Inr got" and "rc_outcome got = RecoveredNotFound"
    and "\<And>mk r. rd mk = Some r \<Longrightarrow> rc_outcome r \<noteq> RecoveredNotFound"
  shows "i \<notin> set (ag_given a)"
proof
  assume "i \<in> set (ag_given a)"
  then have "claimed (ag_store a) (fileName H i)"
    using ag.inv_reachable [OF assms(1)] mks.owners_spent unfolding ag_inv_def by blast
  moreover have "Lookup H io i (ag_store a) = NotFound"
    using assms(2-4) by (auto simp: Recover_def split: if_splits lookup_result.splits option.splits)
  ultimately show False by (auto simp: Lookup_def claimed_def split: if_splits option.splits)
qed

theorem recover_not_found_never_ran_witness:
  "rc_outcome (projr (Recover id (\<lambda>_. None) ''s'' (no_faults 9) ''in-2'' (ag_store given_agent))) = RecoveredNotFound \<and>
   ''in-2'' \<notin> set (ag_given given_agent)"
proof -
  have r: "Recover id (\<lambda>_. None) ''s'' (no_faults 9) ''in-2'' (ag_store given_agent) =
      Inr \<lparr>rc_outcome = RecoveredNotFound, rc_turn_id = []\<rparr>"
    by (simp add: Recover_def given_agent_def marked_store_def marker_ops demo_marker_defs)
  then show ?thesis using recover_not_found_never_ran [OF given_agent_reachable r] by simp
qed

text \<open>
  a send that was refused can be told from one that ran. After \<open>Send\<close> withdrew the marker
  of an input, \<open>Recover\<close> answers \<open>not_found\<close>; while the marker is there, \<open>Recover\<close> of the Session
  that wrote it answers what the Reader says, under the turn id the live Session gave.
\<close>

lemma recover_answers:
  assumes "ValidID i" and "\<not> io_read_fails io"
  shows "(Withdraw H io' i s m = (True, s', m') \<longrightarrow>
       Recover H rd session io i s' = Inr \<lparr>rc_outcome = RecoveredNotFound, rc_turn_id = []\<rparr>) \<and>
     (Write H io' mk s m = (WriteOK, s', m') \<longrightarrow> mk_input_id mk = i \<longrightarrow> rd mk = Some got \<longrightarrow>
       rc_outcome got \<noteq> RecoveredUnknown \<longrightarrow> rc_turn_id got = [] \<longrightarrow>
       Recover H rd (mk_session_id mk) io i s' = Inr (got\<lparr>rc_turn_id := TurnID H i\<rparr>))"
proof (intro conjI impI)
  assume "Withdraw H io' i s m = (True, s', m')"
  from Withdraw_OK [OF this] assms(1)
  show "Recover H rd session io i s' = Inr \<lparr>rc_outcome = RecoveredNotFound, rc_turn_id = []\<rparr>"
    by (simp add: Recover_def)
next
  assume w: "Write H io' mk s m = (WriteOK, s', m')" and i: "mk_input_id mk = i"
    and got: "rd mk = Some got" "rc_outcome got \<noteq> RecoveredUnknown" "rc_turn_id got = []"
  have "Lookup H io i s' = Found mk" using Write_OK [OF w] i assms(2) by (simp add: Lookup_def intact_def)
  then show "Recover H rd (mk_session_id mk) io i s' = Inr (got\<lparr>rc_turn_id := TurnID H i\<rparr>)"
    using got assms(1) by (simp add: Recover_def)
qed

text \<open>
  one Host per Session. Of all files that ever locked, no two hold the lock of one Session
  at a time; a Host is refused with \<open>session_in_use\<close> exactly while another holds it, so the end
  of that Host, however it ends, frees the Session.
\<close>

lemma session_lock_exclusive:
  assumes "reachable lk_init (lk_step H) s"
  shows "(lk_held s p = Some i \<longrightarrow> lk_held s q = Some i \<longrightarrow> p = q) \<and>
    (fst (lockSession H True False fd i (lk_locks s)) = InUse (err_open OpenSessionInUse) \<longleftrightarrow>
      (\<exists>p j. lk_held s p = Some j \<and> lock_file H j = lock_file H i))"
proof -
  have inv: "\<And>f fd. lk_locks s f = Some fd \<longleftrightarrow> (\<exists>i. lk_held s fd = Some i \<and> f = lock_file H i)"
    using lk.inv_reachable [OF assms] unfolding lk_inv_def by blast
  have "lk_held s p = Some i \<Longrightarrow> lk_held s q = Some i \<Longrightarrow> p = q" using inv by (metis option.inject)
  moreover have "lk_locks s (lock_file H i) \<noteq> None \<longleftrightarrow> (\<exists>p j. lk_held s p = Some j \<and> lock_file H j = lock_file H i)"
    using inv by (metis not_None_eq)
  ultimately show ?thesis by (auto simp: lockSession_def split: option.splits)
qed

end
