(* ===== verification/Adapter_Session_Inv.thy ===== *)
theory Adapter_Session_Inv
  imports Adapter_Session
begin

text \<open>
  The Session as a transition system: a step is one region under \<open>s.mu\<close> of some handler, and
  the handlers of different goroutines interleave freely. \<open>y_pc\<close> is where the one outstanding
  send is, \<open>y_opening\<close> whether an open is, \<open>y_fires\<close> how many gate timers came due and have
  not run yet (a timer that is stopped after it came due still runs), and \<open>y_log\<close> the live
  observations in the order they were made.
\<close>

section \<open>Steps\<close>

datatype send_pc =
    SNone
  | SWriting string string
  | SSubmit nat
  | SGiven nat
  | SDone

record sys =
  y_s :: session
  y_pc :: send_pc
  y_opening :: bool
  y_fires :: nat
  y_log :: "Observation list"

definition sys_init :: "sys \<Rightarrow> bool" where
  "sys_init y \<longleftrightarrow>
     (\<exists>inst. y = \<lparr>y_s = newSession inst, y_pc = SNone, y_opening = False, y_fires = 0, y_log = []\<rparr>)"

text \<open>
  What the transport promises: it reports nothing of an input it has not been given, and an
  input it refuses as not submitted it has never reported on.
\<close>

definition honest_event :: "Event \<Rightarrow> sys \<Rightarrow> bool" where
  "honest_event ev y \<longleftrightarrow>
     (case y_pc y of
        SSubmit t \<Rightarrow> ev_kind ev \<in> {Started, Ended, Retrying, PromptRaised} \<and> ev_auto ev = [] \<longrightarrow>
          event_turn ev (y_s y) \<noteq> Some t
      | _ \<Rightarrow> True)"

inductive sys_step :: "(string \<Rightarrow> string) \<Rightarrow> Descriptor \<Rightarrow> sys \<Rightarrow> sys \<Rightarrow> bool"
  for H :: "string \<Rightarrow> string" and d :: Descriptor where
  open_begin: "Open_begin (y_s y) = (None, s) \<Longrightarrow> sys_step H d y (y\<lparr>y_s := s, y_opening := True\<rparr>)"
| open_fail: "y_opening y \<Longrightarrow> Open_fail e abandoned (y_s y) = (r, s) \<Longrightarrow>
    sys_step H d y (y\<lparr>y_s := s, y_opening := False\<rparr>)"
| open_attach: "y_opening y \<Longrightarrow> sys_step H d y (y\<lparr>y_s := Open_attach sid (y_s y)\<rparr>)"
| open_finish: "y_opening y \<Longrightarrow> Open_finish d version (y_s y) = (r, s) \<Longrightarrow>
    sys_step H d y (y\<lparr>y_s := s, y_opening := False\<rparr>)"
| report: "honest_event ev y \<Longrightarrow> report H d now ev (y_s y) = (obs, s) \<Longrightarrow>
    sys_step H d y (y\<lparr>y_s := s, y_log := y_log y @ obs\<rparr>)"
| timer_due: "ss_gateTimer (y_s y) = Some at \<Longrightarrow> at \<le> now \<Longrightarrow>
    sys_step H d y (y\<lparr>y_s := (y_s y)\<lparr>ss_gateTimer := None\<rparr>, y_fires := Suc (y_fires y)\<rparr>)"
| timer_run: "0 < y_fires y \<Longrightarrow> gate_fire now (y_s y) = (obs, s) \<Longrightarrow>
    sys_step H d y (y\<lparr>y_s := s, y_fires := y_fires y - 1, y_log := y_log y @ obs\<rparr>)"
| send_begin: "Send_begin d i (y_s y) = (None, s) \<Longrightarrow>
    sys_step H d y (y\<lparr>y_s := s, y_pc := SWriting (in_id i) native\<rparr>)"
| send_unmarked: "y_pc y = SWriting i native \<Longrightarrow> sys_step H d y (y\<lparr>y_pc := SDone\<rparr>)"
| send_register: "y_pc y = SWriting i native \<Longrightarrow> native \<noteq> [] \<Longrightarrow> ss_byNative (y_s y) native = None \<Longrightarrow>
    Send_register H i native (y_s y) = (t, s) \<Longrightarrow>
    sys_step H d y (y\<lparr>y_s := s, y_pc := SSubmit t\<rparr>)"
| submit_give: "y_pc y = SSubmit t \<Longrightarrow> sys_step H d y (y\<lparr>y_pc := SGiven t\<rparr>)"
| submit_refused: "y_pc y = SSubmit t \<Longrightarrow>
    sys_step H d y (y\<lparr>y_s := Send_refused freed t (y_s y), y_pc := SDone\<rparr>)"
| submit_return: "y_pc y = SGiven t \<Longrightarrow>
    sys_step H d y (y\<lparr>y_s := Send_running t (y_s y), y_pc := SDone\<rparr>)"
| send_end: "y_pc y = SDone \<Longrightarrow> sys_step H d y (y\<lparr>y_s := Send_end (y_s y), y_pc := SNone\<rparr>)"
| interrupt: "Interrupt_begin selfStarter r (y_s y) = (next, s) \<Longrightarrow> sys_step H d y (y\<lparr>y_s := s\<rparr>)"
| interrupt_failed: "Interrupt_failed t op (y_s y) = (r, s) \<Longrightarrow> sys_step H d y (y\<lparr>y_s := s\<rparr>)"
| auto_failed: "interruptAuto_failed a op (y_s y) = (r, s) \<Longrightarrow> sys_step H d y (y\<lparr>y_s := s\<rparr>)"
| answered: "sys_step H d y (y\<lparr>y_s := Answer_done promptID c (y_s y)\<rparr>)"
| close_begin: "Close_begin (y_s y) = (p, s) \<Longrightarrow> sys_step H d y (y\<lparr>y_s := s\<rparr>)"
| close_finish: "ss_closing (y_s y) \<Longrightarrow> sys_step H d y (y\<lparr>y_s := Close_finish res (y_s y)\<rparr>)"

text \<open>A harness that starts no turn of its own.\<close>

definition quiet :: "Descriptor \<Rightarrow> bool" where
  "quiet d \<longleftrightarrow> \<not> Has d CapAutonomousTurns \<and> \<not> Has d CapBackgroundTurns"

section \<open>The invariant of a quiet harness\<close>

text \<open>Turns and the maps that name them.\<close>

definition turns_wf :: "session \<Rightarrow> bool" where
  "turns_wf s \<longleftrightarrow>
     (\<forall>i t. ss_turns s i = Some t \<longrightarrow> t < ss_next s \<and> t_input (ss_heap s t) = i) \<and>
     (\<forall>n t. ss_byNative s n = Some t \<longrightarrow>
        t < ss_next s \<and> t_native (ss_heap s t) = n \<and> n \<noteq> [] \<and>
        ss_turns s (t_input (ss_heap s t)) = Some t \<and> (t_ended (ss_heap s t) \<or> ss_current s = Some t)) \<and>
     (\<forall>t. ss_current s = Some t \<longrightarrow> \<not> t_ended (ss_heap s t) \<and> ss_byNative s (t_native (ss_heap s t)) = Some t) \<and>
     (\<forall>t. t_ended (ss_heap s t) \<longrightarrow> t_started (ss_heap s t)) \<and>
     ss_autos s = [] \<and> ss_auto s = None"

text \<open>What each phase says of the current turn and the outstanding send.\<close>

fun phase_ok :: "Phase \<Rightarrow> nat option \<Rightarrow> send_pc \<Rightarrow> bool \<Rightarrow> bool \<Rightarrow> bool" where
  "phase_ok PhaseIdle cur pc opening unused = ((\<forall>t. cur = Some t \<longrightarrow> pc = SSubmit t \<or> pc = SGiven t) \<and> \<not> opening)"
| "phase_ok PhaseBusy cur pc opening unused = (cur \<noteq> None \<and> \<not> opening)"
| "phase_ok PhaseAwaitingAnswer cur pc opening unused = (cur \<noteq> None \<and> \<not> opening)"
| "phase_ok PhaseBlocked cur pc opening unused = (cur = None \<and> \<not> opening)"
| "phase_ok PhaseUnopened cur pc opening unused = (cur = None \<and> unused \<and> pc = SNone \<and> \<not> opening)"
| "phase_ok PhaseStarting cur pc opening unused = (cur = None \<and> unused \<and> pc = SNone)"
| "phase_ok PhaseExited cur pc opening unused = True"

definition unused :: "session \<Rightarrow> bool" where
  "unused s \<longleftrightarrow> ss_turns s = Map.empty \<and> ss_byNative s = Map.empty"

definition phase_wf :: "sys \<Rightarrow> bool" where
  "phase_wf y \<longleftrightarrow>
     (ss_sending (y_s y) \<longleftrightarrow> y_pc y \<noteq> SNone) \<and>
     phase_ok (ss_phase (y_s y)) (ss_current (y_s y)) (y_pc y) (y_opening y) (unused (y_s y))"

definition pc_wf :: "sys \<Rightarrow> bool" where
  "pc_wf y \<longleftrightarrow>
     (let s = y_s y in
      case y_pc y of
        SWriting i n \<Rightarrow>
          ss_turns s i = None \<and> (ss_phase s = PhaseIdle \<or> ss_phase s = PhaseExited) \<and>
          ss_current s = None
      | SSubmit t \<Rightarrow>
          ss_current s = Some t \<and> \<not> t_started (ss_heap s t) \<and> (ss_phase s = PhaseIdle \<or> ss_phase s = PhaseExited)
      | SGiven t \<Rightarrow>
          t < ss_next s \<and> ss_turns s (t_input (ss_heap s t)) = Some t \<and>
          (t_ended (ss_heap s t) \<or> ss_current s = Some t)
      | _ \<Rightarrow> True)"

definition sys_wf :: "sys \<Rightarrow> bool" where
  "sys_wf y \<longleftrightarrow> turns_wf (y_s y) \<and> phase_wf y \<and> pc_wf y"

lemmas wf_defs [inv_defs] = sys_wf_def turns_wf_def phase_wf_def pc_wf_def unused_def

lemma sys_wf_init: "sys_init y \<Longrightarrow> sys_wf y"
  by (auto simp: sys_init_def wf_defs newSession_def no_turn_def Let_def)


section \<open>Regions that leave turns and phase alone\<close>

definition core_eq :: "session \<Rightarrow> session \<Rightarrow> bool" where
  "core_eq s s' \<longleftrightarrow>
     ss_phase s' = ss_phase s \<and> ss_current s' = ss_current s \<and> ss_next s' = ss_next s \<and>
     ss_turns s' = ss_turns s \<and> ss_byNative s' = ss_byNative s \<and> ss_autos s' = ss_autos s \<and>
     ss_auto s' = ss_auto s \<and> ss_sending s' = ss_sending s \<and>
     (\<forall>t. t_input (ss_heap s' t) = t_input (ss_heap s t) \<and> t_native (ss_heap s' t) = t_native (ss_heap s t) \<and>
          t_started (ss_heap s' t) = t_started (ss_heap s t) \<and> t_ended (ss_heap s' t) = t_ended (ss_heap s t))"

lemma turns_wf_core: "core_eq s s' \<Longrightarrow> turns_wf s \<Longrightarrow> turns_wf s'"
  by (simp add: core_eq_def turns_wf_def)

lemma sys_wf_core:
  "sys_wf y \<Longrightarrow> core_eq (y_s y) (y_s y') \<Longrightarrow> y_pc y' = y_pc y \<Longrightarrow> y_opening y' = y_opening y \<Longrightarrow> sys_wf y'"
  unfolding sys_wf_def
proof (elim conjE, intro conjI)
  assume core: "core_eq (y_s y) (y_s y')" and same: "y_pc y' = y_pc y" "y_opening y' = y_opening y"
  show "turns_wf (y_s y')" if "turns_wf (y_s y)" using turns_wf_core [OF core that] .
  show "phase_wf y'" if "phase_wf y" using that core same by (simp add: phase_wf_def core_eq_def unused_def)
  show "pc_wf y'" if "pc_wf y"
    using that core same by (auto simp: pc_wf_def core_eq_def Let_def split: send_pc.splits)
qed

lemma core_eq_refl [simp]: "core_eq s s"
  by (simp add: core_eq_def)

lemma liveKeyLocked_core: "liveKeyLocked s = (k, s') \<Longrightarrow> core_eq s s'"
  by (auto simp: liveKeyLocked_def Let_def core_eq_def)

lemma on_retrying_core: "on_retrying d at t ev s = (obs, s') \<Longrightarrow> core_eq s s'"
  by (auto simp: on_retrying_def Let_def core_eq_def split: if_splits)

lemma on_background_core: "on_background d at ev s = (obs, s') \<Longrightarrow> core_eq s s'"
  by (auto simp: on_background_def liveKeyLocked_def Let_def core_eq_def split: if_splits)

lemma on_rate_limited_core: "on_rate_limited d at t ev s = (obs, s') \<Longrightarrow> core_eq s s'"
  by (auto simp: on_rate_limited_def liveKeyLocked_def Let_def core_eq_def split: if_splits option.splits)

lemma Interrupt_begin_core: "Interrupt_begin st r s = (nxt, s') \<Longrightarrow> core_eq s s'"
  by (auto simp: Interrupt_begin_def interruptAuto_def new_op_def Let_def core_eq_def
      split: if_splits option.splits)

lemma Interrupt_failed_core: "Interrupt_failed t op s = (r, s') \<Longrightarrow> core_eq s s'"
  by (auto simp: Interrupt_failed_def core_eq_def split: if_splits)

lemma interruptAuto_failed_core: "interruptAuto_failed t op s = (r, s') \<Longrightarrow> core_eq s s'"
  by (auto simp: interruptAuto_failed_def core_eq_def split: if_splits)

section \<open>Events\<close>

lemma turns_wfD:
  assumes "turns_wf s"
  shows "ss_turns s i = Some t \<Longrightarrow> t < ss_next s" "ss_turns s i = Some t \<Longrightarrow> t_input (ss_heap s t) = i"
    "ss_byNative s n = Some t \<Longrightarrow> t < ss_next s" "ss_byNative s n = Some t \<Longrightarrow> t_native (ss_heap s t) = n"
    "ss_byNative s n = Some t \<Longrightarrow> n \<noteq> []"
    "ss_byNative s n = Some t \<Longrightarrow> ss_turns s (t_input (ss_heap s t)) = Some t"
    "ss_byNative s n = Some t \<Longrightarrow> t_ended (ss_heap s t) \<or> ss_current s = Some t"
    "ss_current s = Some t \<Longrightarrow> \<not> t_ended (ss_heap s t)"
    "ss_current s = Some t \<Longrightarrow> ss_byNative s (t_native (ss_heap s t)) = Some t"
    "t_ended (ss_heap s t) \<Longrightarrow> t_started (ss_heap s t)" "ss_autos s = []" "ss_auto s = None"
  using assms unfolding turns_wf_def by (blast+)

text \<open>The turn an event of a quiet harness concerns, unless it ended, is the current one.\<close>

lemma event_turn_byNative:
  assumes "turns_wf s" and "event_turn ev s = Some t"
  shows "\<exists>n. ss_byNative s n = Some t"
  using assms(2) turns_wfD(9) [OF assms(1), of t]
  by (auto simp: event_turn_def split: option.splits if_splits)

lemma event_turn_current:
  "turns_wf s \<Longrightarrow> event_turn ev s = Some t \<Longrightarrow> \<not> t_ended (ss_heap s t) \<Longrightarrow> ss_current s = Some t"
  using event_turn_byNative turns_wfD(7) by blast

lemma event_turn_known:
  assumes "turns_wf s" and "event_turn ev s = Some t"
  shows "t < ss_next s" and "ss_turns s (t_input (ss_heap s t)) = Some t"
  using event_turn_byNative [OF assms] turns_wfD(3,6) [OF assms(1)] by blast+

text \<open>Marking a turn as started keeps the maps.\<close>

lemma turns_wf_start:
  assumes "turns_wf s"
  shows "turns_wf (upd_turn t (\<lambda>x. x\<lparr>t_started := True\<rparr>) s)"
  unfolding turns_wf_def using turns_wfD [OF assms] by simp

lemma turns_wf_phase: "turns_wf (s\<lparr>ss_phase := p\<rparr>) = turns_wf s"
  by (simp add: turns_wf_def)

lemma sys_wfD:
  assumes "sys_wf y"
  shows "turns_wf (y_s y)" "phase_wf y" "pc_wf y" "ss_sending (y_s y) \<longleftrightarrow> y_pc y \<noteq> SNone"
    "phase_ok (ss_phase (y_s y)) (ss_current (y_s y)) (y_pc y) (y_opening y) (unused (y_s y))"
  using assms by (auto simp: sys_wf_def phase_wf_def)

lemma on_started_state:
  assumes "on_started at t s = (obs, s')" and "\<not> t_started (ss_heap s t)"
  shows "s' = (upd_turn t (\<lambda>x. x\<lparr>t_started := True\<rparr>) s)\<lparr>ss_phase :=
      (if ss_current s = Some t \<and> \<not> t_ended (ss_heap s t) \<and> ss_phase s = PhaseIdle then PhaseBusy else ss_phase s)\<rparr> \<and>
    obs = [liveObs KindTurnStarted (t_input (ss_heap s t)) (Some (ss_heap s t)) at DataEmpty]"
  using assms by (auto simp: on_started_def Let_def)

lemma on_started_wf:
  assumes wf: "sys_wf y" and t: "event_turn ev (y_s y) = Some t" and pc: "y_pc y \<noteq> SSubmit t"
    and step: "on_started at t (y_s y) = (obs, s)"
  shows "sys_wf (y\<lparr>y_s := s, y_log := y_log y @ obs\<rparr>)"
proof (cases "t_started (ss_heap (y_s y) t)")
  case True
  with step wf show ?thesis by (auto simp: on_started_def intro: sys_wf_core [of y])
next
  case False
  define p where "p = (if ss_current (y_s y) = Some t \<and> \<not> t_ended (ss_heap (y_s y) t) \<and> ss_phase (y_s y) = PhaseIdle
    then PhaseBusy else ss_phase (y_s y))"
  have s: "s = (upd_turn t (\<lambda>x. x\<lparr>t_started := True\<rparr>) (y_s y))\<lparr>ss_phase := p\<rparr>"
    using on_started_state [OF step False] by (simp add: p_def)
  have "turns_wf s" using turns_wf_start [OF sys_wfD(1) [OF wf]] by (simp add: s turns_wf_phase)
  moreover have "phase_wf (y\<lparr>y_s := s, y_log := y_log y @ obs\<rparr>)"
    using sys_wfD(4,5) [OF wf] by (auto simp: phase_wf_def s unused_def p_def)
  moreover have "pc_wf (y\<lparr>y_s := s, y_log := y_log y @ obs\<rparr>)"
    using sys_wfD(3) [OF wf] pc by (auto simp: pc_wf_def s p_def Let_def split: send_pc.splits)
  ultimately show ?thesis by (simp add: sys_wf_def)
qed


text \<open>What the end of the current turn does to turns and phase.\<close>

definition end_core :: "nat \<Rightarrow> Phase \<Rightarrow> session \<Rightarrow> session" where
  "end_core t p s = (upd_turn t (\<lambda>x. x\<lparr>t_started := True, t_ended := True\<rparr>) s)\<lparr>ss_current := None, ss_phase := p\<rparr>"

lemma settle_op_core: "core_eq s (settle_op op ou s)"
  by (auto simp: settle_op_def core_eq_def split: option.split)

lemma settle_op_fields [simp]:
  "ss_current (settle_op op ou s) = ss_current s" "ss_phase (settle_op op ou s) = ss_phase s"
  "ss_auto (settle_op op ou s) = ss_auto s" "ss_heap (settle_op op ou s) = ss_heap s"
  "ss_next (settle_op op ou s) = ss_next s" "ss_turns (settle_op op ou s) = ss_turns s"
  "ss_byNative (settle_op op ou s) = ss_byNative s" "ss_autos (settle_op op ou s) = ss_autos s"
  "ss_sending (settle_op op ou s) = ss_sending s" "ss_prompt (settle_op op ou s) = ss_prompt s"
  by (auto simp: settle_op_def split: option.split)

lemma close_gate_core: "close_gate b at s = (obs, s') \<Longrightarrow> core_eq (s\<lparr>ss_phase := PhaseBlocked\<rparr>) s'"
  by (auto simp: close_gate_def liveKeyLocked_def armGateLocked_def Let_def core_eq_def split: option.splits if_splits)

lemma core_eq_trans: "core_eq a b \<Longrightarrow> core_eq b c \<Longrightarrow> core_eq a c"
  by (simp add: core_eq_def)

lemma endLocked_core:
  assumes "ss_current s = Some t" and "ss_auto s = None" and "endLocked now at t ev s = (obs, s')"
  shows "\<exists>p. core_eq (end_core t p s) s' \<and>
    (ss_phase s = PhaseExited \<longrightarrow> p = PhaseExited) \<and>
    (ss_phase s \<noteq> PhaseExited \<longrightarrow> p = PhaseBlocked \<or>
       p = (if ss_phase s = PhaseBusy \<or> ss_phase s = PhaseAwaitingAnswer then PhaseIdle else ss_phase s))"
proof -
  define s4 where "s4 = (settle_op (t_interrupt (ss_heap s t)) (ev_outcome ev)
    (upd_turn t (\<lambda>x. x\<lparr>t_started := True, t_ended := True, t_outcome := Some (ev_outcome ev)\<rparr>) s))
      \<lparr>ss_current := None, ss_prompt := None, ss_retry := None\<rparr>"
  have core: "core_eq (end_core t p s) (s4\<lparr>ss_phase := p\<rparr>)" for p
    by (simp add: core_eq_def s4_def end_core_def)
  have fields: "ss_phase s4 = ss_phase s" "ss_current s4 = None" "ss_auto s4 = None"
    using assms by (simp_all add: s4_def)
  show ?thesis
  proof (cases "ss_phase s = PhaseExited")
    case True
    with assms fields have "s' = s4" by (auto simp: endLocked_def Let_def s4_def split: option.splits)
    with core [of PhaseExited] True fields show ?thesis by (auto simp: core_eq_def)
  next
    case False
    show ?thesis
    proof (cases "blockFor now (ev_error ev) s4")
      case None
      with assms fields False have "s' = restLocked (if ss_phase s4 = PhaseAwaitingAnswer then s4\<lparr>ss_phase := PhaseBusy\<rparr> else s4)"
        by (auto simp: endLocked_def Let_def s4_def split: option.splits)
      then have "s' = s4\<lparr>ss_phase := (if ss_phase s = PhaseBusy \<or> ss_phase s = PhaseAwaitingAnswer then PhaseIdle else ss_phase s)\<rparr>"
        using fields by (auto simp: restLocked_def)
      with core False show ?thesis by auto
    next
      case (Some b)
      obtain o5 s5 where gate: "close_gate b at s4 = (o5, s5)" by (cases "close_gate b at s4")
      with Some assms fields False have "s' = s5"
        by (auto simp: endLocked_def Let_def s4_def split: option.splits)
      with core [of PhaseBlocked] close_gate_core [OF gate] False show ?thesis
        by (blast intro: core_eq_trans)
    qed
  qed
qed

lemma turns_wf_end:
  assumes "turns_wf s" and "ss_current s = Some t"
  shows "turns_wf (end_core t p s)"
  unfolding turns_wf_def end_core_def using turns_wfD [OF assms(1)] assms(2)
  by (simp, metis option.inject)

lemma endLocked_wf:
  assumes wf: "sys_wf y" and t: "event_turn ev (y_s y) = Some t" and pc: "y_pc y \<noteq> SSubmit t"
    and live: "\<not> t_ended (ss_heap (y_s y) t)" and step: "endLocked now at t ev (y_s y) = (obs, s)"
  shows "sys_wf (y\<lparr>y_s := s, y_log := y_log y @ obs\<rparr>)"
proof -
  have cur: "ss_current (y_s y) = Some t" using event_turn_current [OF sys_wfD(1) [OF wf] t live] .
  have auto: "ss_auto (y_s y) = None" using turns_wfD(12) [OF sys_wfD(1) [OF wf]] .
  obtain p where core: "core_eq (end_core t p (y_s y)) s"
    and p: "ss_phase (y_s y) = PhaseExited \<longrightarrow> p = PhaseExited"
      "ss_phase (y_s y) \<noteq> PhaseExited \<longrightarrow> p = PhaseBlocked \<or>
        p = (if ss_phase (y_s y) = PhaseBusy \<or> ss_phase (y_s y) = PhaseAwaitingAnswer then PhaseIdle else ss_phase (y_s y))"
    using endLocked_core [OF cur auto step] by blast
  let ?y = "y\<lparr>y_s := end_core t p (y_s y)\<rparr>"
  have "turns_wf (y_s ?y)" using turns_wf_end [OF sys_wfD(1) [OF wf] cur] by simp
  moreover have "phase_wf ?y"
    using sys_wfD(4,5) [OF wf] p cur
    by (cases "ss_phase (y_s y)") (auto simp: phase_wf_def end_core_def unused_def)
  moreover have "pc_wf ?y"
    using sys_wfD(3) [OF wf] pc cur by (auto simp: pc_wf_def end_core_def Let_def split: send_pc.splits)
  ultimately have "sys_wf ?y" by (simp add: sys_wf_def)
  then show ?thesis by (rule sys_wf_core) (use core in simp_all)
qed

lemma on_prompt_raised_wf:
  assumes wf: "sys_wf y" and t: "event_turn ev (y_s y) = Some t" and pc: "y_pc y \<noteq> SSubmit t"
    and step: "on_prompt_raised at t pr (y_s y) = (obs, s)"
  shows "sys_wf (y\<lparr>y_s := s, y_log := y_log y @ obs\<rparr>)"
proof (cases "t_ended (ss_heap (y_s y) t)")
  case True
  with step wf show ?thesis by (auto simp: on_prompt_raised_def intro: sys_wf_core [of y])
next
  case False
  have cur: "ss_current (y_s y) = Some t" using event_turn_current [OF sys_wfD(1) [OF wf] t False] .
  define p where "p = (if ss_phase (y_s y) = PhaseBusy \<or> ss_phase (y_s y) = PhaseIdle then PhaseAwaitingAnswer else ss_phase (y_s y))"
  have s: "core_eq ((y_s y)\<lparr>ss_phase := p\<rparr>) s"
    using step False by (auto simp: on_prompt_raised_def Let_def p_def core_eq_def)
  let ?y = "y\<lparr>y_s := (y_s y)\<lparr>ss_phase := p\<rparr>\<rparr>"
  have "turns_wf (y_s ?y)" using sys_wfD(1) [OF wf] by (simp add: turns_wf_phase)
  moreover have "phase_wf ?y"
    using sys_wfD(4,5) [OF wf] cur by (cases "ss_phase (y_s y)") (auto simp: phase_wf_def unused_def p_def)
  moreover have "pc_wf ?y"
    using sys_wfD(3) [OF wf] pc cur by (auto simp: pc_wf_def p_def Let_def split: send_pc.splits)
  ultimately have "sys_wf ?y" by (simp add: sys_wf_def)
  then show ?thesis by (rule sys_wf_core) (use s in simp_all)
qed

text \<open>A change of phase alone.\<close>

lemma sys_wf_phase:
  assumes "sys_wf y" and "core_eq ((y_s y)\<lparr>ss_phase := p\<rparr>) s"
    and "phase_ok p (ss_current (y_s y)) (y_pc y) (y_opening y') (unused (y_s y))"
    and "y_s y' = s" "y_pc y' = y_pc y"
    and "p = PhaseIdle \<or> p = PhaseExited \<or> (\<forall>i n t. y_pc y \<noteq> SWriting i n \<and> y_pc y \<noteq> SSubmit t)"
  shows "sys_wf y'"
proof -
  let ?y = "y\<lparr>y_s := (y_s y)\<lparr>ss_phase := p\<rparr>, y_opening := y_opening y'\<rparr>"
  have "turns_wf (y_s ?y)" using sys_wfD(1) [OF assms(1)] by (simp add: turns_wf_phase)
  moreover have "phase_wf ?y"
    using sys_wfD(4) [OF assms(1)] assms(3) by (simp add: phase_wf_def unused_def)
  moreover have "pc_wf ?y"
    using sys_wfD(3) [OF assms(1)] assms(6) by (auto simp: pc_wf_def Let_def split: send_pc.splits)
  ultimately have "sys_wf ?y" by (simp add: sys_wf_def)
  then show ?thesis by (rule sys_wf_core) (use assms in simp_all)
qed


lemma on_prompt_resolved_core:
  assumes "on_prompt_resolved at t ev s = (obs, s')"
  shows "core_eq s s' \<or> (ss_phase s = PhaseAwaitingAnswer \<and> core_eq (s\<lparr>ss_phase := PhaseBusy\<rparr>) s')"
proof (cases "ss_prompt s")
  case None
  with assms show ?thesis by (simp add: on_prompt_resolved_def)
next
  case (Some p)
  with assms have s': "s' = (if pi_prompt_id p \<noteq> ev_prompt_id ev then s
      else if ss_phase s = PhaseAwaitingAnswer then s\<lparr>ss_prompt := None, ss_phase := PhaseBusy\<rparr>
      else s\<lparr>ss_prompt := None\<rparr>)"
    by (simp add: on_prompt_resolved_def Let_def split: if_splits)
  show ?thesis by (simp add: s' core_eq_def)
qed

lemma on_prompt_resolved_wf:
  assumes wf: "sys_wf y" and step: "on_prompt_resolved at t ev (y_s y) = (obs, s)"
  shows "sys_wf (y\<lparr>y_s := s, y_log := y_log y @ obs\<rparr>)"
  using on_prompt_resolved_core [OF step]
proof
  assume "core_eq (y_s y) s"
  with wf show ?thesis by (auto intro: sys_wf_core [of y])
next
  assume "ss_phase (y_s y) = PhaseAwaitingAnswer \<and> core_eq ((y_s y)\<lparr>ss_phase := PhaseBusy\<rparr>) s"
  then have p: "ss_phase (y_s y) = PhaseAwaitingAnswer" and core: "core_eq ((y_s y)\<lparr>ss_phase := PhaseBusy\<rparr>) s"
    by blast+
  have "\<forall>i n t. y_pc y \<noteq> SWriting i n \<and> y_pc y \<noteq> SSubmit t"
    using sys_wfD(3) [OF wf] p by (simp add: pc_wf_def Let_def split: send_pc.splits)
  then show ?thesis
    by (intro sys_wf_phase [OF wf core]) (use sys_wfD(5) [OF wf] p in simp_all)
qed

lemma on_exited_wf:
  assumes wf: "sys_wf y" and step: "on_exited at ev (y_s y) = (obs, s)"
  shows "sys_wf (y\<lparr>y_s := s, y_log := y_log y @ obs\<rparr>)"
proof (cases "ss_exited (y_s y)")
  case True
  with step wf show ?thesis by (auto simp: on_exited_def intro: sys_wf_core [of y])
next
  case False
  with step have "core_eq ((y_s y)\<lparr>ss_phase := PhaseExited\<rparr>) s"
    by (auto simp: on_exited_def liveKeyLocked_def Let_def core_eq_def)
  then show ?thesis by (rule sys_wf_phase [OF wf]) simp_all
qed

lemma report_wf:
  assumes q: "quiet d" and wf: "sys_wf y" and honest: "honest_event ev y"
    and step: "report H d now ev (y_s y) = (obs, s)"
  shows "sys_wf (y\<lparr>y_s := s, y_log := y_log y @ obs\<rparr>)"
proof -
  note step' = step [unfolded report_def Let_def]
  define at where "at = (case ev_time ev of Some at \<Rightarrow> at | None \<Rightarrow> now)"
  have same: "s = y_s y \<Longrightarrow> ?thesis" using wf by (auto intro: sys_wf_core [of y])
  have core: "core_eq (y_s y) s \<Longrightarrow> ?thesis" using wf by (auto intro: sys_wf_core [of y])
  show ?thesis
  proof (cases "ev_auto ev = []")
    case False
    with step q have "s = y_s y" by (auto simp: report_def Let_def autoLocked_def quiet_def)
    then show ?thesis by (rule same)
  next
    case True
    have pc: "y_pc y \<noteq> SSubmit t" if "event_turn ev (y_s y) = Some t" "ev_kind ev \<in> {Started, Ended, PromptRaised}" for t
      using honest that True by (auto simp: honest_event_def)
    show ?thesis
    proof (cases "ev_kind ev")
      case Started
      then show ?thesis using step True on_started_wf [OF wf] pc same
        by (auto simp: report_def Let_def split: option.splits)
    next
      case Ended
      then show ?thesis using step True endLocked_wf [OF wf] pc same
        by (auto simp: report_def Let_def split: option.splits if_splits)
    next
      case Retrying
      then show ?thesis using step True same core on_retrying_core
        by (auto simp: report_def Let_def split: option.splits)
    next
      case RateLimited
      then show ?thesis using step True core on_rate_limited_core by (auto simp: report_def Let_def)
    next
      case PromptRaised
      then show ?thesis using step True same on_prompt_raised_wf [OF wf] pc
        by (auto simp: report_def Let_def split: option.splits)
    next
      case PromptResolved
      then show ?thesis using step True on_prompt_resolved_wf [OF wf] by (auto simp: report_def Let_def)
    next
      case Exited
      then show ?thesis using step True on_exited_wf [OF wf] by (auto simp: report_def Let_def)
    next
      case Background
      then show ?thesis using step True core on_background_core by (auto simp: report_def Let_def)
    qed
  qed
qed

section \<open>The other handlers\<close>

lemma gate_fire_wf:
  assumes wf: "sys_wf y" and step: "gate_fire now (y_s y) = (obs, s)"
    and "y_s y' = s" "y_pc y' = y_pc y" "y_opening y' = y_opening y"
  shows "sys_wf y'"
proof (cases "ss_phase (y_s y) \<noteq> PhaseBlocked \<or> ss_gate (y_s y) = None")
  case True
  with step assms(3) have "y_s y' = y_s y" by (simp add: gate_fire_def)
  then show ?thesis using sys_wf_core [OF wf, of y'] assms(4,5) by simp
next
  case False
  with step have core: "core_eq ((y_s y)\<lparr>ss_phase := PhaseIdle\<rparr>) s"
    by (auto simp: gate_fire_def liveKeyLocked_def Let_def core_eq_def)
  show ?thesis
    by (rule sys_wf_phase [OF wf core]) (use sys_wfD(5) [OF wf] False assms in simp_all)
qed

lemma admit_quiet:
  "quiet d \<Longrightarrow> admitLocked d s = None \<Longrightarrow> \<not> ss_closing s \<and> \<not> ss_sending s \<and> ss_phase s = PhaseIdle"
  by (auto simp: admitLocked_def quiet_def split: if_splits Phase.splits)

text \<open>An admitted send of a quiet harness finds no turn running.\<close>

lemma admitted_no_turn:
  assumes "quiet d" and "sys_wf y" and "admitLocked d (y_s y) = None"
  shows "ss_current (y_s y) = None" and "y_pc y = SNone"
proof -
  have *: "\<not> ss_sending (y_s y)" "ss_phase (y_s y) = PhaseIdle" using admit_quiet assms by blast+
  then show pc: "y_pc y = SNone" using sys_wfD(4) [OF assms(2)] by simp
  show "ss_current (y_s y) = None"
    using sys_wfD(5) [OF assms(2)] * pc by (cases "ss_current (y_s y)") auto
qed

lemma Send_begin_None:
  "Send_begin d i s = (None, s') \<longleftrightarrow>
     Input_Validate (l_max_input_bytes (d_limits d)) i = None \<and> admitLocked d s = None \<and>
     ss_turns s (in_id i) = None \<and> s' = s\<lparr>ss_sending := True\<rparr>"
  by (auto simp: Send_begin_def split: option.splits if_splits)

lemma send_begin_wf:
  assumes q: "quiet d" and wf: "sys_wf y" and step: "Send_begin d i (y_s y) = (None, s)"
  shows "sys_wf (y\<lparr>y_s := s, y_pc := SWriting (in_id i) native\<rparr>)"
proof -
  from step have adm: "admitLocked d (y_s y) = None" and free: "ss_turns (y_s y) (in_id i) = None"
    and s: "s = (y_s y)\<lparr>ss_sending := True\<rparr>" by (simp_all add: Send_begin_None)
  note idle = admit_quiet [OF q adm] admitted_no_turn [OF q wf adm]
  have "turns_wf s" using sys_wfD(1) [OF wf] by (simp add: s turns_wf_def)
  then show ?thesis
    using sys_wfD(5) [OF wf] idle free by (simp add: sys_wf_def phase_wf_def pc_wf_def s unused_def)
qed

lemma send_register_wf:
  assumes wf: "sys_wf y" and pc: "y_pc y = SWriting i native" and n: "native \<noteq> []"
    and fresh: "ss_byNative (y_s y) native = None" and step: "Send_register H i native (y_s y) = (t, s)"
  shows "sys_wf (y\<lparr>y_s := s, y_pc := SSubmit t\<rparr>)"
proof -
  have at_pc: "ss_turns (y_s y) i = None" "ss_phase (y_s y) = PhaseIdle \<or> ss_phase (y_s y) = PhaseExited"
    "ss_current (y_s y) = None"
    using sys_wfD(3) [OF wf] pc by (auto simp: pc_wf_def Let_def)
  from step have t: "t = ss_next (y_s y)"
    and s: "s = (y_s y)\<lparr>ss_next := Suc t,
            ss_heap := (ss_heap (y_s y))(t := no_turn\<lparr>t_input := i, t_native := native, t_id := TurnID H i\<rparr>),
            ss_turns := (ss_turns (y_s y))(i \<mapsto> t), ss_byNative := (ss_byNative (y_s y))(native \<mapsto> t),
            ss_current := Some t\<rparr>"
    by (auto simp: Send_register_def Let_def)
  note tw = turns_wfD [OF sys_wfD(1) [OF wf]]
  have old: "ss_turns (y_s y) j = Some u \<Longrightarrow> u < t" "ss_byNative (y_s y) m = Some u \<Longrightarrow> u < t" for j m u
    using tw(1,3) t by blast+
  then have unnamed: "ss_turns (y_s y) j \<noteq> Some t" "ss_byNative (y_s y) m \<noteq> Some t" for j m
    by blast+
  have ended: "ss_byNative (y_s y) m = Some u \<Longrightarrow> t_ended (ss_heap (y_s y) u)" for m u
    using tw(7) at_pc(3) by fastforce
  have "turns_wf s"
    unfolding turns_wf_def s
    using tw(2,4,5,6,10,11,12) old unnamed ended n at_pc(1)
    by (auto simp: no_turn_def less_Suc_eq split: if_splits)
  moreover have "phase_wf (y\<lparr>y_s := s, y_pc := SSubmit t\<rparr>)"
    using sys_wfD(4,5) [OF wf] at_pc pc by (auto simp: phase_wf_def s)
  moreover have "pc_wf (y\<lparr>y_s := s, y_pc := SSubmit t\<rparr>)"
    using at_pc by (auto simp: pc_wf_def s no_turn_def)
  ultimately show ?thesis by (simp add: sys_wf_def)
qed


lemma send_refused_wf:
  assumes wf: "sys_wf y" and pc: "y_pc y = SSubmit t"
  shows "sys_wf (y\<lparr>y_s := Send_refused freed t (y_s y), y_pc := SDone\<rparr>)"
proof -
  have at_pc: "ss_current (y_s y) = Some t" "\<not> t_started (ss_heap (y_s y) t)"
    "ss_phase (y_s y) = PhaseIdle \<or> ss_phase (y_s y) = PhaseExited"
    using sys_wfD(3) [OF wf] pc by (auto simp: pc_wf_def Let_def)
  define tn where "tn = ss_heap (y_s y) t"
  define s where "s = (y_s y)\<lparr>ss_current := None, ss_byNative := (ss_byNative (y_s y))(t_native tn := None),
    ss_turns := (if freed then (ss_turns (y_s y))(t_input tn := None) else ss_turns (y_s y))\<rparr>"
  have s: "Send_refused freed t (y_s y) = s"
    using at_pc by (auto simp: Send_refused_def Let_def restLocked_def s_def tn_def)
  note tw = turns_wfD [OF sys_wfD(1) [OF wf]]
  have others: "t_ended (ss_heap (y_s y) u) \<and> t_input (ss_heap (y_s y) u) \<noteq> t_input tn"
    if "ss_byNative (y_s y) m = Some u" "m \<noteq> t_native tn" for m u
  proof -
    have "ss_byNative (y_s y) (t_native tn) = Some t" using tw(9) at_pc(1) tn_def by blast
    with that tw(4) have "u \<noteq> t" unfolding tn_def by blast
    then have "t_ended (ss_heap (y_s y) u)" using tw(7) [OF that(1)] at_pc(1) by simp
    moreover have "ss_turns (y_s y) (t_input (ss_heap (y_s y) u)) = Some u"
      "ss_turns (y_s y) (t_input tn) = Some t"
      using tw(6) that(1) tw(9) [OF at_pc(1)] unfolding tn_def by blast+
    ultimately show ?thesis using \<open>u \<noteq> t\<close> by (metis option.inject)
  qed
  have "turns_wf s"
    unfolding turns_wf_def s_def using tw(1-6,10,11,12) others by (auto split: if_splits)
  moreover have "phase_wf (y\<lparr>y_s := s, y_pc := SDone\<rparr>)"
    using sys_wfD(4,5) [OF wf] at_pc pc by (auto simp: phase_wf_def s_def)
  ultimately show ?thesis by (simp add: sys_wf_def pc_wf_def s)
qed

lemma submit_return_wf:
  assumes wf: "sys_wf y" and pc: "y_pc y = SGiven t"
  shows "sys_wf (y\<lparr>y_s := Send_running t (y_s y), y_pc := SDone\<rparr>)"
proof -
  have at_pc: "t_ended (ss_heap (y_s y) t) \<or> ss_current (y_s y) = Some t"
    using sys_wfD(3) [OF wf] pc by (auto simp: pc_wf_def Let_def)
  define p where "p = (if \<not> t_ended (ss_heap (y_s y) t) \<and> ss_phase (y_s y) = PhaseIdle then PhaseBusy else ss_phase (y_s y))"
  have s: "Send_running t (y_s y) = (y_s y)\<lparr>ss_phase := p\<rparr>"
    by (simp add: Send_running_def p_def)
  have cur: "ss_phase (y_s y) = PhaseIdle \<Longrightarrow> ss_current (y_s y) = Some u \<Longrightarrow> u = t" for u
    using sys_wfD(5) [OF wf] pc by auto
  have over: "ss_phase (y_s y) = PhaseIdle \<Longrightarrow> t_ended (ss_heap (y_s y) t) \<Longrightarrow> ss_current (y_s y) = None"
    using cur turns_wfD(8) [OF sys_wfD(1) [OF wf], of t] by (cases "ss_current (y_s y)") auto
  have "phase_wf (y\<lparr>y_s := (y_s y)\<lparr>ss_phase := p\<rparr>, y_pc := SDone\<rparr>)"
    using sys_wfD(4,5) [OF wf] at_pc pc over
    by (cases "ss_phase (y_s y)") (auto simp: phase_wf_def p_def unused_def)
  then show ?thesis using sys_wfD(1) [OF wf] by (simp add: sys_wf_def pc_wf_def s turns_wf_phase)
qed

lemma pc_moves_wf:
  assumes wf: "sys_wf y"
  shows "y_pc y = SWriting i native \<Longrightarrow> sys_wf (y\<lparr>y_pc := SDone\<rparr>)"
    and "y_pc y = SSubmit t \<Longrightarrow> sys_wf (y\<lparr>y_pc := SGiven t\<rparr>)"
    and "y_pc y = SDone \<Longrightarrow> sys_wf (y\<lparr>y_s := Send_end (y_s y), y_pc := SNone\<rparr>)"
proof -
  note tw = turns_wfD [OF sys_wfD(1) [OF wf]]
  show "sys_wf (y\<lparr>y_pc := SDone\<rparr>)" if "y_pc y = SWriting i native"
    using sys_wfD [OF wf] that by (auto simp: sys_wf_def phase_wf_def pc_wf_def Let_def)
  show "sys_wf (y\<lparr>y_pc := SGiven t\<rparr>)" if pc: "y_pc y = SSubmit t"
  proof -
    have at_pc: "ss_current (y_s y) = Some t" "ss_phase (y_s y) = PhaseIdle \<or> ss_phase (y_s y) = PhaseExited"
      using sys_wfD(3) [OF wf] pc by (auto simp: pc_wf_def Let_def)
    then have "t < ss_next (y_s y)" "ss_turns (y_s y) (t_input (ss_heap (y_s y) t)) = Some t"
      using tw(3,6) tw(9) [OF at_pc(1)] by blast+
    then show ?thesis using sys_wfD [OF wf] at_pc pc by (auto simp: sys_wf_def phase_wf_def pc_wf_def)
  qed
  show "sys_wf (y\<lparr>y_s := Send_end (y_s y), y_pc := SNone\<rparr>)" if pc: "y_pc y = SDone"
  proof -
    have "turns_wf (Send_end (y_s y))" using sys_wfD(1) [OF wf] by (simp add: turns_wf_def Send_end_def)
    moreover have "phase_wf (y\<lparr>y_s := Send_end (y_s y), y_pc := SNone\<rparr>)"
      using sys_wfD(5) [OF wf] pc by (cases "ss_phase (y_s y)") (auto simp: phase_wf_def Send_end_def unused_def)
    ultimately show ?thesis by (simp add: sys_wf_def pc_wf_def)
  qed
qed

lemma open_wf:
  assumes wf: "sys_wf y"
  shows "Open_begin (y_s y) = (None, s) \<Longrightarrow> sys_wf (y\<lparr>y_s := s, y_opening := True\<rparr>)"
    and "Open_fail e ab (y_s y) = (r, s) \<Longrightarrow> sys_wf (y\<lparr>y_s := s, y_opening := False\<rparr>)"
    and "sys_wf (y\<lparr>y_s := Open_attach sid (y_s y)\<rparr>)"
    and "y_opening y \<Longrightarrow> Open_finish d version (y_s y) = (res, s) \<Longrightarrow> sys_wf (y\<lparr>y_s := s, y_opening := False\<rparr>)"
proof -
  show "sys_wf (y\<lparr>y_s := s, y_opening := True\<rparr>)" if "Open_begin (y_s y) = (None, s)"
  proof -
    from that have p: "ss_phase (y_s y) = PhaseUnopened" and s: "s = (y_s y)\<lparr>ss_phase := PhaseStarting\<rparr>"
      by (auto simp: Open_begin_def split: if_splits)
    show ?thesis
      by (rule sys_wf_phase [OF wf, of PhaseStarting s]) (use sys_wfD(5) [OF wf] p s in auto)
  qed
  show "sys_wf (y\<lparr>y_s := s, y_opening := False\<rparr>)" if "Open_fail e ab (y_s y) = (r, s)"
    by (rule sys_wf_phase [OF wf, of PhaseExited s]) (use that in \<open>auto simp: Open_fail_def\<close>)
  show "sys_wf (y\<lparr>y_s := Open_attach sid (y_s y)\<rparr>)"
    by (rule sys_wf_core [OF wf]) (simp_all add: Open_attach_def core_eq_def)
  show "sys_wf (y\<lparr>y_s := s, y_opening := False\<rparr>)" if op: "y_opening y" and fin: "Open_finish d version (y_s y) = (res, s)"
  proof -
    have auto: "ss_auto (y_s y) = None" using turns_wfD(12) [OF sys_wfD(1) [OF wf]] .
    define p where "p = (if \<not> ss_closing (y_s y) \<and> ss_phase (y_s y) = PhaseStarting then PhaseIdle else ss_phase (y_s y))"
    have s: "s = (y_s y)\<lparr>ss_phase := p\<rparr>"
      using fin auto by (auto simp: Open_finish_def Let_def p_def split: if_splits)
    show ?thesis
      by (rule sys_wf_phase [OF wf, of p s])
        (use sys_wfD(5) [OF wf] s op in \<open>cases "ss_phase (y_s y)"; auto simp: p_def\<close>)+
  qed
qed

lemma sys_wf_step:
  assumes q: "quiet d" and wf: "sys_wf y" and step: "sys_step H d y y'"
  shows "sys_wf y'"
  using step
proof cases
  case (interrupt selfStarter r nxt s)
  then show ?thesis using wf Interrupt_begin_core by (auto intro: sys_wf_core [of y])
next
  case (interrupt_failed t op r s)
  then show ?thesis using wf Interrupt_failed_core by (auto intro: sys_wf_core [of y])
next
  case (auto_failed a op r s)
  then show ?thesis using wf interruptAuto_failed_core by (auto intro: sys_wf_core [of y])
next
  case (answered promptID c)
  then show ?thesis using wf by (auto intro!: sys_wf_core [of y] simp: Answer_done_def core_eq_def)
next
  case (close_begin p s)
  then show ?thesis using wf
    by (auto intro!: sys_wf_core [of y] simp: Close_begin_def core_eq_def split: if_splits)
next
  case (close_finish res)
  then show ?thesis
    by (intro sys_wf_phase [OF wf, of PhaseExited "Close_finish res (y_s y)"]) (auto simp: Close_finish_def core_eq_def)
next
  case (timer_due at now)
  then show ?thesis using wf by (auto intro!: sys_wf_core [of y] simp: core_eq_def)
next
  case (timer_run now obs s)
  then show ?thesis using gate_fire_wf [OF wf] by simp
qed (use wf q in \<open>auto intro: open_wf report_wf send_begin_wf send_register_wf send_refused_wf
      submit_return_wf pc_moves_wf\<close>)

section \<open>Turns in the log\<close>

definition occurs :: "Kind \<Rightarrow> string \<Rightarrow> Observation list \<Rightarrow> nat" where
  "occurs k i log = count_list (map o_id log) (ObservationID k i)"

definition mark :: "(turn \<Rightarrow> bool) \<Rightarrow> session \<Rightarrow> string \<Rightarrow> nat" where
  "mark f s i = (case ss_turns s i of Some t \<Rightarrow> if f (ss_heap s t) then 1 else 0 | None \<Rightarrow> 0)"

text \<open>Every \<open>turn_ended\<close> has its \<open>turn_started\<close> before it.\<close>

definition start_first :: "Observation list \<Rightarrow> bool" where
  "start_first log \<longleftrightarrow>
     (\<forall>pre ob post i. log = pre @ ob # post \<longrightarrow> o_id ob = ObservationID KindTurnEnded i \<longrightarrow>
        0 < occurs KindTurnStarted i pre)"

definition log_wf :: "sys \<Rightarrow> bool" where
  "log_wf y \<longleftrightarrow>
     (\<forall>i. occurs KindTurnStarted i (y_log y) = mark t_started (y_s y) i \<and>
          occurs KindTurnEnded i (y_log y) = mark t_ended (y_s y) i) \<and>
     start_first (y_log y)"

definition silent :: "Observation list \<Rightarrow> bool" where
  "silent obs \<longleftrightarrow> (\<forall>i. occurs KindTurnStarted i obs = 0 \<and> occurs KindTurnEnded i obs = 0)"

lemma occurs_simps [simp]:
  "occurs k i [] = 0" "occurs k i (ob # log) = (if o_id ob = ObservationID k i then 1 else 0) + occurs k i log"
  "occurs k i (xs @ ys) = occurs k i xs + occurs k i ys"
  by (simp_all add: occurs_def)

lemma silent_simps [simp]:
  "silent []" "silent (xs @ ys) \<longleftrightarrow> silent xs \<and> silent ys"
  "silent (ob # xs) \<longleftrightarrow> (\<forall>i. o_id ob \<noteq> ObservationID KindTurnStarted i \<and> o_id ob \<noteq> ObservationID KindTurnEnded i) \<and> silent xs"
  by (auto simp: silent_def)

lemma liveObs_id [simp]: "o_id (liveObs k key t at data) = ObservationID k key"
  by (simp add: liveObs_def NewObservation_def Let_def split: option.split)

lemma ended_obs_id [simp]: "o_id (ended_obs k key t at ev) = ObservationID k key"
  by (simp add: ended_obs_def split: prod.split)

declare ObservationID_inj [simp]

lemma start_first_append:
  assumes "start_first log" and "\<And>pre ob post i. obs = pre @ ob # post \<Longrightarrow> o_id ob = ObservationID KindTurnEnded i \<Longrightarrow>
    0 < occurs KindTurnStarted i log + occurs KindTurnStarted i pre"
  shows "start_first (log @ obs)"
  unfolding start_first_def
proof (intro allI impI)
  fix pre ob post i
  assume eq: "log @ obs = pre @ ob # post" and id: "o_id ob = ObservationID KindTurnEnded i"
  from eq consider us where "log = pre @ ob # us" | us where "pre = log @ us" "obs = us @ ob # post"
    by (auto simp: append_eq_append_conv2 append_eq_Cons_conv)
  then show "0 < occurs KindTurnStarted i pre"
  proof cases
    case 1
    then show ?thesis using assms(1) id unfolding start_first_def by blast
  next
    case 2
    then show ?thesis using assms(2) [of us ob post i] id by simp
  qed
qed

lemma silent_no_end: "silent obs \<Longrightarrow> obs = pre @ ob # post \<Longrightarrow> o_id ob \<noteq> ObservationID KindTurnEnded i"
  by auto

lemma log_wf_silent:
  assumes "log_wf y" and "silent obs" and "y_log y' = y_log y @ obs"
    and "\<And>i. mark t_started (y_s y') i = mark t_started (y_s y) i"
    and "\<And>i. mark t_ended (y_s y') i = mark t_ended (y_s y) i"
  shows "log_wf y'"
proof -
  have "start_first (y_log y @ obs)"
    using assms(1,2) by (intro start_first_append) (auto simp: log_wf_def dest: silent_no_end)
  then show ?thesis using assms by (simp add: log_wf_def silent_def)
qed

text \<open>Regions that change neither the maps nor whether a turn started or ended.\<close>

definition marks_eq :: "session \<Rightarrow> session \<Rightarrow> bool" where
  "marks_eq s s' \<longleftrightarrow>
     ss_turns s' = ss_turns s \<and>
     (\<forall>t. t_started (ss_heap s' t) = t_started (ss_heap s t) \<and> t_ended (ss_heap s' t) = t_ended (ss_heap s t))"

lemma marks_eq_mark:
  "marks_eq s s' \<Longrightarrow> mark t_started s' i = mark t_started s i \<and> mark t_ended s' i = mark t_ended s i"
  by (auto simp: marks_eq_def mark_def split: option.split)

lemma marks_eq_core: "core_eq s s' \<Longrightarrow> marks_eq s s'" "core_eq (s\<lparr>ss_phase := p\<rparr>) s' \<Longrightarrow> marks_eq s s'"
  by (simp_all add: core_eq_def marks_eq_def)

lemma marks_eq_refl [simp]: "marks_eq s s"
  by (simp add: marks_eq_def)

lemma quiet_events_silent:
  "on_retrying d at t ev s = (obs, s') \<Longrightarrow> silent obs"
  "on_background d at ev s = (obs, s') \<Longrightarrow> silent obs"
  "on_rate_limited d at tt ev s = (obs, s') \<Longrightarrow> silent obs"
  "on_prompt_raised at t pr s = (obs, s') \<Longrightarrow> silent obs"
  "on_prompt_resolved at tt ev s = (obs, s') \<Longrightarrow> silent obs"
  "on_exited at ev s = (obs, s') \<Longrightarrow> silent obs"
  "gate_fire now s = (obs, s') \<Longrightarrow> silent obs"
  "close_gate b at s = (obs, s') \<Longrightarrow> silent obs"
  by (auto simp: on_retrying_def on_background_def on_rate_limited_def on_prompt_raised_def on_prompt_resolved_def
      on_exited_def gate_fire_def close_gate_def liveKeyLocked_def Let_def split: if_splits option.splits)

lemma quiet_events_marks:
  "on_prompt_raised at t pr s = (obs, s') \<Longrightarrow> marks_eq s s'"
  "on_exited at ev s = (obs, s') \<Longrightarrow> marks_eq s s'"
  "gate_fire now s = (obs, s') \<Longrightarrow> marks_eq s s'"
  by (auto simp: on_prompt_raised_def on_exited_def gate_fire_def liveKeyLocked_def Let_def marks_eq_def split: if_splits)


text \<open>The observations of a turn's start and end.\<close>

definition turn_obs :: "bool \<Rightarrow> bool \<Rightarrow> string \<Rightarrow> Observation list \<Rightarrow> bool" where
  "turn_obs start stop i obs \<longleftrightarrow>
     (\<exists>a b rest. obs = (if start then [a] else []) @ (if stop then [b] else []) @ rest \<and> silent rest \<and>
        (start \<longrightarrow> o_id a = ObservationID KindTurnStarted i) \<and> (stop \<longrightarrow> o_id b = ObservationID KindTurnEnded i))"

lemma log_wf_turn:
  assumes "log_wf y" and "turns_wf (y_s y)" and t: "ss_turns (y_s y) i = Some t"
    and fresh: "\<not> t_ended (ss_heap (y_s y) t)" "start = (\<not> t_started (ss_heap (y_s y) t))"
    and obs: "turn_obs start stop i obs" "y_log y' = y_log y @ obs"
    and same: "ss_turns (y_s y') = ss_turns (y_s y)"
      "\<And>u. u \<noteq> t \<Longrightarrow> t_started (ss_heap (y_s y') u) = t_started (ss_heap (y_s y) u) \<and>
        t_ended (ss_heap (y_s y') u) = t_ended (ss_heap (y_s y) u)"
    and marks: "t_started (ss_heap (y_s y') t)" "t_ended (ss_heap (y_s y') t) = stop"
  shows "log_wf y'"
proof -
  have other: "ss_turns (y_s y) j = Some u \<Longrightarrow> j \<noteq> i \<Longrightarrow> u \<noteq> t" for j u
    using turns_wfD(2) [OF assms(2)] t by blast
  have log: "occurs KindTurnStarted j (y_log y) = mark t_started (y_s y) j"
    "occurs KindTurnEnded j (y_log y) = mark t_ended (y_s y) j" "start_first (y_log y)" for j
    using assms(1) by (auto simp: log_wf_def)
  from obs(1) obtain a b rest where
    split: "obs = (if start then [a] else []) @ (if stop then [b] else []) @ rest" "silent rest"
    "start \<Longrightarrow> o_id a = ObservationID KindTurnStarted i" "stop \<Longrightarrow> o_id b = ObservationID KindTurnEnded i"
    unfolding turn_obs_def by blast
  have started: "mark t_started (y_s y') j = mark t_started (y_s y) j + occurs KindTurnStarted j obs" for j
    using split same other marks fresh t
    by (cases "j = i") (auto simp: mark_def silent_def split: option.split)
  have ended: "mark t_ended (y_s y') j = mark t_ended (y_s y) j + occurs KindTurnEnded j obs" for j
    using split same other marks fresh t
    by (cases "j = i") (auto simp: mark_def silent_def split: option.split)
  have "start_first (y_log y @ obs)"
  proof (rule start_first_append [OF log(3)])
    fix pre ob post j
    assume at: "obs = pre @ ob # post" "o_id ob = ObservationID KindTurnEnded j"
    have "0 < occurs KindTurnEnded j obs" using at by simp
    then have j: "j = i" using split by (auto simp: silent_def split: if_splits)
    show "0 < occurs KindTurnStarted j (y_log y) + occurs KindTurnStarted j pre"
    proof (cases start)
      case True
      with split at j have "pre \<noteq> []" by auto
      with split at True j have "hd pre = a" by (cases pre) auto
      with \<open>pre \<noteq> []\<close> split(3) [OF True] j show ?thesis by (cases pre) auto
    next
      case False
      with fresh t j log(1) [of i] show ?thesis by (simp add: mark_def)
    qed
  qed
  then show ?thesis using log started ended obs(2) by (simp add: log_wf_def)
qed

lemma on_started_log:
  assumes wf: "sys_wf y" and log: "log_wf y" and t: "event_turn ev (y_s y) = Some t"
    and step: "on_started at t (y_s y) = (obs, s)"
  shows "log_wf (y\<lparr>y_s := s, y_log := y_log y @ obs\<rparr>)"
proof (cases "t_started (ss_heap (y_s y) t)")
  case True
  with step log show ?thesis by (auto simp: on_started_def log_wf_def)
next
  case False
  note tw = sys_wfD(1) [OF wf]
  have live: "\<not> t_ended (ss_heap (y_s y) t)" using turns_wfD(10) [OF tw] False by blast
  obtain p where s: "s = (upd_turn t (\<lambda>x. x\<lparr>t_started := True\<rparr>) (y_s y))\<lparr>ss_phase := p\<rparr>"
    and obs: "obs = [liveObs KindTurnStarted (t_input (ss_heap (y_s y) t)) (Some (ss_heap (y_s y) t)) at DataEmpty]"
    using on_started_state [OF step False] by blast
  have "turn_obs True False (t_input (ss_heap (y_s y) t)) obs"
    unfolding turn_obs_def obs by auto
  then show ?thesis
    by (rule log_wf_turn [OF log tw event_turn_known(2) [OF tw t] live, rotated])
      (use s False live in auto)
qed

lemma endLocked_obs:
  assumes "endLocked now at t ev s = (obs, s')"
  shows "turn_obs (\<not> t_started (ss_heap s t)) True (t_input (ss_heap s t)) obs"
proof -
  let ?tn = "ss_heap s t"
  have "\<exists>rest. silent rest \<and> obs = (if t_started ?tn then [] else [liveObs KindTurnStarted (t_input ?tn) (Some ?tn) at DataEmpty]) @
      [ended_obs KindTurnEnded (t_input ?tn) (Some ?tn) at ev] @ rest"
    using assms quiet_events_silent(8)
    by (fastforce simp: endLocked_def Let_def split: if_splits option.splits prod.splits)
  then obtain rest where "silent rest" "obs = (if t_started ?tn then [] else [liveObs KindTurnStarted (t_input ?tn) (Some ?tn) at DataEmpty]) @
      [ended_obs KindTurnEnded (t_input ?tn) (Some ?tn) at ev] @ rest" by blast
  then show ?thesis
    unfolding turn_obs_def
    by (intro exI [of _ "liveObs KindTurnStarted (t_input ?tn) (Some ?tn) at DataEmpty"]
          exI [of _ "ended_obs KindTurnEnded (t_input ?tn) (Some ?tn) at ev"] exI [of _ rest]) simp
qed

lemma endLocked_log:
  assumes wf: "sys_wf y" and log: "log_wf y" and t: "event_turn ev (y_s y) = Some t"
    and live: "\<not> t_ended (ss_heap (y_s y) t)" and step: "endLocked now at t ev (y_s y) = (obs, s)"
  shows "log_wf (y\<lparr>y_s := s, y_log := y_log y @ obs\<rparr>)"
proof -
  note tw = sys_wfD(1) [OF wf]
  have cur: "ss_current (y_s y) = Some t" using event_turn_current [OF tw t live] .
  obtain p where core: "core_eq (end_core t p (y_s y)) s"
    using endLocked_core [OF cur turns_wfD(12) [OF tw] step] by blast
  show ?thesis
    by (rule log_wf_turn [OF log tw event_turn_known(2) [OF tw t] live refl endLocked_obs [OF step]])
      (use core in \<open>auto simp: core_eq_def end_core_def\<close>)
qed


lemma report_log:
  assumes q: "quiet d" and wf: "sys_wf y" and log: "log_wf y" and step: "report H d now ev (y_s y) = (obs, s)"
  shows "log_wf (y\<lparr>y_s := s, y_log := y_log y @ obs\<rparr>)"
proof -
  have quiet_end: ?thesis if "silent obs" "marks_eq (y_s y) s"
    using that marks_eq_mark by (intro log_wf_silent [OF log, of obs]) auto
  show ?thesis
  proof (cases "ev_auto ev = []")
    case False
    with step q have "obs = []" "s = y_s y" by (auto simp: report_def Let_def autoLocked_def quiet_def)
    then show ?thesis using log by (simp add: log_wf_def)
  next
    case True
    show ?thesis
    proof (cases "ev_kind ev")
      case Started
      then show ?thesis using step True on_started_log [OF wf log] log
        by (auto simp: report_def Let_def split: option.splits)
    next
      case Ended
      then show ?thesis using step True endLocked_log [OF wf log] log
        by (auto simp: report_def Let_def split: option.splits if_splits)
    next
      case Retrying
      then show ?thesis
        using step True log quiet_end quiet_events_silent(1) marks_eq_core(1) [OF on_retrying_core]
        by (auto simp: report_def Let_def split: option.splits)
    next
      case RateLimited
      then show ?thesis
        using step True quiet_end quiet_events_silent(3) marks_eq_core(1) [OF on_rate_limited_core]
        by (auto simp: report_def Let_def)
    next
      case PromptRaised
      then show ?thesis
        using step True log quiet_end quiet_events_silent(4) quiet_events_marks(1)
        by (auto simp: report_def Let_def split: option.splits)
    next
      case PromptResolved
      then have res: "on_prompt_resolved (case ev_time ev of Some at \<Rightarrow> at | None \<Rightarrow> now) (event_turn ev (y_s y)) ev (y_s y) = (obs, s)"
        using step True by (simp add: report_def Let_def)
      have "marks_eq (y_s y) s" using on_prompt_resolved_core [OF res] marks_eq_core by blast
      then show ?thesis using quiet_end quiet_events_silent(5) [OF res] by blast
    next
      case Exited
      then show ?thesis
        using step True quiet_end quiet_events_silent(6) quiet_events_marks(2) by (auto simp: report_def Let_def)
    next
      case Background
      then show ?thesis
        using step True quiet_end quiet_events_silent(2) marks_eq_core(1) [OF on_background_core]
        by (auto simp: report_def Let_def)
    qed
  qed
qed

lemma log_wf_same:
  "log_wf y \<Longrightarrow> marks_eq (y_s y) (y_s y') \<Longrightarrow> y_log y' = y_log y \<Longrightarrow> log_wf y'"
  using marks_eq_mark by (auto simp: log_wf_def)

lemma send_register_log:
  assumes wf: "sys_wf y" and log: "log_wf y" and pc: "y_pc y = SWriting i native"
    and step: "Send_register H i native (y_s y) = (t, s)"
  shows "log_wf (y\<lparr>y_s := s, y_pc := SSubmit t\<rparr>)"
proof -
  have free: "ss_turns (y_s y) i = None" using sys_wfD(3) [OF wf] pc by (auto simp: pc_wf_def Let_def)
  have old: "ss_turns (y_s y) j = Some u \<Longrightarrow> u \<noteq> t" for j u
    using turns_wfD(1) [OF sys_wfD(1) [OF wf]] step by (auto simp: Send_register_def Let_def)
  have "mark f s j = mark f (y_s y) j" if "\<not> f (no_turn\<lparr>t_input := i, t_native := native, t_id := TurnID H i\<rparr>)" for f j
    using step free old that by (cases "j = i") (auto simp: Send_register_def Let_def mark_def split: option.split)
  then have "mark t_started s j = mark t_started (y_s y) j" "mark t_ended s j = mark t_ended (y_s y) j" for j
    by (simp_all add: no_turn_def)
  with log show ?thesis by (simp add: log_wf_def)
qed

lemma send_refused_log:
  assumes wf: "sys_wf y" and log: "log_wf y" and pc: "y_pc y = SSubmit t"
  shows "log_wf (y\<lparr>y_s := Send_refused freed t (y_s y), y_pc := SDone\<rparr>)"
proof -
  note tw = turns_wfD [OF sys_wfD(1) [OF wf]]
  have at_pc: "ss_current (y_s y) = Some t" "\<not> t_started (ss_heap (y_s y) t)"
    using sys_wfD(3) [OF wf] pc by (auto simp: pc_wf_def Let_def)
  have named: "ss_turns (y_s y) (t_input (ss_heap (y_s y) t)) = Some t" "\<not> t_ended (ss_heap (y_s y) t)"
    using tw(6) tw(9) [OF at_pc(1)] tw(8) [OF at_pc(1)] by blast+
  have heap: "ss_heap (Send_refused freed t (y_s y)) = ss_heap (y_s y)"
    "ss_turns (Send_refused freed t (y_s y)) =
      (if freed then (ss_turns (y_s y))(t_input (ss_heap (y_s y) t) := None) else ss_turns (y_s y))"
    by (auto simp: Send_refused_def Let_def restLocked_def)
  have "mark f (Send_refused freed t (y_s y)) j = mark f (y_s y) j" if "\<not> f (ss_heap (y_s y) t)" for f j
    using named(1) that unfolding mark_def heap by (auto split: option.split)
  with at_pc named log show ?thesis by (simp add: log_wf_def)
qed

lemma log_wf_step:
  assumes q: "quiet d" and wf: "sys_wf y" and log: "log_wf y" and step: "sys_step H d y y'"
  shows "log_wf y'"
  using step
proof cases
  case (report ev now obs s)
  then show ?thesis using report_log [OF q wf log] by simp
next
  case (timer_run now obs s)
  then have "silent obs" "marks_eq (y_s y) s" using quiet_events_silent(7) quiet_events_marks(3) by blast+
  then show ?thesis using timer_run marks_eq_mark by (intro log_wf_silent [OF log, of obs]) auto
next
  case (send_register i native t s)
  then show ?thesis using send_register_log [OF wf log] by simp
next
  case (submit_refused t freed)
  then show ?thesis using send_refused_log [OF wf log] by simp
next
  case (interrupt selfStarter r nxt s)
  then show ?thesis using marks_eq_core(1) [OF Interrupt_begin_core] by (auto intro: log_wf_same [OF log])
next
  case (interrupt_failed t op r s)
  then show ?thesis using marks_eq_core(1) [OF Interrupt_failed_core] by (auto intro: log_wf_same [OF log])
next
  case (auto_failed a op r s)
  then show ?thesis using marks_eq_core(1) [OF interruptAuto_failed_core] by (auto intro: log_wf_same [OF log])
qed (auto intro!: log_wf_same [OF log] simp: marks_eq_def Open_begin_def Open_fail_def Open_attach_def Open_finish_def
    Send_begin_None Send_running_def Send_end_def Answer_done_def Close_begin_def Close_finish_def Let_def
    split: if_splits)

definition quiet_inv :: "Descriptor \<Rightarrow> sys \<Rightarrow> bool" where
  "quiet_inv d y \<longleftrightarrow> (quiet d \<longrightarrow> sys_wf y \<and> log_wf y)"

lemma quiet_inv_init: "sys_init y \<Longrightarrow> quiet_inv d y"
  using sys_wf_init by (auto simp: quiet_inv_def sys_init_def log_wf_def mark_def newSession_def start_first_def)

interpretation quiet_sys: inductive_invariant sys_init "sys_step H d" "quiet_inv d" for H d
  by unfold_locales (auto simp: quiet_inv_def quiet_inv_init [unfolded quiet_inv_def] intro: sys_wf_step log_wf_step)

end
