(* ===== verification/Adapter_Session_Properties.thy ===== *)
theory Adapter_Session_Properties
  imports Adapter_Session_Inv
begin

text \<open>
  What the Session promises its Host, over the transition system of the Session theory: one
  input's turn at a time, each turn reported once and in order, an exit that is final, errors
  that say what reached the harness, and interrupts that concern the turn they name. The
  theorems about \<open>quiet\<close> harnesses (without autonomous or background turns) rest on the
  invariant; the last ones show what a harness with background turns breaks.
\<close>

section \<open>A run\<close>

definition desc_with :: "Capability list \<Rightarrow> Descriptor" where
  "desc_with caps =
     \<lparr>d_contract = ''harness-adapter/1.9'', d_harness = \<lparr>h_name = ''h'', h_version = ''1'', h_adapter = ''a''\<rparr>,
      d_capabilities = caps, d_checkpoint_format = 1, d_credential_kinds = [],
      d_spec = \<lparr>ss_models = \<lparr>m_any = True, m_ids = []\<rparr>, ss_efforts = [], ss_instructions = [], ss_skills = False,
                ss_memory = False, ss_connectors = [], ss_postures = [], ss_input_content = []\<rparr>,
      d_limits = \<lparr>l_max_input_bytes = 0, l_max_sessions = 0\<rparr>, d_load = None, d_egress = None, d_keeper = None\<rparr>"

definition event :: "EventKind \<Rightarrow> string \<Rightarrow> string \<Rightarrow> TurnError option \<Rightarrow> Event" where
  "event k native aut e =
     \<lparr>ev_kind = k, ev_native = native, ev_auto = aut, ev_time = None, ev_outcome = TurnCompleted, ev_text = [],
      ev_error = e, ev_retry = \<lparr>rd_attempt = 0, rd_max = 0, rd_delay_ms = 0, rd_http_status = 0\<rparr>,
      ev_rate_limit = \<lparr>rl_status = [], rl_windows = []\<rparr>, ev_resume_at = None, ev_prompt = None, ev_prompt_id = [],
      ev_by = [], ev_exit = \<lparr>se_class = ExitClean, se_exit_code = None, se_signal = [], se_detail = []\<rparr>, ev_tasks = []\<rparr>"

definition new_sys :: sys where
  "new_sys = \<lparr>y_s = newSession ''x'', y_pc = SNone, y_opening = False, y_fires = 0, y_log = []\<rparr>"

text \<open>Opened and idle; an event taken; a send up to its submission; and a gate timer that ran.\<close>

definition opened :: "Descriptor \<Rightarrow> sys" where
  "opened d = new_sys\<lparr>y_s := snd (Open_finish d [] (snd (Open_begin (newSession ''x'')))), y_opening := False\<rparr>"

definition after_event :: "(string \<Rightarrow> string) \<Rightarrow> Descriptor \<Rightarrow> int \<Rightarrow> Event \<Rightarrow> sys \<Rightarrow> sys" where
  "after_event H d now ev y =
     y\<lparr>y_s := snd (report H d now ev (y_s y)), y_log := y_log y @ fst (report H d now ev (y_s y))\<rparr>"

definition after_send :: "(string \<Rightarrow> string) \<Rightarrow> string \<Rightarrow> string \<Rightarrow> sys \<Rightarrow> sys" where
  "after_send H i native y =
     (let r = Send_register H i native ((y_s y)\<lparr>ss_sending := True\<rparr>) in y\<lparr>y_s := snd r, y_pc := SGiven (fst r)\<rparr>)"

definition after_timer :: "int \<Rightarrow> sys \<Rightarrow> sys" where
  "after_timer now y =
     (let s = (y_s y)\<lparr>ss_gateTimer := None\<rparr> in
      y\<lparr>y_s := snd (gate_fire now s), y_fires := 0, y_log := y_log y @ fst (gate_fire now s)\<rparr>)"

lemma reach_opened: "reachable sys_init (sys_step H d) (opened d)"
proof -
  define s1 where "s1 = snd (Open_begin (newSession ''x''))"
  define y1 where "y1 = new_sys\<lparr>y_s := s1, y_opening := True\<rparr>"
  have "Open_begin (y_s new_sys) = (None, s1)"
    by (simp add: Open_begin_def new_sys_def newSession_def s1_def)
  then have first: "sys_step H d new_sys y1" unfolding y1_def by (rule open_begin)
  have "sys_step H d y1 (y1\<lparr>y_s := snd (Open_finish d [] s1), y_opening := False\<rparr>)"
    by (rule open_finish [of _ _ "[]" "fst (Open_finish d [] s1)"]) (simp_all add: y1_def)
  then have second: "sys_step H d y1 (opened d)" by (simp add: y1_def opened_def s1_def)
  have "sys_init new_sys" by (auto simp: sys_init_def new_sys_def)
  then have "reachable sys_init (sys_step H d) new_sys" by (rule reach_init)
  then have "reachable sys_init (sys_step H d) y1" using first by (rule reach_step)
  then show ?thesis using second by (rule reach_step)
qed

lemma reach_event:
  "reachable sys_init (sys_step H d) y \<Longrightarrow> honest_event ev y \<Longrightarrow>
   reachable sys_init (sys_step H d) (after_event H d now ev y)"
  unfolding after_event_def by (erule reach_step) (rule report, simp_all)

lemma reach_timer:
  assumes "reachable sys_init (sys_step H d) y" and "ss_gateTimer (y_s y) = Some at" and "at \<le> now"
    and "y_fires y = 0"
  shows "reachable sys_init (sys_step H d) (after_timer now y)"
proof -
  let ?y = "y\<lparr>y_s := (y_s y)\<lparr>ss_gateTimer := None\<rparr>, y_fires := Suc (y_fires y)\<rparr>"
  have "reachable sys_init (sys_step H d) ?y" using reach_step [OF assms(1) timer_due [OF assms(2,3)]] .
  moreover have "sys_step H d ?y (?y\<lparr>y_s := snd (gate_fire now (y_s ?y)), y_fires := y_fires ?y - 1,
      y_log := y_log ?y @ fst (gate_fire now (y_s ?y))\<rparr>)"
    by (rule timer_run) simp_all
  ultimately have "reachable sys_init (sys_step H d) (?y\<lparr>y_s := snd (gate_fire now (y_s ?y)), y_fires := y_fires ?y - 1,
      y_log := y_log ?y @ fst (gate_fire now (y_s ?y))\<rparr>)" by (rule reach_step)
  then show ?thesis using assms(4) by (simp add: after_timer_def Let_def)
qed

lemma reach_send:
  assumes "reachable sys_init (sys_step H d) y" and "Send_begin d i (y_s y) = (None, (y_s y)\<lparr>ss_sending := True\<rparr>)"
    and "native \<noteq> []" and "ss_byNative (y_s y) native = None"
  shows "reachable sys_init (sys_step H d) (after_send H (in_id i) native y)"
proof -
  let ?y1 = "y\<lparr>y_s := (y_s y)\<lparr>ss_sending := True\<rparr>, y_pc := SWriting (in_id i) native\<rparr>"
  have 1: "reachable sys_init (sys_step H d) ?y1" using reach_step [OF assms(1) send_begin [OF assms(2)]] .
  let ?r = "Send_register H (in_id i) native (y_s ?y1)"
  have "sys_step H d ?y1 (?y1\<lparr>y_s := snd ?r, y_pc := SSubmit (fst ?r)\<rparr>)"
    by (rule send_register) (use assms(3,4) in simp_all)
  with 1 have 2: "reachable sys_init (sys_step H d) (?y1\<lparr>y_s := snd ?r, y_pc := SSubmit (fst ?r)\<rparr>)" by (rule reach_step)
  have "sys_step H d (?y1\<lparr>y_s := snd ?r, y_pc := SSubmit (fst ?r)\<rparr>)
      (?y1\<lparr>y_s := snd ?r, y_pc := SSubmit (fst ?r)\<rparr>\<lparr>y_pc := SGiven (fst ?r)\<rparr>)"
    by (rule submit_give) simp
  with 2 have "reachable sys_init (sys_step H d) (?y1\<lparr>y_s := snd ?r, y_pc := SSubmit (fst ?r)\<rparr>\<lparr>y_pc := SGiven (fst ?r)\<rparr>)"
    by (rule reach_step)
  then show ?thesis by (simp add: after_send_def Let_def)
qed

lemmas session_run_defs = opened_def new_sys_def after_event_def after_send_def after_timer_def event_def desc_with_def
  newSession_def Open_begin_def Open_finish_def Send_register_def Let_def report_def event_turn_def on_started_def
  no_turn_def no_auto_def Has_def

section \<open>Properties\<close>

definition running :: "session \<Rightarrow> nat \<Rightarrow> bool" where
  "running s t \<longleftrightarrow> (\<exists>n. ss_byNative s n = Some t) \<and> \<not> t_ended (ss_heap s t)"




definition demo_run :: sys where
  "demo_run = after_event id (desc_with []) 5 (event Started ''n1'' [] None) (after_send id ''i1'' ''n1'' (opened (desc_with [])))"

lemma demo_run_reachable: "reachable sys_init (sys_step id (desc_with [])) demo_run"
proof -
  let ?d = "desc_with []" and ?i = "TextInput ''i1'' ''hi''"
  have "Input_Validate 0 ?i = None"
    by (simp add: Input_Validate_None TextInput_def ContentText_def ValidID_def id_char_def is_lower_def is_digit_def)
  then have "Send_begin ?d ?i (y_s (opened ?d)) = (None, (y_s (opened ?d))\<lparr>ss_sending := True\<rparr>)"
    by (simp add: Send_begin_None session_run_defs admitLocked_def)
  then have "reachable sys_init (sys_step id ?d) (after_send id (in_id ?i) ''n1'' (opened ?d))"
    by (rule reach_send [OF reach_opened]) (simp_all add: session_run_defs)
  then have "reachable sys_init (sys_step id ?d) (after_send id ''i1'' ''n1'' (opened ?d))"
    by (simp add: TextInput_def)
  then show ?thesis unfolding demo_run_def
    by (rule reach_event) (simp add: honest_event_def after_send_def Let_def)
qed


section \<open>Exit\<close>

lemmas phase_defs = report_def Let_def on_started_def on_retrying_def on_background_def on_rate_limited_def
  on_prompt_raised_def on_prompt_resolved_def on_exited_def liveKeyLocked_def

lemma restLocked_exited [simp]: "ss_phase s = PhaseExited \<Longrightarrow> restLocked s = s"
  by (simp add: restLocked_def)

lemma settle_op_phase [simp]: "ss_phase (settle_op op ou s) = ss_phase s"
  by (simp add: settle_op_def split: option.split)

lemma endLocked_exited: "ss_phase s = PhaseExited \<Longrightarrow> ss_phase (snd (endLocked now at t ev s)) = PhaseExited"
  by (simp add: endLocked_def Let_def)

lemma autoLocked_exited: "ss_phase s = PhaseExited \<Longrightarrow> ss_phase (snd (autoLocked H d now at ev s)) = PhaseExited"
  by (auto simp: autoLocked_def auto_lookup_def Let_def split: option.split)

lemma report_exited:
  assumes "ss_phase s = PhaseExited"
  shows "ss_phase (snd (report H d now ev s)) = PhaseExited"
proof (cases "ev_auto ev = []")
  case False
  then show ?thesis using autoLocked_exited [OF assms] by (simp add: report_def Let_def)
next
  case True
  then show ?thesis using assms endLocked_exited [OF assms]
    by (cases "ev_kind ev") (auto simp: phase_defs split: option.split)
qed

lemma Interrupt_begin_phase: "ss_phase (snd (Interrupt_begin st r s)) = ss_phase s"
  by (simp add: Interrupt_begin_def interruptAuto_def new_op_def Let_def split: option.split)

lemma sys_step_exited:
  assumes "sys_step H d y y'" and "ss_phase (y_s y) = PhaseExited"
  shows "ss_phase (y_s y') = PhaseExited"
  using assms
proof cases
  case (report ev now obs s)
  then show ?thesis using report_exited [OF assms(2), of H d now ev] by simp
next
  case (interrupt st r nxt s)
  then show ?thesis using Interrupt_begin_phase [of st r "y_s y"] assms(2) by simp
qed (use assms(2) in \<open>auto simp: Open_begin_def Open_fail_def Open_attach_def Open_finish_def gate_fire_def
    Send_begin_def Send_register_def Send_refused_def Send_running_def Send_end_def Interrupt_failed_def
    interruptAuto_failed_def Answer_done_def Close_begin_def Close_finish_def Let_def
    split: if_splits option.splits\<close>)

text \<open>
  an exit is final. A Session that exited stays so whatever else happens, with any harness,
  and refuses every input from then on, saying that it did not reach the harness.
\<close>

lemma session_exit_terminal:
  assumes "(sys_step H d)\<^sup>*\<^sup>* y y'" and "ss_phase (y_s y) = PhaseExited"
  shows "ss_phase (y_s y') = PhaseExited \<and>
    (\<exists>e. Send_begin d i (y_s y') = (Some e, y_s y') \<and> e_certainty e = Some NotSubmitted)"
proof -
  from assms have ex: "ss_phase (y_s y') = PhaseExited"
    by (induction rule: rtranclp_induct) (auto intro: sys_step_exited)
  then have "\<exists>e. admitLocked d (y_s y') = Some e \<and> e_certainty e = Some NotSubmitted"
    by (auto simp: admitLocked_def)
  with ex Input_Validate_certainty show ?thesis by (auto simp: Send_begin_def split: option.split)
qed

section \<open>Send\<close>

text \<open>
  what a refused send says. A send that is refused before it starts changes nothing of the
  Session and says for certain that nothing was submitted; a send that starts is for a valid
  input with an id that has no turn yet, on an open Session without another send, and marks the
  Session as sending.
\<close>

lemma send_refused_certain:
  "case Send_begin d i s of
     (Some e, s') \<Rightarrow> s' = s \<and> e_certainty e = Some NotSubmitted
   | (None, s') \<Rightarrow>
       s' = s\<lparr>ss_sending := True\<rparr> \<and> Input_Validate (l_max_input_bytes (d_limits d)) i = None \<and>
       ss_turns s (in_id i) = None \<and> \<not> ss_closing s \<and> \<not> ss_sending s \<and>
       (ss_phase s = PhaseIdle \<or> ss_phase s = PhaseBusy \<and> ss_current s = None \<and> Has d CapAutonomousTurns)"
proof (cases "Input_Validate (l_max_input_bytes (d_limits d)) i")
  case (Some e)
  then show ?thesis using Input_Validate_certainty by (simp add: Send_begin_def)
next
  case None
  then show ?thesis
    by (auto simp: Send_begin_def admitLocked_def split: Phase.split option.split if_splits)
qed

section \<open>Interrupt\<close>

text \<open>Outcomes of interrupts are written once.\<close>

definition ops_grow :: "session \<Rightarrow> session \<Rightarrow> bool" where
  "ops_grow s s' \<longleftrightarrow>
     ss_opnext s \<le> ss_opnext s' \<and>
     (\<forall>p < ss_opnext s. \<forall>ou. ss_ops s p = Some ou \<longrightarrow> ss_ops s' p = Some ou)"

lemma ops_grow_same: "ss_opnext s' = ss_opnext s \<Longrightarrow> ss_ops s' = ss_ops s \<Longrightarrow> ops_grow s s'"
  by (simp add: ops_grow_def)

lemma ops_grow_settle: "ss_opnext s' = ss_opnext s \<Longrightarrow> ss_ops s' = ss_ops (settle_op op ou s) \<Longrightarrow> ops_grow s s'"
  by (auto simp: ops_grow_def settle_op_def split: option.splits if_splits)

lemma restLocked_ops [simp]: "ss_ops (restLocked s) = ss_ops s" "ss_opnext (restLocked s) = ss_opnext s"
  by (simp_all add: restLocked_def)

lemma settle_op_cong [simp]:
  "ss_opnext (settle_op op ou s) = ss_opnext s" "ss_current (settle_op op ou s) = ss_current s"
  "ss_auto (settle_op op ou s) = ss_auto s" "ss_prompt (settle_op op ou s) = ss_prompt s"
  by (simp_all add: settle_op_def split: option.split)

lemma settle_op_ops: "ss_ops s = ss_ops s' \<Longrightarrow> ss_ops (settle_op op ou s) = ss_ops (settle_op op ou s')"
  by (simp add: settle_op_def split: option.split)

lemma close_gate_ops [simp]:
  "ss_ops (snd (close_gate b at s)) = ss_ops s" "ss_opnext (snd (close_gate b at s)) = ss_opnext s"
  by (simp_all add: close_gate_def liveKeyLocked_def armGateLocked_def Let_def split: option.split)

lemma endLocked_ops: "ops_grow s (snd (endLocked now at t ev s))"
  by (rule ops_grow_settle [of _ _ "t_interrupt (ss_heap s t)" "ev_outcome ev"])
    (auto simp: endLocked_def Let_def case_prod_beta intro: settle_op_ops split: option.split)

lemma auto_lookup_ops [simp]:
  "ss_ops (snd (auto_lookup H n s)) = ss_ops s" "ss_opnext (snd (auto_lookup H n s)) = ss_opnext s"
  by (simp_all add: auto_lookup_def Let_def split: option.split)

lemma autoLocked_ops: "ops_grow s (snd (autoLocked H d now at ev s))"
proof -
  define s1 where "s1 = snd (auto_lookup H (ev_auto ev) s)"
  define an where "an = ss_aheap s1 (fst (auto_lookup H (ev_auto ev) s))"
  define s' where "s' = snd (autoLocked H d now at ev s)"
  have next_eq: "ss_opnext s' = ss_opnext s"
    by (auto simp: s'_def autoLocked_def Let_def case_prod_beta split: option.split)
  have "ss_ops s' = ss_ops s \<or> ss_ops s' = ss_ops (settle_op (at_interrupt an) (ev_outcome ev) s)"
    by (auto simp: s'_def autoLocked_def Let_def case_prod_beta an_def s1_def intro: settle_op_ops split: option.split)
  with next_eq show ?thesis unfolding s'_def [symmetric] by (auto intro: ops_grow_same ops_grow_settle)
qed

lemma report_ops: "ops_grow s (snd (report H d now ev s))"
proof (cases "ev_auto ev = []")
  case False
  then show ?thesis using autoLocked_ops by (simp add: report_def Let_def)
next
  case True
  then show ?thesis using endLocked_ops
    by (cases "ev_kind ev") (auto simp: phase_defs intro: ops_grow_same split: option.split)
qed

lemma Interrupt_begin_ops: "ops_grow s (snd (Interrupt_begin st r s))"
  by (auto simp: ops_grow_def Interrupt_begin_def interruptAuto_def new_op_def Let_def split: option.split)

lemma sys_step_ops:
  assumes "sys_step H d y y'"
  shows "ops_grow (y_s y) (y_s y')"
  using assms
proof cases
  case (report ev now obs s)
  then show ?thesis using report_ops [of "y_s y" H d now ev] by simp
next
  case (interrupt st r nxt s)
  then show ?thesis using Interrupt_begin_ops [of "y_s y" st r] by simp
qed (auto intro!: ops_grow_same simp: Open_begin_def Open_fail_def Open_attach_def Open_finish_def gate_fire_def
    liveKeyLocked_def Send_begin_None Send_register_def Send_refused_def Send_running_def Send_end_def
    Interrupt_failed_def interruptAuto_failed_def Answer_done_def Close_begin_def Close_finish_def Let_def
    split: if_splits option.splits)

text \<open>
  an interrupt has one outcome. Once an interrupt the Session made has an outcome, a call
  that waits on it, now or after any further steps, is ready to return, and returns that outcome
  whether it takes the interrupt's end or the harness's exit; an outcome it returns is never
  another one. Only a deadline or context that is over can make it return unconfirmed.
\<close>

lemma interrupt_outcome_stable:
  assumes "(sys_step H d)\<^sup>*\<^sup>* y y'" and "op < ss_opnext (y_s y)" and "ss_ops (y_s y) op = Some ou"
  shows "awaitInterrupt op OpDone (y_s y') = Some (Inr ou) \<and>
    awaitInterrupt op HarnessExited (y_s y') \<in> {None, Some (Inr ou)} \<and>
    (awaitInterrupt op c (y_s y') = Some (Inr ou') \<longrightarrow> ou' = ou)"
proof -
  from assms(1) have "ops_grow (y_s y) (y_s y')"
  proof (induction rule: rtranclp_induct)
    case (step u v)
    then show ?case using sys_step_ops [OF step(2)] by (auto simp: ops_grow_def)
  qed (simp add: ops_grow_def)
  with assms(2,3) have "ss_ops (y_s y') op = Some ou" by (simp add: ops_grow_def)
  then show ?thesis by (cases c) (simp_all add: awaitInterrupt_def Let_def)
qed

definition stop_i1 :: InterruptRequest where
  "stop_i1 = \<lparr>ir_input_id = ''i1'', ir_turn_id = [], ir_deadline_ms = 0\<rparr>"

definition demo_stopped :: sys where
  "demo_stopped =
     (let y = demo_run\<lparr>y_s := Send_end (Send_running 0 (y_s demo_run)), y_pc := SNone\<rparr>;
          y1 = y\<lparr>y_s := snd (Interrupt_begin False stop_i1 (y_s y))\<rparr>
      in after_event id (desc_with []) 7 ((event Ended ''n1'' [] None)\<lparr>ev_outcome := TurnInterrupted\<rparr>) y1)"

text \<open>
  an interrupt concerns the turn it names. The harness is asked to stop a turn only when
  the input of the request owns the current turn, which has not ended, with no send outstanding
  and the Session not exited; the request is then bound to that turn, and the same request again
  joins it instead of asking the harness twice.
\<close>

lemma interrupt_names_its_turn:
  assumes "Interrupt_begin st r s = (IAsk op, s')" and "ir_turn_id r = []"
  shows "\<exists>t. ss_turns s (ir_input_id r) = Some t \<and> ss_current s = Some t \<and> \<not> t_ended (ss_heap s t) \<and>
      \<not> ss_sending s \<and> ss_phase s \<noteq> PhaseExited \<and> t_interrupt (ss_heap s' t) = Some op \<and> ss_ops s' op = None \<and>
      Interrupt_begin st r s' = (IJoin op, s')"
  using assms by (auto simp: Interrupt_begin_def new_op_def Let_def split: if_splits option.splits)

section \<open>State\<close>

text \<open>
  the state names the running turn. With a harness that starts no turn of its own, in every
  reachable state that is busy or awaits an answer, \<open>State\<close> names the input and the turn id of
  the one turn that has not ended, and in every other state it names none.
\<close>

lemma state_names_running_turn:
  assumes "reachable sys_init (sys_step H d) y" and "quiet d"
  shows "if ss_phase (y_s y) = PhaseBusy \<or> ss_phase (y_s y) = PhaseAwaitingAnswer
    then \<exists>t. running (y_s y) t \<and> st_input_id (stateLocked d (y_s y)) = t_input (ss_heap (y_s y) t) \<and>
      st_turn_id (stateLocked d (y_s y)) = t_id (ss_heap (y_s y) t)
    else st_input_id (stateLocked d (y_s y)) = [] \<and> st_turn_id (stateLocked d (y_s y)) = []"
proof -
  have wf: "sys_wf y" using quiet_sys.inv_reachable [OF assms(1)] assms(2) by (simp add: quiet_inv_def)
  note tw = turns_wfD [OF sys_wfD(1) [OF wf]]
  show ?thesis
  proof (cases "ss_phase (y_s y) = PhaseBusy \<or> ss_phase (y_s y) = PhaseAwaitingAnswer")
    case True
    then obtain t where cur: "ss_current (y_s y) = Some t" using sys_wfD(5) [OF wf] by auto
    have "running (y_s y) t" unfolding running_def using tw(8) [OF cur] tw(9) [OF cur] by blast
    moreover have "st_input_id (stateLocked d (y_s y)) = t_input (ss_heap (y_s y) t)"
      "st_turn_id (stateLocked d (y_s y)) = t_id (ss_heap (y_s y) t)"
      using True cur tw(8) [OF cur] tw(12) by (auto simp: stateLocked_def Let_def)
    ultimately show ?thesis using True by auto
  next
    case False
    then show ?thesis using tw(12) by (auto simp: stateLocked_def Let_def split: option.split)
  qed
qed

section \<open>Texts and ids\<close>

lemma rune_cut_le: "rune_cut s n \<le> n"
  by (induction s n rule: rune_cut.induct) auto

lemma rune_cut_start: "rune_cut s n = 0 \<or> rune_start (s ! rune_cut s n)"
  by (induction s n rule: rune_cut.induct) auto

lemma rune_cut_max: "m \<le> n \<Longrightarrow> rune_start (s ! m) \<Longrightarrow> m \<le> rune_cut s n"
proof (induction s n rule: rune_cut.induct)
  case (2 s n)
  then show ?case by (cases "m = Suc n") auto
qed simp

lemma Truncate_long:
  assumes "MaxObservationText < length s" and "valid_string s"
  shows "valid_string (take (rune_cut s MaxObservationText) s)" "MaxObservationText - 3 \<le> rune_cut s MaxObservationText"
proof -
  define m where "m = rune_cut s MaxObservationText"
  have m: "m < length s" using rune_cut_le [of s MaxObservationText] assms(1) by (simp add: m_def)
  have "m = 0 \<or> \<not> cont (map of_char s ! m)"
    using rune_cut_start [of s MaxObservationText] m by (auto simp: m_def rune_start_def)
  then show "valid_string (take (rune_cut s MaxObservationText) s)"
    using utf8_valid_take [of "map of_char s" m] assms(2) m
    by (auto simp: valid_string_def take_map m_def)
  obtain k where "k \<le> 3" "k \<le> MaxObservationText" "\<not> cont (map of_char s ! (MaxObservationText - k))"
    using utf8_valid_near [of "map of_char s" MaxObservationText] assms by (auto simp: valid_string_def)
  then have "rune_start (s ! (MaxObservationText - k))" using assms(1) by (auto simp: rune_start_def)
  from rune_cut_max [OF _ this, of MaxObservationText] \<open>k \<le> 3\<close>
  show "MaxObservationText - 3 \<le> rune_cut s MaxObservationText" by linarith
qed

text \<open>
  \<open>Truncate\<close> cuts a text to its bound at a rune: what is left is a prefix of at most
  \<open>MaxObservationText\<close> bytes, all of it when that fits, and of a text that is valid UTF-8 the
  prefix is valid UTF-8 too and at most three bytes short of the bound.
\<close>

lemma truncate_prefix:
  "case Truncate s of (text, short) \<Rightarrow>
     text = take (length text) s \<and> length text \<le> MaxObservationText \<and>
     short = (MaxObservationText < length s) \<and> (\<not> short \<longrightarrow> text = s) \<and>
     (valid_string s \<longrightarrow> valid_string text \<and> (short \<longrightarrow> MaxObservationText - 3 \<le> length text))"
proof (cases "length s \<le> MaxObservationText")
  case True
  then show ?thesis by (simp add: Truncate_def)
next
  case False
  then have "rune_cut s MaxObservationText < length s" using rune_cut_le [of s MaxObservationText] by simp
  then show ?thesis using False rune_cut_le [of s MaxObservationText] Truncate_long [of s]
    by (auto simp: Truncate_def min_def)
qed

text \<open>
  turn ids. The id of an input's turn and the id of a turn the harness started itself are
  valid ids and never equal, for a digest whose hex form is hex digits; two inputs with ids of
  at most 126 bytes have different turns.
\<close>

lemma turn_ids_distinct:
  assumes "list_all id_char (H i)" and "list_all id_char (H n)" and "ValidID i"
  shows "ValidID (TurnID H i) \<and> ValidID (AutoTurnID H n) \<and> TurnID H i \<noteq> AutoTurnID H n \<and>
    (length i \<le> 126 \<longrightarrow> length j \<le> 126 \<longrightarrow> TurnID H i = TurnID H j \<longrightarrow> i = j)"
proof -
  have hex: "list_all id_char (take 32 (H i))" "list_all id_char (take 32 (H n))"
    using assms(1,2) by (auto simp: list_all_iff dest: in_set_takeD)
  have pre: "id_char (CHR ''t'')" "id_char (CHR ''a'')" "id_char (CHR ''_'')"
    by (simp_all add: id_char_def is_lower_def)
  show ?thesis using hex pre assms(3) by (auto simp: TurnID_def AutoTurnID_def ValidID_def)
qed

section \<open>Where the code and its comments part\<close>

text \<open>
  an autonomous turn's observations can carry the id of an input's. The id of an autonomous
  turn is the key of its start and end, said to be one no input id equals; but an input may have
  such an id, and its start and end then have the same observation ids.
\<close>

lemma auto_turn_key_collides:
  "Input_Validate 0 (TextInput ''a_x'' ''hi'') = None \<and>
   ObservationID KindTurnStarted ''a_x'' = ObservationID KindTurnStarted (AutoTurnID H ''x'') \<and>
   ObservationID KindTurnEnded ''a_x'' = ObservationID KindTurnEnded (AutoTurnID H ''x'')"
  by (simp add: Input_Validate_None TextInput_def ContentText_def ValidID_def id_char_def is_lower_def AutoTurnID_def)

text \<open>
  C40: a gate that opens while the harness works. With background turns, a turn the harness starts
  while the Session is blocked leaves it blocked; when the wall's reset comes, the gate's timer
  makes the Session idle although that turn runs, and a send is admitted beside it.
\<close>

definition limited :: TurnError where
  "limited = \<lparr>te_class = ErrorUsageLimit, te_http_status = 0, te_retry_after_s = 0, te_resume_at = Some 10\<rparr>"

definition gate_run :: "Descriptor \<Rightarrow> sys" where
  "gate_run d =
     after_timer 11
       (after_event id d 7 (event Started [] ''b'' None)
         (after_event id d 6 (event Ended [] ''a'' (Some limited))
           (after_event id d 5 (event Started [] ''a'' None) (opened d))))"

theorem gate_admits_beside_turn:
  "\<exists>d a. Has d CapBackgroundTurns \<and> \<not> Has d CapAutonomousTurns \<and>
     reachable sys_init (sys_step id d) (gate_run d) \<and>
     ss_auto (y_s (gate_run d)) = Some a \<and> at_started (ss_aheap (y_s (gate_run d)) a) \<and>
     \<not> at_ended (ss_aheap (y_s (gate_run d)) a) \<and> admitLocked d (y_s (gate_run d)) = None"
proof -
  define d where "d = desc_with [CapBackgroundTurns]"
  have open_h: "y_pc (opened d) = SNone" by (simp add: opened_def new_sys_def)
  define y1 where "y1 = after_event id d 5 (event Started [] ''a'' None) (opened d)"
  define y2 where "y2 = after_event id d 6 (event Ended [] ''a'' (Some limited)) y1"
  define y3 where "y3 = after_event id d 7 (event Started [] ''b'' None) y2"
  note ev = reach_event [of id d]
  have "reachable sys_init (sys_step id d) y1"
    unfolding y1_def by (rule ev [OF reach_opened]) (simp add: honest_event_def open_h)
  then have "reachable sys_init (sys_step id d) y2"
    unfolding y2_def by (rule ev) (simp add: honest_event_def open_h y1_def after_event_def)
  then have r3: "reachable sys_init (sys_step id d) y3"
    unfolding y3_def by (rule ev) (simp add: honest_event_def open_h y1_def y2_def after_event_def)
  note run = d_def y1_def y2_def y3_def session_run_defs autoLocked_def auto_lookup_def auto_obs_def settle_op_def
    blockFor_def limited_def close_gate_def liveKeyLocked_def armGateLocked_def gate_fire_def AutoTurnID_def
  have "ss_gateTimer (y_s y3) = Some 10" "y_fires y3 = 0" by (simp_all add: run)
  then have "reachable sys_init (sys_step id d) (gate_run d)"
    using reach_timer [OF r3, of 10 11] by (simp add: gate_run_def y1_def y2_def y3_def)
  moreover have "ss_auto (y_s (gate_run d)) = Some 1" "at_started (ss_aheap (y_s (gate_run d)) 1)"
    "\<not> at_ended (ss_aheap (y_s (gate_run d)) 1)" "admitLocked d (y_s (gate_run d)) = None"
    by (simp_all add: gate_run_def run admitLocked_def)
  ultimately show ?thesis by (intro exI [of _ d] exI [of _ 1]) (simp add: d_def desc_with_def Has_def)
qed

end
