(* ===== verification/Adapter_Open.thy ===== *)
theory Adapter_Open
  imports Adapter_Frontend Adapter_Record Adapter_Session_Properties
begin

text \<open>
  \<open>Open\<close> of \<^verbatim>\<open>pkg/adapter/session.go\<close> as a whole: the regions of the Session theory with the calls
  between them, which reach the marker store, the working directory, the Session's lock, the
  profile's \<open>Start\<close> and its \<open>Record\<close>. What these calls answer are parameters; the locks and
  whether a harness runs are state.
\<close>

section \<open>Definitions\<close>

text \<open>The answers of the calls of one \<open>Open\<close>.\<close>

record open_env =
  oe_markers :: "(Markers \<times> store) option"
  oe_fs :: "string \<Rightarrow> lstat"
  oe_fd :: nat
  oe_lock_ready :: bool
  oe_lock_fails :: bool
  oe_start :: "goerror + string"
  oe_relock_ready :: bool
  oe_relock_fails :: bool
  oe_record :: "goerror option"
  oe_abandoned :: bool
  oe_version :: string

text \<open>The harness was started and must hold a lock: the one taken before, or that of its own id.\<close>

definition Open_relock ::
  "(string \<Rightarrow> string) \<Rightarrow> open_env \<Rightarrow> nat option \<Rightarrow> string \<Rightarrow> locks \<Rightarrow> (goerror + nat) \<times> locks"
where
  "Open_relock H env lk sid l =
     (case lk of
        Some fd \<Rightarrow> (Inr fd, l)
      | None \<Rightarrow>
          (case lockSession H (oe_relock_ready env) (oe_relock_fails env) (oe_fd env) sid l of
             (Locked fd, l') \<Rightarrow> (Inr fd, l')
           | (InUse e, l') \<Rightarrow> (Inl (Wraps e), l')
           | (LockError, l') \<Rightarrow> (Inl Plain, l')))"

text \<open>From \<open>Start\<close> to the check of a loaded Session's id; the last part is whether the harness runs.\<close>

definition Open_start ::
  "(string \<Rightarrow> string) \<Rightarrow> open_env \<Rightarrow> OpenRequest \<Rightarrow> nat option \<Rightarrow> locks \<Rightarrow> (goerror + string \<times> nat) \<times> locks \<times> bool"
where
  "Open_start H env req lk l =
     (case oe_start env of
        Inl e \<Rightarrow> (Inl e, release lk l, False)
      | Inr sid \<Rightarrow>
          (case Open_relock H env lk sid l of
             (Inl e, l1) \<Rightarrow> (Inl e, l1, False)
           | (Inr fd, l1) \<Rightarrow>
               if or_loaded req \<and> sid \<noteq> or_session_id req
               then (Inl (Wraps (err_open OpenSessionNotFound)), release (Some fd) l1, False)
               else (Inr (sid, fd), l1, True)))"

definition Open_setup ::
  "(string \<Rightarrow> string) \<Rightarrow> open_env \<Rightarrow> OpenRequest \<Rightarrow> locks \<Rightarrow> (goerror + string \<times> nat) \<times> locks \<times> bool"
where
  "Open_setup H env req l =
     (if oe_markers env = None then (Inl Plain, l, False)
      else if or_work_dir req \<noteq> [] \<and> checkWorkDir (oe_fs env) (or_layout req) (or_work_dir req) \<noteq> None
      then (Inl (Wraps (err_open OpenConfigInvalid)), l, False)
      else if or_session_id req \<noteq> [] then
        (case lockSession H (oe_lock_ready env) (oe_lock_fails env) (oe_fd env) (or_session_id req) l of
           (Locked fd, l') \<Rightarrow> Open_start H env req (Some fd) l'
         | (InUse e, l') \<Rightarrow> (Inl (Wraps e), l', False)
         | (LockError, l') \<Rightarrow> (Inl Plain, l', False))
      else Open_start H env req None l)"

definition Open ::
  "(string \<Rightarrow> string) \<Rightarrow> Descriptor \<Rightarrow> open_env \<Rightarrow> OpenRequest \<Rightarrow> session \<Rightarrow> locks \<Rightarrow>
    (Error + OpenResult) \<times> session \<times> locks \<times> bool"
where
  "Open H d env req s l =
     (case Open_begin s of
        (Some e, s1) \<Rightarrow> (Inl e, s1, l, False)
      | (None, s1) \<Rightarrow>
          (case Open_setup H env req l of
             (Inl e, l1, up) \<Rightarrow> (let (e', s2) = Open_fail e (oe_abandoned env) s1 in (Inl e', s2, l1, up))
           | (Inr (sid, fd), l1, up) \<Rightarrow>
               let s2 = Open_attach sid s1; l2 = (if ss_exited s1 then release (Some fd) l1 else l1) in
               case oe_record env of
                 Some e \<Rightarrow>
                   (let (e', s3) = Open_fail e (oe_abandoned env) s2
                    in (Inl e', s3, release (Some fd) l2, False))
               | None \<Rightarrow> (let (r, s3) = Open_finish d (oe_version env) s2 in (r, s3, l2, up))))"

section \<open>Locks over an open\<close>

text \<open>The file an open locks with is its own: it holds nothing before.\<close>

abbreviation new_fd :: "nat \<Rightarrow> locks \<Rightarrow> bool" where
  "new_fd fd l \<equiv> (\<forall>f. l f \<noteq> Some fd)"

lemma release_lock: "new_fd fd l \<Longrightarrow> l f = None \<Longrightarrow> release (Some fd) (l(f \<mapsto> fd)) = l"
  by (rule ext) (auto simp: release_def)

lemma lockSession_Locked:
  "lockSession H ready fails fd i l = (Locked k, l') \<longleftrightarrow>
     ready \<and> \<not> fails \<and> k = fd \<and> l (lock_file H i) = None \<and> l' = l(lock_file H i \<mapsto> fd)"
  by (auto simp: lockSession_def split: option.splits)

lemma lockSession_other: "lockSession H ready fails fd i l = (r, l') \<Longrightarrow> (\<And>k. r \<noteq> Locked k) \<Longrightarrow> l' = l"
  by (auto simp: lockSession_def split: option.splits if_splits)

text \<open>The Session an open locks: the one it asks for, or the one the harness chose.\<close>

definition open_id :: "OpenRequest \<Rightarrow> string \<Rightarrow> string" where
  "open_id req sid = (if or_session_id req \<noteq> [] then or_session_id req else sid)"

lemma Open_start_locks:
  assumes "new_fd (oe_fd env) l" and "l (lock_file H (or_session_id req)) = None"
    and "Open_start H env req (Some (oe_fd env)) (l(lock_file H (or_session_id req) \<mapsto> oe_fd env)) = (r, l', up)"
  shows "case r of
      Inl e \<Rightarrow> l' = l \<and> \<not> up
    | Inr (sid, fd) \<Rightarrow> up \<and> fd = oe_fd env \<and> oe_start env = Inr sid \<and> l' = l(lock_file H (or_session_id req) \<mapsto> fd) \<and>
        (or_loaded req \<longrightarrow> sid = or_session_id req)"
  using assms(3) release_lock [OF assms(1,2)]
  by (auto simp: Open_start_def Open_relock_def split: sum.splits if_splits)

lemma Open_start_own:
  assumes "new_fd (oe_fd env) l" and "Open_start H env req None l = (r, l', up)"
  shows "case r of
      Inl e \<Rightarrow> l' = l \<and> \<not> up
    | Inr (sid, fd) \<Rightarrow> up \<and> fd = oe_fd env \<and> oe_start env = Inr sid \<and> l (lock_file H sid) = None \<and>
        l' = l(lock_file H sid \<mapsto> fd) \<and> (or_loaded req \<longrightarrow> sid = or_session_id req)"
proof (cases "oe_start env")
  case (Inl e)
  then show ?thesis using assms(2) by (auto simp: Open_start_def release_def)
next
  case (Inr sid)
  show ?thesis
  proof (cases "lockSession H (oe_relock_ready env) (oe_relock_fails env) (oe_fd env) sid l")
    case (Pair lr l1)
    show ?thesis
    proof (cases lr)
      case (Locked fd)
      with Pair have "fd = oe_fd env" "l (lock_file H sid) = None" "l1 = l(lock_file H sid \<mapsto> oe_fd env)"
        by (simp_all add: lockSession_Locked)
      with Inr Pair Locked assms(2) release_lock [OF assms(1), of "lock_file H sid"] show ?thesis
        by (auto simp: Open_start_def Open_relock_def split: if_splits)
    next
      case (InUse e)
      with Inr Pair assms(2) lockSession_other [OF Pair] show ?thesis
        by (auto simp: Open_start_def Open_relock_def)
    next
      case LockError
      with Inr Pair assms(2) lockSession_other [OF Pair] show ?thesis
        by (auto simp: Open_start_def Open_relock_def)
    qed
  qed
qed

lemma Open_setup_locks:
  assumes "new_fd (oe_fd env) l" and "Open_setup H env req l = (r, l', up)"
  shows "case r of
      Inl e \<Rightarrow> l' = l \<and> \<not> up
    | Inr (sid, fd) \<Rightarrow> up \<and> fd = oe_fd env \<and> oe_start env = Inr sid \<and> l (lock_file H (open_id req sid)) = None \<and>
        l' = l(lock_file H (open_id req sid) \<mapsto> fd) \<and> (or_loaded req \<longrightarrow> sid = or_session_id req)"
proof (cases "oe_markers env = None \<or>
    or_work_dir req \<noteq> [] \<and> checkWorkDir (oe_fs env) (or_layout req) (or_work_dir req) \<noteq> None")
  case True
  then show ?thesis using assms(2) by (cases "oe_markers env = None") (simp_all add: Open_setup_def, auto)
next
  case go: False
  show ?thesis
  proof (cases "or_session_id req = []")
    case True
    with go assms(2) have "Open_start H env req None l = (r, l', up)" by (auto simp: Open_setup_def)
    from Open_start_own [OF assms(1) this] True show ?thesis by (auto simp: open_id_def split: sum.splits)
  next
    case False
    obtain lr l1 where lock: "lockSession H (oe_lock_ready env) (oe_lock_fails env) (oe_fd env) (or_session_id req) l = (lr, l1)"
      by (cases "lockSession H (oe_lock_ready env) (oe_lock_fails env) (oe_fd env) (or_session_id req) l")
    show ?thesis
    proof (cases lr)
      case (Locked fd)
      with lock have l1: "fd = oe_fd env" "l (lock_file H (or_session_id req)) = None"
        "l1 = l(lock_file H (or_session_id req) \<mapsto> oe_fd env)" by (simp_all add: lockSession_Locked)
      with go False lock Locked assms(2)
      have "Open_start H env req (Some (oe_fd env)) (l(lock_file H (or_session_id req) \<mapsto> oe_fd env)) = (r, l', up)"
        by (auto simp: Open_setup_def)
      from Open_start_locks [OF assms(1) l1(2) this] False l1(2) show ?thesis
        by (auto simp: open_id_def split: sum.splits)
    qed (use go False lock assms(2) lockSession_other [OF lock] in \<open>auto simp: Open_setup_def\<close>)
  qed
qed

section \<open>Properties\<close>


definition demo_env :: open_env where
  "demo_env =
     \<lparr>oe_markers = Some (newMarkers, demo_store), oe_fs = (\<lambda>_. LstatDir), oe_fd = 3, oe_lock_ready = True,
      oe_lock_fails = False, oe_start = Inr ''h1'', oe_relock_ready = True, oe_relock_fails = False,
      oe_record = None, oe_abandoned = False, oe_version = []\<rparr>"

definition demo_open :: OpenRequest where
  "demo_open =
     \<lparr>or_mode = OpenFresh, or_session_id = [], or_open_config = [],
      or_layout = \<lparr>lay_home = [], lay_config = [], lay_workspace = [], lay_secrets = [], lay_scratch = []\<rparr>, or_credential = None,
      or_checkpoint = None, or_loaded = False, or_work_dir = []\<rparr>"


end
