(* ===== verification/Go_Bytes.thy ===== *)
theory Go_Bytes
  imports Go_Lib
begin

text \<open>
  The rest of \<^verbatim>\<open>bytes\<close> and \<^verbatim>\<open>strings\<close> that the stream components use: searching for a byte,
  trimming, and cutting a byte stream at its newlines.
\<close>

abbreviation LF :: char where "LF \<equiv> CHR 0x0A"
abbreviation CR :: char where "CR \<equiv> CHR 0x0D"
abbreviation ESC :: char where "ESC \<equiv> CHR 0x1B"

section \<open>Searching\<close>

text \<open>\<open>LastIndexByte\<close>, as the length of the prefix that ends with the last \<open>c\<close>: 0 when there is none.\<close>

fun last_after :: "'a \<Rightarrow> 'a list \<Rightarrow> nat" where
  "last_after c [] = 0"
| "last_after c (x # xs) = (if c \<in> set xs then Suc (last_after c xs) else if x = c then 1 else 0)"

lemma last_after_le: "last_after c s \<le> length s"
  by (induction s) auto

lemma last_after_0: "last_after c s = 0 \<longleftrightarrow> c \<notin> set s"
  by (induction s) auto

lemma last_after_drop: "c \<notin> set (drop (last_after c s) s)"
  by (induction s) (auto simp: drop_Cons split: nat.split dest: in_set_dropD)

lemma last_after_pos: "0 < last_after c s \<Longrightarrow> s ! (last_after c s - 1) = c"
  by (induction s) (auto simp: nth_Cons last_after_0 split: nat.split if_splits)

lemma last_after_append:
  "last_after c (xs @ ys) = (if c \<in> set ys then length xs + last_after c ys else last_after c xs)"
  by (induction xs) (auto simp: last_after_0)

lemma last_after_take: "last_after c (take (last_after c s) s) = last_after c s"
proof (cases "last_after c s")
  case (Suc k)
  have k: "k < length s" "s ! k = c" using last_after_le [of c s] last_after_pos [of c s] Suc by simp_all
  have "take (Suc k) s = take k s @ [c]" using take_Suc_conv_app_nth [OF k(1)] k(2) by simp
  then show ?thesis using k Suc by (simp add: last_after_append)
qed simp

section \<open>Trimming\<close>

definition trim_suffix :: "'a list \<Rightarrow> 'a list \<Rightarrow> 'a list" where
  "trim_suffix s t = (if length t \<le> length s \<and> drop (length s - length t) s = t then take (length s - length t) s else s)"

text \<open>
  Whether \<open>bytes.TrimSpace\<close> leaves nothing: the text is a sequence of white space, in UTF-8, as
  \<^verbatim>\<open>unicode.IsSpace\<close> has it. \<open>space_len\<close> is the length of the white space rune a text starts with.
\<close>

definition space_len :: "nat list \<Rightarrow> nat" where
  "space_len s =
     (case s of
        [] \<Rightarrow> 0
      | a # t \<Rightarrow>
          if (9 \<le> a \<and> a \<le> 13) \<or> a = 32 then 1
          else
            case t of
              [] \<Rightarrow> 0
            | b # u \<Rightarrow>
                if a = 0xC2 \<and> (b = 0x85 \<or> b = 0xA0) then 2
                else
                  case u of
                    [] \<Rightarrow> 0
                  | c # _ \<Rightarrow>
                      if (a = 0xE1 \<and> b = 0x9A \<and> c = 0x80) \<or>
                         (a = 0xE2 \<and> b = 0x80 \<and> (0x80 \<le> c \<and> c \<le> 0x8A \<or> c = 0xA8 \<or> c = 0xA9 \<or> c = 0xAF)) \<or>
                         (a = 0xE2 \<and> b = 0x81 \<and> c = 0x9F) \<or> (a = 0xE3 \<and> b = 0x80 \<and> c = 0x80)
                      then 3 else 0)"

function all_space :: "nat list \<Rightarrow> bool" where
  "all_space s = (if s = [] then True else if space_len s = 0 then False else all_space (drop (space_len s) s))"
  by pat_completeness auto
termination
  by (relation "measure length") auto

declare all_space.simps [simp del]

definition blank :: "string \<Rightarrow> bool" where
  "blank s = all_space (map of_char s)"

text \<open>\<^verbatim>\<open>strings.TrimSpace\<close>. \<open>end_space\<close> is the length of the white space rune a text ends with.\<close>

definition end_space :: "string \<Rightarrow> nat" where
  "end_space s =
     (let one = (\<lambda>n. n \<le> length s \<and> space_len (map of_char (drop (length s - n) s)) = n) in
      if s = [] then 0 else if one 1 then 1 else if one 2 then 2 else if one 3 then 3 else 0)"

function trim_left :: "string \<Rightarrow> string" where
  "trim_left s =
     (let n = space_len (map of_char s) in if s = [] \<or> n = 0 then s else trim_left (drop n s))"
  by pat_completeness auto
termination
  by (relation "measure length") auto

function trim_right :: "string \<Rightarrow> string" where
  "trim_right s = (let n = end_space s in if s = [] \<or> n = 0 then s else trim_right (take (length s - n) s))"
  by pat_completeness auto
termination
  by (relation "measure length") auto

declare trim_left.simps [simp del] and trim_right.simps [simp del]

definition trim_space :: "string \<Rightarrow> string" where
  "trim_space s = trim_right (trim_left s)"

lemma trim_left_drop: "\<exists>n. trim_left s = drop n s"
proof (induction s rule: trim_left.induct)
  case (1 s)
  show ?case
  proof (cases "s = [] \<or> space_len (map of_char s) = 0")
    case True
    then have "trim_left s = drop 0 s" by (subst trim_left.simps) (auto simp: Let_def)
    then show ?thesis ..
  next
    case False
    then have "trim_left s = trim_left (drop (space_len (map of_char s)) s)" by (subst trim_left.simps) (auto simp: Let_def)
    with 1 [OF refl False] show ?thesis by auto
  qed
qed

lemma trim_right_take: "\<exists>n. trim_right s = take n s"
proof (induction s rule: trim_right.induct)
  case (1 s)
  show ?case
  proof (cases "s = [] \<or> end_space s = 0")
    case True
    then have "trim_right s = take (length s) s" by (subst trim_right.simps) (auto simp: Let_def)
    then show ?thesis ..
  next
    case False
    then have "trim_right s = trim_right (take (length s - end_space s) s)" by (subst trim_right.simps) (auto simp: Let_def)
    with 1 [OF refl False] show ?thesis by auto
  qed
qed

lemma trim_space_part: "\<exists>m n. trim_space s = take m (drop n s)"
  using trim_left_drop [of s] trim_right_take [of "trim_left s"] unfolding trim_space_def by metis

lemma trim_space_bounds: "length (trim_space s) \<le> length s" "set (trim_space s) \<subseteq> set s"
proof -
  obtain m n where "trim_space s = take m (drop n s)" using trim_space_part by blast
  then show "length (trim_space s) \<le> length s" "set (trim_space s) \<subseteq> set s"
    using set_take_subset [of m "drop n s"] set_drop_subset [of n s] by auto
qed

section \<open>Tails\<close>

definition tail_of :: "nat \<Rightarrow> 'a list \<Rightarrow> 'a list" where
  "tail_of n xs = drop (length xs - n) xs"

lemma tail_of_append: "tail_of n (tail_of n xs @ ys) = tail_of n (xs @ ys)"
  by (cases "length xs \<le> n") (auto simp: tail_of_def add.commute)

lemma length_tail_of [simp]: "length (tail_of n xs) = min n (length xs)"
  by (simp add: tail_of_def)

section \<open>Lines\<close>

text \<open>A byte stream as its complete lines, without their newlines, and the rest after the last one.\<close>

definition full_lines :: "string \<Rightarrow> string list" where
  "full_lines s = butlast (split_on LF s)"

definition line_rest :: "string \<Rightarrow> string" where
  "line_rest s = last (split_on LF s)"

lemma full_lines_cut:
  "cut_on LF s = Some (l, r) \<Longrightarrow> full_lines s = l # full_lines r \<and> line_rest s = line_rest r"
  by (auto simp: cut_on_Some full_lines_def line_rest_def split_on_append)

lemma full_lines_none: "LF \<notin> set s \<Longrightarrow> full_lines s = [] \<and> line_rest s = s"
  by (simp add: full_lines_def line_rest_def split_on_single)

lemma full_lines_append:
  "full_lines (s @ t) = full_lines s @ full_lines (line_rest s @ t) \<and> line_rest (s @ t) = line_rest (line_rest s @ t)"
proof (induction "split_on LF s" arbitrary: s)
  case Nil
  then show ?case by (metis split_on_ne)
next
  case (Cons x xs)
  show ?case
  proof (cases xs)
    case Nil
    then have "s = x" using arg_cong [OF Cons.hyps(2), of "join_on LF"] by simp
    then have "LF \<notin> set s" using split_on_no_sep [of x LF s] Cons.hyps(2) by (metis list.set_intros(1))
    then show ?thesis using full_lines_none [of s] by simp
  next
    case (Cons y ys)
    then have "join_on LF (x # xs) = x @ LF # join_on LF xs" by (simp add: join_on_Cons)
    then have s: "s = x @ LF # join_on LF xs" unfolding Cons.hyps(2) by simp
    have x: "LF \<notin> set x" using split_on_no_sep [of x LF s] Cons.hyps(2) by (metis list.set_intros(1))
    have sp: "split_on LF (join_on LF xs) = xs"
      using Cons.hyps(2) split_on_append [OF x, of "join_on LF xs"] s by simp
    have "full_lines s = x # full_lines (join_on LF xs)" "line_rest s = line_rest (join_on LF xs)"
      "full_lines (s @ t) = x # full_lines (join_on LF xs @ t)" "line_rest (s @ t) = line_rest (join_on LF xs @ t)"
      using split_on_append [OF x] by (simp_all add: s full_lines_def line_rest_def)
    with Cons.hyps(1) [OF sp [symmetric]] show ?thesis by simp
  qed
qed

end
