(* ===== verification/Wrap_Streams.thy ===== *)
theory Wrap_Streams
  imports Go_Bytes
begin

text \<open>
  The byte streams of a harness's terminal, which arrive in chunks cut anywhere:
  \<^verbatim>\<open>internal/wrapcore/linetap.go\<close> cuts them into lines, \<^verbatim>\<open>internal/wrapcore/recent_output.go\<close>
  keeps their tail, and \<^verbatim>\<open>pkg/screen/csifilter.go\<close> takes the control sequences out that the
  screen emulator misreads. Each is an instance of \<open>chunked_stream\<close>, as far as it is one.
\<close>

section \<open>The line tap\<close>

text \<open>A splitter is its buffer; a nil one, without a callback, takes nothing. Lines are what \<open>onLine\<close> gets.\<close>

type_synonym lineSplitter = "string option"

definition newLineSplitter :: "bool \<Rightarrow> lineSplitter" where
  "newLineSplitter onLine = (if onLine then Some [] else None)"

function write_loop :: "string \<Rightarrow> string list \<times> string" where
  "write_loop buf =
     (case cut_on LF buf of
        None \<Rightarrow> ([], buf)
      | Some (l, r) \<Rightarrow> (let (ls, rest) = write_loop r in (trim_suffix l [CR] # ls, rest)))"
  by pat_completeness auto
termination
  by (relation "measure length") (auto simp: cut_on_Some)

declare write_loop.simps [simp del]

definition ls_write :: "lineSplitter \<Rightarrow> string \<Rightarrow> lineSplitter \<times> string list" where
  "ls_write ls p =
     (case ls of
        None \<Rightarrow> (None, [])
      | Some buf \<Rightarrow> (let (lines, rest) = write_loop (buf @ p) in (Some rest, lines)))"

definition ls_flush :: "lineSplitter \<Rightarrow> lineSplitter \<times> string list" where
  "ls_flush ls =
     (case ls of
        None \<Rightarrow> (None, [])
      | Some buf \<Rightarrow> if buf = [] then (Some [], []) else (Some [], [trim_suffix buf [CR]]))"

text \<open>The loop finds the stream's complete lines and keeps the rest.\<close>

lemma write_loop_lines: "write_loop s = (map (\<lambda>l. trim_suffix l [CR]) (full_lines s), line_rest s)"
proof (induction s rule: write_loop.induct)
  case (1 buf)
  show ?case
  proof (cases "cut_on LF buf")
    case None
    then have "LF \<notin> set buf" by (simp add: cut_on_def split: if_splits)
    then show ?thesis using None full_lines_none [of buf] by (subst write_loop.simps) simp
  next
    case (Some lr)
    obtain l r where lr: "lr = (l, r)" by (cases lr)
    show ?thesis using 1 [OF Some lr [symmetric]] full_lines_cut [of buf l r] Some lr by (subst write_loop.simps) simp
  qed
qed

definition ls_ok :: "lineSplitter \<Rightarrow> string \<Rightarrow> bool" where
  "ls_ok ls p \<longleftrightarrow> (case ls of None \<Rightarrow> True | Some buf \<Rightarrow> LF \<notin> set buf)"

lemma line_rest_no_LF: "LF \<notin> set (line_rest s)"
  using split_on_no_sep [of "last (split_on LF s)" LF s] by (simp add: line_rest_def)

interpretation tap: chunked_stream ls_write ls_ok
proof
  fix s xs ys
  show "ls_write s (xs @ ys) =
      (fst (ls_write (fst (ls_write s xs)) ys), snd (ls_write s xs) @ snd (ls_write (fst (ls_write s xs)) ys))"
    using full_lines_append [of "the s @ xs" ys] by (cases s) (simp_all add: ls_write_def write_loop_lines)
  show "ls_ok (fst (ls_write s xs)) ys"
    using line_rest_no_LF by (cases s) (simp_all add: ls_write_def ls_ok_def write_loop_lines)
next
  fix s
  assume "ls_ok s []"
  then show "ls_write s [] = (s, [])"
    using full_lines_none [of "the s"] by (cases s) (simp_all add: ls_write_def write_loop_lines ls_ok_def)
qed

section \<open>Recent output\<close>

text \<open>A buffer keeps the last \<open>rb_limit\<close> bytes and counts all of them.\<close>

record recentOutputBuffer =
  rb_limit :: int
  rb_buf :: string
  rb_total :: int

definition newRecentOutput :: "int \<Rightarrow> recentOutputBuffer" where
  "newRecentOutput limit = \<lparr>rb_limit = limit, rb_buf = [], rb_total = 0\<rparr>"

definition rb_write :: "recentOutputBuffer \<Rightarrow> string \<Rightarrow> recentOutputBuffer" where
  "rb_write b p =
     (if rb_limit b \<le> 0 \<or> length p = 0 then b
      else
        let b1 = b\<lparr>rb_total := rb_total b + int (length p)\<rparr> in
        if int (length p) \<ge> rb_limit b1 then b1\<lparr>rb_buf := drop (length p - nat (rb_limit b1)) p\<rparr>
        else
          let buf = rb_buf b1 @ p; over = int (length buf) - rb_limit b1 in
          if over > 0 then b1\<lparr>rb_buf := take (nat (rb_limit b1)) (drop (nat over) buf)\<rparr> else b1\<lparr>rb_buf := buf\<rparr>)"

definition TextFrom :: "recentOutputBuffer \<Rightarrow> int \<Rightarrow> string \<times> int" where
  "TextFrom b mark =
     (let start = rb_total b - int (length (rb_buf b));
          i = (if mark > start then min (nat (mark - start)) (length (rb_buf b)) else 0);
          i' = last_after LF (take i (rb_buf b))
      in (drop i' (rb_buf b), rb_total b))"

lemma rb_write_none: "rb_limit b \<le> 0 \<or> p = [] \<Longrightarrow> rb_write b p = b"
  by (auto simp: rb_write_def)

lemma rb_write_buf:
  assumes "0 < rb_limit b" and "p \<noteq> []"
  shows "rb_write b p = b\<lparr>rb_total := rb_total b + int (length p), rb_buf := tail_of (nat (rb_limit b)) (rb_buf b @ p)\<rparr>"
proof (cases "int (length p) \<ge> rb_limit b")
  case True
  then have "tail_of (nat (rb_limit b)) (rb_buf b @ p) = drop (length p - nat (rb_limit b)) p"
    using assms(1) by (auto simp: tail_of_def)
  with True assms show ?thesis by (simp add: rb_write_def)
next
  case False
  then show ?thesis using assms by (auto simp: rb_write_def tail_of_def Let_def nat_diff_distrib nat_int_add)
qed

lemma rb_write_fields [simp]: "rb_limit (rb_write b p) = rb_limit b"
  by (simp add: rb_write_def Let_def)

lemma rb_write_append: "rb_write b (xs @ ys) = rb_write (rb_write b xs) ys"
proof (cases "0 < rb_limit b \<and> xs \<noteq> [] \<and> ys \<noteq> []")
  case True
  then show ?thesis using tail_of_append [of "nat (rb_limit b)" "rb_buf b @ xs" ys]
    by (simp add: rb_write_buf)
next
  case False
  then show ?thesis by (cases "rb_limit b \<le> 0") (auto simp: rb_write_none)
qed

lemma rb_write_fresh:
  "0 < limit \<Longrightarrow>
   rb_write (newRecentOutput limit) s = \<lparr>rb_limit = limit, rb_buf = tail_of (nat limit) s, rb_total = int (length s)\<rparr>"
  by (cases "s = []") (simp_all add: rb_write_buf rb_write_none newRecentOutput_def tail_of_def)

interpretation recent: chunked_stream "\<lambda>b p. (rb_write b p, [] :: unit list)" "\<lambda>_ _. True"
  by unfold_locales (simp_all add: rb_write_append rb_write_none)

section \<open>The CSI filter\<close>

definition csiMax :: nat where "csiMax = 64"

text \<open>Parameter and intermediate bytes, and final bytes.\<close>

definition csi_mid :: "char \<Rightarrow> bool" where
  "csi_mid c \<longleftrightarrow> 0x20 \<le> ord c \<and> ord c \<le> 0x3F"

definition csi_final :: "char \<Rightarrow> bool" where
  "csi_final c \<longleftrightarrow> \<not> (ord c < 0x40 \<or> ord c > 0x7E)"

definition dropCSI :: "string \<Rightarrow> char \<Rightarrow> bool" where
  "dropCSI params final =
     (case params of
        [] \<Rightarrow> False
      | c # _ \<Rightarrow>
          if c = CHR ''<'' \<or> c = CHR ''='' \<or> c = CHR ''>'' then True
          else if c = CHR ''?'' then final = CHR ''u'' else False)"

lemma dropWhile_rest: "dropWhile P q = x # rest \<Longrightarrow> length rest < length q"
  using length_dropWhile_le [of P q] by simp

text \<open>
  The loop of \<open>filter\<close> from the position it is at: what it passes on, and the sequence it holds
  back for the next write.
\<close>

function csi_loop :: "string \<Rightarrow> string \<times> string" where
  "csi_loop [] = ([], [])"
| "csi_loop (c # r) =
     (if c \<noteq> ESC then (let (out, pend) = csi_loop r in (c # out, pend))
      else
        case r of
          [] \<Rightarrow> ([], [ESC])
        | d # q \<Rightarrow>
            if d \<noteq> CHR ''['' then (let (out, pend) = csi_loop r in (c # out, pend))
            else
              case dropWhile csi_mid q of
                [] \<Rightarrow> if length (c # r) \<le> csiMax then ([], c # r) else (c # r, [])
              | final # rest \<Rightarrow>
                  if \<not> csi_final final then (let (out, pend) = csi_loop r in (c # out, pend))
                  else if dropCSI (takeWhile csi_mid q) final then csi_loop rest
                  else (let (out, pend) = csi_loop rest in (c # d # takeWhile csi_mid q @ final # out, pend)))"
  by pat_completeness auto
termination
  by (relation "measure length") (auto dest: dropWhile_rest)

declare csi_loop.simps(2) [simp del]

definition csi_filter :: "string \<Rightarrow> string \<Rightarrow> string \<times> string" where
  "csi_filter pending p = (let (out, pend) = csi_loop (pending @ p) in (pend, out))"

text \<open>Streams in which no sequence is longer than the filter may hold back.\<close>

definition tame :: "string \<Rightarrow> bool" where
  "tame s \<longleftrightarrow> (\<forall>pre q. s = pre @ ESC # CHR ''['' # q \<longrightarrow> length (takeWhile csi_mid q) + 2 \<le> csiMax)"

lemma tame_suffix: "tame (xs @ ys) \<Longrightarrow> tame ys"
  unfolding tame_def by (metis append.assoc)

lemma tame_prefix:
  assumes "tame (xs @ ys)"
  shows "tame xs"
  unfolding tame_def
proof (intro allI impI)
  fix pre q
  assume "xs = pre @ ESC # CHR ''['' # q"
  then have "length (takeWhile csi_mid (q @ ys)) + 2 \<le> csiMax" using assms unfolding tame_def by simp
  moreover have "length (takeWhile csi_mid q) \<le> length (takeWhile csi_mid (q @ ys))"
    by (induction q) auto
  ultimately show "length (takeWhile csi_mid q) + 2 \<le> csiMax" by simp
qed

lemma tame_head:
  assumes "tame (ESC # CHR ''['' # q)" and "dropWhile csi_mid q = []"
  shows "length (ESC # CHR ''['' # q) \<le> csiMax"
proof -
  have "length (takeWhile csi_mid q) = length q" using assms(2) by (metis append_Nil2 takeWhile_dropWhile_id)
  then show ?thesis using assms(1) [unfolded tame_def, rule_format, of "[]" q] by simp
qed

lemma csi_held:
  "dropWhile csi_mid q = [] \<Longrightarrow> length (ESC # CHR ''['' # q) \<le> csiMax \<Longrightarrow>
   csi_loop (ESC # CHR ''['' # q) = ([], ESC # CHR ''['' # q)"
  by (simp add: csi_loop.simps(2) del: dropWhile_eq_Nil_conv)

text \<open>Feeding more after what was held back is feeding it all at once.\<close>

lemma csi_loop_append:
  "tame (xs @ ys) \<Longrightarrow>
   csi_loop (xs @ ys) =
     (fst (csi_loop xs) @ fst (csi_loop (snd (csi_loop xs) @ ys)), snd (csi_loop (snd (csi_loop xs) @ ys)))"
proof (induction xs rule: csi_loop.induct)
  case 1
  then show ?case by simp
next
  case (2 c r)
  have tr: "tame (r @ ys)" using tame_suffix [of "[c]" "r @ ys"] "2.prems" by simp
  show ?case
  proof (cases "c = ESC")
    case False
    then show ?thesis using "2.IH"(1) [OF False tr] by (simp add: csi_loop.simps(2) case_prod_beta)
  next
    case esc: True
    show ?thesis
    proof (cases r)
      case Nil
      with esc show ?thesis by (simp add: csi_loop.simps(2) [of _ "[]"])
    next
      case r: (Cons d q)
      show ?thesis
      proof (cases "d = CHR ''[''")
        case False
        then show ?thesis using "2.IH"(2) [OF _ r False] esc tr r by (simp add: csi_loop.simps(2) [of ESC] case_prod_beta)
      next
        case bracket: True
        show ?thesis
        proof (cases "dropWhile csi_mid q")
          case Nil
          have "length (c # r) \<le> csiMax"
            using tame_head [of q] tame_prefix [OF "2.prems"] esc r bracket Nil by simp
          then show ?thesis using csi_held [OF Nil] esc r bracket by simp
        next
          case rest: (Cons final rest)
          have app: "dropWhile csi_mid (q @ ys) = final # rest @ ys" "takeWhile csi_mid (q @ ys) = takeWhile csi_mid q"
            using rest by (induction q) (auto split: if_splits)
          have trest: "tame (rest @ ys)"
          proof -
            have "c # r @ ys = (c # d # takeWhile csi_mid q @ [final]) @ (rest @ ys)"
              using rest r takeWhile_dropWhile_id [of csi_mid q] by simp
            then show ?thesis using "2.prems" tame_suffix by (metis append_Cons)
          qed
          show ?thesis
          proof (cases "csi_final final")
            case False
            then show ?thesis using "2.IH"(3) [OF _ r _ rest False] esc bracket tr app r rest
              by (simp add: csi_loop.simps(2) [of ESC] case_prod_beta)
          next
            case final: True
            show ?thesis
            proof (cases "dropCSI (takeWhile csi_mid q) final")
              case True
              then show ?thesis using "2.IH"(4) [OF _ r _ rest _ True] final esc bracket trest app r rest
                by (simp add: csi_loop.simps(2) [of ESC] case_prod_beta)
            next
              case False
              then show ?thesis using "2.IH"(5) [OF _ r _ rest _ False] final esc bracket trest app r rest
                by (simp add: csi_loop.simps(2) [of ESC] case_prod_beta)
            qed
          qed
        qed
      qed
    qed
  qed
qed

lemma csi_loop_held: "tame s \<Longrightarrow> csi_loop (snd (csi_loop s)) = ([], snd (csi_loop s))"
  using csi_loop_append [of s "[]"] by (simp add: prod_eq_iff)

text \<open>What one step of the loop does.\<close>

lemma csi_pass:
  "\<not> (c = ESC \<and> (r = [] \<or> hd r = CHR ''['')) \<Longrightarrow> csi_loop (c # r) = (c # fst (csi_loop r), snd (csi_loop r))"
  by (cases r) (auto simp: csi_loop.simps(2) [of c] case_prod_beta)

lemma csi_loop_step:
  obtains (pass) "csi_loop (c # r) = (c # fst (csi_loop r), snd (csi_loop r))"
  | (held) "csi_loop (c # r) = ([], c # r)"
  | (long) "csi_loop (c # r) = (c # r, [])"
  | (csi) ps f rest where "c # r = ESC # CHR ''['' # ps @ f # rest" "list_all csi_mid ps" "csi_final f"
      "csi_loop (c # r) =
        ((if dropCSI ps f then [] else ESC # CHR ''['' # ps @ [f]) @ fst (csi_loop rest), snd (csi_loop rest))"
proof (cases "c = ESC \<and> (\<exists>q. r = CHR ''['' # q)")
  case False
  then show ?thesis using pass [OF csi_pass] held by (cases r; cases "c = ESC") (auto simp: csi_loop.simps(2) [of ESC])
next
  case True
  then obtain q where r: "c = ESC" "r = CHR ''['' # q" by auto
  show ?thesis
  proof (cases "dropWhile csi_mid q")
    case Nil
    then show ?thesis using r held long
      by (cases "length (c # r) \<le> csiMax") (auto simp add: csi_loop.simps(2) simp del: dropWhile_eq_Nil_conv)
  next
    case (Cons f rest)
    have split: "c # r = ESC # CHR ''['' # takeWhile csi_mid q @ f # rest"
      using r Cons takeWhile_dropWhile_id [of csi_mid q] by simp
    have mids: "list_all csi_mid (takeWhile csi_mid q)" by (auto simp: list_all_iff dest: set_takeWhileD)
    show ?thesis
    proof (cases "csi_final f")
      case False
      then show ?thesis using pass r Cons by (simp add: csi_loop.simps(2) case_prod_beta)
    next
      case True
      then show ?thesis using csi [OF split mids True] r Cons by (simp add: csi_loop.simps(2) case_prod_beta)
    qed
  qed
qed

lemma csi_loop_suffix: "\<exists>pre. s = pre @ snd (csi_loop s)"
proof (induction s rule: length_induct)
  case (1 s)
  show ?case
  proof (cases s)
    case s: (Cons c r)
    show ?thesis
    proof (cases rule: csi_loop_step [of c r])
      case pass
      obtain pre where "r = pre @ snd (csi_loop r)" using 1 [rule_format, of r] s by auto
      then have "s = (c # pre) @ snd (csi_loop s)" using pass s by simp
      then show ?thesis by blast
    next
      case (csi ps f rest)
      obtain pre where "rest = pre @ snd (csi_loop rest)" using 1 [rule_format, of rest] s csi(1) by auto
      then have "s = (ESC # CHR ''['' # ps @ f # pre) @ snd (csi_loop s)" using csi s by simp
      then show ?thesis by blast
    qed (use s in auto)
  qed simp
qed

definition csi_ok :: "string \<Rightarrow> string \<Rightarrow> bool" where
  "csi_ok pending p \<longleftrightarrow> csi_loop pending = ([], pending) \<and> tame (pending @ p)"

interpretation csi: chunked_stream csi_filter csi_ok
proof
  fix s xs ys
  assume ok: "csi_ok s (xs @ ys)"
  then have t: "tame ((s @ xs) @ ys)" by (simp add: csi_ok_def)
  from csi_loop_append [OF t]
  show "csi_filter s (xs @ ys) =
      (fst (csi_filter (fst (csi_filter s xs)) ys), snd (csi_filter s xs) @ snd (csi_filter (fst (csi_filter s xs)) ys))"
    by (simp add: csi_filter_def case_prod_beta)
  obtain pre where "s @ xs = pre @ snd (csi_loop (s @ xs))" using csi_loop_suffix by blast
  then have "tame (snd (csi_loop (s @ xs)) @ ys)" using t tame_suffix by (metis append.assoc)
  then show "csi_ok (fst (csi_filter s xs)) ys"
    using csi_loop_held [OF tame_prefix [OF t]] by (simp add: csi_ok_def csi_filter_def case_prod_beta)
next
  fix s
  assume "csi_ok s []"
  then show "csi_filter s [] = (s, [])" by (simp add: csi_ok_def csi_filter_def)
qed

section \<open>What the filter takes out\<close>

text \<open>No sequence to take out is complete in the stream.\<close>

definition csi_clean :: "string \<Rightarrow> bool" where
  "csi_clean s \<longleftrightarrow>
     (\<forall>pre ps f rest. s = pre @ ESC # CHR ''['' # ps @ f # rest \<longrightarrow> list_all csi_mid ps \<longrightarrow> csi_final f \<longrightarrow> \<not> dropCSI ps f)"

lemma csi_clean_suffix: "csi_clean (xs @ ys) \<Longrightarrow> csi_clean ys"
  unfolding csi_clean_def by (metis append.assoc)

lemma csi_loop_subseq: "subseq (fst (csi_loop s) @ snd (csi_loop s)) s"
proof (induction s rule: length_induct)
  case (1 s)
  show ?case
  proof (cases s)
    case s: (Cons c r)
    show ?thesis
    proof (cases rule: csi_loop_step [of c r])
      case pass
      then show ?thesis using 1 [rule_format, of r] s by simp
    next
      case (csi ps f rest)
      have ih: "subseq (fst (csi_loop rest) @ snd (csi_loop rest)) rest" using 1 [rule_format, of rest] s csi(1) by simp
      have "subseq ((if dropCSI ps f then [] else ESC # CHR ''['' # ps @ [f]) @ fst (csi_loop rest) @ snd (csi_loop rest))
          ((ESC # CHR ''['' # ps @ [f]) @ rest)"
        by (rule list_emb_append_mono [OF _ ih]) simp
      then show ?thesis using csi s by simp
    qed (use s in simp_all)
  qed simp
qed

lemma csi_loop_clean: "csi_clean s \<Longrightarrow> fst (csi_loop s) @ snd (csi_loop s) = s"
proof (induction s rule: length_induct)
  case (1 s)
  show ?case
  proof (cases s)
    case s: (Cons c r)
    show ?thesis
    proof (cases rule: csi_loop_step [of c r])
      case pass
      then show ?thesis using 1(1) [rule_format, of r] csi_clean_suffix [of "[c]" r] 1(2) s by simp
    next
      case (csi ps f rest)
      have "\<not> dropCSI ps f" using 1(2) [unfolded csi_clean_def, rule_format, of "[]" ps f rest] csi s by simp
      moreover have "csi_clean rest"
        using 1(2) csi_clean_suffix [of "ESC # CHR ''['' # ps @ [f]" rest] csi(1) s by simp
      ultimately show ?thesis using 1(1) [rule_format, of rest] csi s by simp
    qed (use s in simp_all)
  qed simp
qed

section \<open>Properties\<close>

text \<open>
  the line tap loses nothing. However the harness's output is cut into chunks, the lines the
  callback gets, the final unterminated one included, are the lines of the whole output, each
  once and in order, without the carriage return at its end.
\<close>

lemma tap_lines:
  "snd (tap.feed_all (newLineSplitter True) cs) @ snd (ls_flush (fst (tap.feed_all (newLineSplitter True) cs))) =
     map (\<lambda>l. trim_suffix l [CR])
       (let ls = split_on LF (concat cs) in if last ls = [] then butlast ls else ls)"
proof -
  have ok: "ls_ok (newLineSplitter True) (concat cs)" by (simp add: ls_ok_def newLineSplitter_def)
  have "tap.feed_all (newLineSplitter True) cs =
      (Some (line_rest (concat cs)), map (\<lambda>l. trim_suffix l [CR]) (full_lines (concat cs)))"
    unfolding tap.feed_all_concat [OF ok] by (simp add: newLineSplitter_def ls_write_def write_loop_lines)
  moreover have "split_on LF (concat cs) = full_lines (concat cs) @ [line_rest (concat cs)]"
    by (simp add: full_lines_def line_rest_def)
  ultimately show ?thesis by (simp add: ls_flush_def Let_def)
qed

text \<open>
  the recent output is the tail of all output. However it is cut into writes, a buffer with
  a positive limit holds the last bytes of everything written, as many as its limit or all, and
  counts them all; \<open>TextFrom\<close> gives a suffix of it that holds every retained byte from the mark
  on and starts where the window or the mark's line does.
\<close>

lemma recent_output_tail:
  assumes "0 < limit" and "b = fst (recent.feed_all (newRecentOutput limit) cs)"
    and "TextFrom b mark = (text, through)" and "mark \<le> rb_total b"
  shows "rb_buf b = tail_of (nat limit) (concat cs) \<and> rb_total b = int (length (concat cs)) \<and> through = rb_total b \<and>
    (\<exists>k. text = drop k (rb_buf b) \<and> (k = 0 \<or> rb_buf b ! (k - 1) = LF) \<and>
      int k + (rb_total b - int (length (rb_buf b))) \<le> max mark (rb_total b - int (length (rb_buf b))) \<and>
      LF \<notin> set (take (nat (mark - (rb_total b - int (length (rb_buf b))) - int k)) text))"
proof -
  have b: "b = rb_write (newRecentOutput limit) (concat cs)"
    unfolding assms(2) by (simp add: recent.feed_all_concat)
  have fields: "rb_buf b = tail_of (nat limit) (concat cs)" "rb_total b = int (length (concat cs))"
    using rb_write_fresh [OF assms(1)] by (simp_all add: b)
  define start where "start = rb_total b - int (length (rb_buf b))"
  define i where "i = (if mark > start then min (nat (mark - start)) (length (rb_buf b)) else 0)"
  define k where "k = last_after LF (take i (rb_buf b))"
  have got: "text = drop k (rb_buf b)" "through = rb_total b"
    using assms(3) by (auto simp: TextFrom_def Let_def start_def i_def k_def)
  have i: "i \<le> length (rb_buf b)" "mark > start \<Longrightarrow> i = nat (mark - start)" "mark \<le> start \<Longrightarrow> i = 0"
    using assms(4) by (auto simp: i_def start_def)
  have k: "k \<le> i" using last_after_le [of LF "take i (rb_buf b)"] i(1) by (simp add: k_def)
  have "k = 0 \<or> rb_buf b ! (k - 1) = LF"
    using last_after_pos [of LF "take i (rb_buf b)"] k by (auto simp: k_def [symmetric])
  moreover have "int k + start \<le> max mark start" using k i(2,3) by (cases "mark > start") auto
  moreover have "LF \<notin> set (take (nat (mark - start - int k)) text)"
  proof -
    have "nat (mark - start - int k) = i - k" using i k by (cases "mark > start") auto
    then have "take (nat (mark - start - int k)) text = drop k (take i (rb_buf b))"
      by (simp add: got(1) drop_take)
    then show ?thesis using last_after_drop [of LF "take i (rb_buf b)"] by (simp add: k_def)
  qed
  ultimately show ?thesis using fields got unfolding start_def by blast
qed



text \<open>
  the filter only takes out. What it passes on and holds back is the stream with bytes
  removed and nothing moved or added; and when no sequence it must take out is complete in the
  stream, nothing is removed.
\<close>

lemma csi_filter_exact:
  "case csi_filter pending p of (held, out) \<Rightarrow>
     subseq (out @ held) (pending @ p) \<and> (csi_clean (pending @ p) \<longrightarrow> out @ held = pending @ p)"
  using csi_loop_subseq [of "pending @ p"] csi_loop_clean [of "pending @ p"]
  by (simp add: csi_filter_def case_prod_beta)

text \<open>
  a sequence longer than \<open>csiMax\<close> is dropped or passed depending on how the stream is cut:
  dropped when it arrives in one write, passed when a write ends within it. The filter's
  comment says that a longer one is not a sequence it drops.
\<close>

lemma csi_long_depends_on_cut:
  "let s = ESC # ''[>'' @ replicate 70 (CHR ''1'') in
   csi_filter [] (s @ ''m'') = ([], []) \<and> csi_filter [] s = ([], s)"
proof -
  have mid: "csi_mid (CHR ''1'')" "csi_mid (CHR ''>'')" "\<not> csi_mid (CHR ''m'')" by (simp_all add: csi_mid_def)
  have *: "dropWhile csi_mid (replicate 70 (CHR ''1'') @ x) = dropWhile csi_mid x" for x
    using mid(1) by (simp add: dropWhile_append)
  show ?thesis
    using mid * [of "[]"] * [of "''m''"]
    by (simp add: csi_filter_def csi_loop.simps(2) [of ESC] csi_final_def dropCSI_def csiMax_def Let_def)
qed

text \<open>
  taking a sequence out can make one. A lone escape before a sequence that is dropped meets
  the text behind it: the emulator gets the cursor query the filter is there to keep from it.
\<close>

lemma csi_filter_reassembles:
  "csi_filter [] (ESC # ESC # ''[>1u[?u'') = ([], ESC # ''[?u'') \<and> dropCSI ''?'' (CHR ''u'')"
  by (simp add: csi_filter_def csi_loop.simps csi_mid_def csi_final_def dropCSI_def)

end
