(* ===== verification/Go_Regex.thy ===== *)
theory Go_Regex
  imports Go_Bytes
begin

text \<open>
  Matching as the \<^verbatim>\<open>regexp\<close> package has it, as far as the program's expressions need: case
  folding as under \<^verbatim>\<open>(?i)\<close>, runes of UTF-8 with an invalid byte as a rune of its own, and the leftmost
  match, of those the one that a backtracking search would try first. A search is the list of the places where a
  match may end, in the order of preference.
\<close>

section \<open>Expressions\<close>

text \<open>
  \<open>Ch c\<close> is a letter in either case, with the two further folds of Unicode, or an ASCII
  character that is not a letter; \<open>NotIn cs\<close> is a rune other than the given ASCII characters; \<open>Runes\<close> is a class given by
  the encodings of its members, \<open>NotRunes\<close> a rune outside of such a class.
\<close>

datatype item = Ch char | NotIn string | Runes "string list" | NotRunes "string list"

text \<open>
  \<open>Bol\<close> and \<open>Eol\<close> are \<^verbatim>\<open>^\<close> and \<^verbatim>\<open>$\<close> under \<^verbatim>\<open>(?m)\<close>, \<open>Bot\<close> and \<open>Eot\<close> without it; \<open>Many\<close> repeats an
  expression that takes something each time.
\<close>

datatype re = Eps | One item | WordB | Bol | Eol | Bot | Eot | Cat re re | Alt re re | Star item | Lazy item
  | Many re | Group nat re

definition rune_len :: "string \<Rightarrow> nat" where
  "rune_len s =
     (case map of_char s :: nat list of
        [] \<Rightarrow> 0
      | a # t \<Rightarrow>
          if a < 128 then 1
          else (case t of
              [] \<Rightarrow> 1
            | b # u \<Rightarrow>
                if lead2 a \<and> cont b then 2
                else (case u of
                    [] \<Rightarrow> 1
                  | c # v \<Rightarrow>
                      if lead3 a b \<and> cont c then 3
                      else (case v of [] \<Rightarrow> 1 | d # _ \<Rightarrow> if lead4 a b \<and> cont c \<and> cont d then 4 else 1))))"

text \<open>How many bytes of the text an item takes; 0 when it does not match.\<close>

fun item_len :: "item \<Rightarrow> string \<Rightarrow> nat" where
  "item_len it [] = 0"
| "item_len (Ch c) (a # s) =
     (if lower_char a = c then 1
      else if c = CHR ''k'' \<and> take 3 (a # s) = [CHR 0xE2, CHR 0x84, CHR 0xAA] then 3
      else if c = CHR ''s'' \<and> take 2 (a # s) = [CHR 0xC5, CHR 0xBF] then 2
      else 0)"
| "item_len (NotIn cs) (a # s) = (if a \<in> set cs then 0 else rune_len (a # s))"
| "item_len (Runes rs) (a # s) =
     (case find (\<lambda>r. r \<noteq> [] \<and> take (length r) (a # s) = r) rs of Some r \<Rightarrow> length r | None \<Rightarrow> 0)"
| "item_len (NotRunes rs) (a # s) =
     (if list_ex (\<lambda>r. r \<noteq> [] \<and> take (length r) (a # s) = r) rs then 0 else rune_len (a # s))"

abbreviation any_rune :: item where "any_rune \<equiv> NotIn [LF]"
abbreviation digit_item :: item where
  "digit_item \<equiv> Runes [''0'', ''1'', ''2'', ''3'', ''4'', ''5'', ''6'', ''7'', ''8'', ''9'']"
abbreviation space_item :: item where "space_item \<equiv> Runes [[CHR 0x09], [LF], [CHR 0x0C], [CR], '' '']"

definition Opt :: "re \<Rightarrow> re" where "Opt r = Alt r Eps"

definition Plus :: "item \<Rightarrow> re" where "Plus it = Cat (One it) (Star it)"

definition dot_opt :: re where "dot_opt = Opt (One any_rune)"

fun seq :: "re list \<Rightarrow> re" where
  "seq [] = Eps"
| "seq [r] = r"
| "seq (r # rs) = Cat r (seq rs)"

fun alts :: "re list \<Rightarrow> re" where
  "alts [] = Eps"
| "alts [r] = r"
| "alts (r # rs) = Alt r (alts rs)"

definition lit :: "string \<Rightarrow> re" where
  "lit s = seq (map (\<lambda>c. One (Ch (lower_char c))) s)"

text \<open>A number between word boundaries.\<close>

definition code_re :: "string \<Rightarrow> re" where
  "code_re s = seq [WordB, lit s, WordB]"

text \<open>At most \<open>n\<close> of an item, as few as possible.\<close>

fun lazy_upto :: "nat \<Rightarrow> item \<Rightarrow> re" where
  "lazy_upto 0 it = Eps"
| "lazy_upto (Suc n) it = Alt Eps (Cat (One it) (lazy_upto n it))"

section \<open>Matching\<close>

definition word_char :: "char \<Rightarrow> bool" where
  "word_char c \<longleftrightarrow> is_lower c \<or> is_upper c \<or> is_digit c \<or> c = CHR ''_''"

definition word_before :: "string \<Rightarrow> nat \<Rightarrow> bool" where
  "word_before s i \<longleftrightarrow> 0 < i \<and> i \<le> length s \<and> word_char (s ! (i - 1))"

definition word_after :: "string \<Rightarrow> nat \<Rightarrow> bool" where
  "word_after s i \<longleftrightarrow> i < length s \<and> word_char (s ! i)"

lemma rune_len_pos: "s \<noteq> [] \<Longrightarrow> 0 < rune_len s"
  by (auto simp: rune_len_def split: list.splits)

lemma rune_len_le: "rune_len s \<le> length s"
  by (auto simp: rune_len_def split: list.splits)

lemma take_full: "take (length r) s = r \<Longrightarrow> length r \<le> length s"
  by (metis length_take min.absorb_iff2 min.commute)

lemma item_len_le: "item_len it s \<le> length s"
proof (cases "(it, s)" rule: item_len.cases)
  case (2 c a s')
  then show ?thesis using take_full [of "[CHR 0xE2, CHR 0x84, CHR 0xAA]" s] take_full [of "[CHR 0xC5, CHR 0xBF]" s]
    by (auto simp: numeral_eq_Suc)
next
  case (3 cs a s')
  then show ?thesis using rune_len_le [of s] by auto
next
  case (4 rs a s')
  then show ?thesis using take_full [of _ s] by (auto simp: find_Some_iff split: option.split)
next
  case (5 rs a s')
  then show ?thesis using rune_len_le [of s] by auto
qed auto

lemma item_len_inside: "item_len it (drop i s) \<noteq> 0 \<Longrightarrow> i < length s"
  by (cases "i < length s") auto

lemma item_len_less: "0 < item_len it (drop i s) \<Longrightarrow> length s - (i + item_len it (drop i s)) < length s - i"
  using item_len_inside [of it i s] by simp

function star_ends :: "bool \<Rightarrow> string \<Rightarrow> item \<Rightarrow> nat \<Rightarrow> nat list" where
  "star_ends greedy s it i =
     (let n = item_len it (drop i s) in
      if n = 0 then [i]
      else if greedy then star_ends greedy s it (i + n) @ [i] else i # star_ends greedy s it (i + n))"
  by pat_completeness auto
termination
  by (relation "measure (\<lambda>(g, s, it, i). length s - i)") (auto simp: item_len_less)

declare star_ends.simps [simp del]

type_synonym caps = "(nat \<times> nat \<times> nat) list"

function runs :: "string \<Rightarrow> re \<Rightarrow> nat \<times> caps \<Rightarrow> (nat \<times> caps) list" where
  "runs s Eps p = [p]"
| "runs s (One it) (i, cs) = (let n = item_len it (drop i s) in if n = 0 then [] else [(i + n, cs)])"
| "runs s WordB (i, cs) = (if word_before s i \<noteq> word_after s i then [(i, cs)] else [])"
| "runs s Bol (i, cs) = (if i = 0 \<or> s ! (i - 1) = LF then [(i, cs)] else [])"
| "runs s Eol (i, cs) = (if i = length s \<or> s ! i = LF then [(i, cs)] else [])"
| "runs s Bot (i, cs) = (if i = 0 then [(i, cs)] else [])"
| "runs s Eot (i, cs) = (if i = length s then [(i, cs)] else [])"
| "runs s (Cat a b) p = concat (map (runs s b) (runs s a p))"
| "runs s (Alt a b) p = runs s a p @ runs s b p"
| "runs s (Star it) (i, cs) = map (\<lambda>e. (e, cs)) (star_ends True s it i)"
| "runs s (Lazy it) (i, cs) = map (\<lambda>e. (e, cs)) (star_ends False s it i)"
| "runs s (Many r) (i, cs) =
     concat (map (\<lambda>p. runs s (Many r) p) (filter (\<lambda>(e, _). i < e \<and> e \<le> length s) (runs s r (i, cs)))) @ [(i, cs)]"
| "runs s (Group k r) (i, cs) = map (\<lambda>(e, cs'). (e, (k, i, e) # cs')) (runs s r (i, cs))"
  by pat_completeness auto
termination
  by (relation "inv_image (less_than <*lex*> less_than) (\<lambda>(s, r, i, cs). (size r, length s - i))") auto

declare runs.simps(12) [simp del]

text \<open>The leftmost match at or after a place, as its two ends and the groups.\<close>

function find_from :: "re \<Rightarrow> string \<Rightarrow> nat \<Rightarrow> (nat \<times> nat \<times> caps) option" where
  "find_from r s i =
     (case runs s r (i, []) of
        (e, cs) # _ \<Rightarrow> Some (i, e, cs)
      | [] \<Rightarrow> if length s \<le> i then None else find_from r s (i + rune_len (drop i s)))"
  by pat_completeness auto

termination
  by (relation "measure (\<lambda>(r, s, i). length s - i)") (auto intro!: diff_less_mono2 simp: rune_len_pos)

declare find_from.simps [simp del]

text \<open>
  \<open>FindAllStringIndex(s, -1)\<close>: the next search starts where the last match ended. An empty match right after
  another is passed over, and after an empty match the search goes on a rune further.
\<close>

function find_all_from :: "re \<Rightarrow> string \<Rightarrow> nat \<Rightarrow> nat option \<Rightarrow> (nat \<times> nat) list" where
  "find_all_from r s pos prev =
     (if length s < pos then []
      else
        case find_from r s pos of
          None \<Rightarrow> []
        | Some (lo, hi, _) \<Rightarrow>
            if hi \<le> pos
            then (if Some lo = prev then [] else [(lo, hi)]) @
                 find_all_from r s (if pos < length s then pos + rune_len (drop pos s) else Suc (length s)) (Some hi)
            else (lo, hi) # find_all_from r s hi (Some hi))"
  by pat_completeness auto
termination
  by (relation "measure (\<lambda>(r, s, pos, prev). Suc (length s) - pos)") (auto simp: rune_len_pos intro!: diff_less_mono2)

declare find_all_from.simps [simp del]

definition FindAllStringIndex :: "re \<Rightarrow> string \<Rightarrow> (nat \<times> nat) list" where
  "FindAllStringIndex r s = find_all_from r s 0 None"

definition FindStringIndex :: "re \<Rightarrow> string \<Rightarrow> (nat \<times> nat) option" where
  "FindStringIndex r s = map_option (\<lambda>(lo, hi, _). (lo, hi)) (find_from r s 0)"

abbreviation slice :: "string \<Rightarrow> nat \<Rightarrow> nat \<Rightarrow> string" where
  "slice s lo hi \<equiv> take (hi - lo) (drop lo s)"

text \<open>\<open>FindStringSubmatch\<close>: the text of group \<open>k\<close>, empty when the group took no part.\<close>

definition FindStringSubmatch :: "re \<Rightarrow> string \<Rightarrow> (nat \<Rightarrow> string) option" where
  "FindStringSubmatch r s =
     map_option (\<lambda>(lo, hi, cs) k. case map_of cs k of Some (a, b) \<Rightarrow> slice s a b | None \<Rightarrow> []) (find_from r s 0)"

section \<open>What a match is\<close>

lemma star_ends_bounds: "e \<in> set (star_ends g s it i) \<Longrightarrow> i \<le> length s \<Longrightarrow> i \<le> e \<and> e \<le> length s"
proof (induction g s it i arbitrary: e rule: star_ends.induct)
  case (1 g s it i)
  have len: "i + item_len it (drop i s) \<le> length s"
    using item_len_le [of it "drop i s"] "1.prems"(2) by simp
  consider "e = i" | "item_len it (drop i s) \<noteq> 0" "e \<in> set (star_ends g s it (i + item_len it (drop i s)))"
    using "1.prems"(1) by (subst (asm) star_ends.simps) (auto simp: Let_def split: if_splits)
  then show ?case
  proof cases
    case 2
    then show ?thesis using "1.IH" [OF refl 2(1)] len by (cases g) fastforce+
  qed (use "1.prems" in simp)
qed

lemma many_bounds: "(e, cs') \<in> set (runs s (Many r) (i, cs)) \<Longrightarrow> i \<le> e \<and> (i \<le> length s \<longrightarrow> e \<le> length s)"
proof (induction "length s - i" arbitrary: i cs rule: less_induct)
  case less
  consider "e = i" | m cm where "i < m" "m \<le> length s" "(e, cs') \<in> set (runs s (Many r) (m, cm))"
    using less.prems by (subst (asm) runs.simps(12)) auto
  then show ?case
  proof cases
    case 2
    then have "length s - m < length s - i" by simp
    from less.hyps [OF this 2(3)] 2(1, 2) show ?thesis by simp
  qed simp
qed

lemma runs_bounds:
  "(e, cs') \<in> set (runs s r (i, cs)) \<Longrightarrow> i \<le> length s \<Longrightarrow> i \<le> e \<and> e \<le> length s"
proof (induction r arbitrary: i cs e cs')
  case (One it)
  then show ?case using item_len_le [of it "drop i s"] by (auto simp: Let_def split: if_splits)
next
  case (Cat a b)
  then obtain m cm where "(m, cm) \<in> set (runs s a (i, cs))" "(e, cs') \<in> set (runs s b (m, cm))" by auto
  then show ?case using Cat.IH Cat.prems(2) by (meson le_trans)
next
  case (Alt a b)
  then show ?case by auto
next
  case (Group k r)
  then show ?case by auto
next
  case (Many r)
  then show ?case using many_bounds by blast
qed (auto split: if_splits dest: star_ends_bounds)

lemma find_from_runs:
  "find_from r s i = Some (lo, hi, cs) \<Longrightarrow> i \<le> length s \<Longrightarrow>
     i \<le> lo \<and> lo \<le> length s \<and> (hi, cs) \<in> set (runs s r (lo, []))"
proof (induction r s i rule: find_from.induct)
  case (1 r s i)
  show ?case
  proof (cases "runs s r (i, [])")
    case Nil
    then have "i < length s" "find_from r s (i + rune_len (drop i s)) = Some (lo, hi, cs)"
      using "1.prems" by (auto simp: find_from.simps [of r s i] split: if_splits)
    then show ?thesis using "1.IH" [OF Nil] rune_len_le [of "drop i s"] by fastforce
  next
    case (Cons p ps)
    then show ?thesis using "1.prems" by (cases p) (simp add: find_from.simps [of r s i])
  qed
qed

lemma find_all_match:
  "(lo, hi) \<in> set (find_all_from r s pos prev) \<Longrightarrow> lo \<le> hi \<and> hi \<le> length s \<and> (\<exists>cs. (hi, cs) \<in> set (runs s r (lo, [])))"
proof (induction r s pos prev rule: find_all_from.induct)
  case (1 r s pos prev)
  then have pos: "\<not> length s < pos" by (auto simp: find_all_from.simps [of r s pos])
  show ?case
  proof (cases "find_from r s pos")
    case None
    then show ?thesis using "1.prems" pos by (simp add: find_all_from.simps [of r s pos])
  next
    case (Some m)
    obtain a b cs where m: "m = (a, b, cs)" by (cases m)
    have "a \<le> length s \<and> (b, cs) \<in> set (runs s r (a, []))"
      using find_from_runs [of r s pos a b cs] Some m pos by simp
    then have here: "a \<le> b \<and> b \<le> length s \<and> (\<exists>cs. (b, cs) \<in> set (runs s r (a, [])))"
      using runs_bounds by blast
    show ?thesis
      using "1.prems" here "1.IH" [OF pos Some m [symmetric] refl] pos
      by (auto simp: find_all_from.simps [of r s pos] Some m split: if_splits)
  qed
qed

text \<open>
  An expression is \<open>wordy\<close> when each match has a byte that is no digit, and \<open>guarded\<close> when
  each match without one stands between two word boundaries.
\<close>

fun wordy_item :: "item \<Rightarrow> bool" where
  "wordy_item (Ch c) = (\<not> is_digit c)"
| "wordy_item (NotIn _) = False"
| "wordy_item (NotRunes _) = False"
| "wordy_item (Runes rs) = list_all (\<lambda>r. r = [] \<or> \<not> is_digit (hd r)) rs"

fun wordy :: "re \<Rightarrow> bool" where
  "wordy (One it) = wordy_item it"
| "wordy (Cat a b) = (wordy a \<or> wordy b)"
| "wordy (Alt a b) = (wordy a \<and> wordy b)"
| "wordy (Group k r) = wordy r"
| "wordy _ = False"

fun ends_at_boundary :: "re \<Rightarrow> bool" where
  "ends_at_boundary WordB = True"
| "ends_at_boundary (Cat a b) = ends_at_boundary b"
| "ends_at_boundary _ = False"

fun guarded :: "re \<Rightarrow> bool" where
  "guarded (Alt a b) = (guarded a \<and> guarded b)"
| "guarded (Cat a b) = (wordy (Cat a b) \<or> (a = WordB \<and> ends_at_boundary b))"
| "guarded r = wordy r"

lemma wordy_item_hd: "wordy_item it \<Longrightarrow> item_len it (a # s) \<noteq> 0 \<Longrightarrow> \<not> is_digit a"
proof (cases it)
  case (Ch c)
  assume "wordy_item it" "item_len it (a # s) \<noteq> 0"
  then show ?thesis using Ch by (auto simp: is_digit_def lower_char_def is_upper_def split: if_splits)
next
  case (Runes rs)
  assume w: "wordy_item it" and m: "item_len it (a # s) \<noteq> 0"
  then obtain r where r: "find (\<lambda>r. r \<noteq> [] \<and> take (length r) (a # s) = r) rs = Some r" using Runes by (auto split: option.splits)
  then have "r \<in> set rs" "r \<noteq> []" "take (length r) (a # s) = r" by (auto simp: find_Some_iff)
  then have "hd r = a" by (metis hd_take length_greater_0_conv list.sel(1))
  with \<open>r \<in> set rs\<close> \<open>r \<noteq> []\<close> w Runes show ?thesis by (auto simp: list_all_iff)
qed auto

lemma wordy_runs:
  "wordy r \<Longrightarrow> (e, cs') \<in> set (runs s r (i, cs)) \<Longrightarrow> i \<le> length s \<Longrightarrow> \<exists>j. i \<le> j \<and> j < e \<and> \<not> is_digit (s ! j)"
proof (induction r arbitrary: i cs e cs')
  case (One it)
  then have m: "item_len it (drop i s) \<noteq> 0" "e = i + item_len it (drop i s)" by (auto simp: Let_def split: if_splits)
  then have "i < length s" by (simp add: item_len_inside)
  then have "drop i s = s ! i # drop (Suc i) s" by (simp add: Cons_nth_drop_Suc)
  then have "\<not> is_digit (s ! i)" using wordy_item_hd One.prems(1) m(1) by (metis wordy.simps(1))
  then show ?case using m by auto
next
  case (Cat a b)
  then obtain m cm where ab: "(m, cm) \<in> set (runs s a (i, cs))" "(e, cs') \<in> set (runs s b (m, cm))" by auto
  have bounds: "i \<le> m" "m \<le> length s" "m \<le> e" using runs_bounds ab Cat.prems(3) by (blast, blast, metis runs_bounds)
  show ?case
  proof (cases "wordy a")
    case True
    then show ?thesis using Cat.IH(1) [OF _ ab(1)] Cat.prems(3) bounds by (meson less_le_trans)
  next
    case False
    then show ?thesis using Cat.IH(2) [OF _ ab(2)] Cat.prems(1) bounds by (meson le_trans wordy.simps(2))
  qed
qed (auto split: if_splits)

lemma ends_at_boundary_runs:
  "ends_at_boundary r \<Longrightarrow> (e, cs') \<in> set (runs s r p) \<Longrightarrow> word_before s e \<noteq> word_after s e"
proof (induction r arbitrary: p)
  case WordB
  then show ?case by (cases p) (auto split: if_splits)
qed auto

text \<open>A match of a guarded expression that is digits only stands alone as a word.\<close>

lemma guarded_runs:
  assumes "guarded r" and "(e, cs') \<in> set (runs s r (i, cs))" and "i \<le> length s"
    and "\<forall>j. i \<le> j \<and> j < e \<longrightarrow> is_digit (s ! j)"
  shows "word_before s i \<noteq> word_after s i \<and> word_before s e \<noteq> word_after s e"
  using assms
proof (induction r arbitrary: i cs)
  case (Cat a b)
  then have "\<not> wordy (Cat a b)" using wordy_runs by blast
  then have "a = WordB" "ends_at_boundary b" using Cat.prems(1) by auto
  then show ?case using Cat.prems(2) ends_at_boundary_runs by (auto split: if_splits)
next
  case (One it)
  then show ?case using wordy_runs [of "One it" e cs' s i cs] by auto
next
  case (Group k r)
  then show ?case using wordy_runs [of "Group k r" e cs' s i cs] by auto
qed auto

text \<open>An expression is \<open>solid\<close> when no match is empty.\<close>

fun solid :: "re \<Rightarrow> bool" where
  "solid (One it) = True"
| "solid (Cat a b) = (solid a \<or> solid b)"
| "solid (Alt a b) = (solid a \<and> solid b)"
| "solid (Group k r) = solid r"
| "solid _ = False"

lemma solid_runs: "solid r \<Longrightarrow> (e, cs') \<in> set (runs s r (i, cs)) \<Longrightarrow> i \<le> length s \<Longrightarrow> i < e"
proof (induction r arbitrary: i cs e cs')
  case (One it)
  then show ?case by (auto simp: Let_def split: if_splits)
next
  case (Cat a b)
  then obtain m cm where ab: "(m, cm) \<in> set (runs s a (i, cs))" "(e, cs') \<in> set (runs s b (m, cm))" by auto
  then have "i \<le> m" "m \<le> length s" "m \<le> e" using runs_bounds Cat.prems(3) by (blast, blast, metis runs_bounds)
  then show ?case using Cat.IH(1) [OF _ ab(1)] Cat.IH(2) [OF _ ab(2)] Cat.prems by fastforce
qed (auto split: if_splits)

section \<open>The program's ways to build an expression\<close>

lemma wordy_guarded: "wordy r \<Longrightarrow> guarded r"
  by (induction r) auto

lemma wordy_solid: "wordy r \<Longrightarrow> solid r"
  by (induction r) auto

lemma wordy_seq: "wordy (seq rs) \<longleftrightarrow> list_ex wordy rs"
  by (induction rs rule: seq.induct) auto

lemma wordy_alts: "wordy (alts rs) \<longleftrightarrow> rs \<noteq> [] \<and> list_all wordy rs"
  by (induction rs rule: alts.induct) auto

lemma guarded_alts: "guarded (alts rs) \<longleftrightarrow> rs \<noteq> [] \<and> list_all guarded rs"
  by (induction rs rule: alts.induct) auto

lemma solid_seq: "solid (seq rs) \<longleftrightarrow> list_ex solid rs"
  by (induction rs rule: seq.induct) auto

lemma solid_alts: "solid (alts rs) \<longleftrightarrow> rs \<noteq> [] \<and> list_all solid rs"
  by (induction rs rule: alts.induct) auto

lemma is_digit_lower_char: "is_digit (lower_char c) = is_digit c"
  by (auto simp: lower_char_def is_digit_def is_upper_def of_char_of)

lemma wordy_lit: "wordy (lit s) \<longleftrightarrow> list_ex (\<lambda>c. \<not> is_digit c) s"
  by (simp add: lit_def wordy_seq list_ex_iff is_digit_lower_char)

lemma solid_lit: "solid (lit s) \<longleftrightarrow> s \<noteq> []"
  by (cases s) (auto simp: lit_def solid_seq list_ex_iff)

lemma code_re_guarded: "guarded (code_re s)"
  by (simp add: code_re_def)

lemma code_re_solid: "solid (code_re s) \<longleftrightarrow> s \<noteq> []"
  by (simp add: code_re_def solid_lit)

lemmas regex_simps = wordy_seq wordy_alts guarded_alts solid_seq solid_alts wordy_lit solid_lit code_re_guarded code_re_solid

text \<open>
  A match of digits only, of a solid and guarded expression, is a whole word.
\<close>

definition stands_alone :: "string \<Rightarrow> nat \<Rightarrow> nat \<Rightarrow> bool" where
  "stands_alone s lo hi \<longleftrightarrow> lo < hi \<and> hi \<le> length s \<and> \<not> word_before s lo \<and> \<not> word_after s hi"

lemma slice_split: "lo \<le> hi \<Longrightarrow> s = take lo s @ slice s lo hi @ drop hi s"
proof -
  assume "lo \<le> hi"
  then have "drop hi s = drop (hi - lo) (drop lo s)" by simp
  then show ?thesis by (simp only: append_take_drop_id)
qed

lemma slice_all:
  assumes "hi \<le> length s"
  shows "list_all P (slice s lo hi) \<longleftrightarrow> (\<forall>j. lo \<le> j \<and> j < hi \<longrightarrow> P (s ! j))"
proof
  assume l: "list_all P (slice s lo hi)"
  show "\<forall>j. lo \<le> j \<and> j < hi \<longrightarrow> P (s ! j)"
  proof (intro allI impI)
    fix j assume j: "lo \<le> j \<and> j < hi"
    then have "slice s lo hi ! (j - lo) = s ! j" "j - lo < length (slice s lo hi)" using assms by auto
    then show "P (s ! j)" using l by (metis list_all_length)
  qed
qed (use assms in \<open>simp add: list_all_length\<close>)

lemma digits_alone:
  assumes "guarded r" and "solid r" and "(lo, hi) \<in> set (FindAllStringIndex r s)" and "list_all is_digit (slice s lo hi)"
  shows "stands_alone s lo hi"
proof -
  obtain cs where cs: "(hi, cs) \<in> set (runs s r (lo, []))" and b: "lo \<le> hi" "hi \<le> length s"
    using find_all_match assms(3) unfolding FindAllStringIndex_def by blast
  have "lo < hi" using solid_runs [OF assms(2) cs] b by simp
  have d: "\<forall>j. lo \<le> j \<and> j < hi \<longrightarrow> is_digit (s ! j)" using slice_all [OF b(2)] assms(4) by blast
  have "word_after s lo" "word_before s hi"
    using spec [OF d, of lo] spec [OF d, of "hi - 1"] \<open>lo < hi\<close> b by (auto simp: word_after_def word_before_def word_char_def)
  then show ?thesis using guarded_runs [OF assms(1) cs] d b \<open>lo < hi\<close> by (simp add: stands_alone_def)
qed

end
