(* ===== verification/Wrap_Classify.thy ===== *)
theory Wrap_Classify
  imports Wrap_Streams Go_Regex
begin

text \<open>
  What the wrapper makes of a harness's output: the escape-sequence parser of
  \<^verbatim>\<open>internal/wrapcore/pty.go\<close>, the classifiers of \<^verbatim>\<open>classifier.go\<close>, \<^verbatim>\<open>harness_adapter.go\<close>, \<^verbatim>\<open>errorclass.go\<close>
  and \<^verbatim>\<open>detector/detector.go\<close>, and the post-exit pass of \<^verbatim>\<open>finished.go\<close>. A harness's own matchers are
  fields of its patterns, and the regular expressions are those of the source, over \<^verbatim>\<open>Go_Regex\<close>.
\<close>

section \<open>Stripping escape sequences\<close>

datatype esc = EscGround | EscStart | EscInter | EscCSI | EscString | EscStringE

text \<open>The next state and the byte that is text, if it is.\<close>

definition stepEscape :: "esc \<Rightarrow> char \<Rightarrow> esc \<times> string" where
  "stepEscape st c =
     (if c = ESC then (EscStart, [])
      else if ord c = 0x18 \<or> ord c = 0x1A then (EscGround, [])
      else if ord c = 0x7F then (st, [])
      else if ord c < 0x20 then (st, [c])
      else if 0x80 \<le> ord c then (EscGround, [c])
      else
        case st of
          EscStart \<Rightarrow>
            if c = CHR ''['' then (EscCSI, [])
            else if c \<in> {CHR '']'', CHR ''P'', CHR ''X'', CHR ''^'', CHR ''_''} then (EscString, [])
            else if ord c \<le> 0x2F then (EscInter, []) else (EscGround, [])
        | EscInter \<Rightarrow> if ord c \<le> 0x2F then (EscInter, []) else (EscGround, [])
        | _ \<Rightarrow> if ord c \<le> 0x3F then (EscCSI, []) else (EscGround, []))"

text \<open>One turn of the loop; the flag is \<open>belEnds\<close>. A byte that ends a string without being its \<open>\\\<close> is read again.\<close>

definition strip_escape :: "esc \<Rightarrow> bool \<Rightarrow> char \<Rightarrow> (esc \<times> bool) \<times> string" where
  "strip_escape st bel c =
     (case stepEscape st c of (next', out) \<Rightarrow> ((next', if next' = EscString then c = CHR '']'' else bel), out))"

definition strip_step :: "esc \<times> bool \<Rightarrow> char \<Rightarrow> (esc \<times> bool) \<times> string" where
  "strip_step s c =
     (case s of (st, bel) \<Rightarrow>
        case st of
          EscGround \<Rightarrow> if c = ESC then ((EscStart, bel), []) else ((EscGround, bel), [c])
        | EscString \<Rightarrow>
            if c = ESC then ((EscStringE, bel), [])
            else if ord c = 0x18 \<or> ord c = 0x1A \<or> (ord c = 0x07 \<and> bel) then ((EscGround, bel), [])
            else ((EscString, bel), [])
        | EscStringE \<Rightarrow> if c = CHR 0x5C then ((EscGround, bel), []) else strip_escape EscStart bel c
        | _ \<Rightarrow> strip_escape st bel c)"

fun strip_loop :: "esc \<times> bool \<Rightarrow> string \<Rightarrow> (esc \<times> bool) \<times> string" where
  "strip_loop s [] = (s, [])"
| "strip_loop s (c # cs) =
     (case strip_step s c of (s1, out) \<Rightarrow> case strip_loop s1 cs of (s2, rest) \<Rightarrow> (s2, out @ rest))"

definition stripANSIEscapes :: "string \<Rightarrow> string" where
  "stripANSIEscapes s = snd (strip_loop (EscGround, False) s)"

section \<open>Classes of error\<close>

datatype WErrorClass =
  ErrNone | ErrRateLimited | ErrAuth | ErrBilling | ErrModelNotFound | ErrContextOverflow | ErrTimeout | ErrTransient | ErrUnknown

definition ErrorClass_String :: "WErrorClass \<Rightarrow> string" where
  "ErrorClass_String c =
     (case c of
        ErrNone \<Rightarrow> ''None'' | ErrRateLimited \<Rightarrow> ''RateLimited'' | ErrAuth \<Rightarrow> ''AuthFailure'' | ErrBilling \<Rightarrow> ''BillingError''
      | ErrModelNotFound \<Rightarrow> ''ModelNotFound'' | ErrContextOverflow \<Rightarrow> ''ContextOverflow'' | ErrTimeout \<Rightarrow> ''Timeout''
      | ErrTransient \<Rightarrow> ''Transient'' | ErrUnknown \<Rightarrow> ''Unknown'')"

definition classFromHTTPCode :: "int \<Rightarrow> WErrorClass" where
  "classFromHTTPCode code =
     (if code = 401 then ErrAuth
      else if code = 402 then ErrBilling
      else if code = 404 then ErrModelNotFound
      else if code = 429 then ErrRateLimited
      else if code = 408 \<or> (500 \<le> code \<and> code \<le> 599) then ErrTransient
      else if code = 0 then ErrTransient
      else ErrUnknown)"

text \<open>
  \<^verbatim>\<open>strings.ToLower\<close> as far as a search for ASCII text can tell: besides the ASCII letters, the
  Kelvin sign and the dotted capital I go to ASCII letters; no other code point does.
\<close>

fun lower_view :: "string \<Rightarrow> string" where
  "lower_view [] = []"
| "lower_view (a # b # c # s) =
     (if ord a = 226 \<and> ord b = 132 \<and> ord c = 170 then CHR ''k'' # lower_view s
      else if ord a = 196 \<and> ord b = 176 then CHR ''i'' # lower_view (c # s)
      else lower_char a # lower_view (b # c # s))"
| "lower_view [a, b] = (if ord a = 196 \<and> ord b = 176 then ''i'' else lower_char a # lower_view [b])"
| "lower_view [a] = [lower_char a]"

definition billingHints :: "string list" where
  "billingHints = [''payment'', ''insufficient'', ''credit'', ''billing'', ''quota exceeded'']"

definition costClass :: "string \<Rightarrow> WErrorClass" where
  "costClass hit = (if list_ex (\<lambda>b. sublist b (lower_view hit)) billingHints then ErrBilling else ErrRateLimited)"

definition timeoutHints :: "string list" where
  "timeoutHints = [''timeout'', ''timed out'', ''deadline exceeded'', ''etimedout'']"

definition retryClass :: "string \<Rightarrow> WErrorClass" where
  "retryClass hit = (if list_ex (\<lambda>t. sublist t (lower_view hit)) timeoutHints then ErrTimeout else ErrTransient)"

section \<open>Matching\<close>

definition MatchAny :: "string \<Rightarrow> string list \<Rightarrow> string" where
  "MatchAny haystack patterns =
     (case find (\<lambda>p. p \<noteq> [] \<and> sublist p haystack) patterns of Some p \<Rightarrow> p | None \<Rightarrow> [])"

text \<open>\<open>lastNonEmptyLine\<close>: its two inner loops, and the outer one from the end.\<close>

definition trailing_white :: "char \<Rightarrow> bool" where
  "trailing_white c \<longleftrightarrow> c = LF \<or> c = CR \<or> c = CHR '' '' \<or> c = CHR 0x09"

definition trim_end :: "string \<Rightarrow> string" where
  "trim_end s = rev (dropWhile trailing_white (rev s))"

definition last_line :: "string \<Rightarrow> string" where
  "last_line s = rev (takeWhile (\<lambda>c. c \<noteq> LF) (rev s))"

lemma dropWhile_shorter: "s \<noteq> [] \<Longrightarrow> length (dropWhile P (rev s)) - Suc 0 < length s"
  using length_dropWhile_le [of P "rev s"] by (cases s) auto

function lastNonEmptyLine :: "string \<Rightarrow> string" where
  "lastNonEmptyLine s =
     (if s = [] then []
      else
        let t = trim_end s; line = last_line t in
        if line \<noteq> [] then line
        else let start = length t - length line in if start = 0 then [] else lastNonEmptyLine (take (start - 1) t))"
  by pat_completeness auto
termination
  by (relation "measure length") (auto simp: trim_end_def Let_def simp: dropWhile_shorter)

declare lastNonEmptyLine.simps [simp del]

definition trim_blanks :: "string \<Rightarrow> string" where
  "trim_blanks s = rev (dropWhile (\<lambda>c. c = CHR '' '' \<or> c = CHR 0x09) (rev s))"

definition MatchPromptSuffix :: "string \<Rightarrow> string list \<Rightarrow> string" where
  "MatchPromptSuffix haystack patterns =
     (let tail = lastNonEmptyLine haystack in
      if tail = [] then []
      else
        let tailLower = lower_view (trim_blanks tail) in
        case find (\<lambda>p. p \<noteq> [] \<and> suffix (lower_view p) tailLower) patterns of Some p \<Rightarrow> p | None \<Rightarrow> [])"

text \<open>Durations are nanoseconds.\<close>

definition retry_hint_re :: re where
  "retry_hint_re =
     seq [Alt (seq [lit ''try'', Plus space_item, lit ''again'']) (lit ''retry''), Lazy (NotIn (CHR ''.'' # [LF])),
       Alt (lit ''in'') (lit ''after''), Plus space_item, Group 1 (Plus digit_item), Star space_item,
       Group 2 (alts [seq [lit ''s'', WordB], lit ''sec'', lit ''second'', seq [lit ''m'', WordB], lit ''min'', lit ''minute'',
         seq [lit ''h'', WordB], lit ''hr'', lit ''hour'']),
       Opt (lit ''s'')]"

definition ParseRetryAfter :: "string \<Rightarrow> int" where
  "ParseRetryAfter msg =
     (case FindStringSubmatch retry_hint_re msg of
        None \<Rightarrow> 0
      | Some m \<Rightarrow>
          case atoi (m 1) of
            None \<Rightarrow> 0
          | Some n \<Rightarrow>
              if n \<le> 0 then 0
              else
                let u = lower_view (m 2) in
                if u \<in> {''s'', ''sec'', ''second''} then wrap64 (n * 10 ^ 9)
                else if u \<in> {''m'', ''min'', ''minute''} then wrap64 (n * (60 * 10 ^ 9))
                else if u \<in> {''h'', ''hr'', ''hour''} then wrap64 (n * (3600 * 10 ^ 9))
                else 0)"

section \<open>Classifications\<close>

text \<open>
  A status is a string in the source, empty for none. A time is an instant with the name of its
  zone; the zero time is \<open>None\<close>.
\<close>

definition StatusIdle :: string where "StatusIdle = ''idle''"
definition StatusFailed :: string where "StatusFailed = ''failed''"
definition StatusBlockedByCost :: string where "StatusBlockedByCost = ''blocked_by_cost''"
definition StatusRetryLater :: string where "StatusRetryLater = ''retry_later''"
definition StatusAPIError :: string where "StatusAPIError = ''api_error''"
definition StatusWaitingForInput :: string where "StatusWaitingForInput = ''waiting_for_input''"
definition StatusStale :: string where "StatusStale = ''stale''"
definition StatusInterrupted :: string where "StatusInterrupted = ''interrupted''"
definition StatusUnknown :: string where "StatusUnknown = ''unknown''"
definition StatusBinaryNotFound :: string where "StatusBinaryNotFound = ''binary_not_found''"

lemmas status_defs = StatusIdle_def StatusFailed_def StatusBlockedByCost_def StatusRetryLater_def StatusAPIError_def
  StatusWaitingForInput_def StatusStale_def StatusInterrupted_def StatusUnknown_def StatusBinaryNotFound_def

type_synonym instant = "int \<times> string"

record Classification =
  cl_status :: string
  cl_class :: WErrorClass
  cl_reason :: string
  cl_terminal :: bool
  cl_http :: int
  cl_retry_after :: int
  cl_resume_at :: "instant option"
  cl_rule :: string
  cl_match :: string

record ClassifierInput =
  ci_recent :: string
  ci_since :: int
  ci_quiet :: bool
  ci_idle :: bool

definition no_classification :: Classification where
  "no_classification = \<lparr>cl_status = [], cl_class = ErrNone, cl_reason = [], cl_terminal = False, cl_http = 0,
     cl_retry_after = 0, cl_resume_at = None, cl_rule = [], cl_match = []\<rparr>"

record APIErrorHit =
  ah_code :: int
  ah_message :: string
  ah_retry :: int

record SessionLimitHit =
  sl_message :: string
  sl_resume :: "instant option"

text \<open>\<open>detector.Patterns\<close>: a matcher is \<open>None\<close> where the source has nil, and gives \<open>None\<close> on no match.\<close>

record Patterns =
  pt_cost :: "string list"
  pt_retry :: "string list"
  pt_prompt :: "string list"
  pt_api :: "(string \<Rightarrow> APIErrorHit option) option"
  pt_limit :: "(string \<Rightarrow> instant \<Rightarrow> SessionLimitHit option) option"

definition transportRetryPatterns :: "string list" where
  "transportRetryPatterns =
     [''connection refused'', ''econnrefused'', ''connection reset'', ''econnreset'', ''no route to host'', ''ehostunreach'',
      ''network is unreachable'', ''fetch failed'', ''socket hang up'', ''eai_again'']"

definition retry_later :: "string \<Rightarrow> Classification" where
  "retry_later hit = no_classification\<lparr>cl_status := StatusRetryLater, cl_class := retryClass hit, cl_reason := hit,
     cl_terminal := True\<rparr>"

definition blocked_by_cost :: "string \<Rightarrow> Classification" where
  "blocked_by_cost hit = no_classification\<lparr>cl_status := StatusBlockedByCost, cl_class := costClass hit, cl_reason := hit,
     cl_terminal := True\<rparr>"

definition matchTransportRetry :: "string \<Rightarrow> Classification option" where
  "matchTransportRetry lower =
     (let hit = MatchAny lower transportRetryPatterns in if hit \<noteq> [] then Some (retry_later hit) else None)"

definition classifyRetry :: "Patterns \<Rightarrow> string \<Rightarrow> Classification option" where
  "classifyRetry h lower =
     (let hit = MatchAny lower (pt_retry h) in if hit \<noteq> [] then Some (retry_later hit) else matchTransportRetry lower)"

definition formatAPIErrorReason :: "APIErrorHit \<Rightarrow> string" where
  "formatAPIErrorReason hit =
     (if ah_code hit = 0 then ''api error: '' @ ah_message hit
      else ''api error '' @ itoa (ah_code hit) @ '': '' @ ah_message hit)"

definition formatSessionLimitReason :: "(instant \<Rightarrow> string) \<Rightarrow> SessionLimitHit \<Rightarrow> string" where
  "formatSessionLimitReason rfc3339 hit =
     (case sl_resume hit of
        None \<Rightarrow> ''session limit reached: '' @ sl_message hit
      | Some t \<Rightarrow> ''session limit reached, resumes at '' @ rfc3339 t @ '': '' @ sl_message hit)"

definition equalFoldASCII :: "string \<Rightarrow> string \<Rightarrow> bool" where
  "equalFoldASCII s sub \<longleftrightarrow> (\<forall>j \<in> set [0 ..< length sub]. lower_char (s ! j) = sub ! j)"

text \<open>The loop of \<open>lastIndexFoldASCII\<close>: \<open>n\<close> places are left to look at, from the last.\<close>

fun last_fold_loop :: "string \<Rightarrow> string \<Rightarrow> nat \<Rightarrow> nat option" where
  "last_fold_loop s sub 0 = None"
| "last_fold_loop s sub (Suc i) =
     (if equalFoldASCII (take (length sub) (drop i s)) sub then Some i else last_fold_loop s sub i)"

definition lastIndexFoldASCII :: "string \<Rightarrow> string \<Rightarrow> nat option" where
  "lastIndexFoldASCII s sub = (if length s < length sub then None else last_fold_loop s sub (Suc (length s - length sub)))"

definition apiErrorAfter :: "Patterns \<Rightarrow> string \<Rightarrow> string \<Rightarrow> bool" where
  "apiErrorAfter h stripped costHit =
     (case pt_api h of
        None \<Rightarrow> False
      | Some api \<Rightarrow>
          case lastIndexFoldASCII stripped costHit of
            None \<Rightarrow> False
          | Some i \<Rightarrow> api (drop (i + length costHit) stripped) \<noteq> None)"

definition harness_Classify :: "(instant \<Rightarrow> string) \<Rightarrow> instant \<Rightarrow> Patterns \<Rightarrow> ClassifierInput \<Rightarrow> Classification" where
  "harness_Classify rfc3339 now h inp =
     (let stripped = stripANSIEscapes (ci_recent inp) in
      case (case pt_limit h of None \<Rightarrow> None | Some f \<Rightarrow> f stripped now) of
        Some hit \<Rightarrow> no_classification\<lparr>cl_status := StatusBlockedByCost, cl_class := ErrRateLimited,
          cl_reason := formatSessionLimitReason rfc3339 hit, cl_terminal := True, cl_resume_at := sl_resume hit\<rparr>
      | None \<Rightarrow>
          let lower = lower_view stripped; hit = MatchAny lower (pt_cost h) in
          if ci_idle inp \<and> hit \<noteq> [] \<and> \<not> apiErrorAfter h stripped hit then blocked_by_cost hit
          else
            case (case pt_api h of None \<Rightarrow> None | Some f \<Rightarrow> f stripped) of
              Some hit \<Rightarrow> no_classification\<lparr>cl_status := StatusAPIError, cl_class := classFromHTTPCode (ah_code hit),
                cl_reason := formatAPIErrorReason hit, cl_http := ah_code hit, cl_retry_after := ah_retry hit\<rparr>
            | None \<Rightarrow>
                case (if ci_idle inp then classifyRetry h lower else None) of
                  Some c \<Rightarrow> c
                | None \<Rightarrow>
                    let p = MatchPromptSuffix stripped (pt_prompt h) in
                    if ci_quiet inp \<and> p \<noteq> []
                    then no_classification\<lparr>cl_status := StatusWaitingForInput, cl_reason := ''prompt detected: '' @ p\<rparr>
                    else no_classification)"

definition costPatterns :: "string list" where
  "costPatterns =
     [''blocked by cost'', ''cost limit'', ''quota exceeded'', ''rate limit'', ''rate-limit'', ''usage limit'', ''session limit'',
      ''you'' @ [CHR 0x27] @ ''ve hit your limit'', ''you have hit your limit'', ''you'' @ [CHR 0x27] @ ''ve hit your session limit'',
      ''you have hit your session limit'', ''limit resets'', ''resets at'', ''extra usage'']"

definition isCostOrQuotaLimited :: "string \<Rightarrow> string option" where
  "isCostOrQuotaLimited output = find (\<lambda>p. sublist p (lower_view (stripANSIEscapes output))) costPatterns"

definition default_Classify :: "ClassifierInput \<Rightarrow> Classification" where
  "default_Classify inp =
     (if \<not> ci_idle inp then no_classification
      else
        case isCostOrQuotaLimited (ci_recent inp) of
          Some phrase \<Rightarrow> blocked_by_cost phrase
        | None \<Rightarrow>
            case matchTransportRetry (lower_view (stripANSIEscapes (ci_recent inp))) of
              Some c \<Rightarrow> c
            | None \<Rightarrow> no_classification)"

text \<open>The table of patterns, and the classifier for a configuration: its own, the table's for the harness, the default.\<close>

type_synonym pattern_table = "string \<rightharpoonup> Patterns"
type_synonym classifier = "ClassifierInput \<Rightarrow> Classification"

definition normalizeHarnessKey :: "string \<Rightarrow> string" where
  "normalizeHarnessKey name = lower_view (trim_space name)"

definition RegisterPatterns :: "Patterns \<Rightarrow> string list \<Rightarrow> pattern_table \<Rightarrow> pattern_table" where
  "RegisterPatterns p names m = fold (\<lambda>n m. m(normalizeHarnessKey n \<mapsto> p)) names m"

definition registeredPatterns :: "pattern_table \<Rightarrow> string \<Rightarrow> Patterns option" where
  "registeredPatterns m harness = m (normalizeHarnessKey harness)"

definition resolveClassifier ::
    "(instant \<Rightarrow> string) \<Rightarrow> instant \<Rightarrow> pattern_table \<Rightarrow> classifier option \<Rightarrow> string \<Rightarrow> classifier" where
  "resolveClassifier rfc3339 now m own harness =
     (case own of
        Some f \<Rightarrow> f
      | None \<Rightarrow> case registeredPatterns m harness of Some p \<Rightarrow> harness_Classify rfc3339 now p | None \<Rightarrow> default_Classify)"

definition ClassifyOutput :: "(instant \<Rightarrow> string) \<Rightarrow> instant \<Rightarrow> pattern_table \<Rightarrow> string \<Rightarrow> string \<Rightarrow> Classification" where
  "ClassifyOutput rfc3339 now m harness output =
     resolveClassifier rfc3339 now m None harness \<lparr>ci_recent = output, ci_since = 0, ci_quiet = False, ci_idle = True\<rparr>"

section \<open>After the exit\<close>

definition embeddedNumber :: "string \<Rightarrow> nat \<Rightarrow> nat \<Rightarrow> bool" where
  "embeddedNumber s lo hi =
     (if list_ex (\<lambda>i. \<not> is_digit (s ! i)) [lo ..< hi] then False
      else if 0 < lo \<and> s ! (lo - 1) = CHR ''.'' then True
      else hi + 1 < length s \<and> s ! hi = CHR ''.'' \<and> is_digit (s ! (hi + 1)))"

definition firstUsableMatch :: "re \<Rightarrow> string \<Rightarrow> (nat \<times> nat) option" where
  "firstUsableMatch r s = find (\<lambda>(lo, hi). \<not> embeddedNumber s lo hi) (FindAllStringIndex r s)"

definition finishedTimeoutRe :: re where
  "finishedTimeoutRe =
     alts [code_re ''timeout'', lit ''etimedout'',
       seq [lit ''connection'', dot_opt, lit ''time'', Opt (lit ''d''), dot_opt, lit ''out''],
       seq [lit ''time'', Opt (lit ''d''), dot_opt, lit ''out''],
       seq [lit ''deadline'', dot_opt, lit ''exceeded'']]"

definition unset_words :: re where
  "unset_words = alts [lit ''not set'', lit ''unset'', lit ''missing'', lit ''required'', lit ''invalid'', lit ''empty'']"

definition key_names :: re where
  "key_names = seq [alts [lit ''anthropic'', lit ''openai'', lit ''gemini'', lit ''google'', lit ''cursor''], lit ''_API_KEY'']"

definition apiKeyVarUnset :: re where
  "apiKeyVarUnset =
     Alt (seq [key_names, lazy_upto 40 any_rune, unset_words]) (seq [unset_words, lazy_upto 40 any_rune, key_names])"

record residualRow =
  rr_id :: string
  rr_re :: re
  rr_class :: WErrorClass
  rr_reason :: string

text \<open>Two parts with at most one rune between them.\<close>

definition near :: "string list \<Rightarrow> re" where
  "near ws = seq (tl (concat (map (\<lambda>w. [dot_opt, lit w]) ws)))"

text \<open>Two parts on one line.\<close>

definition on_line :: "string list \<Rightarrow> re" where
  "on_line ws = seq (tl (concat (map (\<lambda>w. [Star any_rune, lit w]) ws)))"

definition residualRows :: "residualRow list" where
  "residualRows =
    [\<lparr>rr_id = ''residual.ratelimit'', rr_re = alts [code_re ''429'', lit ''too many requests'', lit ''tokens per min'',
        lit ''overloaded_error'', near [''resource'', ''exhausted''], lit ''resource_exhausted'', near [''rate'', ''limit''],
        near [''usage'', ''limit''], near [''session'', ''limit''], lit ''resets at'',
        seq [lit ''resets '', One digit_item, Opt (One digit_item), lit '':'', One digit_item, One digit_item],
        seq [lit ''try again at'', Plus space_item, One digit_item]],
      rr_class = ErrRateLimited, rr_reason = ''rate limit exceeded''\<rparr>,
     \<lparr>rr_id = ''residual.auth'', rr_re = alts [code_re ''401'', lit ''unauthorized'', lit ''unauthenticated'', lit ''forbidden'',
        near [''invalid'', ''api'', ''key''], near [''incorrect'', ''api'', ''key''], near [''authentication'', ''failed''],
        apiKeyVarUnset],
      rr_class = ErrAuth, rr_reason = ''authentication failed''\<rparr>,
     \<lparr>rr_id = ''residual.billing'', rr_re = alts [code_re ''402'', near [''payment'', ''required''],
        seq [lit ''insufficient'', dot_opt, Alt (lit ''credits'') (lit ''quota'')], lit ''insufficient_quota'',
        on_line [''exceeded'', ''quota''], near [''quota'', ''exceeded'']],
      rr_class = ErrBilling, rr_reason = ''billing error''\<rparr>,
     \<lparr>rr_id = ''residual.model_version'', rr_re = alts [lit ''model requires a newer version'',
        seq [lit ''requires a newer version of '', Alt (lit ''codex'') (lit ''claude'')],
        seq [lit ''upgrade to the latest '', Opt (lit ''app or ''), lit ''cli'']],
      rr_class = ErrModelNotFound, rr_reason = ''backend CLI is incompatible with the selected model''\<rparr>,
     \<lparr>rr_id = ''residual.model_not_found'', rr_re = alts [near [''model'', ''not'', ''found''], on_line [''model'', ''not found''],
        on_line [''model'', ''does not exist''], on_line [''model'', ''not'', ''exist''], lit ''model_not_found'',
        near [''unsupported'', ''model''], near [''unknown'', ''model''], near [''invalid'', ''model''],
        on_line [''selected model'', ''may not exist''], on_line [''selected model'', ''may not have access to it''],
        seq [code_re ''404'', Star any_rune, lit ''model'']],
      rr_class = ErrModelNotFound, rr_reason = ''model not found''\<rparr>,
     \<lparr>rr_id = ''residual.context'', rr_re = alts [near [''context'', ''length''], near [''context'', ''window''],
        lit ''context_length_exceeded'', lit ''maximum context length'', near [''max'', ''tokens''], on_line [''max'', ''tokens''],
        near [''token'', ''limit''], near [''prompt'', ''too'', ''long'']],
      rr_class = ErrContextOverflow, rr_reason = ''context length exceeded''\<rparr>,
     \<lparr>rr_id = ''residual.timeout'', rr_re = finishedTimeoutRe, rr_class = ErrTimeout, rr_reason = ''connection timeout''\<rparr>,
     \<lparr>rr_id = ''residual.transient'', rr_re = alts [seq [WordB, lit ''50'', One (Runes [''0'', ''2'', ''3'']), WordB], code_re ''529'',
        near [''server'', ''error''], lit ''server_error'', near [''internal'', ''server'', ''error''], near [''internal'', ''error''],
        near [''service'', ''unavailable''], near [''backend'', ''error''], lit ''overloaded''],
      rr_class = ErrTransient, rr_reason = ''server error''\<rparr>]"

definition retryAfterRe :: re where
  "retryAfterRe =
     seq [lit ''retry'', dot_opt, lit ''after'', Plus (Runes ['':'', [CHR 0x09], [LF], [CHR 0x0C], [CR], '' '']), Group 1 (Plus digit_item)]"

definition parseRetryAfterSeconds :: "string \<Rightarrow> int" where
  "parseRetryAfterSeconds s =
     (case FindStringSubmatch retryAfterRe s of
        None \<Rightarrow> 0
      | Some m \<Rightarrow> case atoi (m 1) of None \<Rightarrow> 0 | Some secs \<Rightarrow> wrap64 (secs * 10 ^ 9))"

fun residual_loop :: "residualRow list \<Rightarrow> string \<Rightarrow> Classification option" where
  "residual_loop [] output = None"
| "residual_loop (r # rs) output =
     (case firstUsableMatch (rr_re r) output of
        None \<Rightarrow> residual_loop rs output
      | Some (lo, hi) \<Rightarrow>
          Some (no_classification\<lparr>cl_class := rr_class r, cl_reason := rr_reason r, cl_rule := rr_id r,
            cl_match := slice output lo hi,
            cl_retry_after := if rr_class r = ErrRateLimited then parseRetryAfterSeconds output else 0\<rparr>))"

definition matchResidual :: "string \<Rightarrow> Classification option" where
  "matchResidual output = (if output = [] then None else residual_loop residualRows output)"

definition RuleTimeoutUpgrade :: string where
  "RuleTimeoutUpgrade = ''wrapper/timeout_upgrade''"

definition ClassifyFinishedOutput ::
    "(instant \<Rightarrow> string) \<Rightarrow> instant \<Rightarrow> pattern_table \<Rightarrow> string \<Rightarrow> string \<Rightarrow> Classification" where
  "ClassifyFinishedOutput rfc3339 now m harness output =
     (let c = ClassifyOutput rfc3339 now m harness output in
      if cl_status c = StatusBinaryNotFound then c
      else if cl_class c = ErrNone \<or> cl_class c = ErrUnknown
      then (case matchResidual output of Some r \<Rightarrow> r | None \<Rightarrow> c)
      else if cl_class c = ErrTransient
      then (case FindStringIndex finishedTimeoutRe output of
              Some (lo, hi) \<Rightarrow> c\<lparr>cl_class := ErrTimeout, cl_rule := RuleTimeoutUpgrade, cl_match := slice output lo hi\<rparr>
            | None \<Rightarrow> c)
      else if cl_class c = ErrRateLimited \<and> cl_retry_after c = 0 then c\<lparr>cl_retry_after := parseRetryAfterSeconds output\<rparr>
      else c)"

section \<open>What stripping leaves\<close>

lemma strip_loop_step:
  "strip_loop s (c # cs) =
     (fst (strip_loop (fst (strip_step s c)) cs), snd (strip_step s c) @ snd (strip_loop (fst (strip_step s c)) cs))"
  by (simp split: prod.split)

declare strip_loop.simps(2) [simp del]

interpretation strip: chunked_stream strip_loop "\<lambda>_ _. True"
proof
  fix s xs ys
  show "strip_loop s (xs @ ys) =
      (fst (strip_loop (fst (strip_loop s xs)) ys), snd (strip_loop s xs) @ snd (strip_loop (fst (strip_loop s xs)) ys))"
    by (induction xs arbitrary: s) (simp_all add: strip_loop_step)
qed simp_all

lemma stepEscape_out: "snd (stepEscape st c) \<in> {[], [c]} \<and> ESC \<notin> set (snd (stepEscape st c))"
  by (auto simp: stepEscape_def split: esc.split)

lemma strip_escape_out: "snd (strip_escape st b c) = snd (stepEscape st c)"
  by (simp add: strip_escape_def split: prod.split)

lemma strip_step_out: "snd (strip_step s c) \<in> {[], [c]} \<and> ESC \<notin> set (snd (strip_step s c))"
proof (cases s)
  case (Pair st b)
  then show ?thesis
    using stepEscape_out [of st c] stepEscape_out [of EscStart c] by (cases st) (simp_all add: strip_step_def strip_escape_out)
qed

lemmas strip_loop_Cons = arg_cong [OF strip_loop_step, of snd, unfolded snd_conv]

lemma strip_loop_no_ESC: "ESC \<notin> set (snd (strip_loop s cs))"
proof (induction cs arbitrary: s)
  case (Cons c cs)
  then show ?case using strip_step_out [of s c] by (simp add: strip_loop_Cons)
qed simp

lemma strip_loop_subseq: "subseq (snd (strip_loop s cs)) cs"
proof (induction cs arbitrary: s)
  case (Cons c cs)
  have "subseq (snd (strip_step s c)) [c]" using strip_step_out [of s c] by auto
  then have "subseq (snd (strip_step s c) @ snd (strip_loop (fst (strip_step s c)) cs)) ([c] @ cs)"
    using Cons.IH by (rule list_emb_append_mono)
  then show ?case by (simp add: strip_loop_Cons)
qed simp

lemma strip_ground: "ESC \<notin> set s \<Longrightarrow> strip_loop (EscGround, bel) s = ((EscGround, bel), s)"
  by (induction s) (auto simp: strip_loop_step strip_step_def)

text \<open>Outside of control strings the flag is not read, and a string that is entered sets it.\<close>

lemma strip_step_flag:
  "st \<notin> {EscString, EscStringE} \<Longrightarrow> snd (strip_step (st, b) c) = snd (strip_step (st, b') c) \<and>
     fst (fst (strip_step (st, b) c)) = fst (fst (strip_step (st, b') c)) \<and> fst (fst (strip_step (st, b) c)) \<noteq> EscStringE \<and>
     (fst (fst (strip_step (st, b) c)) = EscString \<longrightarrow> snd (fst (strip_step (st, b) c)) = snd (fst (strip_step (st, b') c)))"
  by (cases st) (auto simp: strip_step_def strip_escape_def stepEscape_def)

lemma strip_flag: "st \<notin> {EscString, EscStringE} \<Longrightarrow> snd (strip_loop (st, b) cs) = snd (strip_loop (st, b') cs)"
proof (induction cs arbitrary: st b b')
  case (Cons c cs)
  obtain n f g out where s: "strip_step (st, b) c = ((n, f), out)" "strip_step (st, b') c = ((n, g), out)"
      "n \<noteq> EscStringE" "n = EscString \<longrightarrow> f = g"
    using strip_step_flag [OF Cons.prems, of b c b'] by (metis prod.collapse)
  have "snd (strip_loop (n, f) cs) = snd (strip_loop (n, g) cs)"
    using s(3,4) Cons.IH [of n f g] by (cases "n = EscString") auto
  then show ?case using s by (simp add: strip_loop_Cons)
qed simp

lemma strip_ground_prefix: "ESC \<notin> set pre \<Longrightarrow> stripANSIEscapes (pre @ s) = pre @ stripANSIEscapes s"
  by (simp add: stripANSIEscapes_def strip.feed_append strip_ground)

definition csi_param :: "char \<Rightarrow> bool" where
  "csi_param c \<longleftrightarrow> 0x20 \<le> ord c \<and> ord c \<le> 0x3F"

definition csi_end :: "char \<Rightarrow> bool" where
  "csi_end c \<longleftrightarrow> 0x40 \<le> ord c \<and> ord c \<le> 0x7E"

definition osc_byte :: "char \<Rightarrow> bool" where
  "osc_byte c \<longleftrightarrow> ord c \<notin> {0x1B, 0x18, 0x1A, 0x07}"

lemma strip_params: "list_all csi_param ps \<Longrightarrow> strip_loop (EscCSI, b) ps = ((EscCSI, b), [])"
  by (induction ps) (auto simp: strip_loop_step csi_param_def strip_step_def strip_escape_def stepEscape_def)

lemma strip_payload: "list_all osc_byte ps \<Longrightarrow> strip_loop (EscString, b) ps = ((EscString, b), [])"
  by (induction ps) (auto simp: strip_loop_step osc_byte_def strip_step_def)

lemma strip_final: "csi_end f \<Longrightarrow> strip_step (EscCSI, b) f = ((EscGround, b), [])"
  by (auto simp: csi_end_def strip_step_def strip_escape_def stepEscape_def)

lemma strip_csi:
  assumes "list_all csi_param ps" and "csi_end f"
  shows "stripANSIEscapes ([ESC, CHR ''[''] @ ps @ [f] @ post) = stripANSIEscapes post"
proof -
  have "strip_loop (EscGround, False) [ESC, CHR ''[''] = ((EscCSI, False), [])" by code_simp
  then show ?thesis
    using strip_params [OF assms(1), of False] strip_final [OF assms(2), of False]
    by (simp add: stripANSIEscapes_def strip.feed_append strip_loop_step)
qed

lemma strip_osc:
  assumes "list_all osc_byte ps"
  shows "stripANSIEscapes ([ESC, CHR '']''] @ ps @ [CHR 0x07] @ post) = stripANSIEscapes post"
proof -
  have a: "strip_loop (EscGround, False) [ESC, CHR '']''] = ((EscString, True), [])" by code_simp
  have b: "strip_loop (EscString, True) [CHR 0x07] = ((EscGround, True), [])" by code_simp
  have "stripANSIEscapes ([ESC, CHR '']''] @ ps @ [CHR 0x07] @ post) = snd (strip_loop (EscGround, True) post)"
    unfolding stripANSIEscapes_def strip.feed_append [OF TrueI] a fst_conv snd_conv strip_payload [OF assms] b by simp
  then show ?thesis using strip_flag [of EscGround True post False] by (simp add: stripANSIEscapes_def)
qed

text \<open>
  stripping leaves a part of the output without an ESC byte and changes nothing when it is done again; a colour or cursor
  sequence, and a window title or link that BEL ends, are taken out whole with everything around them kept.
\<close>

lemma strip_text:
  assumes "ESC \<notin> set pre" and "list_all csi_param ps" and "csi_end f" and "list_all osc_byte title"
  shows "ESC \<notin> set (stripANSIEscapes s) \<and> subseq (stripANSIEscapes s) s \<and>
    stripANSIEscapes (stripANSIEscapes s) = stripANSIEscapes s \<and>
    stripANSIEscapes (pre @ [ESC, CHR ''[''] @ ps @ [f] @ post) = pre @ stripANSIEscapes post \<and>
    stripANSIEscapes (pre @ [ESC, CHR '']''] @ title @ [CHR 0x07] @ post) = pre @ stripANSIEscapes post"
proof -
  have e: "ESC \<notin> set (stripANSIEscapes s)" by (simp add: stripANSIEscapes_def strip_loop_no_ESC)
  then have "stripANSIEscapes (stripANSIEscapes s) = stripANSIEscapes s"
    using strip_ground_prefix [of "stripANSIEscapes s" "[]"] by (simp add: stripANSIEscapes_def)
  then show ?thesis
    using e strip_loop_subseq strip_ground_prefix [OF assms(1)] strip_csi [OF assms(2,3)] strip_osc [OF assms(4)]
    by (simp add: stripANSIEscapes_def)
qed

section \<open>The residual rows\<close>

lemma near_wordy: "list_ex (\<lambda>c. \<not> is_digit c) w \<Longrightarrow> wordy (near (w # ws))"
  by (simp add: near_def wordy_seq wordy_lit)

lemma on_line_wordy: "list_ex (\<lambda>c. \<not> is_digit c) w \<Longrightarrow> wordy (on_line (w # ws))"
  by (simp add: on_line_def wordy_seq wordy_lit)

lemmas row_simps = regex_simps near_wordy on_line_wordy wordy_guarded wordy_solid

lemma timeout_row: "guarded finishedTimeoutRe \<and> solid finishedTimeoutRe"
  by (simp add: finishedTimeoutRe_def row_simps is_digit_def)

lemma api_key_wordy: "wordy apiKeyVarUnset"
  by (simp add: apiKeyVarUnset_def key_names_def unset_words_def row_simps is_digit_def)

lemma residual_rows_all: "list_all (\<lambda>r. guarded (rr_re r) \<and> solid (rr_re r)) residualRows"
  by (simp add: residualRows_def row_simps is_digit_def timeout_row api_key_wordy)

lemma residual_rows_ok: "r \<in> set residualRows \<Longrightarrow> guarded (rr_re r) \<and> solid (rr_re r)"
  using residual_rows_all by (simp add: list_all_iff)

lemma residual_loop_match:
  "residual_loop rs output = Some c \<Longrightarrow>
     \<exists>r \<in> set rs. \<exists>lo hi. firstUsableMatch (rr_re r) output = Some (lo, hi) \<and> cl_match c = slice output lo hi"
proof (induction rs)
  case (Cons r rs)
  then show ?case by (cases "firstUsableMatch (rr_re r) output") (auto simp: no_classification_def)
qed simp

text \<open>a number that \<open>ClassifyFinishedOutput\<close>'s residual rows report as a status code.\<close>

lemma residual_number:
  assumes "matchResidual output = Some c" and "list_all is_digit (cl_match c)"
  shows "\<exists>pre post. output = pre @ cl_match c @ post \<and> cl_match c \<noteq> [] \<and>
    (pre \<noteq> [] \<longrightarrow> \<not> word_char (last pre) \<and> last pre \<noteq> CHR ''.'') \<and>
    (post \<noteq> [] \<longrightarrow> \<not> word_char (hd post)) \<and>
    (\<forall>d rest. post = CHR ''.'' # d # rest \<longrightarrow> \<not> is_digit d)"
proof -
  obtain r lo hi where r: "r \<in> set residualRows" and f: "firstUsableMatch (rr_re r) output = Some (lo, hi)"
    and m: "cl_match c = slice output lo hi"
    using residual_loop_match [of residualRows "output" c] assms(1) by (auto simp: matchResidual_def split: if_splits)
  have i: "(lo, hi) \<in> set (FindAllStringIndex (rr_re r) output)" and e: "\<not> embeddedNumber output lo hi"
    using f by (auto simp: firstUsableMatch_def find_Some_iff) (metis nth_mem)
  have a: "stands_alone output lo hi" using digits_alone [OF _ _ i] residual_rows_ok [OF r] assms(2) m by simp
  have split: "output = take lo output @ slice output lo hi @ drop hi output"
    using a by (simp only: stands_alone_def slice_split less_imp_le)
  have "\<not> list_ex (\<lambda>i. \<not> is_digit (output ! i)) [lo ..< hi]"
    using assms(2) a slice_all [of hi "output" is_digit lo] by (auto simp: m list_ex_iff stands_alone_def)
  with e have dot: "\<not> (0 < lo \<and> output ! (lo - 1) = CHR ''.'')"
      "\<not> (hi + 1 < length output \<and> output ! hi = CHR ''.'' \<and> is_digit (output ! (hi + 1)))"
    by (auto simp: embeddedNumber_def split: if_splits)
  show ?thesis
  proof (intro exI conjI impI allI)
    show "output = take lo output @ cl_match c @ drop hi output" using split m by simp
  next
    assume "take lo output \<noteq> []"
    then have "last (take lo output) = output ! (lo - 1)" using a by (auto simp: last_conv_nth stands_alone_def min_def)
    then show "\<not> word_char (last (take lo output))" "last (take lo output) \<noteq> CHR ''.''"
      using a dot(1) \<open>take lo output \<noteq> []\<close> by (auto simp: stands_alone_def word_before_def)
  next
    assume "drop hi output \<noteq> []"
    then show "\<not> word_char (hd (drop hi output))" using a by (auto simp: stands_alone_def word_after_def hd_drop_conv_nth)
  next
    fix d rest assume eq: "drop hi output = CHR ''.'' # d # rest"
    then have "length output - hi = Suc (Suc (length rest))" using length_drop [of hi "output"] by (simp only: length_Cons)
    moreover have "output ! hi = CHR ''.''" "output ! (hi + 1) = d"
      using eq nth_drop [of hi "output" 0] nth_drop [of hi "output" 1] a by (auto simp: stands_alone_def)
    ultimately show "\<not> is_digit d" using dot(2) by auto
  qed (use a in \<open>auto simp: m stands_alone_def\<close>)
qed

lemma residual_demo:
  "matchResidual ''17.429 429'' = Some (no_classification\<lparr>cl_class := ErrRateLimited, cl_reason := ''rate limit exceeded'',
     cl_rule := ''residual.ratelimit'', cl_match := ''429''\<rparr>)"
proof -
  have rows: "residualRows = hd residualRows # tl residualRows" by (simp add: residualRows_def)
  have hit: "firstUsableMatch (rr_re (hd residualRows)) ''17.429 429'' = Some (7, 10)"
    unfolding residualRows_def list.sel residualRow.simps by code_simp
  have "parseRetryAfterSeconds ''17.429 429'' = 0" by code_simp
  then show ?thesis
    unfolding matchResidual_def
    by (subst rows) (simp add: hit, simp add: residualRows_def no_classification_def)
qed

section \<open>When a verdict is given\<close>

lemma last_fold_loop_Some:
  "last_fold_loop s sub n = Some i \<Longrightarrow>
     i < n \<and> equalFoldASCII (take (length sub) (drop i s)) sub \<and>
     (\<forall>j. i < j \<and> j < n \<longrightarrow> \<not> equalFoldASCII (take (length sub) (drop j s)) sub)"
  by (induction n) (auto split: if_splits simp: less_Suc_eq)

lemma lastIndexFoldASCII_Some:
  "lastIndexFoldASCII s sub = Some i \<Longrightarrow>
     i + length sub \<le> length s \<and> equalFoldASCII (take (length sub) (drop i s)) sub \<and>
     (\<forall>j. i < j \<and> j + length sub \<le> length s \<longrightarrow> \<not> equalFoldASCII (take (length sub) (drop j s)) sub)"
  using last_fold_loop_Some [of s sub "Suc (length s - length sub)" i]
  by (auto simp: lastIndexFoldASCII_def simp del: last_fold_loop.simps split: if_splits)

lemma retryClass_error: "retryClass h \<noteq> ErrNone"
  by (simp add: retryClass_def)

lemma costClass_error: "costClass h \<noteq> ErrNone"
  by (simp add: costClass_def)

lemma classFromHTTPCode_error: "classFromHTTPCode n \<noteq> ErrNone"
  by (simp add: classFromHTTPCode_def)

lemma retry_later_fields [simp]:
  "cl_status (retry_later h) = StatusRetryLater" "cl_terminal (retry_later h)" "cl_class (retry_later h) = retryClass h"
  by (simp_all add: retry_later_def)

lemma blocked_by_cost_fields [simp]:
  "cl_status (blocked_by_cost h) = StatusBlockedByCost" "cl_terminal (blocked_by_cost h)"
  "cl_class (blocked_by_cost h) = costClass h"
  by (simp_all add: blocked_by_cost_def)

lemma no_classification_fields [simp]:
  "cl_status no_classification = []" "\<not> cl_terminal no_classification" "cl_class no_classification = ErrNone"
  by (simp_all add: no_classification_def)

lemma classifyRetry_later: "classifyRetry h lower = Some c \<Longrightarrow> \<exists>hit. c = retry_later hit"
  by (auto simp: classifyRetry_def matchTransportRetry_def Let_def split: if_splits)

definition last_place :: "string \<Rightarrow> string \<Rightarrow> nat \<Rightarrow> bool" where
  "last_place hit t i \<longleftrightarrow> equalFoldASCII (take (length hit) (drop i t)) hit \<and>
     (\<forall>j > i. j + length hit \<le> length t \<longrightarrow> \<not> equalFoldASCII (take (length hit) (drop j t)) hit)"

lemma apiErrorAfter_place:
  "apiErrorAfter h t hit \<Longrightarrow> \<exists>f i. pt_api h = Some f \<and> f (drop (i + length hit) t) \<noteq> None \<and> last_place hit t i"
  unfolding apiErrorAfter_def last_place_def
  by (auto split: option.splits dest!: lastIndexFoldASCII_Some)

text \<open>The six outcomes of a pass over a harness's output, each with what it needs.\<close>

lemma harness_Classify_cases:
  fixes h inp now rfc
  defines "c \<equiv> harness_Classify rfc now h inp" and "t \<equiv> stripANSIEscapes (ci_recent inp)"
  obtains (limit) f hit where "pt_limit h = Some f" "f t now = Some hit" "cl_status c = StatusBlockedByCost" "cl_terminal c"
      "cl_class c = ErrRateLimited" "cl_resume_at c = sl_resume hit"
    | (cost) hit where "ci_idle inp" "hit = MatchAny (lower_view t) (pt_cost h)" "\<not> apiErrorAfter h t hit" "c = blocked_by_cost hit"
    | (api) f hit where "pt_api h = Some f" "f t = Some hit" "cl_status c = StatusAPIError" "\<not> cl_terminal c"
      "cl_class c = classFromHTTPCode (ah_code hit)"
      "ci_idle inp \<Longrightarrow> MatchAny (lower_view t) (pt_cost h) \<noteq> [] \<Longrightarrow> apiErrorAfter h t (MatchAny (lower_view t) (pt_cost h))"
    | (retry) hit where "ci_idle inp" "c = retry_later hit"
    | (prompt) "ci_quiet inp" "MatchPromptSuffix t (pt_prompt h) \<noteq> []" "cl_status c = StatusWaitingForInput" "\<not> cl_terminal c"
      "cl_class c = ErrNone"
    | (none) "c = no_classification"
proof (cases "case pt_limit h of None \<Rightarrow> None | Some f \<Rightarrow> f t now")
  case (Some hit)
  then show ?thesis using limit by (auto simp: c_def t_def harness_Classify_def Let_def split: option.splits)
next
  case None
  note L = None [unfolded t_def]
  show ?thesis
  proof (cases "ci_idle inp \<and> MatchAny (lower_view t) (pt_cost h) \<noteq> [] \<and> \<not> apiErrorAfter h t (MatchAny (lower_view t) (pt_cost h))")
    case True
    then show ?thesis using cost by (simp add: c_def t_def harness_Classify_def Let_def L)
  next
    case no_cost: False
    note C = no_cost [unfolded t_def]
    show ?thesis
    proof (cases "case pt_api h of None \<Rightarrow> None | Some f \<Rightarrow> f t")
      case (Some hit)
      note A = Some [unfolded t_def]
      obtain f where f: "pt_api h = Some f" "f t = Some hit" using Some by (cases "pt_api h") auto
      show ?thesis
        by (rule api [OF f]) (use C in \<open>auto simp: c_def t_def harness_Classify_def Let_def L A\<close>)
    next
      case None
      note A = None [unfolded t_def]
      show ?thesis
      proof (cases "if ci_idle inp then classifyRetry h (lower_view t) else None")
        case (Some r)
        note R = Some [unfolded t_def]
        have "ci_idle inp" using Some by (simp split: if_splits)
        moreover obtain hit where "r = retry_later hit" using Some classifyRetry_later by (auto split: if_splits)
        moreover have "c = r" using C R by (auto simp: c_def harness_Classify_def Let_def L A)
        ultimately show ?thesis using retry by blast
      next
        case None
        note R = None [unfolded t_def]
        then have "c = (if ci_quiet inp \<and> MatchPromptSuffix t (pt_prompt h) \<noteq> []
            then no_classification\<lparr>cl_status := StatusWaitingForInput,
              cl_reason := ''prompt detected: '' @ MatchPromptSuffix t (pt_prompt h)\<rparr> else no_classification)"
          using C by (auto simp: c_def t_def harness_Classify_def Let_def L A)
        then show ?thesis using prompt none by (auto split: if_splits)
      qed
    qed
  qed
qed


definition demo_patterns :: Patterns where
  "demo_patterns = \<lparr>pt_cost = [''quota''], pt_retry = [], pt_prompt = [''? ''],
     pt_api = Some (\<lambda>s. if sublist ''ERR'' s then Some \<lparr>ah_code = 500, ah_message = ''x'', ah_retry = 0\<rparr> else None), pt_limit = None\<rparr>"

definition demo_input :: "string \<Rightarrow> bool \<Rightarrow> ClassifierInput" where
  "demo_input s idle = \<lparr>ci_recent = s, ci_since = 0, ci_quiet = False, ci_idle = idle\<rparr>"


end
