(* ===== verification/Wrap_Launch.thy ===== *)
theory Wrap_Launch
  imports Go_Bytes
begin

text \<open>
  \<^verbatim>\<open>internal/wrapcore/wrapper.go\<close> with \<^verbatim>\<open>pkg/harnessname\<close>: what a launch is checked for, and the argv
  a harness is started with. Durations are nanoseconds as Go's \<open>int64\<close> holds them; nothing here
  adds them up, so they do not wrap. \<open>quote\<close> is \<^verbatim>\<open>strconv.Quote\<close>, which reads Unicode's tables, and
  \<open>contain\<close> is \<open>validateContainment\<close>: both are arguments.
\<close>

section \<open>Harness names\<close>

definition Normalize :: "string \<Rightarrow> string" where
  "Normalize name = to_lower (trim_space name)"

definition Canonical :: "string \<Rightarrow> string" where
  "Canonical name = (let n = Normalize name in if n = ''claude'' then ''claude-code'' else n)"

definition IsClaude :: "string \<Rightarrow> bool" where
  "IsClaude name \<longleftrightarrow> Canonical name = ''claude-code''"

section \<open>Flags in an argv\<close>

definition isShortFlag :: "string \<Rightarrow> bool" where
  "isShortFlag flag \<longleftrightarrow> length flag = 2 \<and> flag ! 0 = CHR ''-'' \<and> is_lower (flag ! 1)"

definition is_flag :: "string \<Rightarrow> string \<Rightarrow> bool" where
  "is_flag flag arg \<longleftrightarrow>
     arg = flag \<or> prefix (flag @ ''='') arg \<or> (isShortFlag flag \<and> 2 < length arg \<and> prefix flag arg)"

definition argsContainAnyFlag :: "string list \<Rightarrow> string list \<Rightarrow> bool" where
  "argsContainAnyFlag args flags \<longleftrightarrow> list_ex (\<lambda>arg. list_ex (\<lambda>flag. is_flag flag arg) flags) args"

text \<open>One argument against one flag, with what follows the argument; then the loops.\<close>

definition flag_operand :: "string \<Rightarrow> string \<Rightarrow> string list \<Rightarrow> string option" where
  "flag_operand flag arg rest =
     (if arg = flag then Some (case rest of [] \<Rightarrow> [] | x # _ \<Rightarrow> x)
      else if prefix (flag @ ''='') arg then Some (drop (Suc (length flag)) arg)
      else if isShortFlag flag \<and> 2 < length arg \<and> prefix flag arg then Some (drop (length flag) arg)
      else None)"

fun flag_row :: "string list \<Rightarrow> string \<Rightarrow> string list \<Rightarrow> string option \<Rightarrow> string option" where
  "flag_row [] arg rest v = v"
| "flag_row (flag # flags) arg rest v =
     flag_row flags arg rest (case flag_operand flag arg rest of None \<Rightarrow> v | Some x \<Rightarrow> Some x)"

fun flag_scan :: "string list \<Rightarrow> string list \<Rightarrow> string option \<Rightarrow> string option" where
  "flag_scan flags [] v = v"
| "flag_scan flags (arg # rest) v = flag_scan flags rest (flag_row flags arg rest v)"

text \<open>\<open>None\<close> is the answer \<open>("", false)\<close>.\<close>

definition flagValue :: "string list \<Rightarrow> string list \<Rightarrow> string option" where
  "flagValue args flags = flag_scan flags args None"

definition prependArgs :: "string list \<Rightarrow> string list \<Rightarrow> string list" where
  "prependArgs args pre = pre @ args"

definition configArgHasKey :: "string \<Rightarrow> string \<Rightarrow> bool" where
  "configArgHasKey arg key \<longleftrightarrow> (let a = trim_space arg in a = key \<or> prefix (key @ ''='') a)"

fun argsContainConfigKey :: "string list \<Rightarrow> string \<Rightarrow> bool" where
  "argsContainConfigKey [] key = False"
| "argsContainConfigKey (arg # rest) key =
     (if arg = ''-c'' \<or> arg = ''--config''
      then (case rest of x # _ \<Rightarrow> configArgHasKey x key | [] \<Rightarrow> False) \<or> argsContainConfigKey rest key
      else if prefix ''-c'' arg \<and> 2 < length arg \<and> configArgHasKey (drop 2 arg) key then True
      else if prefix ''--config='' arg \<and> configArgHasKey (drop 9 arg) key then True
      else argsContainConfigKey rest key)"

section \<open>Permission modes\<close>

definition SkipPermissionsFlag :: string where
  "SkipPermissionsFlag = ''--dangerously-skip-permissions''"

definition AllowSkipPermissionsFlag :: string where
  "AllowSkipPermissionsFlag = ''--allow-dangerously-skip-permissions''"

definition codexBypassFlag :: string where
  "codexBypassFlag = ''--dangerously-bypass-approvals-and-sandbox''"

definition PermissionRungs :: "string list" where
  "PermissionRungs = [''plan'', ''manual'', ''ask'', ''auto'', ''bypass'']"

text \<open>\<open>rungIndex\<close>, \<open>None\<close> for its -1.\<close>

fun index_of :: "string \<Rightarrow> string list \<Rightarrow> nat option" where
  "index_of x [] = None"
| "index_of x (y # ys) = (if y = x then Some 0 else map_option Suc (index_of x ys))"

definition rungIndex :: "string \<Rightarrow> nat option" where
  "rungIndex rung = index_of rung PermissionRungs"

definition MorePermissive :: "string \<Rightarrow> string \<Rightarrow> bool" where
  "MorePermissive a b = (case (rungIndex a, rungIndex b) of (Some i, Some j) \<Rightarrow> j < i | _ \<Rightarrow> False)"

definition IsBypassPermissionMode :: "string \<Rightarrow> bool" where
  "IsBypassPermissionMode mode \<longleftrightarrow> mode = ''bypass'' \<or> mode = ''bypassPermissions''"

definition isCodexBypassMode :: "string \<Rightarrow> bool" where
  "isCodexBypassMode mode \<longleftrightarrow> mode = ''bypass'' \<or> mode = ''danger-full-access''"

definition harnessSupportsEffort :: "string \<Rightarrow> bool" where
  "harnessSupportsEffort h \<longleftrightarrow> Canonical h = ''claude-code'' \<or> Canonical h = ''codex''"

definition harnessSupportsModel :: "string \<Rightarrow> bool" where
  "harnessSupportsModel h \<longleftrightarrow> Canonical h = ''claude-code'' \<or> Canonical h = ''codex''"

definition harnessSupportsPermissionMode :: "string \<Rightarrow> bool" where
  "harnessSupportsPermissionMode h \<longleftrightarrow> Canonical h = ''claude-code'' \<or> Canonical h = ''codex''"

definition isSupportedEffort :: "string \<Rightarrow> bool" where
  "isSupportedEffort e \<longleftrightarrow> e \<in> {''low'', ''medium'', ''high'', ''xhigh'', ''max''}"

definition isSupportedPermissionMode :: "string \<Rightarrow> string \<Rightarrow> bool" where
  "isSupportedPermissionMode h mode \<longleftrightarrow>
     mode \<in> {''plan'', ''manual'', ''ask'', ''auto'', ''bypass''} \<or>
     (Canonical h = ''claude-code'' \<and> mode \<in> {''acceptEdits'', ''dontAsk'', ''bypassPermissions''}) \<or>
     (Canonical h = ''codex'' \<and> mode \<in> {''read-only'', ''workspace-write'', ''danger-full-access''})"

definition BypassEnablingFlags :: "string \<Rightarrow> string list" where
  "BypassEnablingFlags h =
     (if Canonical h = ''claude-code'' then [SkipPermissionsFlag]
      else if Canonical h = ''codex'' then [codexBypassFlag] else [])"

definition BypassReachableFlags :: "string \<Rightarrow> string list" where
  "BypassReachableFlags h =
     (if Canonical h = ''claude-code'' then [SkipPermissionsFlag, AllowSkipPermissionsFlag]
      else if Canonical h = ''codex'' then [codexBypassFlag] else [])"

definition claudePermissionMode :: "string \<Rightarrow> string" where
  "claudePermissionMode mode =
     (if mode = ''ask'' then ''acceptEdits'' else if mode = ''bypass'' then ''bypassPermissions'' else mode)"

definition codexPermissionMode :: "string \<Rightarrow> string \<times> string" where
  "codexPermissionMode mode =
     (if mode = ''manual'' then (''read-only'', ''untrusted'')
      else if mode = ''ask'' then (''workspace-write'', ''on-request'')
      else if mode = ''auto'' then (''workspace-write'', ''never'')
      else if mode = ''bypass'' then (''danger-full-access'', ''never'')
      else (mode, []))"

definition claudeRung :: "string \<Rightarrow> string" where
  "claudeRung v =
     (if v = ''acceptEdits'' then ''ask'' else if v = ''bypassPermissions'' then ''bypass'' else if v = ''dontAsk'' then ''manual''
      else if rungIndex v \<noteq> None then v else [])"

definition codexSandboxRung :: "string \<Rightarrow> string" where
  "codexSandboxRung v =
     (if v = ''read-only'' then ''manual'' else if v = ''workspace-write'' then ''ask''
      else if v = ''danger-full-access'' then ''bypass'' else [])"

definition codexRung :: "string \<Rightarrow> string" where
  "codexRung v = (if rungIndex v \<noteq> None then v else codexSandboxRung v)"

section \<open>The argv\<close>

definition codexEffort :: "string \<Rightarrow> string" where
  "codexEffort e = (if e = ''max'' then ''xhigh'' else e)"

definition argsWithHarnessEffort :: "(string \<Rightarrow> string) \<Rightarrow> string \<Rightarrow> string list \<Rightarrow> string \<Rightarrow> string list" where
  "argsWithHarnessEffort quote h args effort =
     (if effort = [] then args
      else if Canonical h = ''claude-code'' then
        if argsContainAnyFlag args [''--effort''] then args else prependArgs args [''--effort'', effort]
      else if Canonical h = ''codex'' then
        if argsContainConfigKey args ''model_reasoning_effort'' then args
        else prependArgs args [''-c'', ''model_reasoning_effort='' @ quote (codexEffort effort)]
      else args)"

definition argsWithHarnessModel :: "(string \<Rightarrow> string) \<Rightarrow> string \<Rightarrow> string list \<Rightarrow> string \<Rightarrow> string list" where
  "argsWithHarnessModel quote h args model =
     (if model = [] then args
      else if Canonical h = ''claude-code'' then
        if argsContainAnyFlag args [''--model''] then args else prependArgs args [''--model'', model]
      else if Canonical h = ''codex'' then
        if argsContainConfigKey args ''model'' then args else prependArgs args [''-c'', ''model='' @ quote model]
      else args)"

definition claude_axis :: "string list" where
  "claude_axis = [''--permission-mode'', SkipPermissionsFlag]"

definition codex_axis :: "string list" where
  "codex_axis = [''-s'', ''--sandbox'', ''-a'', ''--ask-for-approval'', codexBypassFlag]"

definition argsWithHarnessPermissionMode :: "string \<Rightarrow> string list \<Rightarrow> string \<Rightarrow> string list" where
  "argsWithHarnessPermissionMode h args mode =
     (if mode = [] then args
      else if Canonical h = ''claude-code'' then
        if argsContainAnyFlag args claude_axis then args
        else prependArgs args [''--permission-mode'', claudePermissionMode mode]
      else if Canonical h = ''codex'' then
        if argsContainAnyFlag args codex_axis then args
        else
          case codexPermissionMode mode of (sandbox, approval) \<Rightarrow>
            if approval = [] then prependArgs args [''-s'', sandbox]
            else prependArgs args [''-s'', sandbox, ''-a'', approval]
      else args)"

definition EffectiveLaunchRung :: "string \<Rightarrow> string list \<Rightarrow> string \<Rightarrow> string" where
  "EffectiveLaunchRung h args mode =
     (if Canonical h = ''claude-code'' then
        if argsContainAnyFlag args [SkipPermissionsFlag] then ''bypass''
        else case flagValue args [''--permission-mode''] of Some v \<Rightarrow> claudeRung v | None \<Rightarrow> claudeRung mode
      else if Canonical h = ''codex'' then
        if argsContainAnyFlag args [codexBypassFlag] then ''bypass''
        else
          case flagValue args [''-s'', ''--sandbox''] of
            Some v \<Rightarrow> codexSandboxRung v
          | None \<Rightarrow> if argsContainAnyFlag args [''-a'', ''--ask-for-approval''] then [] else codexRung mode
      else [])"

section \<open>The configuration\<close>

record config =
  cf_binary :: string
  cf_args :: "string list"
  cf_stdout :: bool
  cf_idle_quiet :: int
  cf_idle_classify :: int
  cf_stale :: int
  cf_wait_delay :: int
  cf_harness :: string
  cf_effort :: string
  cf_model :: string
  cf_permission :: string
  cf_keep_alive :: bool
  cf_queue_events :: int
  cf_queue_bytes :: int

datatype config_error =
  BinaryPathRequired | StdoutRequired | IdleNegative | QueueNegative | ClassifyBelowQuiet | StaleBelowClassify
| EffortInvalid | EffortUnsupported | ModelUnsupported | ModeUnsupported | ModePlanOnCodex | ModeInvalid | ModeContradictsArgs
| ContainmentRefused

definition validatePermissionMode :: "config \<Rightarrow> config_error option" where
  "validatePermissionMode cfg =
     (let mode = cf_permission cfg; h = cf_harness cfg in
      if mode = [] then None
      else if \<not> harnessSupportsPermissionMode h then Some ModeUnsupported
      else if Canonical h = ''codex'' \<and> mode = ''plan'' then Some ModePlanOnCodex
      else if \<not> isSupportedPermissionMode h mode then Some ModeInvalid
      else
        let bypass = (if Canonical h = ''codex'' then isCodexBypassMode mode else IsBypassPermissionMode mode) in
        if \<not> bypass \<and> list_ex (\<lambda>flag. argsContainAnyFlag (cf_args cfg) [flag]) (BypassEnablingFlags h)
        then Some ModeContradictsArgs else None)"

definition validateConfig :: "(config \<Rightarrow> config_error option) \<Rightarrow> config \<Rightarrow> config_error option" where
  "validateConfig contain cfg =
     (if cf_binary cfg = [] then Some BinaryPathRequired
      else if \<not> cf_stdout cfg then Some StdoutRequired
      else if cf_idle_quiet cfg < 0 \<or> cf_idle_classify cfg < 0 then Some IdleNegative
      else if cf_queue_events cfg < 0 \<or> cf_queue_bytes cfg < 0 then Some QueueNegative
      else if 0 < cf_idle_classify cfg \<and> 0 < cf_idle_quiet cfg \<and> cf_idle_classify cfg < cf_idle_quiet cfg then Some ClassifyBelowQuiet
      else if 0 < cf_stale cfg \<and> 0 < cf_idle_classify cfg \<and> cf_stale cfg < cf_idle_classify cfg then Some StaleBelowClassify
      else if cf_effort cfg \<noteq> [] \<and> \<not> isSupportedEffort (cf_effort cfg) then Some EffortInvalid
      else if cf_effort cfg \<noteq> [] \<and> \<not> harnessSupportsEffort (cf_harness cfg) then Some EffortUnsupported
      else if cf_model cfg \<noteq> [] \<and> \<not> harnessSupportsModel (cf_harness cfg) then Some ModelUnsupported
      else
        case validatePermissionMode cfg of
          Some e \<Rightarrow> Some e
        | None \<Rightarrow> contain cfg)"

abbreviation second :: int where "second \<equiv> 1000000000"

definition applyDefaults :: "config \<Rightarrow> config" where
  "applyDefaults c0 =
     (let c1 = (if cf_idle_quiet c0 = 0 then c0\<lparr>cf_idle_quiet := 15 * second\<rparr> else c0);
          c2 = (if cf_idle_classify c1 = 0 then c1\<lparr>cf_idle_classify := max (60 * second) (cf_idle_quiet c1)\<rparr> else c1);
          c3 = (if cf_stale c2 = 0 then c2\<lparr>cf_stale := max (300 * second) (cf_idle_classify c2)\<rparr> else c2)
      in if cf_wait_delay c3 = 0 then c3\<lparr>cf_wait_delay := 5 * second\<rparr> else c3)"

definition launch_args :: "(string \<Rightarrow> string) \<Rightarrow> config \<Rightarrow> string list" where
  "launch_args quote cfg =
     (let a1 = argsWithHarnessEffort quote (cf_harness cfg) (cf_args cfg) (cf_effort cfg);
          a2 = argsWithHarnessModel quote (cf_harness cfg) a1 (cf_model cfg)
      in argsWithHarnessPermissionMode (cf_harness cfg) a2 (cf_permission cfg))"

text \<open>\<open>HarnessArgs\<close>, and what \<open>Start\<close> hands to \<open>startSession\<close>.\<close>

definition HarnessArgs :: "(string \<Rightarrow> string) \<Rightarrow> (config \<Rightarrow> config_error option) \<Rightarrow> config \<Rightarrow> config_error + string list" where
  "HarnessArgs quote contain cfg =
     (let c = cfg\<lparr>cf_stdout := True\<rparr> in
      case validateConfig contain c of Some e \<Rightarrow> Inl e | None \<Rightarrow> Inr (launch_args quote c))"

definition Start :: "(string \<Rightarrow> string) \<Rightarrow> (config \<Rightarrow> config_error option) \<Rightarrow> config \<Rightarrow> config_error + config" where
  "Start quote contain cfg =
     (case validateConfig contain cfg of
        Some e \<Rightarrow> Inl e
      | None \<Rightarrow> let c = applyDefaults cfg in Inr (c\<lparr>cf_args := launch_args quote c\<rparr>))"

section \<open>Flags\<close>

lemma flag_operand_None: "flag_operand flag arg rest = None \<longleftrightarrow> \<not> is_flag flag arg"
  by (auto simp: flag_operand_def is_flag_def)

lemma contain_flags:
  "\<not> argsContainAnyFlag [] flags"
  "argsContainAnyFlag (arg # args) flags \<longleftrightarrow> (\<exists>f \<in> set flags. is_flag f arg) \<or> argsContainAnyFlag args flags"
  "argsContainAnyFlag (xs @ ys) flags \<longleftrightarrow> argsContainAnyFlag xs flags \<or> argsContainAnyFlag ys flags"
  by (auto simp: argsContainAnyFlag_def list_ex_iff)

lemma contain_mono: "argsContainAnyFlag args fs \<Longrightarrow> set fs \<subseteq> set gs \<Longrightarrow> argsContainAnyFlag args gs"
  by (auto simp: argsContainAnyFlag_def list_ex_iff)

lemma flag_row_none: "\<forall>f \<in> set flags. \<not> is_flag f arg \<Longrightarrow> flag_row flags arg rest v = v"
  by (induction flags arbitrary: v) (simp_all add: flag_operand_None [THEN iffD2])

lemma flag_scan_none: "\<not> argsContainAnyFlag args flags \<Longrightarrow> flag_scan flags args v = v"
  by (induction args arbitrary: v) (simp_all add: contain_flags flag_row_none)

text \<open>The flags and values the wrapper writes itself are told apart by their text.\<close>

lemmas flag_names = is_flag_def isShortFlag_def is_lower_def SkipPermissionsFlag_def codexBypassFlag_def

lemma flag_row_hit:
  assumes "flags = [flag] \<or> flags = [''-s'', ''--sandbox''] \<and> flag = ''-s''"
  shows "flag_row flags flag (x # rest) v = Some x"
  using assms by (auto simp: flag_operand_def)

lemma flagValue_front:
  assumes "flags = [flag] \<or> flags = [''-s'', ''--sandbox''] \<and> flag = ''-s''"
    and "\<not> argsContainAnyFlag (x # rest) flags"
  shows "flagValue (flag # x # rest) flags = Some x"
  using assms(2) unfolding flagValue_def flag_scan.simps(2) [of flags flag] flag_row_hit [OF assms(1)]
  by (rule flag_scan_none)

section \<open>Properties\<close>

text \<open>The modes a launch accepts for each harness.\<close>

definition claude_modes :: "string list" where
  "claude_modes = [''plan'', ''manual'', ''ask'', ''auto'', ''bypass'', ''acceptEdits'', ''dontAsk'', ''bypassPermissions'']"

definition codex_modes :: "string list" where
  "codex_modes = [''manual'', ''ask'', ''auto'', ''bypass'', ''read-only'', ''workspace-write'', ''danger-full-access'']"

lemma validated_modes:
  assumes "validatePermissionMode cfg = None" and "cf_permission cfg \<noteq> []"
  shows "Canonical (cf_harness cfg) = ''claude-code'' \<and> cf_permission cfg \<in> set claude_modes \<or>
    Canonical (cf_harness cfg) = ''codex'' \<and> cf_permission cfg \<in> set codex_modes"
  using assms
  by (auto simp: validatePermissionMode_def harnessSupportsPermissionMode_def isSupportedPermissionMode_def claude_modes_def
      codex_modes_def Let_def split: if_splits)

lemma claude_values: "\<forall>mode \<in> set claude_modes.
    \<not> is_flag ''--permission-mode'' (claudePermissionMode mode) \<and> \<not> is_flag SkipPermissionsFlag (claudePermissionMode mode) \<and>
    claudeRung (claudePermissionMode mode) = claudeRung mode"
  by code_simp

lemma claude_flag: "\<not> is_flag SkipPermissionsFlag ''--permission-mode''"
  by code_simp

lemma codex_values: "\<forall>mode \<in> set codex_modes. case codexPermissionMode mode of (s, a) \<Rightarrow>
    (\<forall>f \<in> set codex_axis. \<not> is_flag f s \<and> \<not> is_flag f a) \<and>
    codexSandboxRung s = (if mode = ''auto'' then ''ask'' else codexRung mode)"
  by code_simp

lemma codex_flags: "\<forall>f \<in> set [''-s'', ''--sandbox'', codexBypassFlag]. \<not> is_flag f ''-a''" "\<not> is_flag codexBypassFlag ''-s''"
  by code_simp+

lemma inject_claude:
  assumes h: "Canonical h = ''claude-code''" and m: "mode \<in> set claude_modes" and none: "\<not> argsContainAnyFlag args claude_axis"
  shows "EffectiveLaunchRung h (argsWithHarnessPermissionMode h args mode) mode = claudeRung mode"
    "EffectiveLaunchRung h args mode = claudeRung mode"
    "\<not> argsContainAnyFlag (argsWithHarnessPermissionMode h args mode) [SkipPermissionsFlag]"
proof -
  have v: "\<not> is_flag ''--permission-mode'' (claudePermissionMode mode)" "\<not> is_flag SkipPermissionsFlag (claudePermissionMode mode)"
      "claudeRung (claudePermissionMode mode) = claudeRung mode"
    using claude_values m by blast+
  have n: "\<not> argsContainAnyFlag args [''--permission-mode'']" "\<not> argsContainAnyFlag args [SkipPermissionsFlag]"
    using none contain_mono [of args "[''--permission-mode'']" claude_axis] contain_mono [of args "[SkipPermissionsFlag]" claude_axis]
    by (auto simp: claude_axis_def)
  have "mode \<noteq> []" using m by (auto simp: claude_modes_def)
  then have a: "argsWithHarnessPermissionMode h args mode = ''--permission-mode'' # claudePermissionMode mode # args"
    using h none by (simp add: argsWithHarnessPermissionMode_def prependArgs_def)
  show skip: "\<not> argsContainAnyFlag (argsWithHarnessPermissionMode h args mode) [SkipPermissionsFlag]"
    unfolding a using v n claude_flag by (simp add: contain_flags)
  have "flagValue (argsWithHarnessPermissionMode h args mode) [''--permission-mode''] = Some (claudePermissionMode mode)"
    unfolding a by (rule flagValue_front) (use v n in \<open>simp_all add: contain_flags\<close>)
  then show "EffectiveLaunchRung h (argsWithHarnessPermissionMode h args mode) mode = claudeRung mode"
    using h skip v(3) by (simp add: EffectiveLaunchRung_def)
  show "EffectiveLaunchRung h args mode = claudeRung mode"
    using h n by (simp add: EffectiveLaunchRung_def flagValue_def flag_scan_none)
qed

lemma inject_codex:
  assumes h: "Canonical h = ''codex''" and m: "mode \<in> set codex_modes" and none: "\<not> argsContainAnyFlag args codex_axis"
  shows "EffectiveLaunchRung h (argsWithHarnessPermissionMode h args mode) mode = (if mode = ''auto'' then ''ask'' else codexRung mode)"
    "EffectiveLaunchRung h args mode = codexRung mode"
    "\<not> argsContainAnyFlag (argsWithHarnessPermissionMode h args mode) [codexBypassFlag]"
proof -
  obtain s a where sa: "codexPermissionMode mode = (s, a)" by fastforce
  then have v: "\<forall>f \<in> set codex_axis. \<not> is_flag f s \<and> \<not> is_flag f a"
      "codexSandboxRung s = (if mode = ''auto'' then ''ask'' else codexRung mode)"
    using codex_values m by fastforce+
  have n: "\<not> argsContainAnyFlag args fs" if "set fs \<subseteq> set codex_axis" for fs
    using none contain_mono [OF _ that] by blast
  have "mode \<noteq> []" using m by (auto simp: codex_modes_def)
  then have inj: "argsWithHarnessPermissionMode h args mode = ''-s'' # s # (if a = [] then [] else [''-a'', a]) @ args"
    using h none sa by (simp add: argsWithHarnessPermissionMode_def prependArgs_def)
  show skip: "\<not> argsContainAnyFlag (argsWithHarnessPermissionMode h args mode) [codexBypassFlag]"
    unfolding inj using v(1) n [of "[codexBypassFlag]"] codex_flags by (simp add: contain_flags codex_axis_def)
  have "flagValue (argsWithHarnessPermissionMode h args mode) [''-s'', ''--sandbox''] = Some s"
    unfolding inj
    by (rule flagValue_front) (use v(1) n [of "[''-s'', ''--sandbox'']"] codex_flags in \<open>simp_all add: contain_flags codex_axis_def\<close>)
  then show "EffectiveLaunchRung h (argsWithHarnessPermissionMode h args mode) mode = (if mode = ''auto'' then ''ask'' else codexRung mode)"
    using h skip v(2) by (simp add: EffectiveLaunchRung_def)
  show "EffectiveLaunchRung h args mode = codexRung mode"
    using h n [of "[codexBypassFlag]"] n [of "[''-s'', ''--sandbox'']"] n [of "[''-a'', ''--ask-for-approval'']"]
    by (simp add: EffectiveLaunchRung_def flagValue_def flag_scan_none codex_axis_def)
qed

text \<open>
  which rung a launch is reported at, once with the caller's argv and once with the argv after
  the wrapper put its own flags in. The two agree for every mode a launch accepts but one: codex's
  \<open>auto\<close> is put in as \<open>-s workspace-write -a never\<close>, and read back from there it is \<open>ask\<close>, a rung
  below the one the harness runs at.
\<close>

lemma launch_rung_injected:
  assumes "validatePermissionMode cfg = None" and "cf_permission cfg \<noteq> []"
  shows "EffectiveLaunchRung (cf_harness cfg) (argsWithHarnessPermissionMode (cf_harness cfg) args (cf_permission cfg)) (cf_permission cfg) =
    (if Canonical (cf_harness cfg) = ''codex'' \<and> cf_permission cfg = ''auto'' \<and> \<not> argsContainAnyFlag args codex_axis then ''ask''
     else EffectiveLaunchRung (cf_harness cfg) args (cf_permission cfg))"
  using validated_modes [OF assms]
proof (elim disjE conjE)
  assume h: "Canonical (cf_harness cfg) = ''claude-code''" and m: "cf_permission cfg \<in> set claude_modes"
  show ?thesis
    using inject_claude [OF h m, of args] h by (cases "argsContainAnyFlag args claude_axis") (simp_all add: argsWithHarnessPermissionMode_def)
next
  assume h: "Canonical (cf_harness cfg) = ''codex''" and m: "cf_permission cfg \<in> set codex_modes"
  show ?thesis
    using inject_codex [OF h m, of args] h by (cases "argsContainAnyFlag args codex_axis") (simp_all add: argsWithHarnessPermissionMode_def)
qed

text \<open>What the wrapper puts in front of the caller's arguments.\<close>

lemma no_dash: "f \<noteq> [] \<Longrightarrow> hd f = CHR ''-'' \<Longrightarrow> arg \<noteq> [] \<Longrightarrow> hd arg \<noteq> CHR ''-'' \<Longrightarrow> \<not> is_flag f arg"
  by (auto simp: is_flag_def neq_Nil_conv)

lemma axis_dash: "\<forall>f \<in> set (claude_axis @ codex_axis). f \<noteq> [] \<and> hd f = CHR ''-''"
  by code_simp

lemma own_flags: "\<forall>f \<in> set claude_axis. \<not> is_flag f ''--effort'' \<and> \<not> is_flag f ''--model''" "\<forall>f \<in> set codex_axis. \<not> is_flag f ''-c''"
  by code_simp+

lemma effort_values: "isSupportedEffort e \<Longrightarrow> e \<noteq> [] \<and> hd e \<noteq> CHR ''-''"
  by (auto simp: isSupportedEffort_def)

text \<open>Putting in effort and model adds no flag of the permission axis, for any part of that axis.\<close>

lemma effort_axis:
  assumes "cf_effort cfg = [] \<or> isSupportedEffort (cf_effort cfg)"
  shows "Canonical h = ''claude-code'' \<Longrightarrow> set fs \<subseteq> set claude_axis \<Longrightarrow>
      argsContainAnyFlag (argsWithHarnessEffort quote h args (cf_effort cfg)) fs = argsContainAnyFlag args fs"
    "Canonical h = ''codex'' \<Longrightarrow> set fs \<subseteq> set codex_axis \<Longrightarrow>
      argsContainAnyFlag (argsWithHarnessEffort quote h args (cf_effort cfg)) fs = argsContainAnyFlag args fs"
  using assms effort_values [of "cf_effort cfg"] own_flags axis_dash
  by (auto simp: argsWithHarnessEffort_def prependArgs_def contain_flags no_dash subset_iff)

lemma model_axis:
  "Canonical h = ''claude-code'' \<Longrightarrow> \<not> argsContainAnyFlag [m] claude_axis \<Longrightarrow> set fs \<subseteq> set claude_axis \<Longrightarrow>
     argsContainAnyFlag (argsWithHarnessModel quote h args m) fs = argsContainAnyFlag args fs"
  "Canonical h = ''codex'' \<Longrightarrow> set fs \<subseteq> set codex_axis \<Longrightarrow>
     argsContainAnyFlag (argsWithHarnessModel quote h args m) fs = argsContainAnyFlag args fs"
  using own_flags axis_dash by (auto simp: argsWithHarnessModel_def prependArgs_def contain_flags no_dash subset_iff)

text \<open>The flags of the permission axis, and the ones the wrapper writes for a mode.\<close>

definition axis :: "string \<Rightarrow> string list" where
  "axis h = (if Canonical h = ''claude-code'' then claude_axis else codex_axis)"

definition directive :: "string \<Rightarrow> string \<Rightarrow> string list" where
  "directive h mode =
     (if Canonical h = ''claude-code'' then [''--permission-mode'', claudePermissionMode mode]
      else case codexPermissionMode mode of (s, a) \<Rightarrow> if a = [] then [''-s'', s] else [''-s'', s, ''-a'', a])"

definition bypass_mode :: "string \<Rightarrow> string \<Rightarrow> bool" where
  "bypass_mode h mode = (if Canonical h = ''codex'' then isCodexBypassMode mode else IsBypassPermissionMode mode)"

lemma restricted_rungs:
  "\<forall>mode \<in> set claude_modes. IsBypassPermissionMode mode \<or> claudeRung mode \<notin> {''bypass'', []}"
  "\<forall>mode \<in> set codex_modes. isCodexBypassMode mode \<or> codexRung mode \<notin> {''bypass'', []}"
  by code_simp+

lemma validated:
  assumes "HarnessArgs quote contain cfg = Inr argv"
  shows "validatePermissionMode cfg = None" "cf_effort cfg = [] \<or> isSupportedEffort (cf_effort cfg)" "argv = launch_args quote cfg"
  using assms
  by (auto simp: HarnessArgs_def validateConfig_def validatePermissionMode_def launch_args_def Let_def split: option.splits if_splits)


text \<open>
  the same is not so when the model is one of the flags. A launch with the mode \<open>plan\<close> and a model
  of that text passes every check (they see the caller's arguments only), and its argv has no
  permission mode: the model's text is taken for one the caller gave.
\<close>

lemma launch_mode_dropped:
  "\<exists>cfg. cf_permission cfg = ''plan'' \<and> cf_args cfg = [] \<and>
     HarnessArgs quote (\<lambda>_. None) cfg = Inr [''--model'', SkipPermissionsFlag]"
proof -
  let ?cfg = "\<lparr>cf_binary = ''claude'', cf_args = [], cf_stdout = True, cf_idle_quiet = 0, cf_idle_classify = 0, cf_stale = 0,
    cf_wait_delay = 0, cf_harness = ''claude-code'', cf_effort = [], cf_model = SkipPermissionsFlag, cf_permission = ''plan'',
    cf_keep_alive = False, cf_queue_events = 0, cf_queue_bytes = 0\<rparr>"
  have c: "Canonical ''claude-code'' = ''claude-code''" by code_simp
  have f: "argsContainAnyFlag [''--model'', SkipPermissionsFlag] claude_axis" "\<not> argsContainAnyFlag [] fs" for fs by code_simp+
  have "HarnessArgs quote (\<lambda>_. None) ?cfg = Inr [''--model'', SkipPermissionsFlag]"
    using c f by (simp add: HarnessArgs_def validateConfig_def validatePermissionMode_def harnessSupportsPermissionMode_def harnessSupportsModel_def
        isSupportedPermissionMode_def launch_args_def argsWithHarnessEffort_def argsWithHarnessModel_def argsWithHarnessPermissionMode_def
        prependArgs_def BypassEnablingFlags_def list_ex_iff Let_def SkipPermissionsFlag_def)
  then show ?thesis by (intro exI [of _ ?cfg]) simp
qed

text \<open>
  C33: the thresholds after the defaults. They are positive, and in the order the configuration
  documents, quiet before classification before stale, except in exactly two cases: a caller that
  sets only a classification threshold below the default of 15 seconds for quiet, and one that sets
  a stale threshold below the classification threshold it left to its default.
\<close>

theorem config_defaults_order:
  assumes "validateConfig contain cfg = None"
  defines "d \<equiv> applyDefaults cfg"
  shows "0 < cf_idle_quiet d \<and> 0 < cf_idle_classify d \<and> cf_stale d \<noteq> 0 \<and>
    (cf_idle_classify d < cf_idle_quiet d \<longleftrightarrow> cf_idle_quiet cfg = 0 \<and> cf_idle_classify cfg \<noteq> 0 \<and> cf_idle_classify cfg < 15 * second) \<and>
    (0 < cf_stale d \<and> cf_stale d < cf_idle_classify d \<longleftrightarrow>
      0 < cf_stale cfg \<and> cf_idle_classify cfg = 0 \<and> cf_stale cfg < max (60 * second) (cf_idle_quiet d))"
  using assms(1)
  by (auto simp: d_def applyDefaults_def validateConfig_def Let_def split: if_splits)

section \<open>Witnesses\<close>

definition demo_config :: "string \<Rightarrow> string \<Rightarrow> config" where
  "demo_config h mode =
     \<lparr>cf_binary = ''bin'', cf_args = [''-v''], cf_stdout = True, cf_idle_quiet = 0, cf_idle_classify = 10 * second, cf_stale = 0,
      cf_wait_delay = 0, cf_harness = h, cf_effort = [], cf_model = ''opus'', cf_permission = mode,
      cf_keep_alive = False, cf_queue_events = 0, cf_queue_bytes = 0\<rparr>"

lemma demo_valid:
  "validateConfig (\<lambda>_. None) (demo_config ''codex'' ''auto'') = None" "validatePermissionMode (demo_config ''codex'' ''auto'') = None"
  by code_simp+


theorem config_defaults_order_witness:
  "cf_idle_classify (applyDefaults (demo_config ''codex'' ''auto'')) < cf_idle_quiet (applyDefaults (demo_config ''codex'' ''auto''))"
  using config_defaults_order [OF demo_valid(1)] by (simp add: demo_config_def)

end
