(* ===== verification/Wrap_Session.thy ===== *)
theory Wrap_Session
  imports Wrap_Classify Wrap_Launch "HOL-Library.Multiset"
begin

text \<open>
  A supervised run: \<^verbatim>\<open>internal/wrapcore/session.go\<close> and the exit of \<^verbatim>\<open>pty.go\<close>. The supervisor, the goroutine that polls the
  classifier and the one that reads the terminal take turns; a step is what one of them does between two places where
  another can run. The harness, the reader of the events, \<open>Stop\<close> and the context act at any time. A classifier gives a text on the left where
  it panics with it. The trace is left out.
\<close>

section \<open>Data\<close>

record classification =
  v_status :: string
  v_class :: WErrorClass
  v_reason :: string
  v_terminal :: bool
  v_http :: int
  v_retry :: int
  v_resume :: "instant option"
  v_mark :: int
  v_clear :: bool

record SessionEvent =
  se_status :: string
  se_class :: WErrorClass
  se_reason :: string
  se_terminated :: bool
  se_http :: int
  se_retry :: int
  se_resume :: "instant option"

record Result =
  r_status :: string
  r_class :: WErrorClass
  r_reason :: string
  r_exit :: int
  r_signal :: string

record superviseOutcome =
  o_terminal :: "classification option"
  o_stop :: bool
  o_failed :: bool
  o_last_class :: WErrorClass
  o_last_verdict :: "classification option"

record classifierState =
  k_last_seen :: int
  k_stale_emitted :: bool
  k_dispatched :: bool
  k_stale_enabled :: bool
  k_mark :: int
  k_through :: int
  k_quiet_passed :: bool

datatype supervision_error = ErrPTYRead string | ErrClassifierPanic string

text \<open>How the process ended, as \<^verbatim>\<open>os.ProcessState\<close> says it: an exit code, or a signal.\<close>

datatype proc_state = PExited int | PSignaled string

definition toInternalClassification :: "Classification \<Rightarrow> classification" where
  "toInternalClassification c =
     \<lparr>v_status = cl_status c, v_class = cl_class c, v_reason = cl_reason c, v_terminal = cl_terminal c, v_http = cl_http c,
      v_retry = cl_retry_after c, v_resume = cl_resume_at c, v_mark = 0, v_clear = False\<rparr>"

section \<open>The exit\<close>

definition ExitCode :: "proc_state \<Rightarrow> int" where
  "ExitCode p = (case p of PExited n \<Rightarrow> n | PSignaled _ \<Rightarrow> -1)"

definition signalFromState :: "proc_state \<Rightarrow> string" where
  "signalFromState p = (case p of PExited _ \<Rightarrow> [] | PSignaled s \<Rightarrow> s)"

definition classifyExit :: "proc_state option \<Rightarrow> bool \<Rightarrow> Result" where
  "classifyExit state cancelled =
     (let res = (\<lambda>st code sig reason. \<lparr>r_status = st, r_class = ErrNone, r_reason = reason, r_exit = code, r_signal = sig\<rparr>) in
      case state of
        None \<Rightarrow> res StatusUnknown (-1) [] ''process state unavailable''
      | Some p \<Rightarrow>
          if cancelled then res StatusInterrupted (ExitCode p) (signalFromState p) ''context cancelled''
          else
            case p of
              PExited n \<Rightarrow>
                if n = 0 then res StatusIdle 0 [] []
                else res StatusFailed n [] (''exit code '' @ itoa n)
            | PSignaled sig \<Rightarrow> res StatusInterrupted (ExitCode p) sig (''terminated by '' @ sig))"

text \<open>\<open>classifyOnExit\<close>: the verdict, and the panic of the classifier.\<close>

type_synonym pclassifier = "ClassifierInput \<Rightarrow> string + Classification"

definition classifyOnExit :: "pclassifier \<Rightarrow> bool \<Rightarrow> recentOutputBuffer \<Rightarrow> int \<Rightarrow> classification option \<times> string option" where
  "classifyOnExit cls keep b mark =
     (let inp = (if keep then \<lparr>ci_recent = fst (TextFrom b mark), ci_since = 0, ci_quiet = False, ci_idle = False\<rparr>
                 else \<lparr>ci_recent = rb_buf b, ci_since = 0, ci_quiet = False, ci_idle = True\<rparr>) in
      case cls inp of
        Inl d \<Rightarrow> (None, Some d)
      | Inr c \<Rightarrow>
          (if cl_status c = [] \<or> cl_status c = StatusWaitingForInput then None else Some (toInternalClassification c), None))"

definition resolveKeepAlive ::
    "pclassifier \<Rightarrow> recentOutputBuffer \<Rightarrow> superviseOutcome \<Rightarrow> Result \<Rightarrow> Result \<times> classification option \<times> string option" where
  "resolveKeepAlive cls b out res =
     (if o_stop out
      then (res\<lparr>r_status := StatusInterrupted, r_reason := if r_reason res = [] then ''stop requested'' else r_reason res\<rparr>, None, None)
      else if r_status res \<noteq> StatusFailed then (res, None, None)
      else
        let mark = (case o_last_verdict out of Some v \<Rightarrow> v_mark v | None \<Rightarrow> 0);
            (found, panicked) = classifyOnExit cls True b mark;
            explained = (if found = None \<and> rb_total b = mark then o_last_verdict out else found) in
        (case explained of Some v \<Rightarrow> res\<lparr>r_class := v_class v\<rparr> | None \<Rightarrow> res, explained, panicked))"

definition error_text :: "supervision_error \<Rightarrow> string" where
  "error_text e =
     (case e of ErrPTYRead d \<Rightarrow> ''wrapper: pty read failed: '' @ d | ErrClassifierPanic d \<Rightarrow> ''wrapper: classifier panicked: '' @ d)"

text \<open>\<open>failure\<close> is the text of the recorded supervision failure.\<close>

definition resolveActionable ::
    "pclassifier \<Rightarrow> bool \<Rightarrow> recentOutputBuffer \<Rightarrow> string \<Rightarrow> superviseOutcome \<Rightarrow> Result \<Rightarrow> Result \<times> classification option \<times> string option" where
  "resolveActionable cls keep b failure out res =
     (if o_failed out then (res\<lparr>r_status := StatusUnknown, r_reason := ''supervision failed: '' @ failure\<rparr>, None, None)
      else if keep then resolveKeepAlive cls b out res
      else
        let (actionable, panicked) =
              (if o_terminal out = None \<and> \<not> o_stop out \<and> r_status res = StatusFailed then classifyOnExit cls False b 0
               else (o_terminal out, None));
            res1 = (case actionable of Some v \<Rightarrow> res\<lparr>r_status := v_status v, r_reason := v_reason v\<rparr> | None \<Rightarrow> res);
            res2 = (case actionable of
                      Some v \<Rightarrow>
                        if v_class v \<noteq> ErrNone then res1\<lparr>r_class := v_class v\<rparr>
                        else if r_status res1 = StatusFailed then res1\<lparr>r_class := o_last_class out\<rparr> else res1
                    | None \<Rightarrow> if r_status res1 = StatusFailed then res1\<lparr>r_class := o_last_class out\<rparr> else res1);
            res3 = (if o_stop out \<and> o_terminal out = None
                    then res2\<lparr>r_status := StatusInterrupted, r_reason := if r_reason res2 = [] then ''stop requested'' else r_reason res2\<rparr>
                    else res2) in
        (res3, actionable, panicked))"

section \<open>Events\<close>

definition sessionEventSize :: "SessionEvent \<Rightarrow> int" where
  "sessionEventSize e = int (length (se_reason e)) + 128"

definition truncatedMark :: string where
  "truncatedMark = '' '' @ [CHR 0xE2, CHR 0x80, CHR 0xA6] @ ''[truncated]''"

fun back_to_rune :: "string \<Rightarrow> nat \<Rightarrow> nat" where
  "back_to_rune s 0 = 0"
| "back_to_rune s (Suc k) = (if rune_start (s ! Suc k) then Suc k else back_to_rune s k)"

definition truncateReason :: "string \<Rightarrow> int \<Rightarrow> string" where
  "truncateReason reason limit =
     (if int (length reason) \<le> limit then reason
      else
        let keep = limit - int (length truncatedMark) in
        if keep \<le> 0 then [] else take (back_to_rune reason (nat keep)) reason @ truncatedMark)"

text \<open>What of an event \<open>pushOnEvent\<close> gets into a queue that has room: it, with its reason cut to fit, or nothing.\<close>

definition push_fit :: "int \<Rightarrow> SessionEvent \<Rightarrow> SessionEvent list" where
  "push_fit maxBytes e =
     (if sessionEventSize e \<le> maxBytes then [e]
      else
        let e' = e\<lparr>se_reason := truncateReason (se_reason e) (maxBytes - 128)\<rparr> in
        if sessionEventSize e' \<le> maxBytes then [e'] else [])"

definition event_of :: "classification \<Rightarrow> SessionEvent" where
  "event_of c =
     \<lparr>se_status = v_status c, se_class = v_class c, se_reason = v_reason c, se_terminated = False, se_http = v_http c,
      se_retry = v_retry c, se_resume = v_resume c\<rparr>"

definition final_event :: "Result \<Rightarrow> classification option \<Rightarrow> SessionEvent" where
  "final_event res actionable =
     \<lparr>se_status = r_status res, se_class = r_class res, se_reason = r_reason res, se_terminated = True,
      se_http = (case actionable of Some v \<Rightarrow> v_http v | None \<Rightarrow> 0),
      se_retry = (case actionable of Some v \<Rightarrow> v_retry v | None \<Rightarrow> 0),
      se_resume = (case actionable of Some v \<Rightarrow> v_resume v | None \<Rightarrow> None)\<rparr>"

section \<open>The session\<close>

text \<open>
  Where the classifier goroutine is: between two ticks, handing a status change to \<open>Events()\<close> and then to \<open>OnEvent\<close>, about to
  run its pass with the time since the last output and whether that is quiet or idle, handing a result to the supervisor, or
  returned. Where the supervisor is: waiting in \<open>awaitTermination\<close>, handing a change on (and whether it ends the run then),
  waiting for the harness that it told to end, past the harness's end, waiting for the classifier, for the output, or done.
\<close>

datatype cls_pc = CIdle | CEmit SessionEvent "int \<times> bool \<times> bool" | CPush SessionEvent "int \<times> bool \<times> bool"
  | CPass "int \<times> bool \<times> bool" | CHand classification | CDone

datatype sup_pc = SWait | SEmit SessionEvent bool | SPush SessionEvent bool | STerm | SReaped | SJoin | SDrain | SDone

text \<open>
  \<open>s_events\<close> is the channel, of 16 places; \<open>s_emitted\<close> is everything given to it, \<open>s_pushed\<close> what \<open>OnEvent\<close>'s queue took
  and \<open>s_hist\<close> the changes of the Snapshot that \<open>recordStatusChange\<close> made. \<open>s_exit\<close> is how the process ended, once it is reaped.
\<close>

record wsession =
  s_recent :: recentOutputBuffer
  s_last :: int
  s_snap :: "string \<times> string"
  s_ch :: "classification option"
  s_k :: classifierState
  s_cls :: cls_pc
  s_sup :: sup_pc
  s_out :: superviseOutcome
  s_stop :: bool
  s_ctx :: bool
  s_failed :: bool
  s_err :: "supervision_error option"
  s_out_done :: bool
  s_stopping :: bool
  s_exit :: "proc_state option"
  s_result :: "Result option"
  s_events :: "SessionEvent list"
  s_emitted :: "SessionEvent list"
  s_pushed :: "SessionEvent list"
  s_hist :: "(string \<times> string) list"

definition wrap_newSession :: "config \<Rightarrow> wsession" where
  "wrap_newSession cfg =
     \<lparr>s_recent = newRecentOutput (64 * 1024), s_last = 0, s_snap = ([], []), s_ch = None,
      s_k = \<lparr>k_last_seen = -1, k_stale_emitted = False, k_dispatched = False, k_stale_enabled = 0 < cf_stale cfg, k_mark = 0,
              k_through = 0, k_quiet_passed = False\<rparr>,
      s_cls = CIdle, s_sup = SWait,
      s_out = \<lparr>o_terminal = None, o_stop = False, o_failed = False, o_last_class = ErrNone, o_last_verdict = None\<rparr>,
      s_stop = False, s_ctx = False, s_failed = False, s_err = None, s_out_done = False, s_stopping = False, s_exit = None,
      s_result = None, s_events = [], s_emitted = [], s_pushed = [], s_hist = []\<rparr>"

definition fail :: "supervision_error \<Rightarrow> wsession \<Rightarrow> wsession" where
  "fail e s = s\<lparr>s_err := if s_err s = None \<and> s_result s = None then Some e else s_err s, s_failed := True\<rparr>"

text \<open>The part of \<open>recordStatusChange\<close> under the mutex; an event comes of it when something changed.\<close>

definition recordStatusChange :: "classification \<Rightarrow> wsession \<Rightarrow> SessionEvent option \<times> wsession" where
  "recordStatusChange c s =
     (if s_snap s = (v_status c, v_reason c) then (None, s)
      else (Some (event_of c), s\<lparr>s_snap := (v_status c, v_reason c), s_hist := s_hist s @ [(v_status c, v_reason c)]\<rparr>))"

definition clearStatus :: "wsession \<Rightarrow> wsession" where
  "clearStatus s = s\<lparr>s_snap := ([], [])\<rparr>"

definition emitEvent :: "SessionEvent \<Rightarrow> wsession \<Rightarrow> wsession" where
  "emitEvent e s =
     s\<lparr>s_emitted := s_emitted s @ [e], s_events := if length (s_events s) < 16 then s_events s @ [e] else s_events s\<rparr>"

section \<open>The classifier goroutine\<close>

definition round_second :: "int \<Rightarrow> int" where
  "round_second d = (d + 5 * 10 ^ 8) div 10 ^ 9"

text \<open>\<^verbatim>\<open>Duration.String\<close> of whole seconds.\<close>

definition duration_text :: "int \<Rightarrow> string" where
  "duration_text n =
     (if n < 60 then itoa n @ ''s''
      else if n < 3600 then itoa (n div 60) @ ''m'' @ itoa (n mod 60) @ ''s''
      else itoa (n div 3600) @ ''h'' @ itoa (n mod 3600 div 60) @ ''m'' @ itoa (n mod 60) @ ''s'')"

definition stale_change :: "int \<Rightarrow> classification" where
  "stale_change since =
     \<lparr>v_status = StatusStale, v_class = ErrNone, v_reason = ''no output for '' @ duration_text (round_second since),
      v_terminal = False, v_http = 0, v_retry = 0, v_resume = None, v_mark = 0, v_clear = False\<rparr>"

text \<open>\<open>onTick\<close> and \<open>onTickKeepAlive\<close> up to the pass: the counters, the thresholds, and the status change of a stale run.\<close>

definition see_output :: "config \<Rightarrow> int \<Rightarrow> classifierState \<Rightarrow> classifierState" where
  "see_output cfg at k =
     (if at \<noteq> k_last_seen k
      then k\<lparr>k_last_seen := at, k_stale_emitted := False, k_quiet_passed := if cf_keep_alive cfg then False else k_quiet_passed k\<rparr>
      else k)"

definition tick_view :: "config \<Rightarrow> int \<Rightarrow> wsession \<Rightarrow> int \<times> bool \<times> bool" where
  "tick_view cfg now s =
     (let since = now - s_last s; changed = (s_last s \<noteq> k_last_seen (s_k s)) in
      (since, \<not> changed \<and> cf_idle_quiet cfg \<le> since, \<not> cf_keep_alive cfg \<and> \<not> changed \<and> cf_idle_classify cfg \<le> since))"

definition turns_stale :: "config \<Rightarrow> int \<Rightarrow> wsession \<Rightarrow> bool" where
  "turns_stale cfg now s \<longleftrightarrow>
     s_last s = k_last_seen (s_k s) \<and> k_stale_enabled (s_k s) \<and> cf_stale cfg \<le> now - s_last s \<and> \<not> k_stale_emitted (s_k s)"

definition tick :: "config \<Rightarrow> int \<Rightarrow> wsession \<Rightarrow> wsession" where
  "tick cfg now s =
     (if s_last s = 0 then s
      else
        let k = see_output cfg (s_last s) (s_k s); view = tick_view cfg now s in
        if turns_stale cfg now s
        then (case recordStatusChange (stale_change (now - s_last s)) (s\<lparr>s_k := k\<lparr>k_stale_emitted := True\<rparr>\<rparr>) of
                (Some e, s') \<Rightarrow> s'\<lparr>s_cls := CEmit e view\<rparr>
              | (None, s') \<Rightarrow> s'\<lparr>s_cls := CPass view\<rparr>)
        else s\<lparr>s_k := k, s_cls := CPass view\<rparr>)"

definition dispatchClassification :: "pclassifier \<Rightarrow> int \<times> bool \<times> bool \<Rightarrow> wsession \<Rightarrow> wsession" where
  "dispatchClassification cls p s =
     (case p of (since, quiet, idle) \<Rightarrow>
        case cls \<lparr>ci_recent = rb_buf (s_recent s), ci_since = since, ci_quiet = quiet, ci_idle = idle\<rparr> of
          Inl d \<Rightarrow> (fail (ErrClassifierPanic d) s)\<lparr>s_cls := CDone\<rparr>
        | Inr c \<Rightarrow>
            if cl_status c = [] \<or> s_ch s \<noteq> None then s\<lparr>s_cls := CIdle\<rparr>
            else s\<lparr>s_ch := Some (toInternalClassification c), s_cls := CIdle,
                   s_k := if cl_terminal c then (s_k s)\<lparr>k_dispatched := True\<rparr> else s_k s\<rparr>)"

definition keep_alive_pass :: "pclassifier \<Rightarrow> int \<times> bool \<times> bool \<Rightarrow> wsession \<Rightarrow> wsession" where
  "keep_alive_pass cls p s =
     (case p of (since, quiet, _) \<Rightarrow>
        let k = s_k s; new = (rb_total (s_recent s) \<noteq> k_through k) in
        if \<not> new \<and> (\<not> quiet \<or> k_quiet_passed k) then s\<lparr>s_cls := CIdle\<rparr>
        else
          let (recent, through) = TextFrom (s_recent s) (k_mark k);
              k1 = k\<lparr>k_through := through, k_quiet_passed := quiet \<or> k_quiet_passed k\<rparr> in
          case cls \<lparr>ci_recent = recent, ci_since = since, ci_quiet = quiet, ci_idle = False\<rparr> of
            Inl d \<Rightarrow> (fail (ErrClassifierPanic d) s)\<lparr>s_k := k1, s_cls := CDone\<rparr>
          | Inr c \<Rightarrow>
              if cl_status c = []
              then s\<lparr>s_k := k1, s_cls := if new then CHand ((toInternalClassification no_classification)\<lparr>v_clear := True\<rparr>) else CIdle\<rparr>
              else s\<lparr>s_k := k1\<lparr>k_mark := through\<rparr>, s_cls := CHand ((toInternalClassification c)\<lparr>v_mark := through\<rparr>)\<rparr>)"

definition pass :: "pclassifier \<Rightarrow> config \<Rightarrow> int \<times> bool \<times> bool \<Rightarrow> wsession \<Rightarrow> wsession" where
  "pass cls cfg p s =
     (if cf_keep_alive cfg then keep_alive_pass cls p s
      else if k_dispatched (s_k s) then s\<lparr>s_cls := CIdle\<rparr>
      else dispatchClassification cls p s)"

section \<open>The supervisor\<close>

text \<open>\<open>awaitTermination\<close> with a result of the classifier.\<close>

definition sup_record :: "classification \<Rightarrow> bool \<Rightarrow> wsession \<Rightarrow> wsession" where
  "sup_record c ends s =
     (case recordStatusChange c s of
        (Some e, s') \<Rightarrow> s'\<lparr>s_sup := SEmit e ends\<rparr>
      | (None, s') \<Rightarrow> s'\<lparr>s_sup := if ends then STerm else SWait\<rparr>)"

definition take_result :: "config \<Rightarrow> classification \<Rightarrow> wsession \<Rightarrow> wsession" where
  "take_result cfg c s =
     (let s0 = s\<lparr>s_ch := None\<rparr> in
      if v_clear c then clearStatus s0
      else
        let out = s_out s;
            out1 = (if v_class c \<noteq> ErrNone then out\<lparr>o_last_class := v_class c\<rparr> else out) in
        if cf_keep_alive cfg then sup_record c False (s0\<lparr>s_out := out1\<lparr>o_last_verdict := Some c\<rparr>\<rparr>)
        else if \<not> v_terminal c then sup_record c False (s0\<lparr>s_out := out1\<rparr>)
        else sup_record c True (s0\<lparr>s_out := out1\<lparr>o_terminal := Some c\<rparr>\<rparr>))"

text \<open>The end of \<open>supervise\<close>; the queue takes the last event whatever room it has.\<close>

definition finalize :: "pclassifier \<Rightarrow> config \<Rightarrow> bool \<Rightarrow> wsession \<Rightarrow> wsession" where
  "finalize cls cfg onEvent s =
     (case resolveActionable cls (cf_keep_alive cfg) (s_recent s) (case s_err s of Some e \<Rightarrow> error_text e | None \<Rightarrow> [])
             (s_out s) (classifyExit (s_exit s) (s_ctx s)) of
        (res, actionable, panicked) \<Rightarrow>
          let s1 = (case panicked of Some d \<Rightarrow> fail (ErrClassifierPanic d) s | None \<Rightarrow> s);
              final = final_event res actionable in
          (emitEvent final (s1\<lparr>s_result := Some res, s_snap := (r_status res, r_reason res)\<rparr>))
            \<lparr>s_pushed := if onEvent then s_pushed s @ [final] else s_pushed s, s_sup := SDone\<rparr>)"

section \<open>Runs\<close>

definition classifier_on_closed :: "wsession \<Rightarrow> bool" where
  "classifier_on_closed s \<longleftrightarrow> s_sup s \<in> {SJoin, SDrain, SDone}"

text \<open>\<open>on\<close> is the byte bound of \<open>OnEvent\<close>'s queue, when there is a callback.\<close>

inductive wstep :: "pclassifier \<Rightarrow> config \<Rightarrow> int option \<Rightarrow> wsession \<Rightarrow> wsession \<Rightarrow> bool"
  for cls :: pclassifier and cfg :: config and on :: "int option" where
  w_output: "\<not> s_out_done s \<Longrightarrow> p \<noteq> [] \<Longrightarrow> 0 < now \<Longrightarrow>
      wstep cls cfg on s (s\<lparr>s_last := now, s_recent := rb_write (s_recent s) p\<rparr>)"
| w_output_end: "\<not> s_out_done s \<Longrightarrow> wstep cls cfg on s (s\<lparr>s_out_done := True\<rparr>)"
| w_output_error: "\<not> s_out_done s \<Longrightarrow> \<not> s_stopping s \<Longrightarrow> wstep cls cfg on s ((fail (ErrPTYRead d) s)\<lparr>s_out_done := True\<rparr>)"
| w_tick: "s_cls s = CIdle \<Longrightarrow> wstep cls cfg on s (tick cfg now s)"
| w_cls_emit: "s_cls s = CEmit e p \<Longrightarrow> wstep cls cfg on s ((emitEvent e s)\<lparr>s_cls := if on = None then CPass p else CPush e p\<rparr>)"
| w_cls_push: "s_cls s = CPush e p \<Longrightarrow> on = Some n \<Longrightarrow> wstep cls cfg on s (s\<lparr>s_pushed := s_pushed s @ push_fit n e, s_cls := CPass p\<rparr>)"
| w_cls_abort: "s_cls s = CPush e p \<Longrightarrow> s_stop s \<Longrightarrow> wstep cls cfg on s (s\<lparr>s_cls := CPass p\<rparr>)"
| w_pass: "s_cls s = CPass p \<Longrightarrow> wstep cls cfg on s (pass cls cfg p s)"
| w_hand: "s_cls s = CHand c \<Longrightarrow> s_ch s = None \<Longrightarrow> wstep cls cfg on s (s\<lparr>s_ch := Some c, s_cls := CIdle\<rparr>)"
| w_hand_off: "s_cls s = CHand c \<Longrightarrow> s_ctx s \<or> classifier_on_closed s \<Longrightarrow> wstep cls cfg on s (s\<lparr>s_cls := CIdle\<rparr>)"
| w_cls_return: "s_cls s = CIdle \<Longrightarrow> s_ctx s \<or> classifier_on_closed s \<Longrightarrow> wstep cls cfg on s (s\<lparr>s_cls := CDone\<rparr>)"
| w_take: "s_sup s = SWait \<Longrightarrow> s_ch s = Some c \<Longrightarrow> wstep cls cfg on s (take_result cfg c s)"
| w_sup_emit: "s_sup s = SEmit e ends \<Longrightarrow>
      wstep cls cfg on s ((emitEvent e s)\<lparr>s_sup := if on = None then (if ends then STerm else SWait) else SPush e ends\<rparr>)"
| w_sup_push: "s_sup s = SPush e ends \<Longrightarrow> on = Some n \<Longrightarrow>
      wstep cls cfg on s (s\<lparr>s_pushed := s_pushed s @ push_fit n e, s_sup := if ends then STerm else SWait\<rparr>)"
| w_sup_abort: "s_sup s = SPush e ends \<Longrightarrow> s_stop s \<Longrightarrow> wstep cls cfg on s (s\<lparr>s_sup := if ends then STerm else SWait\<rparr>)"
| w_stopped: "s_sup s = SWait \<Longrightarrow> s_stop s \<Longrightarrow> wstep cls cfg on s (s\<lparr>s_out := (s_out s)\<lparr>o_stop := True\<rparr>, s_sup := STerm\<rparr>)"
| w_failed: "s_sup s = SWait \<Longrightarrow> s_failed s \<Longrightarrow> wstep cls cfg on s (s\<lparr>s_out := (s_out s)\<lparr>o_failed := True\<rparr>, s_sup := STerm\<rparr>)"
| w_exit: "s_sup s = SWait \<or> s_sup s = STerm \<Longrightarrow> wstep cls cfg on s (s\<lparr>s_exit := pst, s_sup := SReaped\<rparr>)"
| w_finish: "s_sup s = SReaped \<Longrightarrow> wstep cls cfg on s (s\<lparr>s_sup := SJoin\<rparr>)"
| w_joined: "s_sup s = SJoin \<Longrightarrow> s_cls s = CDone \<Longrightarrow> wstep cls cfg on s (s\<lparr>s_sup := SDrain\<rparr>)"
| w_stop_output: "s_sup s = SDrain \<Longrightarrow> wstep cls cfg on s (s\<lparr>s_stopping := True\<rparr>)"
| w_final: "s_sup s = SDrain \<Longrightarrow> s_out_done s \<Longrightarrow> s_stopping s \<Longrightarrow> wstep cls cfg on s (finalize cls cfg (on \<noteq> None) s)"
| w_Stop: "wstep cls cfg on s (s\<lparr>s_stop := True\<rparr>)"
| w_cancel: "wstep cls cfg on s (s\<lparr>s_ctx := True\<rparr>)"
| w_read: "s_events s = e # es \<Longrightarrow> wstep cls cfg on s (s\<lparr>s_events := es\<rparr>)"

definition winit :: "config \<Rightarrow> wsession \<Rightarrow> bool" where
  "winit cfg s \<longleftrightarrow> s = wrap_newSession cfg"

section \<open>What an operation leaves alone\<close>

lemma fail_fields [simp]:
  "s_sup (fail e s) = s_sup s" "s_cls (fail e s) = s_cls s" "s_emitted (fail e s) = s_emitted s" "s_pushed (fail e s) = s_pushed s"
  "s_result (fail e s) = s_result s" "s_out (fail e s) = s_out s" "s_failed (fail e s)" "s_snap (fail e s) = s_snap s"
  "s_hist (fail e s) = s_hist s" "s_ch (fail e s) = s_ch s" "s_out_done (fail e s) = s_out_done s" "s_recent (fail e s) = s_recent s"
  "s_exit (fail e s) = s_exit s" "s_ctx (fail e s) = s_ctx s" "s_k (fail e s) = s_k s"
  by (simp_all add: fail_def)

lemma fail_err: "s_result s = None \<Longrightarrow> \<exists>y. s_err (fail e s) = Some y"
  by (auto simp: fail_def)

lemma emitEvent_fields [simp]:
  "s_sup (emitEvent e s) = s_sup s" "s_cls (emitEvent e s) = s_cls s" "s_pushed (emitEvent e s) = s_pushed s"
  "s_emitted (emitEvent e s) = s_emitted s @ [e]" "s_result (emitEvent e s) = s_result s" "s_out (emitEvent e s) = s_out s"
  "s_failed (emitEvent e s) = s_failed s" "s_err (emitEvent e s) = s_err s" "s_snap (emitEvent e s) = s_snap s"
  "s_hist (emitEvent e s) = s_hist s" "s_ch (emitEvent e s) = s_ch s" "s_out_done (emitEvent e s) = s_out_done s"
  by (simp_all add: emitEvent_def)

lemma event_of_running [simp]: "\<not> se_terminated (event_of c)"
  by (simp add: event_of_def)

lemma push_fit_running: "e' \<in> set (push_fit n e) \<Longrightarrow> se_terminated e' = se_terminated e"
  by (auto simp: push_fit_def Let_def split: if_splits)

text \<open>What a tick, a pass and a result taken come to.\<close>

lemma tick_view_idle: "cf_keep_alive cfg \<Longrightarrow> \<not> snd (snd (tick_view cfg now s))"
  by (simp add: tick_view_def Let_def)

lemma tick_cases:
  obtains (none) "tick cfg now s = s"
  | (plain) k where "tick cfg now s = s\<lparr>s_k := k, s_cls := CPass (tick_view cfg now s)\<rparr>"
  | (stale) k c where "tick cfg now s = s\<lparr>s_k := k, s_snap := (v_status c, v_reason c), s_hist := s_hist s @ [(v_status c, v_reason c)],
      s_cls := CEmit (event_of c) (tick_view cfg now s)\<rparr>" "s_snap s \<noteq> (v_status c, v_reason c)"
proof -
  let ?c = "stale_change (now - s_last s)" and ?k = "see_output cfg (s_last s) (s_k s)"
  consider "s_last s = 0" | "s_last s \<noteq> 0" "\<not> turns_stale cfg now s"
    | "s_last s \<noteq> 0" "turns_stale cfg now s" "s_snap s = (v_status ?c, v_reason ?c)"
    | "s_last s \<noteq> 0" "turns_stale cfg now s" "s_snap s \<noteq> (v_status ?c, v_reason ?c)" by blast
  then show ?thesis
  proof cases
    case 1
    show ?thesis by (rule none) (simp add: tick_def 1)
  next
    case 2
    show ?thesis by (rule plain [of ?k]) (simp add: tick_def Let_def 2)
  next
    case 3
    show ?thesis by (rule plain [of "?k\<lparr>k_stale_emitted := True\<rparr>"]) (simp add: tick_def Let_def recordStatusChange_def 3)
  next
    case 4
    show ?thesis by (rule stale [where k = "?k\<lparr>k_stale_emitted := True\<rparr>" and c = ?c]) (simp_all add: tick_def Let_def recordStatusChange_def 4)
  qed
qed

lemma pass_cases:
  obtains (idle) k where "pass cls cfg p s = s\<lparr>s_k := k, s_cls := CIdle\<rparr>"
  | (sent) k c where "pass cls cfg p s = s\<lparr>s_k := k, s_cls := CIdle, s_ch := Some c\<rparr>" "\<not> v_clear c" "\<not> cf_keep_alive cfg"
  | (panic) k d where "pass cls cfg p s = (fail (ErrClassifierPanic d) s)\<lparr>s_k := k, s_cls := CDone\<rparr>"
  | (hand) k c where "pass cls cfg p s = s\<lparr>s_k := k, s_cls := CHand c\<rparr>" "cf_keep_alive cfg"
proof -
  obtain since quiet i where p: "p = (since, quiet, i)" by (cases p)
  show ?thesis
  proof (cases "cf_keep_alive cfg")
    case True
    obtain recent through where tf: "TextFrom (s_recent s) (k_mark (s_k s)) = (recent, through)" by fastforce
    show ?thesis
    proof (cases "rb_total (s_recent s) = k_through (s_k s) \<and> (\<not> quiet \<or> k_quiet_passed (s_k s))")
      case True
      show ?thesis by (rule idle [of "s_k s"]) (use \<open>cf_keep_alive cfg\<close> True in \<open>simp add: pass_def keep_alive_pass_def p Let_def\<close>)
    next
      case False
      note step = pass_def keep_alive_pass_def p Let_def tf
      show ?thesis
      proof (cases "cls \<lparr>ci_recent = recent, ci_since = since, ci_quiet = quiet, ci_idle = False\<rparr>")
        case (Inl d)
        show ?thesis by (rule panic) (use True False Inl in \<open>auto simp: step\<close>)
      next
        case (Inr c)
        consider "cl_status c \<noteq> []" | "cl_status c = []" "rb_total (s_recent s) = k_through (s_k s)"
          | "cl_status c = []" "rb_total (s_recent s) \<noteq> k_through (s_k s)" by blast
        then show ?thesis
        proof cases
          case 1
          show ?thesis by (rule hand) (use True False Inr 1 in \<open>auto simp: step\<close>)
        next
          case 2
          show ?thesis by (rule idle) (use True False Inr 2 in \<open>auto simp: step\<close>)
        next
          case 3
          show ?thesis by (rule hand) (use True False Inr 3 in \<open>auto simp: step\<close>)
        qed
      qed
    qed
  next
    case False
    note step = pass_def dispatchClassification_def p Let_def
    show ?thesis
    proof (cases "k_dispatched (s_k s)")
      case True
      show ?thesis by (rule idle [of "s_k s"]) (use False True in \<open>simp add: step\<close>)
    next
      case nd: False
      show ?thesis
      proof (cases "cls \<lparr>ci_recent = rb_buf (s_recent s), ci_since = since, ci_quiet = quiet, ci_idle = i\<rparr>")
        case (Inl d)
        show ?thesis by (rule panic [where k = "s_k s" and d = d]) (use False nd Inl in \<open>simp add: step fail_def\<close>)
      next
        case (Inr c)
        show ?thesis
        proof (cases "cl_status c = [] \<or> s_ch s \<noteq> None")
          case True
          show ?thesis by (rule idle [of "s_k s"]) (use False nd Inr True in \<open>simp add: step\<close>)
        next
          case ns: False
          show ?thesis
            by (rule sent [where k = "if cl_terminal c then (s_k s)\<lparr>k_dispatched := True\<rparr> else s_k s" and c = "toInternalClassification c"])
              (use False nd Inr ns in \<open>simp_all add: step toInternalClassification_def\<close>)
        qed
      qed
    qed
  qed
qed

definition out_after :: "config \<Rightarrow> classification \<Rightarrow> superviseOutcome \<Rightarrow> superviseOutcome" where
  "out_after cfg c out =
     (let out1 = (if v_class c \<noteq> ErrNone then out\<lparr>o_last_class := v_class c\<rparr> else out) in
      if cf_keep_alive cfg then out1\<lparr>o_last_verdict := Some c\<rparr> else if v_terminal c then out1\<lparr>o_terminal := Some c\<rparr> else out1)"

definition ends_run :: "config \<Rightarrow> classification \<Rightarrow> bool" where
  "ends_run cfg c \<longleftrightarrow> \<not> cf_keep_alive cfg \<and> v_terminal c"

lemma out_after_fields [simp]:
  "o_stop (out_after cfg c out) = o_stop out" "o_failed (out_after cfg c out) = o_failed out"
  "cf_keep_alive cfg \<Longrightarrow> o_terminal (out_after cfg c out) = o_terminal out"
  by (simp_all add: out_after_def Let_def)

lemma take_result_cases:
  obtains (clear) "v_clear c" "take_result cfg c s = s\<lparr>s_ch := None, s_snap := ([], [])\<rparr>"
  | (same) "\<not> v_clear c" "s_snap s = (v_status c, v_reason c)"
      "take_result cfg c s = s\<lparr>s_ch := None, s_out := out_after cfg c (s_out s), s_sup := if ends_run cfg c then STerm else SWait\<rparr>"
  | (changed) "\<not> v_clear c" "s_snap s \<noteq> (v_status c, v_reason c)"
      "take_result cfg c s = s\<lparr>s_ch := None, s_out := out_after cfg c (s_out s), s_snap := (v_status c, v_reason c),
        s_hist := s_hist s @ [(v_status c, v_reason c)], s_sup := SEmit (event_of c) (ends_run cfg c)\<rparr>"
proof -
  consider "v_clear c" | "\<not> v_clear c" "s_snap s = (v_status c, v_reason c)" | "\<not> v_clear c" "s_snap s \<noteq> (v_status c, v_reason c)"
    by blast
  then show ?thesis
  proof cases
    case 1
    show ?thesis by (rule clear) (simp_all add: 1 take_result_def clearStatus_def Let_def)
  next
    case 2
    show ?thesis
      by (rule same) (simp_all add: 2 take_result_def sup_record_def recordStatusChange_def out_after_def ends_run_def Let_def)
  next
    case 3
    show ?thesis
      by (rule changed) (simp_all add: 3 take_result_def sup_record_def recordStatusChange_def out_after_def ends_run_def Let_def)
  qed
qed

section \<open>The core invariant\<close>

abbreviation unfinished :: "SessionEvent list \<Rightarrow> bool" where
  "unfinished es \<equiv> list_all (\<lambda>e. \<not> se_terminated e) es"

fun cls_pending :: "cls_pc \<Rightarrow> SessionEvent list" where
  "cls_pending (CEmit e _) = [e]"
| "cls_pending (CPush e _) = [e]"
| "cls_pending _ = []"

fun sup_pending :: "sup_pc \<Rightarrow> SessionEvent list" where
  "sup_pending (SEmit e _) = [e]"
| "sup_pending (SPush e _) = [e]"
| "sup_pending _ = []"

definition w_run :: "wsession \<Rightarrow> bool" where
  "w_run s \<longleftrightarrow> s_result s = None \<and> unfinished (s_emitted s) \<and> unfinished (s_pushed s) \<and> unfinished (cls_pending (s_cls s)) \<and>
     unfinished (sup_pending (s_sup s)) \<and> (s_failed s \<longrightarrow> s_err s \<noteq> None) \<and> (o_failed (s_out s) \<longrightarrow> s_failed s) \<and>
     (s_sup s = SDrain \<longrightarrow> s_cls s = CDone)"

definition w_final_ok :: "bool \<Rightarrow> wsession \<Rightarrow> bool" where
  "w_final_ok on s \<longleftrightarrow> s_cls s = CDone \<and> s_out_done s \<and>
     (\<exists>res act. s_result s = Some res \<and> s_snap s = (r_status res, r_reason res) \<and>
       (\<exists>es. s_emitted s = es @ [final_event res act] \<and> unfinished es) \<and>
       (on \<longrightarrow> (\<exists>es. s_pushed s = es @ [final_event res act] \<and> unfinished es)))"

definition w_core :: "bool \<Rightarrow> wsession \<Rightarrow> bool" where
  "w_core on s \<longleftrightarrow> (if s_sup s = SDone then w_final_ok on s else w_run s)"

lemma push_fit_run: "\<not> se_terminated e \<Longrightarrow> unfinished (push_fit n e)"
  by (auto simp: list_all_iff push_fit_running)

lemma w_run_finalize: "w_run s \<Longrightarrow> s_sup s = SDrain \<Longrightarrow> s_out_done s \<Longrightarrow> w_final_ok on (finalize cls cfg on s)"
  by (auto simp: w_run_def w_final_ok_def finalize_def Let_def split: prod.split option.split)

lemma w_core_step:
  assumes "w_core (on \<noteq> None) s" and "wstep cls cfg on s t"
  shows "w_core (on \<noteq> None) t"
  using assms(2,1)
proof cases
  case (w_tick now)
  then show ?thesis using assms(1)
    by (cases rule: tick_cases [of cfg now s]) (auto simp: w_core_def w_run_def w_final_ok_def)
next
  case (w_pass p)
  then show ?thesis using assms(1)
    by (cases rule: pass_cases [of cls cfg p s]) (auto simp: w_core_def w_run_def w_final_ok_def fail_err)
next
  case (w_take c)
  then show ?thesis using assms(1)
    by (cases rule: take_result_cases [of c cfg s]) (auto simp: w_core_def w_run_def)
next
  case w_final
  then show ?thesis using assms(1) w_run_finalize [of s "on \<noteq> None" cls cfg]
    by (auto simp: w_core_def finalize_def Let_def split: prod.split)
next
  case (w_output_error d)
  then show ?thesis using assms(1) fail_err [of s "ErrPTYRead d"] by (auto simp: w_core_def w_run_def w_final_ok_def)
qed (auto simp: w_core_def w_run_def w_final_ok_def push_fit_run)

lemma w_core_init: "winit cfg s \<Longrightarrow> w_core on s"
  by (simp add: winit_def wrap_newSession_def w_core_def w_run_def)

interpretation wcore: inductive_invariant "winit cfg" "wstep cls cfg on" "w_core (on \<noteq> None)" for cls cfg on
  by unfold_locales (erule w_core_init, erule (1) w_core_step)

section \<open>Keep-alive\<close>

text \<open>A verdict ends no run, and is none of the results.\<close>

definition w_keep :: "wsession \<Rightarrow> bool" where
  "w_keep s \<longleftrightarrow> o_terminal (s_out s) = None \<and> (\<forall>e. s_sup s \<noteq> SEmit e True \<and> s_sup s \<noteq> SPush e True) \<and>
     (s_sup s = STerm \<longrightarrow> o_stop (s_out s) \<or> o_failed (s_out s)) \<and> (o_stop (s_out s) \<longrightarrow> s_stop s) \<and>
     (\<forall>res. s_result s = Some res \<longrightarrow> r_status res \<in> {StatusIdle, StatusFailed, StatusInterrupted, StatusUnknown})"

lemma classifyExit_status: "r_status (classifyExit p c) \<in> {StatusIdle, StatusFailed, StatusInterrupted, StatusUnknown}"
  by (auto simp: classifyExit_def Let_def split: option.split proc_state.split)

lemma resolveKeepAlive_status:
  "r_status (fst (resolveKeepAlive cls b out res)) = (if o_stop out then StatusInterrupted else r_status res)"
  by (auto simp: resolveKeepAlive_def Let_def split: prod.split option.split)

lemma resolve_keep_status:
  "r_status res \<in> {StatusIdle, StatusFailed, StatusInterrupted, StatusUnknown} \<Longrightarrow>
     r_status (fst (resolveActionable cls True b f out res)) \<in> {StatusIdle, StatusFailed, StatusInterrupted, StatusUnknown}"
  by (simp add: resolveActionable_def resolveKeepAlive_status)

lemma w_keep_finalize:
  assumes "cf_keep_alive cfg" and "w_keep s"
  shows "w_keep (finalize cls cfg on s)"
proof -
  obtain res act pan where r: "resolveActionable cls True (s_recent s) (case s_err s of Some e \<Rightarrow> error_text e | None \<Rightarrow> [])
      (s_out s) (classifyExit (s_exit s) (s_ctx s)) = (res, act, pan)" by (cases rule: prod_cases3)
  have "r_status res \<in> {StatusIdle, StatusFailed, StatusInterrupted, StatusUnknown}"
    using resolve_keep_status [OF classifyExit_status, of cls "s_recent s" _ "s_out s" "s_exit s" "s_ctx s"] r by (metis fst_conv)
  then show ?thesis using assms
    by (auto simp: finalize_def r w_keep_def Let_def fail_def emitEvent_def split: option.split)
qed

lemma w_keep_step:
  assumes "cf_keep_alive cfg" and "w_keep s" and "wstep cls cfg on s t"
  shows "w_keep t"
  using assms(3)
proof cases
  case (w_tick now)
  then show ?thesis using assms(2) by (cases rule: tick_cases [of cfg now s]) (auto simp: w_keep_def)
next
  case (w_pass p)
  then show ?thesis using assms(2) by (cases rule: pass_cases [of cls cfg p s]) (auto simp: w_keep_def fail_def)
next
  case (w_take c)
  then show ?thesis using assms(1,2) by (cases rule: take_result_cases [of c cfg s]) (auto simp: w_keep_def ends_run_def)
next
  case w_final
  then show ?thesis using w_keep_finalize [OF assms(1,2)] by simp
qed (use assms(2) in \<open>auto simp: w_keep_def fail_def emitEvent_def\<close>)

lemma w_keep_init: "winit cfg s \<Longrightarrow> w_keep s"
  by (simp add: winit_def wrap_newSession_def w_keep_def)

interpretation wkeep: inductive_invariant "winit cfg" "wstep cls cfg on" "\<lambda>s. cf_keep_alive cfg \<longrightarrow> w_keep s" for cls cfg on
  by unfold_locales (blast intro: w_keep_init, blast intro: w_keep_step)

section \<open>The changes of status\<close>

text \<open>
  In the default mode a status is never cleared: the last recorded change is the Snapshot's until the end. Each change is
  handed to \<open>Events()\<close> once.
\<close>

fun cls_unsent :: "cls_pc \<Rightarrow> SessionEvent list" where
  "cls_unsent (CEmit e _) = [e]"
| "cls_unsent _ = []"

fun sup_unsent :: "sup_pc \<Rightarrow> SessionEvent list" where
  "sup_unsent (SEmit e _) = [e]"
| "sup_unsent _ = []"

definition key :: "SessionEvent \<Rightarrow> string \<times> string" where
  "key e = (se_status e, se_reason e)"

definition w_hist :: "wsession \<Rightarrow> bool" where
  "w_hist s \<longleftrightarrow> distinct_adj (s_hist s) \<and> (s_sup s \<noteq> SDone \<longrightarrow> s_snap s = (if s_hist s = [] then ([], []) else last (s_hist s))) \<and>
     (\<forall>c. s_ch s = Some c \<longrightarrow> \<not> v_clear c) \<and> (\<forall>c. s_cls s \<noteq> CHand c) \<and> (s_sup s \<in> {SDrain, SDone} \<longrightarrow> s_cls s = CDone)"

definition w_sent :: "wsession \<Rightarrow> bool" where
  "w_sent s \<longleftrightarrow> mset (s_hist s) =
     mset (map key (filter (\<lambda>e. \<not> se_terminated e) (s_emitted s) @ cls_unsent (s_cls s) @ sup_unsent (s_sup s)))"

lemma w_hist_step:
  assumes "\<not> cf_keep_alive cfg" and "w_hist s" and "wstep cls cfg on s t"
  shows "w_hist t"
  using assms(3)
proof cases
  case (w_tick now)
  then show ?thesis using assms(2)
    by (cases rule: tick_cases [of cfg now s]) (auto simp: w_hist_def distinct_adj_append_iff)
next
  case (w_pass p)
  then show ?thesis using assms(1,2) by (cases rule: pass_cases [of cls cfg p s]) (auto simp: w_hist_def)
next
  case (w_take c)
  then show ?thesis using assms(2)
    by (cases rule: take_result_cases [of c cfg s]) (auto simp: w_hist_def distinct_adj_append_iff)
next
  case w_final
  then show ?thesis using assms(2) by (auto simp: w_hist_def finalize_def Let_def split: prod.split option.split)
qed (use assms(2) in \<open>auto simp: w_hist_def\<close>)

lemma w_hist_init: "winit cfg s \<Longrightarrow> w_hist s"
  by (simp add: winit_def wrap_newSession_def w_hist_def)

interpretation whist: inductive_invariant "winit cfg" "wstep cls cfg on" "\<lambda>s. \<not> cf_keep_alive cfg \<longrightarrow> w_hist s" for cls cfg on
  by unfold_locales (blast intro: w_hist_init, blast intro: w_hist_step)

lemma key_event_of [simp]: "key (event_of c) = (v_status c, v_reason c)"
  by (simp add: key_def event_of_def)

lemma w_sent_step:
  assumes "w_core (on \<noteq> None) s" and "w_sent s" and "wstep cls cfg on s t"
  shows "w_sent t"
  using assms(3)
proof cases
  case (w_tick now)
  then show ?thesis using assms(2) by (cases rule: tick_cases [of cfg now s]) (auto simp: w_sent_def)
next
  case (w_pass p)
  then show ?thesis using assms(2) by (cases rule: pass_cases [of cls cfg p s]) (auto simp: w_sent_def)
next
  case (w_take c)
  then show ?thesis using assms(2) by (cases rule: take_result_cases [of c cfg s]) (auto simp: w_sent_def)
next
  case w_final
  then show ?thesis using assms(2)
    by (auto simp: w_sent_def finalize_def final_event_def Let_def split: prod.split option.split)
next
  case (w_cls_emit e p)
  then have "\<not> se_terminated e" using assms(1) by (auto simp: w_core_def w_run_def w_final_ok_def split: if_splits)
  then show ?thesis using assms(2) w_cls_emit by (auto simp: w_sent_def)
next
  case (w_sup_emit e ends)
  then have "\<not> se_terminated e" using assms(1) by (auto simp: w_core_def w_run_def)
  then show ?thesis using assms(2) w_sup_emit by (auto simp: w_sent_def)
qed (use assms(2) in \<open>auto simp: w_sent_def\<close>)

lemma w_sent_init: "winit cfg s \<Longrightarrow> w_sent s"
  by (simp add: winit_def wrap_newSession_def w_sent_def)

interpretation wsent: inductive_invariant "winit cfg" "wstep cls cfg on" "\<lambda>s. w_core (on \<noteq> None) s \<and> w_sent s" for cls cfg on
  by unfold_locales (blast intro: w_sent_init w_core_init, blast intro: w_sent_step w_core_step)

section \<open>Properties\<close>

lemma done_frozen:
  assumes "wstep cls cfg on s t" and "s_sup s = SDone" and "s_cls s = CDone" and "s_out_done s"
  shows "s_result t = s_result s \<and> s_err t = s_err s \<and> s_snap t = s_snap s \<and> s_emitted t = s_emitted s \<and> s_pushed t = s_pushed s"
  using assms(1)
proof cases
  case (w_tick now)
  then show ?thesis using assms(3) by simp
next
  case (w_pass p)
  then show ?thesis using assms(3) by simp
next
  case (w_take c)
  then show ?thesis using assms(2) by simp
next
  case w_final
  then show ?thesis using assms(2) by simp
qed (use assms(2-4) in simp_all)


text \<open>
  in the default mode two changes of status that follow one another differ, in the status or in the reason; and every
  change reaches \<open>Events()\<close>, or is just on its way.
\<close>

lemma wrap_status_changes:
  assumes "reachable (winit cfg) (wstep cls cfg on) s" and "\<not> cf_keep_alive cfg"
  shows "distinct_adj (s_hist s) \<and>
    mset (s_hist s) = mset (map key (filter (\<lambda>e. \<not> se_terminated e) (s_emitted s))) + mset (map key (cls_unsent (s_cls s))) +
      mset (map key (sup_unsent (s_sup s)))"
  using whist.inv_reachable [OF assms(1)] wsent.inv_reachable [OF assms(1)] assms(2) by (simp add: w_hist_def w_sent_def)


text \<open>
  \<open>OnEvent\<close>'s queue takes every change of status for a byte bound of at least 128, with the reason cut to fit when it must be; under that
  it takes none, whatever room it has.
\<close>

lemma back_to_rune_le: "back_to_rune s k \<le> k"
  by (induction k) auto

lemma truncateReason_fits: "0 \<le> limit \<Longrightarrow> int (length (truncateReason r limit)) \<le> limit"
  using back_to_rune_le [of r "nat (limit - int (length truncatedMark))"]
  by (auto simp: truncateReason_def Let_def)

lemma push_fit_small: "n < 128 \<Longrightarrow> push_fit n e = []"
  by (simp add: push_fit_def sessionEventSize_def)

lemma on_event_takes:
  "push_fit n e =
     (if n < 128 then []
      else if sessionEventSize e \<le> n then [e] else [e\<lparr>se_reason := truncateReason (se_reason e) (n - 128)\<rparr>]) \<and>
   (\<forall>e' \<in> set (push_fit n e). sessionEventSize e' \<le> n)"
proof (cases "n < 128")
  case True
  then show ?thesis by (simp add: push_fit_small)
next
  case False
  then have "int (length (truncateReason (se_reason e) (n - 128))) \<le> n - 128" by (intro truncateReason_fits) simp
  then show ?thesis using False by (auto simp: push_fit_def sessionEventSize_def Let_def)
qed

text \<open>
  a process that a signal ended has the exit code -1 in the result, and a run that \<open>Stop\<close> ended, whose harness
  left with a code other than 0, has the class of the last error seen with the status interrupted.
\<close>

lemma wrap_result_differs:
  "r_exit (classifyExit (Some (PSignaled sig)) cancelled) = -1 \<and>
   (o_stop out \<and> \<not> o_failed out \<and> o_terminal out = None \<and> n \<noteq> 0 \<longrightarrow>
     (let res = fst (resolveActionable cls False b f out (classifyExit (Some (PExited n)) False)) in
      r_status res = StatusInterrupted \<and> r_class res = o_last_class out))"
  by (simp add: classifyExit_def resolveActionable_def ExitCode_def Let_def)

section \<open>Runs\<close>

text \<open>A harness that leaves with a code at once.\<close>

definition ended :: "int \<Rightarrow> config \<Rightarrow> wsession" where
  "ended n cfg = (wrap_newSession cfg)\<lparr>s_exit := Some (PExited n), s_sup := SDrain, s_cls := CDone, s_out_done := True, s_stopping := True\<rparr>"

lemma ended_reachable: "reachable (winit cfg) (wstep cls cfg on) (finalize cls cfg (on \<noteq> None) (ended n cfg))"
proof -
  let ?s0 = "wrap_newSession cfg"
  let ?s1 = "?s0\<lparr>s_exit := Some (PExited n), s_sup := SReaped\<rparr>" and ?s2 = "?s0\<lparr>s_exit := Some (PExited n), s_sup := SJoin\<rparr>"
  let ?s3 = "?s2\<lparr>s_cls := CDone\<rparr>"
  let ?s4 = "?s3\<lparr>s_sup := SDrain\<rparr>" let ?s5 = "?s4\<lparr>s_out_done := True\<rparr>" let ?s6 = "?s5\<lparr>s_stopping := True\<rparr>"
  note f = wrap_newSession_def
  have r: "reachable (winit cfg) (wstep cls cfg on) ?s0" by (rule reach_init) (simp add: winit_def)
  have "wstep cls cfg on ?s0 ?s1" using w_exit [of ?s0 cls cfg on "Some (PExited n)"] by (simp add: f)
  note r = reach_step [OF r this]
  have "wstep cls cfg on ?s1 ?s2" using w_finish [of ?s1 cls cfg on] by simp
  note r = reach_step [OF r this]
  have "wstep cls cfg on ?s2 ?s3" using w_cls_return [of ?s2 cls cfg on] by (simp add: f classifier_on_closed_def)
  note r = reach_step [OF r this]
  have "wstep cls cfg on ?s3 ?s4" using w_joined [of ?s3 cls cfg on] by (simp add: f)
  note r = reach_step [OF r this]
  have "wstep cls cfg on ?s4 ?s5" using w_output_end [of ?s4 cls cfg on] by (simp add: f)
  note r = reach_step [OF r this]
  have "wstep cls cfg on ?s5 ?s6" using w_stop_output [of ?s5 cls cfg on] by simp
  note r = reach_step [OF r this]
  have "wstep cls cfg on ?s6 (finalize cls cfg (on \<noteq> None) ?s6)" by (rule w_final) (simp_all add: f)
  note r = reach_step [OF r this]
  have "?s6 = ended n cfg" by (simp add: ended_def f)
  with r show ?thesis by metis
qed

definition silent :: pclassifier where
  "silent inp = Inr no_classification"

lemma ended_result:
  "s_result (finalize silent cfg on (ended 3 cfg)) =
     Some \<lparr>r_status = StatusFailed, r_class = ErrNone, r_reason = ''exit code 3'', r_exit = 3, r_signal = []\<rparr>"
proof -
  have i: "itoa 3 = ''3''" by code_simp
  show ?thesis
    by (simp add: finalize_def ended_def wrap_newSession_def resolveActionable_def resolveKeepAlive_def classifyExit_def classifyOnExit_def
        silent_def no_classification_def newRecentOutput_def TextFrom_def status_defs Let_def i)
qed



text \<open>
  A run that is silent for the stale threshold, writes again, and is silent for as long once more: two quiet stretches and
  one change of status.
\<close>

definition stale_config :: config where
  "stale_config = (demo_config ''codex'' ''auto'')\<lparr>cf_idle_quiet := 10 ^ 9, cf_idle_classify := 2 * 10 ^ 9, cf_stale := 5 * 10 ^ 9\<rparr>"

definition wrote :: "int \<Rightarrow> wsession \<Rightarrow> wsession" where
  "wrote now s = s\<lparr>s_last := now, s_recent := rb_write (s_recent s) ''x''\<rparr>"

definition poll_at :: "int \<Rightarrow> wsession \<Rightarrow> wsession" where
  "poll_at now s =
     (let t = tick stale_config now s in
      case s_cls t of CEmit e p \<Rightarrow> (emitEvent e t)\<lparr>s_cls := CIdle\<rparr> | _ \<Rightarrow> t\<lparr>s_cls := CIdle\<rparr>)"

abbreviation stale_reachable :: "wsession \<Rightarrow> bool" where
  "stale_reachable s \<equiv> reachable (winit stale_config) (wstep silent stale_config None) s \<and> s_cls s = CIdle"

lemma pass_silent: "\<not> cf_keep_alive cfg \<Longrightarrow> pass silent cfg p s = s\<lparr>s_cls := CIdle\<rparr>"
  by (simp add: pass_def dispatchClassification_def silent_def split: prod.split)

lemma stale_wrote: "stale_reachable s \<Longrightarrow> \<not> s_out_done s \<Longrightarrow> 0 < now \<Longrightarrow> stale_reachable (wrote now s)"
  unfolding wrote_def by (auto intro: reach_step w_output)

lemma stale_poll_at:
  assumes "stale_reachable s"
  shows "stale_reachable (poll_at now s)"
proof -
  let ?R = "reachable (winit stale_config) (wstep silent stale_config None)"
  have k: "\<not> cf_keep_alive stale_config" by (simp add: stale_config_def demo_config_def)
  have t: "?R (tick stale_config now s)" using assms by (blast intro: reach_step w_tick)
  have rest: "?R (u\<lparr>s_cls := CIdle\<rparr>)" if "?R u" "s_cls u = CPass p" for u p
    using reach_step [OF that(1) w_pass [OF that(2)]] pass_silent [OF k] by simp
  show ?thesis
  proof (cases rule: tick_cases [of stale_config now s])
    case none
    then have "poll_at now s = s" using assms by (simp add: poll_at_def Let_def)
    then show ?thesis using assms by metis
  next
    case (plain k)
    then show ?thesis using rest [OF t] by (simp add: poll_at_def)
  next
    case (stale k c)
    let ?t = "tick stale_config now s"
    have e: "s_cls ?t = CEmit (event_of c) (tick_view stale_config now s)" using stale by simp
    have "?R ((emitEvent (event_of c) ?t)\<lparr>s_cls := CPass (tick_view stale_config now s)\<rparr>)"
      using reach_step [OF t w_cls_emit [OF e]] by simp
    from rest [OF this] show ?thesis using e by (simp add: poll_at_def Let_def)
  qed
qed

definition quiet_again :: wsession where
  "quiet_again =
     poll_at (6 * 10 ^ 9 + 2) (wrote (6 * 10 ^ 9 + 1) (poll_at (5 * 10 ^ 9 + 1) (poll_at 2 (wrote 1 (wrap_newSession stale_config)))))"

lemma quiet_again_reachable: "reachable (winit stale_config) (wstep silent stale_config None) quiet_again"
proof -
  have "stale_reachable (wrap_newSession stale_config)"
    using reach_init [of "winit stale_config"] by (simp add: winit_def wrap_newSession_def)
  moreover have "\<not> s_out_done (wrap_newSession stale_config)" by (simp add: wrap_newSession_def)
  moreover have "\<not> s_out_done (poll_at (5 * 10 ^ 9 + 1) (poll_at 2 (wrote 1 (wrap_newSession stale_config))))" by code_simp
  ultimately have "stale_reachable quiet_again"
    unfolding quiet_again_def by (intro stale_poll_at stale_wrote) simp_all
  then show ?thesis by simp
qed

text \<open>
  the second quiet stretch of this run crosses the stale threshold, after new output, and no event comes of it: the reason
  is the same, and nothing has emptied the status in between.
\<close>

lemma stale_reported_once:
  "reachable (winit stale_config) (wstep silent stale_config None) quiet_again \<and>
   turns_stale stale_config (11 * 10 ^ 9 + 1) quiet_again \<and> map se_status (s_emitted quiet_again) = [StatusStale] \<and>
   s_emitted (poll_at (11 * 10 ^ 9 + 1) quiet_again) = s_emitted quiet_again"
proof -
  have "turns_stale stale_config (11 * 10 ^ 9 + 1) quiet_again" "map se_status (s_emitted quiet_again) = [StatusStale]"
    "s_emitted (poll_at (11 * 10 ^ 9 + 1) quiet_again) = s_emitted quiet_again"
    by code_simp+
  with quiet_again_reachable show ?thesis by simp
qed

end
