(* ===== verification/Go_Text.thy ===== *)
theory Go_Text
  imports Go_Regex
begin

text \<open>
  What the screen readers use of \<^verbatim>\<open>strings\<close>, \<^verbatim>\<open>unicode\<close> and \<^verbatim>\<open>regexp\<close>: the runes of a text, searching for a part,
  trimming, fields, replacing, and all matches of an expression with their groups.
\<close>

section \<open>Runes\<close>

text \<open>
  A text as its runes, each as its bytes, an invalid byte alone; and \<open>[]rune\<close>, where an invalid byte has become
  U+FFFD.
\<close>

function rune_parts :: "string \<Rightarrow> string list" where
  "rune_parts s = (if s = [] then [] else take (rune_len s) s # rune_parts (drop (rune_len s) s))"
  by pat_completeness auto
termination
  by (relation "measure length") (auto simp: rune_len_pos)

declare rune_parts.simps [simp del]

definition rune_error :: string where
  "rune_error = [CHR 0xEF, CHR 0xBF, CHR 0xBD]"

definition runes :: "string \<Rightarrow> string list" where
  "runes s = map (\<lambda>r. if length r = 1 \<and> 128 \<le> ord (hd r) then rune_error else r) (rune_parts s)"

text \<open>\<open>string(r)\<close>: a code point in UTF-8.\<close>

definition utf8 :: "int \<Rightarrow> string" where
  "utf8 n =
     map char_of
       (if n < 0x80 then [n]
        else if n < 0x800 then [0xC0 + n div 64, 0x80 + n mod 64]
        else if n < 0x10000 then [0xE0 + n div 4096, 0x80 + n div 64 mod 64, 0x80 + n mod 64]
        else [0xF0 + n div 262144, 0x80 + n div 4096 mod 64, 0x80 + n div 64 mod 64, 0x80 + n mod 64])"

definition rune_space :: "string \<Rightarrow> bool" where
  "rune_space r \<longleftrightarrow> space_len (map of_char r) \<noteq> 0"

lemma rune_parts_Nil [simp]: "rune_parts [] = []"
  by (simp add: rune_parts.simps)

lemma runes_Nil [simp]: "runes [] = []"
  by (simp add: runes_def)

lemma concat_rune_parts [simp]: "concat (rune_parts s) = s"
proof (induction s rule: rune_parts.induct)
  case (1 s)
  then show ?case by (cases "s = []") (simp_all add: rune_parts.simps [of s])
qed

lemma rune_parts_ne: "r \<in> set (rune_parts s) \<Longrightarrow> r \<noteq> []"
proof (induction s rule: rune_parts.induct)
  case (1 s)
  then show ?case using rune_len_pos [of s] by (cases "s = []") (auto simp: rune_parts.simps [of s])
qed

lemma ascii_rune_len: "s \<noteq> [] \<Longrightarrow> ord (hd s) < 128 \<Longrightarrow> rune_len s = 1"
  by (cases s) (auto simp: rune_len_def)

lemma rune_parts_ascii_Cons: "ord c < 128 \<Longrightarrow> rune_parts (c # s) = [c] # rune_parts s"
  using ascii_rune_len [of "c # s"] by (simp add: rune_parts.simps [of "c # s"])

lemma rune_parts_ascii: "list_all (\<lambda>c. ord c < 128) s \<Longrightarrow> rune_parts s = map (\<lambda>c. [c]) s"
  by (induction s) (auto simp: rune_parts_ascii_Cons)

lemma runes_ascii_Cons: "ord c < 128 \<Longrightarrow> runes (c # s) = [c] # runes s"
  by (simp add: runes_def rune_parts_ascii_Cons)

section \<open>Searching\<close>

text \<open>\<open>strings.Index\<close>, as the first place where the text continues with \<open>sub\<close>, and \<open>strings.LastIndex\<close>.\<close>

definition index_sub :: "string \<Rightarrow> string \<Rightarrow> nat option" where
  "index_sub s sub = find (\<lambda>i. take (length sub) (drop i s) = sub) [0 ..< Suc (length s)]"

definition last_index :: "string \<Rightarrow> string \<Rightarrow> nat option" where
  "last_index s sub = find (\<lambda>i. take (length sub) (drop i s) = sub) (rev [0 ..< Suc (length s)])"

lemma occurs_fits: "take (length sub) (drop i s) = sub \<Longrightarrow> i \<le> length s \<Longrightarrow> i + length sub \<le> length s"
proof -
  assume t: "take (length sub) (drop i s) = sub" and i: "i \<le> length s"
  have "length sub \<le> length s - i" using arg_cong [OF t, of length] by simp
  then show ?thesis using i by simp
qed

lemma index_sub_Some: "index_sub s sub = Some i \<Longrightarrow> take (length sub) (drop i s) = sub \<and> i + length sub \<le> length s"
proof -
  assume "index_sub s sub = Some i"
  then have "take (length sub) (drop i s) = sub" "i \<le> length s"
    by (auto simp: index_sub_def find_Some_iff simp del: upt_Suc)
  then show ?thesis using occurs_fits by blast
qed

lemma index_sub_None: "index_sub s sub = None \<longleftrightarrow> \<not> sublist sub s"
proof
  assume n: "index_sub s sub = None"
  show "\<not> sublist sub s"
  proof
    assume "sublist sub s"
    then obtain ps ss where s: "s = ps @ sub @ ss" by (auto simp: sublist_def)
    have "\<not> (\<exists>i. i \<in> set [0 ..< Suc (length s)] \<and> take (length sub) (drop i s) = sub)"
      using n unfolding index_sub_def find_None_iff .
    moreover have "length ps \<in> set [0 ..< Suc (length s)]" using s by simp
    moreover have "take (length sub) (drop (length ps) s) = sub" using s by simp
    ultimately show False by blast
  qed
next
  assume n: "\<not> sublist sub s"
  show "index_sub s sub = None"
  proof (cases "index_sub s sub")
    case (Some i)
    then have "take (length sub) (drop i s) = sub" using index_sub_Some by blast
    then have "s = take i s @ sub @ drop (length sub) (drop i s)" by (metis append_take_drop_id)
    then show ?thesis using n by (metis sublist_appendI)
  qed
qed

lemma last_index_Some: "last_index s sub = Some i \<Longrightarrow> take (length sub) (drop i s) = sub \<and> i + length sub \<le> length s"
proof -
  assume "last_index s sub = Some i"
  then have "i \<in> set (rev [0 ..< Suc (length s)]) \<and> take (length sub) (drop i s) = sub"
    unfolding last_index_def find_Some_iff by (metis nth_mem)
  then show ?thesis using occurs_fits by force
qed

section \<open>Trimming, fields and replacing\<close>

text \<open>\<open>strings.TrimLeft\<close> and \<open>TrimRight\<close> with a cutset of ASCII characters, \<open>TrimPrefix\<close>.\<close>

definition trim_left_set :: "string \<Rightarrow> string \<Rightarrow> string" where
  "trim_left_set cs s = dropWhile (\<lambda>c. c \<in> set cs) s"

definition trim_right_set :: "string \<Rightarrow> string \<Rightarrow> string" where
  "trim_right_set cs s = rev (dropWhile (\<lambda>c. c \<in> set cs) (rev s))"

definition trim_prefix :: "string \<Rightarrow> string \<Rightarrow> string" where
  "trim_prefix s p = (if prefix p s then drop (length p) s else s)"

text \<open>\<open>strings.FieldsFunc\<close>: the longest runs of runes for which the function is false.\<close>

function fields_of :: "(string \<Rightarrow> bool) \<Rightarrow> string list \<Rightarrow> string list" where
  "fields_of P rs =
     (case dropWhile P rs of
        [] \<Rightarrow> []
      | r # t \<Rightarrow> concat (takeWhile (\<lambda>x. \<not> P x) (r # t)) # fields_of P (dropWhile (\<lambda>x. \<not> P x) (r # t)))"
  by pat_completeness auto
termination
proof (relation "measure (\<lambda>(P, rs). length rs)", goal_cases)
  case (2 P rs r t)
  then have "\<not> P r" by (metis hd_dropWhile list.distinct(1) list.sel(1))
  then have "length (dropWhile (\<lambda>x. \<not> P x) (r # t)) \<le> length t" by (simp add: length_dropWhile_le)
  moreover have "length (r # t) \<le> length rs" using 2 length_dropWhile_le [of P rs] by simp
  ultimately show ?case by simp
qed simp

declare fields_of.simps [simp del]

definition fields_by :: "(string \<Rightarrow> bool) \<Rightarrow> string \<Rightarrow> string list" where
  "fields_by P s = fields_of P (rune_parts s)"

definition fields_ws :: "string \<Rightarrow> string list" where
  "fields_ws s = fields_by rune_space s"

text \<open>\<open>strings.ReplaceAll\<close> of a non-empty text.\<close>

function replace_all :: "string \<Rightarrow> string \<Rightarrow> string \<Rightarrow> string" where
  "replace_all old new s =
     (if s = [] \<or> old = [] then s
      else if prefix old s then new @ replace_all old new (drop (length old) s)
      else hd s # replace_all old new (tl s))"
  by pat_completeness auto
termination
  by (relation "measure (\<lambda>(old, new, s). length s)") auto

declare replace_all.simps [simp del]

fun join_str :: "string \<Rightarrow> string list \<Rightarrow> string" where
  "join_str sep [] = []"
| "join_str sep [x] = x"
| "join_str sep (x # y # ys) = x @ sep @ join_str sep (y # ys)"

text \<open>
  \<open>strings.ToLower\<close> as far as ASCII text is looked for in the result: the two runes outside of ASCII with an ASCII lower
  case are U+0130 and the Kelvin sign.
\<close>

definition lower_rune :: "string \<Rightarrow> string" where
  "lower_rune r =
     (if r = [CHR 0xC4, CHR 0xB0] then ''i'' else if r = [CHR 0xE2, CHR 0x84, CHR 0xAA] then ''k'' else map lower_char r)"

definition go_lower :: "string \<Rightarrow> string" where
  "go_lower s = concat (map lower_rune (rune_parts s))"

section \<open>Expressions\<close>

text \<open>The text as it is, a rune of a class, and the class \<^verbatim>\<open>[^\S\r\n]\<close>.\<close>

definition exact :: "string \<Rightarrow> re" where
  "exact s = seq (map (\<lambda>r. One (Runes [r])) (rune_parts s))"

definition hspace :: item where
  "hspace = Runes [[CHR 0x09], [CHR 0x0C], '' '']"

fun times_re :: "nat \<Rightarrow> item \<Rightarrow> re" where
  "times_re 0 it = Eps"
| "times_re (Suc n) it = Cat (One it) (times_re n it)"

definition MatchString :: "re \<Rightarrow> string \<Rightarrow> bool" where
  "MatchString r s \<longleftrightarrow> find_from r s 0 \<noteq> None"

text \<open>\<open>FindAllStringSubmatch(s, -1)\<close>: group 0 is the match.\<close>

definition group_text :: "re \<Rightarrow> string \<Rightarrow> nat \<Rightarrow> nat \<Rightarrow> nat \<Rightarrow> string" where
  "group_text r s lo hi k =
     (if k = 0 then slice s lo hi
      else case runs s r (lo, []) of
          (e, cs) # _ \<Rightarrow> (case map_of cs k of Some (a, b) \<Rightarrow> slice s a b | None \<Rightarrow> [])
        | [] \<Rightarrow> [])"

definition FindAllStringSubmatch :: "re \<Rightarrow> string \<Rightarrow> (nat \<Rightarrow> string) list" where
  "FindAllStringSubmatch r s = map (\<lambda>(lo, hi). group_text r s lo hi) (FindAllStringIndex r s)"

end
