(* ===== verification/Wrap_Harnesses.thy ===== *)
theory Wrap_Harnesses
  imports Wrap_Classify Go_Text
begin

text \<open>
  The built-in harnesses' patterns: \<^verbatim>\<open>internal/wrapcore/harness/{claude,codex,cursor,opencode}\<close>, with the reset time of a
  limit banner from \<^verbatim>\<open>internal/resettime\<close>, and their registration in \<^verbatim>\<open>pkg/wrapper/doc.go\<close>. The calendar and the
  zones of package \<^verbatim>\<open>time\<close> are a record of functions.
\<close>

abbreviation apostrophe :: string where "apostrophe \<equiv> [CHR 0x27]"

section \<open>Reset times\<close>

text \<open>
  \<open>load_location\<close> gives a zone for a name it knows; \<open>civil\<close> is the date of an instant in a zone and \<open>date\<close> the instant of
  a date, hour and minute, where a day past the end of the month is in the next one.
\<close>

record calendar =
  load_location :: "string \<Rightarrow> string option"
  civil :: "int \<Rightarrow> string \<Rightarrow> int \<times> int \<times> int"
  date :: "int \<times> int \<times> int \<Rightarrow> int \<Rightarrow> int \<Rightarrow> string \<Rightarrow> int"

definition resetTimeRE :: re where
  "resetTimeRE =
     seq [lit ''reset'', Opt (lit ''s''), Opt (seq [Plus space_item, lit ''at'']), Plus space_item,
       Group 1 (seq [One digit_item, Opt (One digit_item)]),
       Opt (seq [lit '':'', Group 2 (seq [One digit_item, One digit_item])]), Star space_item,
       Opt (Group 3 (Alt (lit ''am'') (lit ''pm''))),
       Opt (seq [Star space_item, lit ''('', Group 4 (Plus (NotIn '')'')), lit '')''])]"

definition applyMeridiem :: "int \<Rightarrow> string \<Rightarrow> string \<Rightarrow> int option" where
  "applyMeridiem hour ampm minuteGroup =
     (if ampm = ''am'' then (if hour < 1 \<or> 12 < hour then None else Some (if hour = 12 then 0 else hour))
      else if ampm = ''pm'' then (if hour < 1 \<or> 12 < hour then None else Some (if hour \<noteq> 12 then hour + 12 else hour))
      else if minuteGroup = [] then None
      else if 23 < hour then None
      else Some hour)"

definition parseResetClock :: "(nat \<Rightarrow> string) \<Rightarrow> (int \<times> int) option" where
  "parseResetClock m =
     (case atoi (m 1) of
        None \<Rightarrow> None
      | Some hour \<Rightarrow>
          if hour < 0 \<or> 23 < hour then None
          else
            case (if m 2 = [] then Some 0 else atoi (m 2)) of
              None \<Rightarrow> None
            | Some minute \<Rightarrow>
                if m 2 \<noteq> [] \<and> (minute < 0 \<or> 59 < minute) then None
                else map_option (\<lambda>h. (h, minute)) (applyMeridiem hour (lower_view (m 3)) (m 2)))"

definition resetLocation :: "calendar \<Rightarrow> string \<Rightarrow> string \<Rightarrow> string" where
  "resetLocation cal tzGroup fallback =
     (let tz = trim_space tzGroup in
      if tz = [] then fallback else case load_location cal tz of Some z \<Rightarrow> z | None \<Rightarrow> fallback)"

definition reset_Parse :: "calendar \<Rightarrow> string \<Rightarrow> instant \<Rightarrow> instant option" where
  "reset_Parse cal s now =
     (case FindStringSubmatch resetTimeRE s of
        None \<Rightarrow> None
      | Some m \<Rightarrow>
          case parseResetClock m of
            None \<Rightarrow> None
          | Some (hour, minute) \<Rightarrow>
              let loc = resetLocation cal (m 4) (snd now); (y, mo, d) = civil cal (fst now) loc;
                  resume = date cal (y, mo, d) hour minute loc in
              Some (if resume \<le> fst now then date cal (y, mo, d + 1) hour minute loc else resume, loc))"

section \<open>Claude Code\<close>

definition horizontalSpace :: item where
  "horizontalSpace = Runes [[CHR 0x09], '' '', [CHR 0xC2, CHR 0xA0]]"

definition decoration :: item where
  "decoration = Runes
     [[CHR 0xE2, CHR 0x8E, CHR 0xBF], [CHR 0xE2, CHR 0x94, CHR 0x82], [CHR 0xE2, CHR 0x94, CHR 0x9C], [CHR 0xE2, CHR 0x94, CHR 0x94],
      [CHR 0xE2, CHR 0x95, CHR 0xB0], [CHR 0xE2, CHR 0x94, CHR 0x80], [CHR 0xE2, CHR 0x97, CHR 0xAF], [CHR 0xE2, CHR 0x8F, CHR 0xBA],
      [CHR 0xE2, CHR 0x97, CHR 0x8F]]"

definition apiErrorRE :: re where
  "apiErrorRE =
     seq [Bol, Star horizontalSpace, Opt (seq [One decoration, Star horizontalSpace]), lit ''API Error:'', Star horizontalSpace,
       Opt (seq [Group 1 (seq [One digit_item, One digit_item, One digit_item]), WordB, Plus horizontalSpace]),
       Group 2 (Star any_rune), Eol]"

definition claude_MatchAPIError :: "string \<Rightarrow> APIErrorHit option" where
  "claude_MatchAPIError stripped =
     (case FindStringSubmatch apiErrorRE stripped of
        None \<Rightarrow> None
      | Some m \<Rightarrow>
          let msg = trim_space (m 2) in
          if m 1 \<noteq> []
          then Some \<lparr>ah_code = int (digits_value (m 1)), ah_message = msg, ah_retry = ParseRetryAfter msg\<rparr>
          else if msg \<noteq> [] \<and> is_digit (hd msg) then None
          else Some \<lparr>ah_code = 0, ah_message = msg, ah_retry = ParseRetryAfter msg\<rparr>)"

definition sessionLimitRE :: re where
  "sessionLimitRE =
     seq [Bol, Star horizontalSpace, Opt (seq [One decoration, Star horizontalSpace]),
       Group 1 (seq [lit ''You'', Alt (lit (apostrophe @ ''ve'')) (seq [Plus space_item, lit ''have'']), Plus space_item,
         lit ''hit'', Plus space_item, lit ''your'', Plus space_item, Alt (lit ''session'') (lit ''usage''), Plus space_item,
         lit ''limit'', Star any_rune]),
       Eol]"

definition claude_MatchSessionLimit :: "calendar \<Rightarrow> string \<Rightarrow> instant \<Rightarrow> SessionLimitHit option" where
  "claude_MatchSessionLimit cal stripped now =
     (case FindStringSubmatch sessionLimitRE stripped of
        None \<Rightarrow> None
      | Some m \<Rightarrow> let msg = trim_space (m 1) in Some \<lparr>sl_message = msg, sl_resume = reset_Parse cal msg now\<rparr>)"

definition claude_Patterns :: "calendar \<Rightarrow> Patterns" where
  "claude_Patterns cal =
     \<lparr>pt_cost = [''you'' @ apostrophe @ ''ve hit your limit'', ''you have hit your limit'',
        ''you'' @ apostrophe @ ''ve hit your session limit'', ''you have hit your session limit'',
        ''you'' @ apostrophe @ ''ve hit your usage limit'', ''you have hit your usage limit'', ''limit resets'', ''resets at'',
        ''usage limit'', ''rate limit'', ''rate-limit'', ''quota exceeded''],
      pt_retry = [''please try again'', ''transient error'', ''temporary failure'', ''network error'', ''upstream error''],
      pt_prompt = [''(y/n)'', ''(y/n/a)'', ''(yes/no)'', ''continue?'', ''continue? [y/n]'', ''approve?'', ''do you want to continue?''],
      pt_api = Some claude_MatchAPIError, pt_limit = Some (claude_MatchSessionLimit cal)\<rparr>"

section \<open>Codex\<close>

definition retryLimitRE :: re where
  "retryLimitRE =
     seq [lit ''exceeded retry limit,'', Star space_item, lit ''last status:'', Star space_item,
       Group 1 (seq [One digit_item, One digit_item, One digit_item])]"

definition codexPhraseHits :: "(string \<times> int) list" where
  "codexPhraseHits =
     [(''selected model is at capacity'', 503), (''currently experiencing high demand'', 500), (''usage limit reached'', 429),
      (''you'' @ apostrophe @ ''re out of credits'', 429), (''quota exceeded'', 429), (''stream disconnected before completion'', 0)]"

definition asciiLower :: "string \<Rightarrow> string" where
  "asciiLower s = map lower_char s"

fun phrase_loop :: "(string \<times> int) list \<Rightarrow> string \<Rightarrow> APIErrorHit option" where
  "phrase_loop [] stripped = None"
| "phrase_loop ((phrase, code) # ps) stripped =
     (case index_sub (asciiLower stripped) phrase of
        Some idx \<Rightarrow> Some \<lparr>ah_code = code, ah_message = slice stripped idx (idx + length phrase), ah_retry = ParseRetryAfter stripped\<rparr>
      | None \<Rightarrow> phrase_loop ps stripped)"

definition codex_MatchAPIError :: "string \<Rightarrow> APIErrorHit option" where
  "codex_MatchAPIError stripped =
     (case FindStringSubmatch retryLimitRE stripped of
        Some m \<Rightarrow> Some \<lparr>ah_code = int (digits_value (m 1)), ah_message = ''exceeded retry limit, last status: '' @ m 1,
                    ah_retry = ParseRetryAfter stripped\<rparr>
      | None \<Rightarrow> phrase_loop codexPhraseHits stripped)"

definition codex_Patterns :: Patterns where
  "codex_Patterns =
     \<lparr>pt_cost = [''rate limit exceeded'', ''quota exceeded'', ''usage limit'', ''insufficient_quota'',
        ''you'' @ apostrophe @ ''ve hit your limit''],
      pt_retry = [''please try again'', ''server error'', ''upstream timed out'', ''temporary failure''],
      pt_prompt = [''(y/n)'', ''(yes/no)'', ''continue?'', ''approve change?'', ''apply patch?''],
      pt_api = Some codex_MatchAPIError, pt_limit = None\<rparr>"

section \<open>Cursor and OpenCode\<close>

definition cursor_Patterns :: Patterns where
  "cursor_Patterns =
     \<lparr>pt_cost = [''rate limit'', ''rate-limit'', ''too many requests'', ''usage limit'', ''session limit'', ''quota exceeded'',
        ''limit resets'', ''resets at''],
      pt_retry = [''please try again'', ''temporary failure'', ''service unavailable'', ''internal server error'', ''overloaded'',
        ''timed out'', ''timeout'', ''etimedout'', ''econnreset''],
      pt_prompt = [''(y/n)'', ''(yes/no)'', ''[y/n]'', ''continue?'', ''proceed?''],
      pt_api = None, pt_limit = None\<rparr>"

definition opencode_Patterns :: Patterns where
  "opencode_Patterns =
     \<lparr>pt_cost = [''rate limit'', ''rate-limit'', ''rate limit exceeded'', ''quota exceeded'', ''insufficient_quota'',
        ''insufficient quota'', ''usage limit'', ''you have exceeded'', ''credit balance is too low'', ''billing'',
        ''resource_exhausted'', ''resource has been exhausted''],
      pt_retry = [''please try again'', ''try again later'', ''overloaded'', ''transient error'', ''temporary failure'',
        ''network error'', ''connection error'', ''upstream error'', ''deadline exceeded'', ''service unavailable'', ''unavailable''],
      pt_prompt = [''(y/n)'', ''(y/n/a)'', ''(yes/no)'', ''continue?'', ''allow?'', ''do you want to continue?'',
        ''do you want to proceed?'', ''approve?''],
      pt_api = None, pt_limit = None\<rparr>"

text \<open>The table after \<open>init\<close> of \<^verbatim>\<open>pkg/wrapper\<close>.\<close>

definition builtin_patterns :: "calendar \<Rightarrow> pattern_table" where
  "builtin_patterns cal =
     RegisterPatterns opencode_Patterns [''opencode'']
       (RegisterPatterns cursor_Patterns [''cursor'']
         (RegisterPatterns codex_Patterns [''codex'']
           (RegisterPatterns (claude_Patterns cal) [''claude-code'', ''claude''] Map.empty)))"

section \<open>Properties\<close>

lemma phrase_loop_Some:
  "phrase_loop ps s = Some hit \<Longrightarrow>
     \<exists>pre post. s = pre @ ah_message hit @ post \<and> (asciiLower (ah_message hit), ah_code hit) \<in> set ps"
proof (induction ps s rule: phrase_loop.induct)
  case (2 phrase code ps s)
  show ?case
  proof (cases "index_sub (asciiLower s) phrase")
    case None
    then show ?thesis using 2 by auto
  next
    case (Some i)
    have "asciiLower (slice s i (i + length phrase)) = phrase"
      using index_sub_Some [OF Some] by (simp add: asciiLower_def take_map drop_map)
    moreover have "ah_message hit = slice s i (i + length phrase)" "ah_code hit = code" using "2.prems" Some by auto
    ultimately show ?thesis using slice_split [of i "i + length phrase" s]
      by (intro exI [of _ "take i s"] exI [of _ "drop (i + length phrase) s"]) simp
  qed
qed simp

text \<open>
  the message of a Codex error is the text of the output at the place where the phrase is, in whatever case; every byte
  before it, of any encoding, is where it was.
\<close>

lemma codex_message_in_place:
  assumes "codex_MatchAPIError stripped = Some hit" and "FindStringSubmatch retryLimitRE stripped = None"
  shows "\<exists>pre post. stripped = pre @ ah_message hit @ post \<and> (asciiLower (ah_message hit), ah_code hit) \<in> set codexPhraseHits"
  using phrase_loop_Some assms by (auto simp: codex_MatchAPIError_def)

lemma parseResetClock_range:
  "parseResetClock m = Some (h, mi) \<Longrightarrow> 0 \<le> h \<and> h < 24 \<and> 0 \<le> mi \<and> mi < 60"
  by (auto simp: parseResetClock_def applyMeridiem_def split: option.splits if_splits)

text \<open>
  a reset time is later than now, with a clock time of the day as the banner has it: today's in the banner's zone when it
  is still to come, or tomorrow's. Of the calendar it needs only that any time of tomorrow is after now.
\<close>

lemma reset_time_next:
  assumes "reset_Parse cal s (now, local) = Some (t, loc)"
    and "\<And>h mi y mo d. civil cal now loc = (y, mo, d) \<Longrightarrow> 0 \<le> h \<Longrightarrow> h < 24 \<Longrightarrow> 0 \<le> mi \<Longrightarrow> mi < 60 \<Longrightarrow>
      now < date cal (y, mo, d + 1) h mi loc"
  shows "now < t \<and> (\<exists>h mi y mo d. civil cal now loc = (y, mo, d) \<and> 0 \<le> h \<and> h < 24 \<and> 0 \<le> mi \<and> mi < 60 \<and>
    t = (if now < date cal (y, mo, d) h mi loc then date cal (y, mo, d) h mi loc else date cal (y, mo, d + 1) h mi loc))"
proof -
  obtain m h mi y mo d where m: "parseResetClock m = Some (h, mi)" "civil cal now loc = (y, mo, d)"
    and t: "t = (if date cal (y, mo, d) h mi loc \<le> now then date cal (y, mo, d + 1) h mi loc else date cal (y, mo, d) h mi loc)"
    using assms(1) by (auto simp: reset_Parse_def Let_def split: option.splits prod.splits)
  have r: "0 \<le> h" "h < 24" "0 \<le> mi" "mi < 60" using parseResetClock_range [OF m(1)] by auto
  have "now < t" using assms(2) [OF m(2) r] t by auto
  moreover have "t = (if now < date cal (y, mo, d) h mi loc then date cal (y, mo, d) h mi loc else date cal (y, mo, d + 1) h mi loc)"
    using t by auto
  ultimately show ?thesis using m(2) r by blast
qed

text \<open>
  the Claude matcher takes a line of an API error with its three-digit code, and passes one over whose code is not followed by
  white space, as a code at the end of the line; the first line that has the shape decides, so one with a number of another
  length hides an error that comes later.
\<close>

lemma claude_code_dropped:
  "map_option ah_code (claude_MatchAPIError ''API Error: 529 Overloaded'') = Some 529 \<and>
   claude_MatchAPIError ''API Error: 529'' = None \<and> claude_MatchAPIError ''API Error: 529. Overloaded'' = None \<and>
   claude_MatchAPIError (''API Error: 5290 x'' @ [LF] @ ''API Error: 529 Overloaded'') = None"
  by (intro conjI) code_simp+

end
