(* ===== verification/Transcript_Follower.thy ===== *)
theory Transcript_Follower
  imports Go_Bytes
begin

text \<open>
  \<^verbatim>\<open>pkg/transcript/follower.go\<close>: the Follower reads a transcript while the harness appends to it,
  a batch of whole records at a time, and moves on only when a batch is acknowledged. A file is
  its bytes; what \<open>Stat\<close> saw of it (its size and inode) is separate, as the file may grow between
  \<open>Stat\<close> and the reads. The hex SHA-256 digest is the parameter \<open>H\<close>, the harness's decoder the
  parameter \<open>decode\<close>, and a new UUID the parameter \<open>uuid\<close>.
\<close>

section \<open>Data\<close>

definition FollowerVersion :: int where "FollowerVersion = 1"

definition checkpointWindow :: nat where "checkpointWindow = 4096"

definition defaultMaxBatchBytes :: nat where "defaultMaxBatchBytes = 4 * 2 ^ 20"

datatype ResetReason = ResetReplaced | ResetShrunk | ResetPrefixChanged | ResetBoundaryChanged

record FCheckpoint =
  fc_version :: int
  fc_session :: string
  fc_generation :: string
  fc_inode :: nat
  fc_offset :: int
  fc_next_seq :: int
  fc_prefix_len :: int
  fc_prefix_sha :: string
  fc_boundary_len :: int
  fc_boundary_sha :: string

text \<open>\<open>Event\<close> of \<^verbatim>\<open>event.go\<close>.\<close>

record TEvent =
  tv_seq :: int
  tv_timestamp :: int
  tv_role :: string
  tv_type :: string
  tv_text :: string
  tv_tool_name :: string
  tv_tool_use_id :: string
  tv_tool_input :: string
  tv_output :: string
  tv_uuid :: string
  tv_api_error :: string
  tv_agent_type :: string
  tv_schema_version :: int
  tv_source :: string
  tv_native_id :: string

record 'm BlockEvent =
  be_block :: int
  be_event :: TEvent
  be_meta :: 'm

record 'm FollowedEvent =
  fe_event :: TEvent
  fe_offset :: int
  fe_block :: int
  fe_meta :: 'm

record SourceError =
  sx_offset :: int
  sx_length :: int
  sx_sha :: string

record 'm FBatch =
  fb_from :: FCheckpoint
  fb_events :: "'m FollowedEvent list"
  fb_errors :: "SourceError list"
  fb_checkpoint :: FCheckpoint

record Follower =
  fo_max :: int
  fo_path :: string
  fo_cp :: FCheckpoint

type_synonym 'm decoder = "string \<Rightarrow> unit + 'm BlockEvent list"

section \<open>Starting and acknowledging\<close>

definition zero_cp :: FCheckpoint where
  "zero_cp =
     \<lparr>fc_version = 0, fc_session = [], fc_generation = [], fc_inode = 0, fc_offset = 0, fc_next_seq = 0,
      fc_prefix_len = 0, fc_prefix_sha = [], fc_boundary_len = 0, fc_boundary_sha = []\<rparr>"

definition NewFollower :: "string \<Rightarrow> string \<Rightarrow> string \<Rightarrow> FCheckpoint \<Rightarrow> bool \<Rightarrow> Follower option" where
  "NewFollower uuid path sessionID from decoder =
     (if path = [] then None
      else if sessionID = [] then None
      else if \<not> decoder then None
      else if fc_version from > FollowerVersion then None
      else if fc_session from \<noteq> [] \<and> fc_session from \<noteq> sessionID then None
      else if fc_generation from = [] \<and> from \<noteq> zero_cp\<lparr>fc_session := fc_session from, fc_version := fc_version from\<rparr>
      then None
      else if fc_offset from < 0 \<or> fc_next_seq from < 0 \<or> fc_prefix_len from < 0 \<or> fc_boundary_len from < 0 \<or>
              fc_prefix_len from > fc_offset from \<or> fc_boundary_len from > fc_offset from
      then None
      else
        let from' = (if fc_generation from = [] then zero_cp\<lparr>fc_session := sessionID, fc_generation := uuid\<rparr> else from)
        in Some \<lparr>fo_max = 0, fo_path = path, fo_cp = from'\<lparr>fc_version := FollowerVersion\<rparr>\<rparr>)"

definition FAck :: "'m FBatch \<Rightarrow> Follower \<Rightarrow> Follower option" where
  "FAck b f = (if fb_from b \<noteq> fo_cp f then None else Some (f\<lparr>fo_cp := fb_checkpoint b\<rparr>))"

section \<open>Polling\<close>

text \<open>What was read, and whether it was less than asked for.\<close>

definition readAt :: "string \<Rightarrow> int \<Rightarrow> int \<Rightarrow> string \<times> bool" where
  "readAt d off n = (let got = take (nat n) (drop (nat off) d) in (got, int (length got) < n))"

datatype verified = Extends string string | Resets ResetReason | VerifyFails

text \<open>What the file system answers: a failed open or \<open>Stat\<close>, or a failed read.\<close>

record poll_io =
  io_open_fails :: bool
  io_head_fails :: bool
  io_tail_fails :: bool
  io_records_fails :: bool

definition verify :: "(string \<Rightarrow> string) \<Rightarrow> poll_io \<Rightarrow> string \<Rightarrow> int \<Rightarrow> nat \<Rightarrow> FCheckpoint \<Rightarrow> verified" where
  "verify H io d sz inode cp =
     (if fc_offset cp = 0 then Extends [] []
      else if fc_inode cp \<noteq> 0 \<and> inode \<noteq> 0 \<and> inode \<noteq> fc_inode cp then Resets ResetReplaced
      else if sz < fc_offset cp then Resets ResetShrunk
      else
        let (head, short) = readAt d 0 (fc_prefix_len cp) in
        if io_head_fails io then VerifyFails
        else if short then Resets ResetShrunk
        else if H head \<noteq> fc_prefix_sha cp then Resets ResetPrefixChanged
        else
          let (tail, short') = readAt d (fc_offset cp - fc_boundary_len cp) (fc_boundary_len cp) in
          if io_tail_fails io then VerifyFails
          else if short' then Resets ResetShrunk
          else if H tail \<noteq> fc_boundary_sha cp then Resets ResetBoundaryChanged
          else Extends head tail)"

text \<open>The loop of \<open>readRecords\<close>; \<open>acc\<close> is \<open>data\<close>, nil before the first chunk.\<close>

function read_loop :: "string \<Rightarrow> nat \<Rightarrow> nat \<Rightarrow> nat \<Rightarrow> string option \<Rightarrow> string" where
  "read_loop d limit sz pos acc =
     (if pos \<ge> sz then []
      else
        let chunk = take (min limit (sz - pos)) (drop pos d) in
        if chunk = [] then []
        else
          case acc of
            None \<Rightarrow>
              if LF \<in> set chunk then take (last_after LF chunk) chunk
              else read_loop d limit sz (pos + length chunk) (Some chunk)
          | Some data \<Rightarrow>
              (case cut_on LF chunk of
                 Some (l, _) \<Rightarrow> data @ l @ [LF]
               | None \<Rightarrow> read_loop d limit sz (pos + length chunk) (Some (data @ chunk))))"
  by pat_completeness auto
termination
  by (relation "measure (\<lambda>(d, limit, sz, pos, acc). sz - pos)") auto

declare read_loop.simps [simp del]

definition readRecords :: "int \<Rightarrow> string \<Rightarrow> int \<Rightarrow> int \<Rightarrow> string" where
  "readRecords maxBatchBytes d offset sz =
     read_loop d (if maxBatchBytes \<le> 0 then defaultMaxBatchBytes else nat maxBatchBytes) (nat sz) (nat offset) None"

definition window :: "(string \<Rightarrow> string) \<Rightarrow> string \<Rightarrow> string \<Rightarrow> bool \<Rightarrow> int \<times> string" where
  "window H prev data first =
     (let n = min (length prev + length data) checkpointWindow in
      if first then (int n, H (take (min (length prev) n) prev @ take (n - min (length prev) n) data))
      else
        let fromData = min (length data) n in
        (int n, H (drop (length prev - (n - fromData)) prev @ drop (length data - fromData) data)))"

definition followerID :: "TEvent \<Rightarrow> int \<Rightarrow> string \<Rightarrow> int \<Rightarrow> string" where
  "followerID e block generation offset =
     (let v = ''v'' @ itoa FollowerVersion @ '':'' @ tv_type e in
      if (tv_type e = ''tool_use'' \<or> tv_type e = ''tool_result'') \<and> tv_tool_use_id e \<noteq> []
      then v @ '':tool:'' @ tv_tool_use_id e
      else if tv_uuid e \<noteq> [] then v @ '':line:'' @ tv_uuid e @ '':'' @ itoa block
      else v @ '':gen:'' @ generation @ '':'' @ itoa offset @ '':'' @ itoa block)"

text \<open>The events of one record, numbered from \<open>seq\<close>.\<close>

fun stamp :: "string \<Rightarrow> int \<Rightarrow> int \<Rightarrow> 'm BlockEvent list \<Rightarrow> 'm FollowedEvent list" where
  "stamp gen at seq [] = []"
| "stamp gen at seq (be # bes) =
     \<lparr>fe_event = (be_event be)\<lparr>tv_seq := seq, tv_native_id := followerID (be_event be) (be_block be) gen at\<rparr>,
      fe_offset = at, fe_block = be_block be, fe_meta = be_meta be\<rparr> # stamp gen at (seq + 1) bes"

text \<open>The loop of \<open>Poll\<close> over the records it read; the bytes it walks end in a newline.\<close>

record 'm walked =
  wk_events :: "'m FollowedEvent list"
  wk_errors :: "SourceError list"
  wk_offset :: int
  wk_seq :: int

function walk :: "(string \<Rightarrow> string) \<Rightarrow> 'm decoder \<Rightarrow> string \<Rightarrow> int \<Rightarrow> int \<Rightarrow> string \<Rightarrow> 'm walked" where
  "walk H decode gen offset seq rest =
     (case cut_on LF rest of
        None \<Rightarrow> \<lparr>wk_events = [], wk_errors = [], wk_offset = offset, wk_seq = seq\<rparr>
      | Some (body, rest') \<Rightarrow>
          let n = int (length body) + 1 in
          if blank body then walk H decode gen (offset + n) seq rest'
          else
            case decode body of
              Inl _ \<Rightarrow>
                (let w = walk H decode gen (offset + n) seq rest' in
                 w\<lparr>wk_errors := \<lparr>sx_offset = offset, sx_length = n, sx_sha = H (body @ [LF])\<rparr> # wk_errors w\<rparr>)
            | Inr blocks \<Rightarrow>
                (let w = walk H decode gen (offset + n) (seq + int (length blocks)) rest' in
                 w\<lparr>wk_events := stamp gen offset seq blocks @ wk_events w\<rparr>))"
  by pat_completeness auto
termination
  by (relation "measure (\<lambda>(H, decode, gen, offset, seq, rest). length rest)") (auto simp: cut_on_Some)

declare walk.simps [simp del]

datatype 'm polled = Polled "'m FBatch" | PollReset ResetReason | PollError

definition Poll ::
  "(string \<Rightarrow> string) \<Rightarrow> 'm decoder \<Rightarrow> string \<Rightarrow> poll_io \<Rightarrow> string \<Rightarrow> int \<Rightarrow> nat \<Rightarrow> Follower \<Rightarrow> 'm polled \<times> Follower"
where
  "Poll H decode uuid io d sz inode f =
     (let from = fo_cp f in
      if io_open_fails io then (PollError, f)
      else
        case verify H io d sz inode from of
          VerifyFails \<Rightarrow> (PollError, f)
        | Resets reason \<Rightarrow>
            (PollReset reason,
             f\<lparr>fo_cp := zero_cp\<lparr>fc_version := FollowerVersion, fc_session := fc_session from, fc_generation := uuid\<rparr>\<rparr>)
        | Extends head tail \<Rightarrow>
            if io_records_fails io then (PollError, f)
            else
              let data = readRecords (fo_max f) d (fc_offset from) sz in
              if data = [] then (Polled \<lparr>fb_from = from, fb_events = [], fb_errors = [], fb_checkpoint = from\<rparr>, f)
              else
                let w = walk H decode (fc_generation from) (fc_offset from) (fc_next_seq from) data;
                    next1 = from\<lparr>fc_next_seq := wk_seq w, fc_offset := wk_offset w\<rparr>;
                    next2 = (if inode \<noteq> 0 then next1\<lparr>fc_inode := inode\<rparr> else next1);
                    next3 = (if fc_prefix_len from = fc_offset from
                             then next2\<lparr>fc_prefix_len := fst (window H head data True),
                                        fc_prefix_sha := snd (window H head data True)\<rparr> else next2);
                    next4 = next3\<lparr>fc_boundary_len := fst (window H tail data False),
                                  fc_boundary_sha := snd (window H tail data False)\<rparr>
                in (Polled \<lparr>fb_from = from, fb_events = wk_events w, fb_errors = wk_errors w, fb_checkpoint = next4\<rparr>, f))"

section \<open>Reading whole records\<close>

text \<open>
  What \<open>readRecords\<close> is to give of the available bytes: all whole records within the limit, or the
  first record, however long, or nothing when none is whole.
\<close>

definition whole_records :: "nat \<Rightarrow> string \<Rightarrow> string" where
  "whole_records limit avail =
     (if LF \<in> set (take limit avail) then take (last_after LF (take limit avail)) avail
      else case cut_on LF avail of None \<Rightarrow> [] | Some (l, _) \<Rightarrow> l @ [LF])"

definition avail :: "string \<Rightarrow> nat \<Rightarrow> nat \<Rightarrow> string" where
  "avail d sz pos = take (sz - pos) (drop pos d)"

lemma cut_on_append_in: "cut_on c xs = Some (l, r) \<Longrightarrow> cut_on c (xs @ ys) = Some (l, r @ ys)"
  by (auto simp: cut_on_Some)

lemma cut_on_append_notin: "c \<notin> set xs \<Longrightarrow> cut_on c (xs @ ys) = map_option (\<lambda>(l, r). (xs @ l, r)) (cut_on c ys)"
  by (induction xs) (auto simp: cut_on_def)

lemma cut_on_None: "cut_on c xs = None \<longleftrightarrow> c \<notin> set xs"
  by (simp add: cut_on_def)

lemma avail_chunk:
  assumes "take (min limit (sz - pos)) (drop pos d) = chunk"
  shows "avail d sz pos = chunk @ avail d sz (pos + length chunk)" and "chunk = take limit (avail d sz pos)"
proof -
  show c: "chunk = take limit (avail d sz pos)" using assms by (simp add: avail_def min.commute)
  have "avail d sz (pos + length chunk) = drop (length chunk) (avail d sz pos)"
    by (simp add: avail_def drop_take add.commute)
  then show "avail d sz pos = chunk @ avail d sz (pos + length chunk)"
    using c by (metis append_take_drop_id length_take min.cobounded2 take_all_iff nat_le_linear append_eq_conv_conj)
qed

lemma read_loop_on:
  "0 < limit \<Longrightarrow> read_loop d limit sz pos (Some data) =
     (case cut_on LF (avail d sz pos) of None \<Rightarrow> [] | Some (l, _) \<Rightarrow> data @ l @ [LF])"
proof (induction "sz - pos" arbitrary: pos data rule: less_induct)
  case less
  define chunk where "chunk = take (min limit (sz - pos)) (drop pos d)"
  note split = avail_chunk [OF chunk_def [symmetric]]
  consider "pos \<ge> sz" | "pos < sz" "chunk = []" | "pos < sz" "chunk \<noteq> []" by fastforce
  then show ?case
  proof cases
    case 1
    then show ?thesis by (subst read_loop.simps) (simp add: avail_def cut_on_def)
  next
    case 2
    then have "avail d sz pos = []" using split(2) less.prems by auto
    with 2 show ?thesis by (subst read_loop.simps) (simp add: chunk_def [symmetric] cut_on_def)
  next
    case 3
    show ?thesis
    proof (cases "cut_on LF chunk")
      case None
      then have "LF \<notin> set chunk" by (simp add: cut_on_None)
      have "read_loop d limit sz (pos + length chunk) (Some (data @ chunk)) =
          (case cut_on LF (avail d sz (pos + length chunk)) of None \<Rightarrow> [] | Some (l, _) \<Rightarrow> (data @ chunk) @ l @ [LF])"
        using 3 less.prems by (intro less.hyps) (cases chunk, auto)
      then show ?thesis using 3 None split(1) cut_on_append_notin [OF \<open>LF \<notin> set chunk\<close>]
        by (subst read_loop.simps) (auto simp: chunk_def [symmetric] Let_def split: option.splits)
    next
      case (Some lr)
      obtain l r where lr: "lr = (l, r)" by (cases lr)
      show ?thesis using 3 Some lr split(1) cut_on_append_in [of LF chunk l r]
        by (subst read_loop.simps) (simp add: chunk_def [symmetric] Let_def)
    qed
  qed
qed

lemma read_loop_whole:
  assumes "0 < limit"
  shows "read_loop d limit sz pos None = whole_records limit (avail d sz pos)"
proof -
  define chunk where "chunk = take (min limit (sz - pos)) (drop pos d)"
  note split = avail_chunk [OF chunk_def [symmetric]]
  consider "pos \<ge> sz" | "pos < sz" "chunk = []" | "pos < sz" "chunk \<noteq> []" by fastforce
  then show ?thesis
  proof cases
    case 1
    then show ?thesis by (subst read_loop.simps) (simp add: avail_def whole_records_def cut_on_def)
  next
    case 2
    then have "avail d sz pos = []" using split(2) assms by auto
    with 2 show ?thesis by (subst read_loop.simps) (simp add: chunk_def [symmetric] whole_records_def cut_on_def)
  next
    case 3
    show ?thesis
    proof (cases "LF \<in> set chunk")
      case True
      have "take (last_after LF chunk) chunk = take (last_after LF chunk) (avail d sz pos)"
        using last_after_le [of LF chunk] by (subst split(1)) simp
      then show ?thesis using 3 True split(2)
        by (subst read_loop.simps) (simp add: chunk_def [symmetric] whole_records_def Let_def)
    next
      case False
      have "read_loop d limit sz pos None = read_loop d limit sz (pos + length chunk) (Some chunk)"
        using 3 False by (subst read_loop.simps) (simp add: chunk_def [symmetric] Let_def)
      moreover have "cut_on LF (avail d sz pos) =
          map_option (\<lambda>(l, r). (chunk @ l, r)) (cut_on LF (avail d sz (pos + length chunk)))"
        by (subst split(1)) (rule cut_on_append_notin [OF False])
      moreover have "LF \<notin> set (take limit (avail d sz pos))" using False split(2) by simp
      ultimately show ?thesis
        by (auto simp: read_loop_on [OF assms] whole_records_def split: option.splits)
    qed
  qed
qed

text \<open>Bytes that end at a record's end.\<close>

definition complete :: "string \<Rightarrow> bool" where
  "complete s \<longleftrightarrow> s = [] \<or> last s = LF"

lemma complete_append: "complete xs \<Longrightarrow> complete ys \<Longrightarrow> complete (xs @ ys)"
  by (cases "ys = []") (auto simp: complete_def)

lemma complete_cut: "complete s \<Longrightarrow> cut_on LF s = Some (l, r) \<Longrightarrow> complete r"
  by (cases r) (auto simp: complete_def cut_on_Some)

lemma complete_None: "complete s \<Longrightarrow> cut_on LF s = None \<Longrightarrow> s = []"
  using last_in_set [of s] by (cases "s = []") (auto simp: complete_def cut_on_None)

lemma whole_records_spec:
  assumes "0 < limit"
  shows "complete (whole_records limit s)" "\<exists>rest. s = whole_records limit s @ rest"
    "whole_records limit s = [] \<longleftrightarrow> LF \<notin> set s"
proof -
  show "complete (whole_records limit s)"
  proof (cases "LF \<in> set (take limit s)")
    case True
    let ?k = "last_after LF (take limit s)"
    have k: "0 < ?k" "?k \<le> length (take limit s)" using True last_after_0 [of LF "take limit s"] last_after_le [of LF "take limit s"] by auto
    have "?k - 1 < length s" using k by auto
    from take_Suc_conv_app_nth [OF this] have "take ?k s = take (?k - 1) s @ [s ! (?k - 1)]" using k(1) by simp
    then have "last (take ?k s) = s ! (?k - 1)" by simp
    moreover have "?k - 1 < limit" using k by auto
    ultimately have "last (take ?k s) = take limit s ! (?k - 1)" by simp
    also have "\<dots> = LF" using last_after_pos [OF k(1)] by simp
    finally show ?thesis using True by (simp add: whole_records_def complete_def)
  next
    case False
    then show ?thesis by (auto simp: whole_records_def complete_def split: option.splits)
  qed
  show "\<exists>rest. s = whole_records limit s @ rest"
  proof (cases "LF \<in> set (take limit s)")
    case True
    then show ?thesis by (auto simp: whole_records_def) (metis append_take_drop_id)
  next
    case False
    then show ?thesis by (auto simp: whole_records_def cut_on_Some split: option.splits)
  qed
  show "whole_records limit s = [] \<longleftrightarrow> LF \<notin> set s"
    using last_after_0 [of LF "take limit s"] in_set_takeD [of LF limit s]
    by (auto simp: whole_records_def cut_on_None cut_on_Some split: option.splits)
qed

text \<open>More bytes give at least the records that were there.\<close>

lemma whole_records_mono: "\<exists>more. whole_records limit (s @ t) = whole_records limit s @ more"
proof (cases "LF \<in> set (take limit s)")
  case True
  define u where "u = take (limit - length s) t"
  have w: "take limit (s @ t) = take limit s @ u" by (simp add: u_def)
  have le: "last_after LF (take limit s) \<le> last_after LF (take limit s @ u)"
    using last_after_le [of LF "take limit s"] by (auto simp: last_after_append)
  have "whole_records limit (s @ t) = take (last_after LF (take limit s @ u)) (s @ t)"
    using True by (simp add: whole_records_def u_def)
  moreover have "whole_records limit s = take (last_after LF (take limit s)) (s @ t)"
    using True last_after_le [of LF "take limit s"] by (simp add: whole_records_def)
  ultimately show ?thesis using le by (metis append_take_drop_id take_take min.absorb_iff2 min.commute)
next
  case False
  show ?thesis
  proof (cases "cut_on LF s")
    case None
    then show ?thesis using False by (simp add: whole_records_def)
  next
    case (Some lr)
    obtain l r where lr: "lr = (l, r)" by (cases lr)
    with Some have s: "s = l @ LF # r" "LF \<notin> set l" by (simp_all add: cut_on_Some)
    have "limit \<le> length l" using False s by (cases "limit \<le> length l") (auto simp: not_le take_Cons' split: if_splits)
    then have "LF \<notin> set (take limit (s @ t))" using s in_set_takeD [of LF limit l] by auto
    then show ?thesis using False Some lr cut_on_append_in [of LF s l r t] by (simp add: whole_records_def)
  qed
qed

section \<open>Walking records\<close>

lemma walk_Nil [simp]: "walk H decode gen off seq [] = \<lparr>wk_events = [], wk_errors = [], wk_offset = off, wk_seq = seq\<rparr>"
  by (subst walk.simps) (simp add: cut_on_def)

text \<open>Walking two pieces is walking both, when the first is whole; offsets count bytes.\<close>

lemma walk_append:
  assumes "complete xs"
  shows "walk H decode gen off seq (xs @ ys) =
    (let w = walk H decode gen off seq xs; v = walk H decode gen (wk_offset w) (wk_seq w) ys
     in v\<lparr>wk_events := wk_events w @ wk_events v, wk_errors := wk_errors w @ wk_errors v\<rparr>)"
  using assms
proof (induction xs arbitrary: off seq rule: length_induct)
  case (1 xs)
  show ?case
  proof (cases "cut_on LF xs")
    case None
    then have "xs = []" using complete_None "1.prems" by blast
    then show ?thesis by (simp add: Let_def)
  next
    case (Some lr)
    obtain l r where lr: "lr = (l, r)" by (cases lr)
    note cut = Some [unfolded lr]
    have shorter: "length r < length xs" and rc: "complete r" "cut_on LF (xs @ ys) = Some (l, r @ ys)"
      using cut complete_cut [OF "1.prems"] cut_on_append_in by (auto simp: cut_on_Some)
    note ih = "1.IH" [rule_format, OF shorter rc(1)]
    show ?thesis
      using cut rc(2) ih
      by (simp add: walk.simps [of H decode gen off seq xs] walk.simps [of H decode gen off seq "xs @ ys"] Let_def split: sum.split)
  qed
qed

lemma walk_offset: "complete xs \<Longrightarrow> wk_offset (walk H decode gen off seq xs) = off + int (length xs)"
proof (induction xs arbitrary: off seq rule: length_induct)
  case (1 xs)
  show ?case
  proof (cases "cut_on LF xs")
    case None
    then have "xs = []" using complete_None "1.prems" by blast
    then show ?thesis by simp
  next
    case (Some lr)
    obtain l r where lr: "lr = (l, r)" by (cases lr)
    note cut = Some [unfolded lr]
    have xs: "length xs = length l + 1 + length r" "length r < length xs" using cut by (auto simp: cut_on_Some)
    note ih = "1.IH" [rule_format, OF xs(2) complete_cut [OF "1.prems" cut]]
    show ?thesis using cut ih xs(1)
      by (simp add: walk.simps [of H decode gen off seq xs] Let_def split: sum.split)
  qed
qed

section \<open>Checkpoints\<close>

lemma window_first:
  "window H prev data True = (int (min (length (prev @ data)) checkpointWindow), H (take checkpointWindow (prev @ data)))"
  by (auto simp: window_def Let_def min_def)

lemma window_last:
  "window H prev data False =
     (int (min (length (prev @ data)) checkpointWindow), H (tail_of checkpointWindow (prev @ data)))"
proof -
  define n where "n = min (length prev + length data) checkpointWindow"
  define m where "m = min (length data) n"
  have "drop (length prev - (n - m)) prev @ drop (length data - m) data = tail_of checkpointWindow (prev @ data)"
    by (auto simp: tail_of_def n_def m_def min_def)
  then show ?thesis unfolding window_def Let_def n_def [symmetric] m_def [symmetric] by (simp add: n_def)
qed

text \<open>A checkpoint that covers the first bytes of a file, up to a record's end.\<close>

definition covers_file :: "(string \<Rightarrow> string) \<Rightarrow> string \<Rightarrow> nat \<Rightarrow> FCheckpoint \<Rightarrow> bool" where
  "covers_file H d inode cp \<longleftrightarrow>
     0 \<le> fc_offset cp \<and> nat (fc_offset cp) \<le> length d \<and> complete (take (nat (fc_offset cp)) d) \<and>
     fc_prefix_len cp = min (fc_offset cp) (int checkpointWindow) \<and>
     fc_boundary_len cp = min (fc_offset cp) (int checkpointWindow) \<and>
     (0 < fc_offset cp \<longrightarrow>
        fc_prefix_sha cp = H (take checkpointWindow (take (nat (fc_offset cp)) d)) \<and>
        fc_boundary_sha cp = H (tail_of checkpointWindow (take (nat (fc_offset cp)) d))) \<and>
     (fc_inode cp = 0 \<or> fc_inode cp = inode)"

lemma covers_file_append: "covers_file H d inode cp \<Longrightarrow> covers_file H (d @ x) inode cp"
  by (simp add: covers_file_def)

lemma verify_covers:
  assumes cov: "covers_file H d inode cp" and sz: "fc_offset cp \<le> sz"
  shows "verify H io d sz inode cp =
    (if fc_offset cp \<noteq> 0 \<and> (io_head_fails io \<or> io_tail_fails io) then VerifyFails
     else Extends (take checkpointWindow (take (nat (fc_offset cp)) d)) (tail_of checkpointWindow (take (nat (fc_offset cp)) d)))"
proof (cases "fc_offset cp = 0")
  case True
  then show ?thesis by (simp add: verify_def tail_of_def)
next
  case False
  define k where "k = nat (fc_offset cp)"
  have k: "fc_offset cp = int k" "0 < k" "k \<le> length d" using cov False by (auto simp: covers_file_def k_def)
  have head: "readAt d 0 (fc_prefix_len cp) = (take checkpointWindow (take k d), False)"
    using cov k by (auto simp: readAt_def covers_file_def Let_def min_def)
  have tail: "readAt d (fc_offset cp - fc_boundary_len cp) (fc_boundary_len cp) = (tail_of checkpointWindow (take k d), False)"
    using cov k by (auto simp: readAt_def covers_file_def Let_def min_def tail_of_def drop_take nat_diff_distrib)
  show ?thesis using cov sz k head tail by (auto simp: verify_def covers_file_def)
qed

text \<open>The checkpoint of a batch covers what the one before did and the batch.\<close>

lemma covers_file_next:
  assumes cov: "covers_file H d inode cp" and data: "complete data"
    and at: "take (nat (fc_offset cp) + length data) d = take (nat (fc_offset cp)) d @ data"
    and len: "nat (fc_offset cp) + length data \<le> length d" and off: "fc_offset cp' = fc_offset cp + int (length data)"
    and ino: "fc_inode cp' = (if inode \<noteq> 0 then inode else fc_inode cp)"
    and bl: "fc_boundary_len cp' = fst (window H (tail_of checkpointWindow (take (nat (fc_offset cp)) d)) data False)"
    and bs: "fc_boundary_sha cp' = snd (window H (tail_of checkpointWindow (take (nat (fc_offset cp)) d)) data False)"
    and pl: "fc_prefix_len cp' = (if fc_prefix_len cp = fc_offset cp
      then fst (window H (take checkpointWindow (take (nat (fc_offset cp)) d)) data True) else fc_prefix_len cp)"
    and ps: "fc_prefix_sha cp' = (if fc_prefix_len cp = fc_offset cp
      then snd (window H (take checkpointWindow (take (nat (fc_offset cp)) d)) data True) else fc_prefix_sha cp)"
  shows "covers_file H d inode cp'"
proof -
  define k where "k = nat (fc_offset cp)"
  have k: "fc_offset cp = int k" "k \<le> length d" "complete (take k d)" "fc_prefix_len cp = int (min k checkpointWindow)"
    using cov by (auto simp: covers_file_def k_def)
  have k': "nat (fc_offset cp') = k + length data" using off k(1) by simp
  have at': "take (k + length data) d = take k d @ data" using at by (simp add: k_def)
  have tail: "fc_boundary_len cp' = int (min (k + length data) checkpointWindow)"
    "fc_boundary_sha cp' = H (tail_of checkpointWindow (take (k + length data) d))"
    using bl bs k(2) unfolding k_def [symmetric] at' by (simp_all add: window_last tail_of_append)
  have head: "fc_prefix_len cp' = int (min (k + length data) checkpointWindow)"
    "0 < k + length data \<Longrightarrow> fc_prefix_sha cp' = H (take checkpointWindow (take (k + length data) d))"
  proof -
    have "fc_prefix_len cp' = int (min (k + length data) checkpointWindow) \<and>
        (0 < k + length data \<longrightarrow> fc_prefix_sha cp' = H (take checkpointWindow (take (k + length data) d)))"
    proof (cases "k \<le> checkpointWindow")
      case True
      then show ?thesis using pl ps k(1,2,4) unfolding k_def [symmetric] at' by (simp add: window_first)
    next
      case False
      then have "fc_prefix_sha cp = H (take checkpointWindow (take k d))"
        using cov False by (simp add: covers_file_def k(1))
      with False show ?thesis using pl ps k(1,4) by (simp add: min_def)
    qed
    then show "fc_prefix_len cp' = int (min (k + length data) checkpointWindow)"
      "0 < k + length data \<Longrightarrow> fc_prefix_sha cp' = H (take checkpointWindow (take (k + length data) d))" by auto
  qed
  have "complete (take (k + length data) d)" unfolding at' by (rule complete_append [OF k(3) data])
  moreover have "fc_offset cp' = int (k + length data)" using off k(1) by simp
  moreover have "fc_inode cp' = 0 \<or> fc_inode cp' = inode" using ino cov by (auto simp: covers_file_def)
  moreover have "k + length data \<le> length d" using len by (simp add: k_def)
  moreover have "0 < fc_offset cp' \<longrightarrow> fc_prefix_sha cp' = H (take checkpointWindow (take (k + length data) d)) \<and>
      fc_boundary_sha cp' = H (tail_of checkpointWindow (take (k + length data) d))"
    using head(2) tail(2) off k(1) by (metis of_nat_0_less_iff of_nat_add)
  ultimately show ?thesis
    unfolding covers_file_def k' using head(1) tail(1) by (simp add: of_nat_min)
qed

section \<open>One poll\<close>

text \<open>A poll of a file that extends its checkpoint: the records it takes, and what it makes of them.\<close>

definition limit_of :: "Follower \<Rightarrow> nat" where
  "limit_of f = (if fo_max f \<le> 0 then defaultMaxBatchBytes else nat (fo_max f))"

definition batch_of ::
  "(string \<Rightarrow> string) \<Rightarrow> 'm decoder \<Rightarrow> string \<Rightarrow> string \<Rightarrow> 'm FBatch \<Rightarrow> bool"
where
  "batch_of H decode d data b \<longleftrightarrow>
     (let from = fb_from b; w = walk H decode (fc_generation from) (fc_offset from) (fc_next_seq from) data in
      complete data \<and> take (nat (fc_offset from) + length data) d = take (nat (fc_offset from)) d @ data \<and>
      fc_offset (fb_checkpoint b) = fc_offset from + int (length data) \<and>
      fc_next_seq (fb_checkpoint b) = wk_seq w \<and> fc_generation (fb_checkpoint b) = fc_generation from \<and>
      fc_session (fb_checkpoint b) = fc_session from \<and> fc_version (fb_checkpoint b) = fc_version from \<and>
      fb_events b = wk_events w \<and> fb_errors b = wk_errors w)"

lemma limit_of_pos: "0 < limit_of f"
  by (simp add: limit_of_def defaultMaxBatchBytes_def)

lemma Poll_covers:
  assumes cov: "covers_file H d inode (fo_cp f)" and sz: "fc_offset (fo_cp f) \<le> sz" "sz \<le> int (length d)"
    and io: "\<not> io_open_fails io" "fc_offset (fo_cp f) = 0 \<or> \<not> io_head_fails io \<and> \<not> io_tail_fails io"
      "\<not> io_records_fails io"
    and data: "data = whole_records (limit_of f) (avail d (nat sz) (nat (fc_offset (fo_cp f))))"
  shows "\<exists>b. Poll H decode uuid io d sz inode f = (Polled b, f) \<and> fb_from b = fo_cp f \<and>
    batch_of H decode d data b \<and> covers_file H d inode (fb_checkpoint b)"
proof -
  let ?cp = "fo_cp f"
  define k where "k = nat (fc_offset ?cp)"
  have k: "fc_offset ?cp = int k" "k \<le> length d" "complete (take k d)" using cov by (auto simp: covers_file_def k_def)
  have rr: "readRecords (fo_max f) d (fc_offset ?cp) sz = data"
    using data read_loop_whole [OF limit_of_pos] by (simp add: readRecords_def limit_of_def)
  obtain rest where rest: "avail d (nat sz) k = data @ rest"
    using whole_records_spec(2) [OF limit_of_pos, of "avail d (nat sz) k" f] data k_def by blast
  have cd: "complete data" using whole_records_spec(1) [OF limit_of_pos] data by simp
  have "take (length data) (drop k d) = data"
    using arg_cong [OF rest, of "take (length data)"] arg_cong [OF rest, of length] by (simp add: avail_def min_def split: if_splits)
  then have take: "take (k + length data) d = take k d @ data" by (simp add: take_add)
  have len: "k + length data \<le> length d" using arg_cong [OF rest, of length] k(2) by (simp add: avail_def min_def split: if_splits)
  have ver: "verify H io d sz inode ?cp = Extends (take checkpointWindow (take k d)) (tail_of checkpointWindow (take k d))"
    using io(2) by (auto simp: verify_covers [OF cov sz(1)] k_def)
  show ?thesis
  proof (cases "data = []")
    case True
    then show ?thesis using ver rr io cov by (simp add: Poll_def batch_of_def complete_def Let_def)
  next
    case False
    let ?w = "walk H decode (fc_generation ?cp) (fc_offset ?cp) (fc_next_seq ?cp) data"
    have off: "wk_offset ?w = int (k + length data)" using walk_offset [OF cd] k(1) by simp
    obtain b where b: "Poll H decode uuid io d sz inode f = (Polled b, f)" by (simp add: Poll_def ver rr False io Let_def)
    then have fields: "fb_from b = ?cp" "fc_offset (fb_checkpoint b) = wk_offset ?w" "fc_next_seq (fb_checkpoint b) = wk_seq ?w"
      "fc_generation (fb_checkpoint b) = fc_generation ?cp" "fc_session (fb_checkpoint b) = fc_session ?cp"
      "fc_version (fb_checkpoint b) = fc_version ?cp" "fb_events b = wk_events ?w" "fb_errors b = wk_errors ?w"
      "fc_inode (fb_checkpoint b) = (if inode \<noteq> 0 then inode else fc_inode ?cp)"
      "fc_boundary_len (fb_checkpoint b) = fst (window H (tail_of checkpointWindow (take k d)) data False)"
      "fc_boundary_sha (fb_checkpoint b) = snd (window H (tail_of checkpointWindow (take k d)) data False)"
      "fc_prefix_len (fb_checkpoint b) = (if fc_prefix_len ?cp = fc_offset ?cp
         then fst (window H (take checkpointWindow (take k d)) data True) else fc_prefix_len ?cp)"
      "fc_prefix_sha (fb_checkpoint b) = (if fc_prefix_len ?cp = fc_offset ?cp
         then snd (window H (take checkpointWindow (take k d)) data True) else fc_prefix_sha ?cp)"
      by (auto simp: Poll_def ver rr False io Let_def k_def)
    have new: "covers_file H d inode (fb_checkpoint b)"
      by (rule covers_file_next [OF cov, where data = data]) (use fields off take len cd in \<open>simp_all add: k(1)\<close>)
    show ?thesis using b new fields cd take off by (auto simp: batch_of_def Let_def k(1))
  qed
qed

text \<open>A poll of a file that extends the checkpoint never moves the follower: it gives a batch or an error.\<close>

lemma Poll_keeps:
  assumes cov: "covers_file H d inode (fo_cp f)" and sz: "fc_offset (fo_cp f) \<le> sz" "sz \<le> int (length d)"
    and poll: "Poll H decode uuid io d sz inode f = (r, f')"
  shows "f' = f \<and> (r = PollError \<or>
    (\<exists>b. r = Polled b \<and> fb_from b = fo_cp f \<and> covers_file H d inode (fb_checkpoint b) \<and>
      batch_of H decode d (whole_records (limit_of f) (avail d (nat sz) (nat (fc_offset (fo_cp f))))) b))"
proof (cases "io_open_fails io \<or> io_records_fails io \<or> fc_offset (fo_cp f) \<noteq> 0 \<and> (io_head_fails io \<or> io_tail_fails io)")
  case True
  then show ?thesis using poll by (auto simp: Poll_def Let_def verify_covers [OF cov sz(1)] split: if_splits)
next
  case False
  then show ?thesis using Poll_covers [OF cov sz _ _ _ refl, of io decode uuid] poll by auto
qed

section \<open>A transcript and its follower\<close>

text \<open>
  A harness that appends, a follower that polls, and a caller that stores a batch with its
  checkpoint in one transaction, acknowledges it and may die at any point; it then starts again
  from the checkpoint it stored. \<open>sz\<close> is what \<open>Stat\<close> said of a file that has only grown since.
\<close>

record 'm fsys =
  fy_file :: string
  fy_inode :: nat
  fy_f :: Follower
  fy_stored :: "FCheckpoint option"
  fy_events :: "'m FollowedEvent list"
  fy_errors :: "SourceError list"
  fy_polled :: "'m FBatch option"
  fy_unacked :: "'m FBatch option"

definition fy_init :: "string \<Rightarrow> string \<Rightarrow> 'm fsys \<Rightarrow> bool" where
  "fy_init path sid y \<longleftrightarrow>
     (\<exists>uuid. uuid \<noteq> [] \<and> NewFollower uuid path sid zero_cp True = Some (fy_f y)) \<and>
     fy_stored y = None \<and> fy_events y = [] \<and> fy_errors y = [] \<and> fy_polled y = None \<and> fy_unacked y = None"

inductive fy_step :: "(string \<Rightarrow> string) \<Rightarrow> 'm decoder \<Rightarrow> string \<Rightarrow> string \<Rightarrow> 'm fsys \<Rightarrow> 'm fsys \<Rightarrow> bool"
  for H :: "string \<Rightarrow> string" and decode :: "'m decoder" and path :: string and sid :: string where
  append: "fy_step H decode path sid y (y\<lparr>fy_file := fy_file y @ x\<rparr>)"
| poll: "fy_unacked y = None \<Longrightarrow> fc_offset (fo_cp (fy_f y)) \<le> sz \<Longrightarrow> sz \<le> int (length (fy_file y)) \<Longrightarrow> uuid \<noteq> [] \<Longrightarrow>
    Poll H decode uuid io (fy_file y) sz (fy_inode y) (fy_f y) = (r, f) \<Longrightarrow>
    fy_step H decode path sid y (y\<lparr>fy_f := f, fy_polled := (case r of Polled b \<Rightarrow> Some b | _ \<Rightarrow> None)\<rparr>)"
| commit: "fy_polled y = Some b \<Longrightarrow>
    fy_step H decode path sid y (y\<lparr>fy_stored := Some (fb_checkpoint b), fy_events := fy_events y @ fb_events b,
      fy_errors := fy_errors y @ fb_errors b, fy_polled := None, fy_unacked := Some b\<rparr>)"
| ack: "fy_unacked y = Some b \<Longrightarrow> FAck b (fy_f y) = Some f \<Longrightarrow>
    fy_step H decode path sid y (y\<lparr>fy_f := f, fy_unacked := None\<rparr>)"
| restart: "uuid \<noteq> [] \<Longrightarrow> NewFollower uuid path sid (case fy_stored y of None \<Rightarrow> zero_cp | Some c \<Rightarrow> c) True = Some f \<Longrightarrow>
    fy_step H decode path sid y (y\<lparr>fy_f := f\<lparr>fo_max := n\<rparr>, fy_polled := None, fy_unacked := None\<rparr>)"

text \<open>What is stored is what the bytes up to a checkpoint hold.\<close>

definition done_to :: "(string \<Rightarrow> string) \<Rightarrow> 'm decoder \<Rightarrow> 'm fsys \<Rightarrow> FCheckpoint \<Rightarrow> bool" where
  "done_to H decode y c \<longleftrightarrow>
     covers_file H (fy_file y) (fy_inode y) c \<and> fc_generation c \<noteq> [] \<and> fc_version c = FollowerVersion \<and>
     walk H decode (fc_generation c) 0 0 (take (nat (fc_offset c)) (fy_file y)) =
       \<lparr>wk_events = fy_events y, wk_errors = fy_errors y, wk_offset = fc_offset c, wk_seq = fc_next_seq c\<rparr>"

definition fy_inv :: "(string \<Rightarrow> string) \<Rightarrow> 'm decoder \<Rightarrow> 'm fsys \<Rightarrow> bool" where
  "fy_inv H decode y \<longleftrightarrow>
     (case fy_unacked y of
        None \<Rightarrow> done_to H decode y (fo_cp (fy_f y)) \<and> (\<forall>c. fy_stored y = Some c \<longrightarrow> fo_cp (fy_f y) = c)
      | Some b \<Rightarrow> fb_from b = fo_cp (fy_f y) \<and> fy_stored y = Some (fb_checkpoint b) \<and> fy_polled y = None) \<and>
     (case fy_stored y of
        None \<Rightarrow> fy_events y = [] \<and> fy_errors y = []
      | Some c \<Rightarrow> done_to H decode y c) \<and>
     (\<forall>b. fy_polled y = Some b \<longrightarrow>
        fb_from b = fo_cp (fy_f y) \<and> covers_file H (fy_file y) (fy_inode y) (fb_checkpoint b) \<and>
        (\<exists>data. batch_of H decode (fy_file y) data b))"

lemma NewFollower_zero:
  "NewFollower uuid path sid zero_cp True = Some f \<Longrightarrow>
   fo_cp f = zero_cp\<lparr>fc_session := sid, fc_generation := uuid, fc_version := FollowerVersion\<rparr>"
  by (auto simp: NewFollower_def zero_cp_def FollowerVersion_def Let_def split: if_splits)

lemma NewFollower_from:
  "NewFollower uuid path sid c True = Some f \<Longrightarrow> fc_generation c \<noteq> [] \<Longrightarrow> fc_version c = FollowerVersion \<Longrightarrow> fo_cp f = c"
  by (auto simp: NewFollower_def Let_def split: if_splits)

lemma done_to_fresh:
  "uuid \<noteq> [] \<Longrightarrow> fy_events y = [] \<Longrightarrow> fy_errors y = [] \<Longrightarrow>
   done_to H decode y (zero_cp\<lparr>fc_session := sid, fc_generation := uuid, fc_version := FollowerVersion\<rparr>)"
  by (simp add: done_to_def covers_file_def zero_cp_def complete_def)

lemma fy_inv_init: "fy_init path sid y \<Longrightarrow> fy_inv H decode y"
  using done_to_fresh NewFollower_zero by (fastforce simp: fy_init_def fy_inv_def)

lemma done_to_cong:
  "done_to H decode y c \<Longrightarrow> fy_file y' = fy_file y \<Longrightarrow> fy_inode y' = fy_inode y \<Longrightarrow> fy_events y' = fy_events y \<Longrightarrow>
   fy_errors y' = fy_errors y \<Longrightarrow> done_to H decode y' c"
  by (simp add: done_to_def)

lemma done_to_append: "done_to H decode y c \<Longrightarrow> done_to H decode (y\<lparr>fy_file := fy_file y @ x\<rparr>) c"
  using covers_file_append by (auto simp: done_to_def covers_file_def)

lemma batch_of_append:
  "batch_of H decode d data b \<Longrightarrow> covers_file H d inode (fb_checkpoint b) \<Longrightarrow> covers_file H d inode (fb_from b) \<Longrightarrow>
   batch_of H decode (d @ x) data b"
  by (auto simp: batch_of_def covers_file_def Let_def)

text \<open>Storing a batch takes what is stored to the batch's checkpoint.\<close>

lemma done_to_commit:
  assumes d: "done_to H decode y (fb_from b)" and b: "batch_of H decode (fy_file y) data b"
    and cov: "covers_file H (fy_file y) (fy_inode y) (fb_checkpoint b)"
  shows "done_to H decode (y\<lparr>fy_stored := s, fy_events := fy_events y @ fb_events b,
      fy_errors := fy_errors y @ fb_errors b, fy_polled := p, fy_unacked := u\<rparr>) (fb_checkpoint b)"
proof -
  define k where "k = nat (fc_offset (fb_from b))"
  have k: "fc_offset (fb_from b) = int k" "complete (take k (fy_file y))"
    using d by (auto simp: done_to_def covers_file_def k_def)
  have at: "take (k + length data) (fy_file y) = take k (fy_file y) @ data" and data: "complete data"
    using b by (auto simp: batch_of_def Let_def k_def)
  have k': "nat (fc_offset (fb_checkpoint b)) = k + length data" using b k(1) by (simp add: batch_of_def Let_def)
  have w: "walk H decode (fc_generation (fb_from b)) 0 0 (take k (fy_file y)) =
      \<lparr>wk_events = fy_events y, wk_errors = fy_errors y, wk_offset = fc_offset (fb_from b), wk_seq = fc_next_seq (fb_from b)\<rparr>"
    using d by (simp add: done_to_def k(1))
  have off: "wk_offset (walk H decode (fc_generation (fb_from b)) (fc_offset (fb_from b)) (fc_next_seq (fb_from b)) data) =
      fc_offset (fb_checkpoint b)"
    using walk_offset [OF data] b by (simp add: batch_of_def Let_def)
  have "walk H decode (fc_generation (fb_checkpoint b)) 0 0 (take (k + length data) (fy_file y)) =
      \<lparr>wk_events = fy_events y @ fb_events b, wk_errors = fy_errors y @ fb_errors b,
        wk_offset = fc_offset (fb_checkpoint b), wk_seq = fc_next_seq (fb_checkpoint b)\<rparr>"
    unfolding at walk_append [OF k(2)] using b w off by (simp add: batch_of_def Let_def)
  then show ?thesis using d b cov k' by (simp add: done_to_def batch_of_def Let_def)
qed

lemma done_to_update [simp]:
  "done_to H decode (y\<lparr>fy_f := f\<rparr>) c = done_to H decode y c"
  "done_to H decode (y\<lparr>fy_polled := p\<rparr>) c = done_to H decode y c"
  "done_to H decode (y\<lparr>fy_unacked := u\<rparr>) c = done_to H decode y c"
  by (simp_all add: done_to_def)

lemma done_to_covers: "done_to H decode y c \<Longrightarrow> covers_file H (fy_file y) (fy_inode y) c"
  by (simp add: done_to_def)

lemma fy_inv_polled:
  "fy_inv H decode y \<Longrightarrow> fy_polled y = Some b \<Longrightarrow> fy_unacked y = None \<and> done_to H decode y (fb_from b)"
  by (auto simp: fy_inv_def split: option.splits)

lemma fy_inv_append:
  assumes inv: "fy_inv H decode y"
  shows "fy_inv H decode (y\<lparr>fy_file := fy_file y @ x\<rparr>)"
proof -
  have polled: "covers_file H (fy_file y @ x) (fy_inode y) (fb_checkpoint b) \<and> (\<exists>data. batch_of H decode (fy_file y @ x) data b)"
    if b: "fy_polled y = Some b" for b
  proof -
    have "covers_file H (fy_file y) (fy_inode y) (fb_from b)" using fy_inv_polled [OF inv b] by (simp add: done_to_def)
    moreover obtain data where "covers_file H (fy_file y) (fy_inode y) (fb_checkpoint b)" "batch_of H decode (fy_file y) data b"
      using inv b by (auto simp: fy_inv_def)
    ultimately show ?thesis using covers_file_append batch_of_append by blast
  qed
  show ?thesis
    using inv by (auto simp: fy_inv_def polled done_to_append split: option.splits)
qed

lemma fy_inv_poll:
  assumes inv: "fy_inv H decode y" and un: "fy_unacked y = None"
    and sz: "fc_offset (fo_cp (fy_f y)) \<le> sz" "sz \<le> int (length (fy_file y))"
    and poll: "Poll H decode uuid io (fy_file y) sz (fy_inode y) (fy_f y) = (r, f)"
  shows "fy_inv H decode (y\<lparr>fy_f := f, fy_polled := (case r of Polled b \<Rightarrow> Some b | _ \<Rightarrow> None)\<rparr>)"
proof -
  have "covers_file H (fy_file y) (fy_inode y) (fo_cp (fy_f y))"
    using inv un by (auto simp: fy_inv_def intro: done_to_covers)
  note r = Poll_keeps [OF this sz poll]
  then show ?thesis using inv un by (auto simp: fy_inv_def split: option.splits)
qed

lemma fy_inv_commit:
  assumes inv: "fy_inv H decode y" and b: "fy_polled y = Some b"
  shows "fy_inv H decode (y\<lparr>fy_stored := Some (fb_checkpoint b), fy_events := fy_events y @ fb_events b,
      fy_errors := fy_errors y @ fb_errors b, fy_polled := None, fy_unacked := Some b\<rparr>)"
proof -
  obtain data where "batch_of H decode (fy_file y) data b" "covers_file H (fy_file y) (fy_inode y) (fb_checkpoint b)"
    "fb_from b = fo_cp (fy_f y)"
    using inv b by (auto simp: fy_inv_def)
  moreover have "done_to H decode y (fb_from b)" using fy_inv_polled [OF inv b] by simp
  ultimately show ?thesis
    using done_to_commit [where s = "Some (fb_checkpoint b)" and p = None and u = "Some b"] by (auto simp: fy_inv_def)
qed

lemma fy_inv_restart:
  assumes inv: "fy_inv H decode y" and uuid: "uuid \<noteq> []"
    and new: "NewFollower uuid path sid (case fy_stored y of None \<Rightarrow> zero_cp | Some c \<Rightarrow> c) True = Some f"
  shows "fy_inv H decode (y\<lparr>fy_f := f\<lparr>fo_max := n\<rparr>, fy_polled := None, fy_unacked := None\<rparr>)"
proof (cases "fy_stored y")
  case None
  then have "fo_cp f = zero_cp\<lparr>fc_session := sid, fc_generation := uuid, fc_version := FollowerVersion\<rparr>"
    using NewFollower_zero new by simp
  moreover have "fy_events y = []" "fy_errors y = []" using inv None by (auto simp: fy_inv_def split: option.splits)
  ultimately show ?thesis using done_to_fresh [OF uuid] None by (simp add: fy_inv_def)
next
  case (Some c)
  then have c: "done_to H decode y c" using inv by (simp add: fy_inv_def)
  then have "fo_cp f = c" using NewFollower_from [of uuid path sid c f] new Some by (auto simp: done_to_def)
  with c Some show ?thesis by (simp add: fy_inv_def)
qed

lemma fy_inv_step:
  assumes inv: "fy_inv H decode y" and step: "fy_step H decode path sid y y'"
  shows "fy_inv H decode y'"
  using step
proof cases
  case (ack b f)
  then show ?thesis using inv by (auto simp: fy_inv_def FAck_def split: if_splits)
qed (use inv in \<open>simp_all add: fy_inv_append fy_inv_poll fy_inv_commit fy_inv_restart\<close>)

interpretation fy: inductive_invariant "fy_init path sid" "fy_step H decode path sid" "fy_inv H decode"
  for path :: string and sid :: string and H :: "string \<Rightarrow> string" and decode :: "'m decoder"
  by unfold_locales (auto intro: fy_inv_init fy_inv_step)

lemma reachable_follower:
  assumes "reachable (fy_init path sid) (fy_step H decode path sid) y" and "fy_unacked y = None"
  shows "done_to H decode y (fo_cp (fy_f y))"
  using fy.inv_reachable [OF assms(1)] assms(2) by (simp add: fy_inv_def)

section \<open>Properties\<close>

text \<open>
  C29: Whatever the interleaving of appends, polls (failed ones included), commits, acknowledgements
  and restarts, what the caller has stored is exactly what one pass over the bytes its checkpoint
  covers gives: every event and every source error of those records, once, in order, with the
  numbers and identities of that pass; and the checkpoint stands at a record's end.
\<close>

theorem follower_exactly_once:
  assumes "reachable (fy_init path sid) (fy_step H decode path sid) y" and "fy_stored y = Some c"
  shows "complete (take (nat (fc_offset c)) (fy_file y)) \<and>
    walk H decode (fc_generation c) 0 0 (take (nat (fc_offset c)) (fy_file y)) =
      \<lparr>wk_events = fy_events y, wk_errors = fy_errors y, wk_offset = fc_offset c, wk_seq = fc_next_seq c\<rparr>"
  using fy.inv_reachable [OF assms(1)] assms(2) by (simp add: fy_inv_def done_to_def covers_file_def)

text \<open>
  C30: While nothing is unacknowledged, a poll of the whole file reads on exactly when a whole record
  is there to read, never resets, and never moves the follower; the batch ends at a record's end
  and its checkpoint again covers the file.
\<close>

theorem follower_progress:
  assumes reach: "reachable (fy_init path sid) (fy_step H decode path sid) y" and un: "fy_unacked y = None"
    and io: "\<not> io_open_fails io" "\<not> io_head_fails io" "\<not> io_tail_fails io" "\<not> io_records_fails io"
  shows "\<exists>b. Poll H decode uuid io (fy_file y) (int (length (fy_file y))) (fy_inode y) (fy_f y) = (Polled b, fy_f y) \<and>
    fb_from b = fo_cp (fy_f y) \<and> covers_file H (fy_file y) (fy_inode y) (fb_checkpoint b) \<and>
    (fc_offset (fo_cp (fy_f y)) < fc_offset (fb_checkpoint b) \<longleftrightarrow>
       LF \<in> set (drop (nat (fc_offset (fo_cp (fy_f y)))) (fy_file y)))"
proof -
  let ?cp = "fo_cp (fy_f y)" and ?d = "fy_file y"
  have cov: "covers_file H ?d (fy_inode y) ?cp" using reachable_follower [OF reach un] by (rule done_to_covers)
  then have sz: "fc_offset ?cp \<le> int (length ?d)" by (auto simp: covers_file_def nat_le_iff)
  have av: "avail ?d (nat (int (length ?d))) (nat (fc_offset ?cp)) = drop (nat (fc_offset ?cp)) ?d" by (simp add: avail_def)
  obtain b where b: "Poll H decode uuid io ?d (int (length ?d)) (fy_inode y) (fy_f y) = (Polled b, fy_f y)" "fb_from b = ?cp"
      "batch_of H decode ?d (whole_records (limit_of (fy_f y)) (drop (nat (fc_offset ?cp)) ?d)) b"
      "covers_file H ?d (fy_inode y) (fb_checkpoint b)"
    using Poll_covers [OF cov sz order.refl io(1) _ io(4) refl, of decode uuid] io av by auto
  have "fc_offset ?cp < fc_offset (fb_checkpoint b) \<longleftrightarrow> LF \<in> set (drop (nat (fc_offset ?cp)) ?d)"
    using b(2,3) whole_records_spec(3) [OF limit_of_pos] by (auto simp: batch_of_def Let_def)
  with b show ?thesis by blast
qed

text \<open>
  Until a batch is acknowledged, polling again, after the file has grown by whatever bytes,
  gives the same events with the same numbers and identities first, and the same source errors.
\<close>

lemma follower_repoll_stable:
  assumes reach: "reachable (fy_init path sid) (fy_step H decode path sid) y" and un: "fy_unacked y = None"
    and sz: "fc_offset (fo_cp (fy_f y)) \<le> sz" "sz \<le> sz'" "sz \<le> int (length (fy_file y))" "sz' \<le> int (length (fy_file y @ x))"
    and first: "fst (Poll H decode uuid io (fy_file y) sz (fy_inode y) (fy_f y)) = Polled b"
    and second: "fst (Poll H decode uuid' io' (fy_file y @ x) sz' (fy_inode y) (fy_f y)) = Polled b'"
  shows "\<exists>es xs. fb_events b' = fb_events b @ es \<and> fb_errors b' = fb_errors b @ xs"
proof -
  let ?cp = "fo_cp (fy_f y)" and ?d = "fy_file y"
  define k where "k = nat (fc_offset ?cp)"
  let ?w = "whole_records (limit_of (fy_f y))"
  have cov: "covers_file H ?d (fy_inode y) ?cp" using reachable_follower [OF reach un] by (rule done_to_covers)
  have k: "fc_offset ?cp = int k" "k \<le> length ?d" using cov by (auto simp: covers_file_def k_def)
  have "batch_of H decode ?d (?w (avail ?d (nat sz) k)) b" "fb_from b = ?cp"
    using Poll_keeps [OF cov sz(1,3) prod.collapse [symmetric], of decode uuid io] first by (auto simp: k_def)
  moreover have "batch_of H decode (?d @ x) (?w (avail (?d @ x) (nat sz') k)) b'" "fb_from b' = ?cp"
    using Poll_keeps [OF covers_file_append [OF cov] order.trans [OF sz(1,2)] sz(4) prod.collapse [symmetric], of decode uuid' io']
      second by (auto simp: k_def)
  moreover have "\<exists>t. avail (?d @ x) (nat sz') k = avail ?d (nat sz) k @ t"
  proof
    have "avail ?d (nat sz) k = take (nat sz - k) (drop k (?d @ x))" using sz(3) k(2) by (auto simp: avail_def)
    then have "avail ?d (nat sz) k = take (nat sz - k) (avail (?d @ x) (nat sz') k)"
      using sz(2) by (simp add: avail_def min_def) (use nat_mono [OF sz(2)] in linarith)?
    then show "avail (?d @ x) (nat sz') k = avail ?d (nat sz) k @ drop (nat sz - k) (avail (?d @ x) (nat sz') k)" by simp
  qed
  then obtain more where "?w (avail (?d @ x) (nat sz') k) = ?w (avail ?d (nat sz) k) @ more"
    using whole_records_mono by metis
  moreover have "complete (?w (avail ?d (nat sz) k))" by (rule whole_records_spec(1) [OF limit_of_pos])
  ultimately show ?thesis by (auto simp: batch_of_def Let_def walk_append)
qed

text \<open>
  C31: The chunked reading loop gives exactly the whole records of the available bytes that fit the
  batch limit, or the first record whole however long it is, or nothing when no record is whole:
  it ends, and what it gives does not depend on where the chunks fall.
\<close>

theorem read_records_reference:
  "readRecords n d offset sz =
     whole_records (if n \<le> 0 then defaultMaxBatchBytes else nat n) (avail d (nat sz) (nat offset))"
proof -
  have "0 < (if n \<le> 0 then defaultMaxBatchBytes else nat n)" by (simp add: defaultMaxBatchBytes_def)
  then show ?thesis unfolding readRecords_def by (rule read_loop_whole)
qed

text \<open>
  The follower resets exactly when the file no longer extends its checkpoint: another inode, a
  file shorter than the offset, or a changed prefix or boundary window; it then stands in a new
  generation at offset 0, and otherwise it has not moved. The digest is taken to be injective.
\<close>

lemma follower_resets:
  assumes cov: "covers_file H d inode (fo_cp f)" and pos: "0 < fc_offset (fo_cp f)" and inj: "inj H"
    and io: "\<not> io_open_fails io" "\<not> io_head_fails io" "\<not> io_tail_fails io" "\<not> io_records_fails io"
    and n: "n = nat (fc_offset (fo_cp f))" and p: "Poll H decode uuid io d' (int (length d')) inode' f = (r, f')"
  shows "if fc_inode (fo_cp f) \<noteq> 0 \<and> inode' \<noteq> 0 \<and> inode' \<noteq> fc_inode (fo_cp f) \<or> length d' < n \<or>
       take checkpointWindow (take n d') \<noteq> take checkpointWindow (take n d) \<or>
       tail_of checkpointWindow (take n d') \<noteq> tail_of checkpointWindow (take n d)
     then (\<exists>reason. r = PollReset reason) \<and> f' = f\<lparr>fo_cp := zero_cp\<lparr>fc_version := FollowerVersion,
            fc_session := fc_session (fo_cp f), fc_generation := uuid\<rparr>\<rparr>
     else (\<exists>b. r = Polled b \<and> fb_from b = fo_cp f) \<and> f' = f"
proof (cases "length d' < n")
  case True
  then show ?thesis using p io(1) pos n by (auto simp: Poll_def verify_def Let_def split: if_splits)
next
  case False
  have k: "fc_offset (fo_cp f) = int n" "0 < n" using pos n by auto
  have w: "fc_prefix_len (fo_cp f) = int (min n checkpointWindow)" "fc_boundary_len (fo_cp f) = int (min n checkpointWindow)"
    using cov k(1) by (auto simp: covers_file_def)
  have head: "readAt d' 0 (fc_prefix_len (fo_cp f)) = (take checkpointWindow (take n d'), False)"
    using False w by (auto simp: readAt_def Let_def min_def)
  have tail: "readAt d' (fc_offset (fo_cp f) - fc_boundary_len (fo_cp f)) (fc_boundary_len (fo_cp f)) =
      (tail_of checkpointWindow (take n d'), False)"
    using False w k(1) by (auto simp: readAt_def Let_def min_def tail_of_def drop_take nat_diff_distrib)
  have sha: "fc_prefix_sha (fo_cp f) = H (take checkpointWindow (take n d))"
    "fc_boundary_sha (fo_cp f) = H (tail_of checkpointWindow (take n d))"
    using cov k by (auto simp: covers_file_def)
  have eqs: "H a = H b \<longleftrightarrow> a = b" for a b using inj by (auto dest: injD)
  have ver: "verify H io d' (int (length d')) inode' (fo_cp f) =
     (if fc_inode (fo_cp f) \<noteq> 0 \<and> inode' \<noteq> 0 \<and> inode' \<noteq> fc_inode (fo_cp f) then Resets ResetReplaced
      else if take checkpointWindow (take n d') \<noteq> take checkpointWindow (take n d) then Resets ResetPrefixChanged
      else if tail_of checkpointWindow (take n d') \<noteq> tail_of checkpointWindow (take n d) then Resets ResetBoundaryChanged
      else Extends (take checkpointWindow (take n d')) (tail_of checkpointWindow (take n d')))"
    unfolding verify_def head tail sha eqs using k False io by simp
  show ?thesis using p io(1,4) unfolding Poll_def ver Let_def by (auto simp: False simp del: take_take split: if_splits)
qed

section \<open>Witnesses\<close>

text \<open>
  A transcript with one whole record and one in the writing, and a decoder that makes a text event
  of every record.
\<close>

definition wit_decode :: "unit decoder" where
  "wit_decode r = Inr [\<lparr>be_block = 0, be_event =
     \<lparr>tv_seq = 0, tv_timestamp = 0, tv_role = ''user'', tv_type = ''text'', tv_text = r, tv_tool_name = [], tv_tool_use_id = [],
      tv_tool_input = [], tv_output = [], tv_uuid = [], tv_api_error = [], tv_agent_type = [], tv_schema_version = 1,
      tv_source = [], tv_native_id = []\<rparr>, be_meta = ()\<rparr>]"

definition wit_io :: poll_io where
  "wit_io = \<lparr>io_open_fails = False, io_head_fails = False, io_tail_fails = False, io_records_fails = False\<rparr>"

definition wit_follower :: Follower where
  "wit_follower = \<lparr>fo_max = 0, fo_path = ''t'', fo_cp = zero_cp\<lparr>fc_session := ''s'', fc_generation := ''u'', fc_version := 1\<rparr>\<rparr>"

definition wit_sys :: "unit fsys" where
  "wit_sys = \<lparr>fy_file = ''a'' @ [LF] @ ''b'', fy_inode = 7, fy_f = wit_follower, fy_stored = None, fy_events = [], fy_errors = [],
     fy_polled = None, fy_unacked = None\<rparr>"

lemma wit_reachable: "reachable (fy_init ''t'' ''s'') (fy_step id wit_decode ''t'' ''s'') wit_sys"
proof (rule reach_init)
  have "NewFollower ''u'' ''t'' ''s'' zero_cp True = Some wit_follower"
    by (simp add: NewFollower_def zero_cp_def FollowerVersion_def wit_follower_def)
  then show "fy_init ''t'' ''s'' wit_sys" unfolding fy_init_def by (intro conjI exI [of _ "''u''"]) (simp_all add: wit_sys_def)
qed

lemma wit_data: "readRecords 0 (''a'' @ [LF] @ ''b'') 0 3 = ''a'' @ [LF]"
  by (simp add: readRecords_def read_loop_whole defaultMaxBatchBytes_def whole_records_def avail_def numeral_3_eq_3)

lemma wit_walk: "map (tv_text \<circ> fe_event) (wk_events (walk id wit_decode g 0 0 (''a'' @ [LF]))) = [''a'']"
proof -
  have "cut_on LF (''a'' @ [LF]) = Some (''a'', [])" by (simp add: cut_on_def)
  moreover have "\<not> blank ''a''" by code_simp
  ultimately show ?thesis by (subst walk.simps) (simp add: wit_decode_def)
qed

text \<open>The poll of it gives the whole record; the caller stores it.\<close>

definition wit_batch :: "unit FBatch" where
  "wit_batch = (case fst (Poll id wit_decode ''w'' wit_io (''a'' @ [LF] @ ''b'') 3 7 wit_follower) of Polled b \<Rightarrow> b)"

definition wit_stored :: "unit fsys" where
  "wit_stored = wit_sys\<lparr>fy_stored := Some (fb_checkpoint wit_batch), fy_events := fb_events wit_batch,
     fy_errors := fb_errors wit_batch, fy_unacked := Some wit_batch\<rparr>"

lemma wit_poll:
  "Poll id wit_decode ''w'' wit_io (''a'' @ [LF] @ ''b'') 3 7 wit_follower = (Polled wit_batch, wit_follower)"
  "map (tv_text \<circ> fe_event) (fb_events wit_batch) = [''a'']"
  using wit_data wit_walk
  by (simp_all add: wit_batch_def Poll_def verify_def wit_io_def wit_follower_def zero_cp_def Let_def)

lemma wit_stored_reachable: "reachable (fy_init ''t'' ''s'') (fy_step id wit_decode ''t'' ''s'') wit_stored"
proof -
  have "fy_step id wit_decode ''t'' ''s'' wit_sys (wit_sys\<lparr>fy_f := wit_follower, fy_polled := Some wit_batch\<rparr>)"
    using fy_step.poll [of wit_sys 3 "''w''" id wit_decode wit_io "Polled wit_batch" wit_follower "''t''" "''s''"] wit_poll(1)
    by (simp add: wit_sys_def wit_follower_def zero_cp_def)
  note one = reach_step [OF wit_reachable this]
  have "fy_step id wit_decode ''t'' ''s'' (wit_sys\<lparr>fy_f := wit_follower, fy_polled := Some wit_batch\<rparr>) wit_stored"
    using fy_step.commit [of "wit_sys\<lparr>fy_f := wit_follower, fy_polled := Some wit_batch\<rparr>" wit_batch id wit_decode "''t''" "''s''"]
    by (simp add: wit_stored_def wit_sys_def)
  then show ?thesis by (rule reach_step [OF one])
qed

theorem follower_exactly_once_witness:
  "fy_stored wit_stored = Some (fb_checkpoint wit_batch) \<and> map (tv_text \<circ> fe_event) (fy_events wit_stored) = [''a''] \<and>
   wk_events (walk id wit_decode (fc_generation (fb_checkpoint wit_batch)) 0 0
     (take (nat (fc_offset (fb_checkpoint wit_batch))) (fy_file wit_stored))) = fy_events wit_stored"
  using follower_exactly_once [OF wit_stored_reachable, of "fb_checkpoint wit_batch"] wit_poll(2)
  by (simp add: wit_stored_def)

theorem follower_progress_witness:
  "\<exists>b. Poll id wit_decode ''w'' wit_io (''a'' @ [LF] @ ''b'') 3 7 wit_follower = (Polled b, wit_follower) \<and>
     0 < fc_offset (fb_checkpoint b)"
  using follower_progress [OF wit_reachable, of wit_io "''w''"]
  by (auto simp: wit_sys_def wit_io_def wit_follower_def zero_cp_def)

definition wit_cp :: FCheckpoint where
  "wit_cp = \<lparr>fc_version = 1, fc_session = ''s'', fc_generation = ''u'', fc_inode = 7, fc_offset = 2, fc_next_seq = 1,
     fc_prefix_len = 2, fc_prefix_sha = ''a'' @ [LF], fc_boundary_len = 2, fc_boundary_sha = ''a'' @ [LF]\<rparr>"

end
