(* ===== verification/Chat_Core.thy ===== *)
theory Chat_Core
  imports Complex_Main Go_Bytes
begin

text \<open>
  The data of a conversation (\<^verbatim>\<open>internal/chatcore/chat.go\<close>, \<^verbatim>\<open>events.go\<close>, \<^verbatim>\<open>input.go\<close>), what the
  harness's transcript says of a failed turn (\<^verbatim>\<open>apierror.go\<close>), and the Store with its in-memory
  implementation (\<^verbatim>\<open>pkg/chat/memstore\<close>). Times are nanoseconds; the zero time is 0.
\<close>

section \<open>Data\<close>

datatype CRole = RoleUser | RoleAssistant | RoleSystem

datatype TurnState =
  TurnStatePending | TurnStateStreaming | TurnStateComplete | TurnStateErrored | TurnStateInterrupted

datatype TurnCode = CodeAuthRequired | CodeUsageLimited | CodeBillingWall

record CTurn =
  ct_id :: string
  ct_session :: string
  ct_role :: CRole
  ct_state :: TurnState
  ct_text :: string
  ct_reason :: string
  ct_started :: int
  ct_completed :: int
  ct_code :: "TurnCode option"
  ct_http :: int
  ct_retry_after :: int
  ct_resume_at :: int

definition zero_turn :: CTurn where
  "zero_turn =
     \<lparr>ct_id = [], ct_session = [], ct_role = RoleUser, ct_state = TurnStatePending, ct_text = [], ct_reason = [],
      ct_started = 0, ct_completed = 0, ct_code = None, ct_http = 0, ct_retry_after = 0, ct_resume_at = 0\<rparr>"

text \<open>A session record; \<open>rec\<close> is the harness session id of its containment record, if it has one.\<close>

record CSession =
  cs_id :: string
  cs_harness :: string
  cs_working_dir :: string
  cs_created :: int
  cs_harness_session :: string
  cs_containment :: "string option"

definition HarnessID :: "CSession \<Rightarrow> string" where
  "HarnessID s = (case cs_containment s of Some i \<Rightarrow> i | None \<Rightarrow> cs_harness_session s)"

definition setHarnessID :: "string \<Rightarrow> CSession \<Rightarrow> CSession" where
  "setHarnessID i s =
     (case cs_containment s of
        Some _ \<Rightarrow> s\<lparr>cs_containment := Some i\<rparr>
      | None \<Rightarrow> s\<lparr>cs_harness_session := i\<rparr>)"

record InputOption =
  io_id :: string
  io_alias :: string
  io_label :: string
  io_description :: string

record InputRequest =
  iq_id :: string
  iq_kind :: string
  iq_prompt :: string
  iq_header :: string
  iq_multi :: bool
  iq_options :: "InputOption list"

record InputAnswer =
  ia_option :: string
  ia_options :: "string list"
  ia_text :: string

record ExitInfo =
  ei_status :: string
  ei_exit_code :: int
  ei_signal :: string
  ei_reason :: string
  ei_class :: string
  ei_ended :: int

text \<open>A rate limit report; its figures are numbers of the harness's own and only carried.\<close>

datatype RateLimitStatus = RateLimitAllowed | RateLimitWarning | RateLimitRejected | RateLimitUnknown

definition rateLimitStatus :: "string \<Rightarrow> RateLimitStatus" where
  "rateLimitStatus s =
     (if s = ''allowed'' then RateLimitAllowed
      else if s = ''allowed_warning'' then RateLimitWarning
      else if s = ''rejected'' then RateLimitRejected
      else RateLimitUnknown)"

record RateLimit =
  rl_status :: RateLimitStatus
  rl_resets_at :: int
  rl_window :: string
  rl_utilization :: "rat option"
  rl_overage_status :: RateLimitStatus
  rl_overage_resets_at :: int
  rl_using_overage :: bool
  rl_windows :: "(string \<times> rat \<times> int) list"
  rl_observed_at :: int

datatype ConversationEvent =
  EventTurn CTurn "string option"
| EventInputRequest InputRequest
| EventInputResolved string
| EventExited ExitInfo
| EventRateLimit RateLimit

text \<open>\<open>eventSize\<close>: the payload bytes of an event.\<close>

definition option_size :: "InputOption \<Rightarrow> int" where
  "option_size o' = int (length (io_label o') + length (io_description o') + length (io_id o') + length (io_alias o'))"

definition eventSize :: "ConversationEvent \<Rightarrow> int" where
  "eventSize ev =
     256 +
     (case ev of
        EventTurn t _ \<Rightarrow> int (length (ct_text t) + length (ct_reason t))
      | EventInputRequest r \<Rightarrow> int (length (iq_prompt r) + length (iq_header r)) + sum_list (map option_size (iq_options r))
      | EventInputResolved _ \<Rightarrow> 0
      | EventExited _ \<Rightarrow> 0
      | EventRateLimit rl \<Rightarrow> int (length (rl_window rl)) + sum_list (map (\<lambda>(k, _). 64 + int (length k)) (rl_windows rl)))"

text \<open>
  What of an event \<open>emit\<close> gets into the queue: one over the queue's byte bound goes without its
  turn's text, and one that is over the bound even so does not go at all.
\<close>

definition emit_fit :: "int \<Rightarrow> ConversationEvent \<Rightarrow> ConversationEvent list" where
  "emit_fit maxBytes ev =
     (if eventSize ev \<le> maxBytes then [ev]
      else
        let ev' = (case ev of EventTurn t _ \<Rightarrow> EventTurn (t\<lparr>ct_text := []\<rparr>) (Some ''ErrEventTooLarge'') | _ \<Rightarrow> ev)
        in if eventSize ev' \<le> maxBytes then [ev'] else [])"

lemma sum_list_pos: "(\<And>x. x \<in> set xs \<Longrightarrow> 0 \<le> f x) \<Longrightarrow> 0 \<le> sum_list (map f xs)" for f :: "'a \<Rightarrow> int"
  by (induction xs) auto

lemma eventSize_least: "256 \<le> eventSize ev"
  by (auto simp: eventSize_def option_size_def intro!: sum_list_pos add_nonneg_nonneg split: ConversationEvent.split)

section \<open>The harness's own verdict\<close>

definition em_dash :: string where
  "em_dash = [CHR 0xE2, CHR 0x80, CHR 0x94]"

definition ellipsis :: string where
  "ellipsis = [CHR 0xE2, CHR 0x80, CHR 0xA6]"

definition ReasonAuthRequired :: string where
  "ReasonAuthRequired =
     ''auth_required: harness login expired or re-authentication required '' @ em_dash @ '' renew the harness login''"

definition ReasonUsageLimited :: string where
  "ReasonUsageLimited =
     ''usage_limit: harness usage or session limit reached '' @ em_dash @ '' retry after the quota window resets''"

definition ReasonBillingWall :: string where
  "ReasonBillingWall =
     ''billing_wall: harness billing or credit wall reached '' @ em_dash @
     '' the account cannot run turns until billing is resolved''"

record apiErrorVerdict =
  av_reason :: string
  av_code :: "TurnCode option"
  av_tag :: string
  av_text :: string

definition no_verdict :: apiErrorVerdict where
  "no_verdict = \<lparr>av_reason = [], av_code = None, av_tag = [], av_text = []\<rparr>"

definition apiErrorClasses :: "string \<Rightarrow> apiErrorVerdict option" where
  "apiErrorClasses =
     (let billing = no_verdict\<lparr>av_reason := ReasonBillingWall, av_code := Some CodeBillingWall\<rparr>;
          auth = no_verdict\<lparr>av_reason := ReasonAuthRequired, av_code := Some CodeAuthRequired\<rparr>;
          usage = no_verdict\<lparr>av_reason := ReasonUsageLimited, av_code := Some CodeUsageLimited\<rparr> in
      map_of
        [(''billing_error'', billing), (''account_on_hold'', billing),
         (''authentication_failed'', auth), (''oauth_org_not_allowed'', auth),
         (''verification_required'', auth), (''cloud_credential_error'', auth),
         (''rate_limit'', usage),
         (''server_error'', no_verdict), (''overloaded'', no_verdict), (''model_not_found'', no_verdict)])"

definition apiErrorDetailCap :: nat where "apiErrorDetailCap = 240"

text \<open>The loop of \<open>oneLineCapped\<close> that cuts on a rune boundary, and the whole.\<close>

fun cap_cut :: "string \<Rightarrow> nat \<Rightarrow> nat" where
  "cap_cut s 0 = 0"
| "cap_cut s (Suc n) = (if rune_start (s ! Suc n) then Suc n else cap_cut s n)"

definition one_line :: "string \<Rightarrow> string" where
  "one_line s = map (\<lambda>c. if c = LF \<or> c = CR \<or> c = CHR 0x09 then CHR '' '' else c) s"

definition oneLineCapped :: "string \<Rightarrow> nat \<Rightarrow> string" where
  "oneLineCapped s0 cap =
     (let s = trim_space (one_line s0) in
      if length s \<le> cap then s else trim_space (take (cap_cut s cap) s) @ ellipsis)"

definition turnReason :: "string \<Rightarrow> apiErrorVerdict \<Rightarrow> string" where
  "turnReason harness v =
     (let head = (if av_reason v = [] then harness @ '': harness API error'' else av_reason v);
          detail = ''harness tag: '' @ av_tag v;
          txt = oneLineCapped (av_text v) apiErrorDetailCap;
          detail' = (if txt \<noteq> [] then detail @ ''; '' @ txt else detail)
      in head @ '' ('' @ detail' @ '')'')"

text \<open>\<open>transcript.Turn\<close>, and the scan from the end for the last word on a turn.\<close>

record TTurn =
  tt_role :: string
  tt_text :: string
  tt_timestamp :: int
  tt_api_error :: string

text \<open>The verdict, whether the last word is one, and whether it is a reply.\<close>

fun verdict_scan :: "TTurn list \<Rightarrow> apiErrorVerdict \<times> bool \<times> bool" where
  "verdict_scan [] = (no_verdict, False, False)"
| "verdict_scan (t # ts) =
     (if tt_role t \<noteq> ''assistant'' then verdict_scan ts
      else if tt_api_error t = [] then (no_verdict, False, True)
      else
        case apiErrorClasses (tt_api_error t) of
          None \<Rightarrow> (no_verdict, False, False)
        | Some v \<Rightarrow> (v\<lparr>av_tag := tt_api_error t, av_text := tt_text t\<rparr>, True, False))"

definition apiErrorVerdictFrom :: "TTurn list \<Rightarrow> int \<Rightarrow> apiErrorVerdict \<times> bool \<times> bool" where
  "apiErrorVerdictFrom tturns watermark =
     (if watermark < 0 then (no_verdict, False, False) else verdict_scan (rev (drop (nat watermark) tturns)))"

text \<open>\<open>transcriptWord.apply\<close>; \<open>resume\<close> reads the reset time a usage wall names.\<close>

definition apply_word :: "(string \<Rightarrow> int) \<Rightarrow> string \<Rightarrow> apiErrorVerdict \<times> bool \<times> bool \<Rightarrow> CTurn \<Rightarrow> bool \<times> CTurn" where
  "apply_word resume harness w t =
     (case w of (v, tagged, _) \<Rightarrow>
        if \<not> tagged then (False, t)
        else
          let t1 = t\<lparr>ct_state := TurnStateErrored, ct_reason := turnReason harness v, ct_code := av_code v\<rparr>;
              t2 = (if av_code v = Some CodeUsageLimited then t1\<lparr>ct_resume_at := resume (av_text v)\<rparr> else t1)
          in (True, t2\<lparr>ct_text := []\<rparr>))"

section \<open>The Store\<close>

text \<open>
  The contract of \<^verbatim>\<open>store.go\<close>: a Store answers errors or changes; \<open>get\<close> and \<open>list\<close> read it. What a
  conversation relies on is that a turn appended is listed last, and that an update replaces the
  turn in place.
\<close>

locale chat_store =
  fixes get :: "'s \<Rightarrow> string \<Rightarrow> CSession option"
    and list :: "'s \<Rightarrow> string \<Rightarrow> CTurn list option"
    and create :: "CSession \<Rightarrow> 's \<Rightarrow> 's option"
    and update :: "CSession \<Rightarrow> 's \<Rightarrow> 's option"
    and append :: "CTurn \<Rightarrow> 's \<Rightarrow> 's option"
    and replace :: "CTurn \<Rightarrow> 's \<Rightarrow> 's option"
  assumes create_get: "create x s = Some s' \<Longrightarrow> get s (cs_id x) = None \<and> get s' (cs_id x) = Some x \<and> list s' (cs_id x) \<noteq> None"
    and update_get: "update x s = Some s' \<Longrightarrow> get s' (cs_id x) = Some x \<and> list s' = list s"
    and append_list: "append t s = Some s' \<Longrightarrow>
      \<exists>ts. list s (ct_session t) = Some ts \<and> list s' (ct_session t) = Some (ts @ [t])"
    and append_other: "append t s = Some s' \<Longrightarrow> i \<noteq> ct_session t \<Longrightarrow> list s' i = list s i"
    and replace_list: "replace t s = Some s' \<Longrightarrow>
      \<exists>pre u post. list s (ct_session t) = Some (pre @ u # post) \<and> ct_id u = ct_id t \<and> ct_id t \<notin> ct_id ` set pre \<and>
        list s' (ct_session t) = Some (pre @ t # post)"
    and replace_other: "replace t s = Some s' \<Longrightarrow> i \<noteq> ct_session t \<Longrightarrow> list s' i = list s i"
begin

text \<open>A turn appended under a new id and ended later is listed last, as it ended.\<close>

lemma append_then_replace:
  assumes new: "list s (ct_session t) = Some ts" "ct_id t \<notin> ct_id ` set ts"
    and app: "append t s = Some s1" and rep: "replace t' s1 = Some s2"
    and same: "ct_id t' = ct_id t" "ct_session t' = ct_session t"
  shows "list s2 (ct_session t) = Some (ts @ [t'])"
proof -
  have l1: "list s1 (ct_session t) = Some (ts @ [t])" using append_list [OF app] new(1) by simp
  obtain pre u post where r: "list s1 (ct_session t) = Some (pre @ u # post)" "ct_id u = ct_id t" "ct_id t \<notin> ct_id ` set pre"
      "list s2 (ct_session t) = Some (pre @ t' # post)"
    using replace_list [OF rep] same by auto
  have eq: "pre @ u # post = ts @ [t]" using l1 r(1) by simp
  have "post = []"
  proof (rule ccontr)
    assume "post \<noteq> []"
    then have "u \<in> set ts" using eq by (auto simp: append_eq_append_conv2 append_eq_Cons_conv Cons_eq_append_conv)
    with r(2) new(2) show False by (metis imageI)
  qed
  with eq r(4) show ?thesis by simp
qed

lemma ids_replace: "replace t s = Some s' \<Longrightarrow> list s i = Some ts \<Longrightarrow>
  \<exists>ts'. list s' i = Some ts' \<and> map ct_id ts' = map ct_id ts"
  using replace_list [of t s s'] replace_other [of t s s' i] by (cases "i = ct_session t") auto

end

section \<open>The in-memory Store\<close>

record MemStore =
  mm_sessions :: "string \<rightharpoonup> CSession"
  mm_turns :: "string \<rightharpoonup> CTurn list"

definition NewMemStore :: MemStore where
  "NewMemStore = \<lparr>mm_sessions = Map.empty, mm_turns = Map.empty\<rparr>"

text \<open>The records are values here: what the code copies so as not to alias is not shared.\<close>

datatype mem_error = MemNil | MemExists | MemNotFound

definition CreateSession :: "CSession option \<Rightarrow> MemStore \<Rightarrow> mem_error + MemStore" where
  "CreateSession sess s =
     (case sess of
        None \<Rightarrow> Inl MemNil
      | Some x \<Rightarrow>
          if mm_sessions s (cs_id x) \<noteq> None then Inl MemExists
          else Inr (s\<lparr>mm_sessions := (mm_sessions s)(cs_id x \<mapsto> x)\<rparr>))"

definition GetSession :: "string \<Rightarrow> MemStore \<Rightarrow> mem_error + CSession" where
  "GetSession i s = (case mm_sessions s i of None \<Rightarrow> Inl MemNotFound | Some x \<Rightarrow> Inr x)"

definition UpdateSession :: "CSession option \<Rightarrow> MemStore \<Rightarrow> mem_error + MemStore" where
  "UpdateSession sess s =
     (case sess of
        None \<Rightarrow> Inl MemNil
      | Some x \<Rightarrow>
          if mm_sessions s (cs_id x) = None then Inl MemNotFound
          else Inr (s\<lparr>mm_sessions := (mm_sessions s)(cs_id x \<mapsto> x)\<rparr>))"

definition AppendTurn :: "CTurn option \<Rightarrow> MemStore \<Rightarrow> mem_error + MemStore" where
  "AppendTurn turn s =
     (case turn of
        None \<Rightarrow> Inl MemNil
      | Some t \<Rightarrow>
          if mm_sessions s (ct_session t) = None then Inl MemNotFound
          else
            let old = (case mm_turns s (ct_session t) of None \<Rightarrow> [] | Some ts \<Rightarrow> ts)
            in Inr (s\<lparr>mm_turns := (mm_turns s)(ct_session t \<mapsto> old @ [t])\<rparr>))"

text \<open>The loop of \<open>UpdateTurn\<close>.\<close>

fun update_first :: "CTurn \<Rightarrow> CTurn list \<Rightarrow> CTurn list option" where
  "update_first t [] = None"
| "update_first t (u # us) = (if ct_id u = ct_id t then Some (t # us) else map_option ((#) u) (update_first t us))"

definition UpdateTurn :: "CTurn option \<Rightarrow> MemStore \<Rightarrow> mem_error + MemStore" where
  "UpdateTurn turn s =
     (case turn of
        None \<Rightarrow> Inl MemNil
      | Some t \<Rightarrow>
          (case update_first t (case mm_turns s (ct_session t) of None \<Rightarrow> [] | Some ts \<Rightarrow> ts) of
             None \<Rightarrow> Inl MemNotFound
           | Some ts \<Rightarrow> Inr (s\<lparr>mm_turns := (mm_turns s)(ct_session t \<mapsto> ts)\<rparr>)))"

definition ListTurns :: "string \<Rightarrow> MemStore \<Rightarrow> mem_error + CTurn list" where
  "ListTurns i s =
     (case mm_turns s i of
        None \<Rightarrow> if mm_sessions s i = None then Inl MemNotFound else Inr []
      | Some ts \<Rightarrow> Inr ts)"

definition right :: "'e + 'a \<Rightarrow> 'a option" where
  "right r = (case r of Inl _ \<Rightarrow> None | Inr x \<Rightarrow> Some x)"

lemma right_Some [simp]: "right r = Some x \<longleftrightarrow> r = Inr x"
  by (cases r) (auto simp: right_def)

lemma right_None [simp]: "right r = None \<longleftrightarrow> (\<exists>e. r = Inl e)"
  by (cases r) (auto simp: right_def)

lemma update_first_Some:
  "update_first t ts = Some ts' \<Longrightarrow>
   \<exists>pre u post. ts = pre @ u # post \<and> ct_id u = ct_id t \<and> ct_id t \<notin> ct_id ` set pre \<and> ts' = pre @ t # post"
proof (induction ts arbitrary: ts')
  case (Cons u us)
  show ?case
  proof (cases "ct_id u = ct_id t")
    case True
    then show ?thesis using Cons.prems by (intro exI [of _ "[]"]) auto
  next
    case False
    then obtain us' where "update_first t us = Some us'" "ts' = u # us'" using Cons.prems by auto
    with Cons.IH obtain pre v post where "us = pre @ v # post" "ct_id v = ct_id t" "ct_id t \<notin> ct_id ` set pre" "us' = pre @ t # post"
      by blast
    with False \<open>ts' = u # us'\<close> show ?thesis by (intro exI [of _ "u # pre"] exI [of _ v] exI [of _ post]) auto
  qed
qed simp

interpretation mem: chat_store "\<lambda>s i. right (GetSession i s)" "\<lambda>s i. right (ListTurns i s)"
  "\<lambda>x s. right (CreateSession (Some x) s)" "\<lambda>x s. right (UpdateSession (Some x) s)"
  "\<lambda>t s. right (AppendTurn (Some t) s)" "\<lambda>t s. right (UpdateTurn (Some t) s)"
proof
  show "right (UpdateTurn (Some t) s) = Some s' \<Longrightarrow>
      \<exists>pre u post. right (ListTurns (ct_session t) s) = Some (pre @ u # post) \<and> ct_id u = ct_id t \<and>
        ct_id t \<notin> ct_id ` set pre \<and> right (ListTurns (ct_session t) s') = Some (pre @ t # post)" for t s s'
    using update_first_Some [of t] by (fastforce simp: UpdateTurn_def ListTurns_def split: option.splits)
  show "right (UpdateSession (Some x) s) = Some s' \<Longrightarrow>
      right (GetSession (cs_id x) s') = Some x \<and> (\<lambda>i. right (ListTurns i s')) = (\<lambda>i. right (ListTurns i s))" for x s s'
    by (auto simp: UpdateSession_def GetSession_def ListTurns_def fun_eq_iff right_def split: if_splits option.splits)
qed (auto simp: CreateSession_def GetSession_def ListTurns_def AppendTurn_def UpdateTurn_def right_def
    split: if_splits option.splits)

section \<open>Properties\<close>

lemma cap_cut_le: "cap_cut s n \<le> n"
  by (induction n) auto

lemma trim_space_flat: "c \<notin> set s \<Longrightarrow> c \<notin> set (trim_space s)"
  using trim_space_bounds(2) [of s] by blast

text \<open>
  a reason made by \<open>oneLineCapped\<close> stays on one line and within its cap, but for the three
  bytes of the ellipsis that marks the cut.
\<close>

lemma one_line_capped:
  "length (oneLineCapped s n) \<le> n + 3 \<and> {LF, CR, CHR 0x09} \<inter> set (oneLineCapped s n) = {}"
proof -
  let ?s = "trim_space (one_line s)"
  have flat: "c \<notin> set ?s" if "c \<in> {LF, CR, CHR 0x09}" for c
    by (rule trim_space_flat) (use that in \<open>auto simp: one_line_def\<close>)
  have taken: "c \<notin> set (trim_space (take k ?s))" if "c \<in> {LF, CR, CHR 0x09}" for c k
    using flat [OF that] by (intro trim_space_flat) (auto dest: in_set_takeD)
  have "length (trim_space (take (cap_cut ?s n) ?s)) \<le> n"
    using trim_space_bounds(1) [of "take (cap_cut ?s n) ?s"] cap_cut_le [of ?s n] by simp
  then show ?thesis using flat taken by (auto simp: oneLineCapped_def Let_def ellipsis_def)
qed

lemma verdict_scan_skip: "(\<And>u. u \<in> set B \<Longrightarrow> tt_role u \<noteq> ''assistant'') \<Longrightarrow> verdict_scan (B @ ts) = verdict_scan ts"
  by (induction B) auto

text \<open>
  the verdict on a turn is the last word of the assistant after the watermark, and only that. When
  the last assistant entry carries no error tag the harness recovered, whatever errors it logged
  before (a retried error is no verdict); when it carries a tag the verdict is that tag's class,
  with its text; a tag of no known class is left to the screen.
\<close>

lemma api_error_last_word:
  assumes "0 \<le> w" and "drop (nat w) ts = A @ t # B" and "tt_role t = ''assistant''"
    and "\<forall>u \<in> set B. tt_role u \<noteq> ''assistant''"
  shows "apiErrorVerdictFrom ts w =
    (if tt_api_error t = [] then (no_verdict, False, True)
     else case apiErrorClasses (tt_api_error t) of
         None \<Rightarrow> (no_verdict, False, False)
       | Some v \<Rightarrow> (v\<lparr>av_tag := tt_api_error t, av_text := tt_text t\<rparr>, True, False))"
proof -
  have "verdict_scan (rev B @ t # rev A) = verdict_scan (t # rev A)" by (rule verdict_scan_skip) (use assms(4) in simp)
  then show ?thesis using assms by (simp add: apiErrorVerdictFrom_def)
qed

text \<open>
  the in-memory Store gives back what a conversation wrote. A turn appended to a session under a
  new id and updated when it ended is listed last and as it ended, and no other session's turns
  changed.
\<close>

lemma store_turn_roundtrip:
  assumes "ListTurns (ct_session t) s = Inr ts" and "ct_id t \<notin> ct_id ` set ts"
    and "AppendTurn (Some t) s = Inr s1" and "UpdateTurn (Some t') s1 = Inr s2"
    and "ct_id t' = ct_id t" and "ct_session t' = ct_session t"
  shows "ListTurns (ct_session t) s2 = Inr (ts @ [t']) \<and>
    (\<forall>i. i \<noteq> ct_session t \<longrightarrow> right (ListTurns i s2) = right (ListTurns i s))"
proof -
  have a: "right (AppendTurn (Some t) s) = Some s1" "right (UpdateTurn (Some t') s1) = Some s2" using assms by simp_all
  have "right (ListTurns (ct_session t) s2) = Some (ts @ [t'])"
    by (rule mem.append_then_replace [OF _ assms(2) a assms(5,6)]) (use assms in simp)
  then show ?thesis using mem.append_other [OF a(1)] mem.replace_other [OF a(2)] assms(6) by simp
qed

definition demo_mem :: MemStore where
  "demo_mem =
     NewMemStore\<lparr>mm_sessions := [''s'' \<mapsto> \<lparr>cs_id = ''s'', cs_harness = ''claude'', cs_working_dir = [], cs_created = 0,
       cs_harness_session = [], cs_containment = None\<rparr>]\<rparr>"

definition demo_turn :: "TurnState \<Rightarrow> CTurn" where
  "demo_turn st = zero_turn\<lparr>ct_id := ''t'', ct_session := ''s'', ct_state := st\<rparr>"

end
