(* ===== verification/Chat_Stream.thy ===== *)
theory Chat_Stream
  imports Chat_Core
begin

text \<open>
  \<^verbatim>\<open>internal/chatcore/stream.go\<close> with the parts of \<^verbatim>\<open>send.go\<close>, \<^verbatim>\<open>events.go\<close> and \<^verbatim>\<open>interrupt.go\<close> it
  runs on: a conversation with claude over stream-json frames. A definition is one region under
  \<open>c.mu\<close> (or another of the locks), and what its goroutine does after it is a list of \<open>work\<close>. Frames
  are what \<open>json.Unmarshal\<close> makes of a line. What is not under the mutex and not modelled: the
  process, its pipes and the harness session id's way to the Store.
\<close>

section \<open>Data\<close>

datatype InterruptResult = InterruptStopped | InterruptCancelled | InterruptNoTurn | InterruptTooLate

datatype ChatErr =
  ErrClosed | ErrExited | ErrNoControl | ErrTurnInFlight | ErrNoInputPending | ErrStaleInputRequest |
  ErrNotMultiSelect | ErrUnknownOption | ErrInterruptUnconfirmed | ErrRefused | ErrStore | ErrWrite | ErrCtx

record streamTurn =
  st_uuid :: string
  st_receipt :: bool
  st_text :: string
  st_output :: bool
  st_apiError :: string
  st_interrupt :: "nat option"

record streamPermission =
  pm_addr :: nat
  pm_request_id :: string
  pm_input :: string
  pm_request :: InputRequest
  pm_surfaced :: bool

record streamEvent =
  se_delta :: "(string \<times> string) option"
  se_block :: "string option"

record controlAsk =
  ca_subtype :: string
  ca_tool :: string
  ca_display :: string
  ca_description :: string
  ca_input :: string
  ca_blocked :: string

record streamFrame =
  sf_type :: string
  sf_subtype :: string
  sf_session_id :: string
  sf_capabilities :: "string list"
  sf_mode :: string
  sf_version :: string
  sf_attempt :: int
  sf_max_retries :: int
  sf_retry_delay :: int
  sf_error_status :: int
  sf_error :: string
  sf_state :: string
  sf_command_uuid :: string
  sf_event :: "streamEvent option"
  sf_blocks :: "string list"
  sf_parent :: string
  sf_is_error :: bool
  sf_result :: string
  sf_terminal :: string
  sf_http :: int
  sf_request_id :: string
  sf_request :: "controlAsk option"
  sf_response :: "(string \<times> bool) option"
  sf_rate_limit :: "RateLimit option"

text \<open>The frames the conversation writes.\<close>

datatype outFrame =
  OutUser string string | OutAllow string string | OutDeny string | OutRefuse string

text \<open>
  The conversation. Pointers to stream turns and to interrupt operations are numbers: \<open>cv_heap\<close>
  holds the turns, \<open>cv_ops\<close> the results of the operations that have finished. \<open>cv_sending\<close> and
  \<open>cv_ending\<close> are the wait groups; \<open>cv_events\<close> is what the delivery queue took, which takes nothing
  after its last event. \<open>cv_emitted\<close> is history only: what \<open>emit\<close> was called with.
\<close>

record conv =
  cv_exit :: "ExitInfo option"
  cv_done :: bool
  cv_closed :: bool
  cv_currentTurn :: "CTurn option"
  cv_currentPrompt :: string
  cv_interruptedBy :: string
  cv_writeReserved :: bool
  cv_sending :: nat
  cv_ending :: nat
  cv_turn :: "nat option"
  cv_heap :: "nat \<Rightarrow> streamTurn"
  cv_next :: nat
  cv_ops :: "nat \<Rightarrow> (InterruptResult option \<times> ChatErr option) option"
  cv_next_op :: nat
  cv_capsChecked :: bool
  cv_mode :: string
  cv_retrying :: string
  cv_permission :: "streamPermission option"
  cv_rateLimit :: "RateLimit option"
  cv_stdinClosed :: bool
  cv_control :: "string set"
  cv_replies :: "string \<rightharpoonup> ChatErr option"
  cv_written :: "outFrame list"
  cv_emitted :: "ConversationEvent list"
  cv_events :: "ConversationEvent list"
  cv_pushed_last :: bool

text \<open>\<open>Disposition\<close> and \<open>InputPolicy\<close> of \<^verbatim>\<open>input.go\<close>; an empty kind is \<open>None\<close>.\<close>

datatype DispositionKind = DispositionAsk | DispositionAnswer | DispositionDeny

record Disposition =
  dp_kind :: "DispositionKind option"
  dp_option :: string
  dp_text :: string

record InputPolicy =
  ip_default :: "DispositionKind option"
  ip_by_kind :: "string \<rightharpoonup> Disposition"

definition resolve :: "InputPolicy option \<Rightarrow> string \<Rightarrow> Disposition option" where
  "resolve p kind =
     (case p of
        None \<Rightarrow> None
      | Some p' \<Rightarrow>
          let default = (if ip_default p' \<noteq> None then Some \<lparr>dp_kind = ip_default p', dp_option = [], dp_text = []\<rparr> else None) in
          case ip_by_kind p' kind of
            Some d \<Rightarrow> if dp_kind d \<noteq> None then Some d else default
          | None \<Rightarrow> default)"

text \<open>The options a conversation was opened with; \<open>resume\<close> reads the reset time of a usage wall.\<close>

record chatOpts =
  op_harness :: string
  op_session :: string
  op_max_bytes :: int
  op_policy :: "InputPolicy option"
  op_on_input :: "(InputRequest \<Rightarrow> InputAnswer option) option"
  op_resume :: "string \<Rightarrow> int"

section \<open>Turns and events\<close>

definition emit :: "chatOpts \<Rightarrow> ConversationEvent \<Rightarrow> conv \<Rightarrow> conv" where
  "emit o' ev c =
     (if cv_pushed_last c then c
      else c\<lparr>cv_emitted := cv_emitted c @ [ev], cv_events := cv_events c @ emit_fit (op_max_bytes o') ev\<rparr>)"

definition claimTurnLocked :: "conv \<Rightarrow> CTurn option \<times> conv" where
  "claimTurnLocked c =
     (case cv_currentTurn c of
        None \<Rightarrow> (None, c)
      | Some t \<Rightarrow> (Some t, c\<lparr>cv_currentTurn := None, cv_ending := Suc (cv_ending c)\<rparr>))"

text \<open>\<open>finishTurn\<close> with \<open>publishTurn\<close>; \<open>stored\<close> says whether the Store took the update.\<close>

definition finishTurn :: "chatOpts \<Rightarrow> bool \<Rightarrow> CTurn \<Rightarrow> ChatErr option \<Rightarrow> conv \<Rightarrow> conv" where
  "finishTurn o' stored t err c =
     (let failed = (err \<noteq> None \<or> \<not> stored);
          c1 = emit o' (EventTurn t (if failed then Some ''error'' else None)) c
      in c1\<lparr>cv_ending := cv_ending c1 - 1\<rparr>)"

definition PushLast_exited :: "ExitInfo \<Rightarrow> conv \<Rightarrow> conv" where
  "PushLast_exited info c =
     (if cv_pushed_last c then c
      else c\<lparr>cv_emitted := cv_emitted c @ [EventExited info], cv_events := cv_events c @ [EventExited info], cv_pushed_last := True\<rparr>)"

section \<open>Sending\<close>

definition reserveHarnessWriteLocked :: "conv \<Rightarrow> ChatErr option \<times> conv" where
  "reserveHarnessWriteLocked c =
     (if cv_currentTurn c \<noteq> None \<or> cv_writeReserved c then (Some ErrTurnInFlight, c)
      else (None, c\<lparr>cv_writeReserved := True\<rparr>))"

text \<open>The head of \<open>Send\<close>; \<open>held\<close> is \<open>c.queue.Held()\<close>.\<close>

definition Send_reserve :: "bool \<Rightarrow> conv \<Rightarrow> ChatErr option \<times> conv" where
  "Send_reserve held c =
     (if cv_closed c then (Some ErrClosed, c)
      else if \<not> held then (Some ErrNoControl, c)
      else
        case reserveHarnessWriteLocked c of
          (Some e, c1) \<Rightarrow> (Some e, c1)
        | (None, c1) \<Rightarrow>
            if cv_exit c1 \<noteq> None then (Some ErrExited, c1\<lparr>cv_writeReserved := False\<rparr>) else (None, c1))"

definition releaseHarnessWrite :: "conv \<Rightarrow> conv" where
  "releaseHarnessWrite c = c\<lparr>cv_writeReserved := False\<rparr>"

definition beginTurn_check :: "conv \<Rightarrow> ChatErr option \<times> conv" where
  "beginTurn_check c =
     (if cv_currentTurn c \<noteq> None then (Some ErrTurnInFlight, c)
      else if cv_exit c \<noteq> None then (Some ErrExited, c)
      else (None, c\<lparr>cv_sending := Suc (cv_sending c)\<rparr>))"

definition user_turn :: "chatOpts \<Rightarrow> string \<Rightarrow> string \<Rightarrow> int \<Rightarrow> CTurn" where
  "user_turn o' i txt now =
     zero_turn\<lparr>ct_id := i, ct_session := op_session o', ct_role := RoleUser, ct_state := TurnStateComplete, ct_text := txt,
       ct_started := now, ct_completed := now\<rparr>"

definition assistant_turn :: "chatOpts \<Rightarrow> string \<Rightarrow> int \<Rightarrow> CTurn" where
  "assistant_turn o' i now =
     zero_turn\<lparr>ct_id := i, ct_session := op_session o', ct_role := RoleAssistant, ct_state := TurnStatePending, ct_started := now\<rparr>"

definition beginTurn_set :: "CTurn \<Rightarrow> string \<Rightarrow> conv \<Rightarrow> conv" where
  "beginTurn_set t txt c = c\<lparr>cv_currentTurn := Some t, cv_currentPrompt := txt\<rparr>"

definition sending_done :: "conv \<Rightarrow> conv" where
  "sending_done c = c\<lparr>cv_sending := cv_sending c - 1\<rparr>"

text \<open>\<open>streamSend\<close> after \<open>beginTurn\<close>: the new stream turn, or nothing when the turn has ended already.\<close>

definition streamSend_register :: "string \<Rightarrow> CTurn \<Rightarrow> conv \<Rightarrow> nat option \<times> conv" where
  "streamSend_register uuid t c =
     (case cv_currentTurn c of
        Some cur \<Rightarrow>
          if ct_id cur = ct_id t then
            let n = cv_next c in
            (Some n, c\<lparr>cv_turn := Some n, cv_next := Suc n, cv_heap := (cv_heap c)(n :=
               \<lparr>st_uuid = uuid, st_receipt = False, st_text = [], st_output = False, st_apiError = [], st_interrupt = None\<rparr>)\<rparr>)
          else (None, c)
      | None \<Rightarrow> (None, c))"

text \<open>\<open>streamWrite\<close>; \<open>ok\<close> says whether the pipe took the bytes.\<close>

definition streamWrite :: "bool \<Rightarrow> outFrame \<Rightarrow> conv \<Rightarrow> ChatErr option \<times> conv" where
  "streamWrite ok f c =
     (if cv_stdinClosed c then (Some ErrExited, c)
      else if \<not> ok then (Some ErrWrite, c)
      else (None, c\<lparr>cv_written := cv_written c @ [f]\<rparr>))"

definition dropStreamTurn :: "nat \<Rightarrow> conv \<Rightarrow> conv" where
  "dropStreamTurn n c = (if cv_turn c = Some n then c\<lparr>cv_turn := None\<rparr> else c)"

definition failSubmit :: "string \<Rightarrow> string \<Rightarrow> int \<Rightarrow> conv \<Rightarrow> CTurn option \<times> conv" where
  "failSubmit turnID err now c =
     (if (case cv_currentTurn c of None \<Rightarrow> False | Some t \<Rightarrow> ct_id t = turnID) then
        case claimTurnLocked c of
          (Some t, c1) \<Rightarrow>
            (Some (t\<lparr>ct_state := TurnStateErrored, ct_reason := ''submit: '' @ err, ct_completed := now\<rparr>), c1)
        | (None, c1) \<Rightarrow> (None, c1)
      else (None, c))"

section \<open>Frames\<close>

text \<open>What the goroutine that read a frame does after its region, in this order.\<close>

datatype work =
  WReceived nat
| WPublish CTurn "ChatErr option"
| WFinish nat "InterruptResult option" "ChatErr option"
| WEmit ConversationEvent
| WWrite outFrame
| WStop

definition received :: "nat \<Rightarrow> conv \<Rightarrow> conv" where
  "received n c = c\<lparr>cv_heap := (cv_heap c)(n := (cv_heap c n)\<lparr>st_receipt := True\<rparr>)\<rparr>"

definition finish_op :: "nat \<Rightarrow> InterruptResult option \<Rightarrow> ChatErr option \<Rightarrow> conv \<Rightarrow> conv" where
  "finish_op n r e c = (if cv_ops c n = None then c\<lparr>cv_ops := (cv_ops c)(n := Some (r, e))\<rparr> else c)"

definition receive_work :: "nat option \<Rightarrow> work list" where
  "receive_work st = (case st of None \<Rightarrow> [] | Some n \<Rightarrow> [WReceived n])"

text \<open>The operation of the turn a frame ended: \<open>st.interrupt.finish\<close>.\<close>

definition finish_work :: "conv \<Rightarrow> nat option \<Rightarrow> InterruptResult option \<Rightarrow> ChatErr option \<Rightarrow> work list" where
  "finish_work c st r e =
     (case st of
        None \<Rightarrow> []
      | Some n \<Rightarrow> (case st_interrupt (cv_heap c n) of None \<Rightarrow> [] | Some p \<Rightarrow> [WFinish p r e]))"

definition interruptReason :: "string \<Rightarrow> InterruptResult \<Rightarrow> bool \<Rightarrow> string" where
  "interruptReason harness r byCall =
     (let reason =
        (if r = InterruptCancelled then harness @ '': interrupted: the harness cancelled the turn before it replied''
         else harness @ '': interrupted: the harness stopped the turn'')
      in if byCall then reason else reason @ '' (at the terminal)'')"

definition streamRequiredCapabilities :: "string list" where
  "streamRequiredCapabilities = [''interrupt_receipt_v1'', ''msg_lifecycle_v1'']"

text \<open>\<^verbatim>\<open>strings.Join\<close>.\<close>

fun join_with :: "string \<Rightarrow> string list \<Rightarrow> string" where
  "join_with sep [] = []"
| "join_with sep [x] = x"
| "join_with sep (x # y # ys) = x @ sep @ join_with sep (y # ys)"

text \<open>\<open>onStreamInit\<close>: its first region, with whether there is more to do, and its second.\<close>

definition missing_caps :: "streamFrame \<Rightarrow> string list" where
  "missing_caps f = filter (\<lambda>cp. cp \<notin> set (sf_capabilities f)) streamRequiredCapabilities"

definition onStreamInit_mode :: "streamFrame \<Rightarrow> conv \<Rightarrow> bool \<times> conv" where
  "onStreamInit_mode f c =
     (let c1 = (if sf_mode f \<noteq> [] then c\<lparr>cv_mode := sf_mode f\<rparr> else c)
      in (\<not> cv_capsChecked c1 \<and> missing_caps f \<noteq> [], c1\<lparr>cv_capsChecked := True\<rparr>))"

definition onStreamInit_refuse :: "chatOpts \<Rightarrow> int \<Rightarrow> streamFrame \<Rightarrow> conv \<Rightarrow> work list \<times> conv" where
  "onStreamInit_refuse o' now f c =
     (let (turn, c1) = claimTurnLocked c; st = cv_turn c1; c2 = c1\<lparr>cv_turn := None\<rparr>;
          ended = (case turn of
                     None \<Rightarrow> []
                   | Some t \<Rightarrow>
                       [WPublish (t\<lparr>ct_state := TurnStateErrored, ct_completed := now, ct_reason := op_harness o' @ '': claude '' @
                          sf_version f @ '' does not support the stream-json transport: it lacks '' @
                          join_with '', '' (missing_caps f)\<rparr>) None])
      in (receive_work st @ finish_work c2 st None (Some ErrInterruptUnconfirmed) @ ended @ [WStop], c2))"

definition onStreamLifecycle :: "chatOpts \<Rightarrow> int \<Rightarrow> streamFrame \<Rightarrow> conv \<Rightarrow> work list \<times> conv" where
  "onStreamLifecycle o' now f c =
     (case cv_turn c of
        None \<Rightarrow> ([], c)
      | Some n \<Rightarrow>
          if st_uuid (cv_heap c n) \<noteq> sf_command_uuid f then ([], c)
          else if sf_state f = ''queued'' \<or> sf_state f = ''started'' then ([WReceived n], c)
          else if sf_state f = ''completed'' then ([], c)
          else
            let (turn, c1) = claimTurnLocked c; c2 = c1\<lparr>cv_turn := None\<rparr> in
            case turn of
              None \<Rightarrow> ([WReceived n], c2)
            | Some t \<Rightarrow>
                let cancelled = (sf_state f = ''cancelled'');
                    t1 = t\<lparr>ct_completed := now\<rparr>;
                    t2 = (if cancelled
                          then t1\<lparr>ct_state := TurnStateInterrupted, ct_reason :=
                            interruptReason (op_harness o') InterruptCancelled (st_interrupt (cv_heap c n) \<noteq> None)\<rparr>
                          else t1\<lparr>ct_state := TurnStateErrored,
                            ct_reason := op_harness o' @ '': claude '' @ sf_state f @ '' the message''\<rparr>)
                in ([WReceived n, WPublish t2 None] @
                    finish_work c2 (Some n) (Some (if cancelled then InterruptCancelled else InterruptTooLate)) None, c2))"

definition streamErrorText :: "streamFrame \<Rightarrow> string" where
  "streamErrorText f = (if sf_result f \<noteq> [] then sf_result f else ''turn failed ('' @ sf_terminal f @ '')'')"

text \<open>What a result frame makes of the turn it ends, and of its interrupt.\<close>

definition result_turn :: "chatOpts \<Rightarrow> int \<Rightarrow> streamFrame \<Rightarrow> streamTurn option \<Rightarrow> CTurn \<Rightarrow> InterruptResult \<times> CTurn" where
  "result_turn o' now f st t0 =
     (let t = t0\<lparr>ct_completed := now\<rparr>;
          output = (case st of None \<Rightarrow> False | Some s \<Rightarrow> st_output s);
          byCall = (case st of None \<Rightarrow> False | Some s \<Rightarrow> st_interrupt s \<noteq> None)
      in
        if take 7 (sf_terminal f) = ''aborted'' then
          let outcome = (if output then InterruptStopped else InterruptCancelled);
              t1 = t\<lparr>ct_state := TurnStateInterrupted, ct_reason := interruptReason (op_harness o') outcome byCall\<rparr>
          in (outcome, case st of Some s \<Rightarrow> if outcome = InterruptStopped then t1\<lparr>ct_text := st_text s\<rparr> else t1 | None \<Rightarrow> t1)
        else if sf_is_error f then
          let t1 = t\<lparr>ct_state := TurnStateErrored, ct_http := sf_http f\<rparr>;
              tag = (case st of None \<Rightarrow> [] | Some s \<Rightarrow> st_apiError s)
          in (InterruptTooLate,
              case apiErrorClasses tag of
                Some v \<Rightarrow>
                  let v' = v\<lparr>av_tag := tag, av_text := sf_result f\<rparr>;
                      t2 = t1\<lparr>ct_reason := turnReason (op_harness o') v', ct_code := av_code v'\<rparr>
                  in if av_code v' = Some CodeUsageLimited then t2\<lparr>ct_resume_at := op_resume o' (sf_result f)\<rparr> else t2
              | None \<Rightarrow> t1\<lparr>ct_reason := op_harness o' @ '': '' @ oneLineCapped (streamErrorText f) apiErrorDetailCap\<rparr>)
        else (InterruptTooLate, t\<lparr>ct_state := TurnStateComplete, ct_text := sf_result f\<rparr>))"

definition onStreamResult :: "chatOpts \<Rightarrow> int \<Rightarrow> streamFrame \<Rightarrow> conv \<Rightarrow> work list \<times> conv" where
  "onStreamResult o' now f c =
     (let st = cv_turn c; (turn, c1) = claimTurnLocked c; c2 = c1\<lparr>cv_turn := None, cv_retrying := []\<rparr> in
      case turn of
        None \<Rightarrow> ([], c2)
      | Some t \<Rightarrow>
          let (outcome, t') = result_turn o' now f (map_option (cv_heap c2) st) t
          in (receive_work st @ [WPublish t' None] @ finish_work c2 st (Some outcome) None, c2))"

text \<open>\<open>answerStreamPermission\<close>: the frame it writes, or \<open>ErrUnknownOption\<close>.\<close>

definition answerStreamPermission :: "streamPermission \<Rightarrow> string \<Rightarrow> ChatErr + outFrame" where
  "answerStreamPermission p optionID =
     (if optionID = ''allow'' then Inr (OutAllow (pm_request_id p) (if pm_input p = [] then ''{}'' else pm_input p))
      else if optionID = ''deny'' then Inr (OutDeny (pm_request_id p))
      else Inl ErrUnknownOption)"

definition streamPermissionKind :: string where
  "streamPermissionKind = ''permission_prompt''"

definition permission_request :: "streamFrame \<Rightarrow> controlAsk \<Rightarrow> InputRequest" where
  "permission_request f a =
     (let name = (if ca_display a = [] then ca_tool a else ca_display a);
          p1 = ''Allow '' @ name;
          p2 = (if ca_description a \<noteq> [] then p1 @ '': '' @ ca_description a else p1);
          p3 = (if ca_blocked a \<noteq> [] then p2 @ '' ('' @ ca_blocked a @ '')'' else p2)
      in \<lparr>iq_id = sf_request_id f, iq_kind = streamPermissionKind, iq_prompt = p3 @ ''?'', iq_header = name, iq_multi = False,
          iq_options = [\<lparr>io_id = ''allow'', io_alias = [], io_label = ''Allow'', io_description = []\<rparr>,
                        \<lparr>io_id = ''deny'', io_alias = [], io_label = ''Deny'', io_description = []\<rparr>]\<rparr>)"

definition answer_work :: "streamPermission \<Rightarrow> string \<Rightarrow> work list" where
  "answer_work p optionID = (case answerStreamPermission p optionID of Inl _ \<Rightarrow> [] | Inr fr \<Rightarrow> [WWrite fr])"

definition onStreamControlRequest :: "chatOpts \<Rightarrow> nat \<Rightarrow> streamFrame \<Rightarrow> conv \<Rightarrow> work list \<times> conv" where
  "onStreamControlRequest o' addr f c =
     (case sf_request f of
        None \<Rightarrow> ([WWrite (OutRefuse (sf_request_id f))], c)
      | Some a \<Rightarrow>
          if ca_subtype a \<noteq> ''can_use_tool'' then ([WWrite (OutRefuse (sf_request_id f))], c)
          else
            let perm = \<lparr>pm_addr = addr, pm_request_id = sf_request_id f, pm_input = ca_input a,
                  pm_request = permission_request f a, pm_surfaced = False\<rparr>;
                surface = ([WEmit (EventInputRequest (pm_request perm))],
                  c\<lparr>cv_permission := Some (perm\<lparr>pm_surfaced := True\<rparr>)\<rparr>);
                ask = (case op_on_input o' of
                         None \<Rightarrow> surface
                       | Some h \<Rightarrow>
                           (case h (pm_request perm) of
                              Some ans \<Rightarrow> (answer_work perm (ia_option ans), c)
                            | None \<Rightarrow> surface))
            in
              case resolve (op_policy o') streamPermissionKind of
                Some d \<Rightarrow> if dp_kind d = Some DispositionAnswer then (answer_work perm (dp_option d), c) else ask
              | None \<Rightarrow> ask)"

definition onStreamRateLimit :: "streamFrame \<Rightarrow> conv \<Rightarrow> work list \<times> conv" where
  "onStreamRateLimit f c =
     (case sf_rate_limit f of
        None \<Rightarrow> ([], c)
      | Some rl \<Rightarrow> ([WEmit (EventRateLimit rl)], c\<lparr>cv_rateLimit := Some rl\<rparr>))"

definition upd_stream :: "nat \<Rightarrow> (streamTurn \<Rightarrow> streamTurn) \<Rightarrow> conv \<Rightarrow> conv" where
  "upd_stream n g c = c\<lparr>cv_heap := (cv_heap c)(n := g (cv_heap c n))\<rparr>"

definition on_stream_event :: "streamFrame \<Rightarrow> conv \<Rightarrow> conv" where
  "on_stream_event f c =
     (case sf_event f of
        None \<Rightarrow> c
      | Some ev \<Rightarrow>
          if sf_parent f \<noteq> [] then c
          else
            case cv_turn c of
              None \<Rightarrow> c
            | Some n \<Rightarrow>
                (case se_delta ev of
                   Some (ty, txt) \<Rightarrow>
                     if ty = ''text_delta''
                     then (upd_stream n (\<lambda>s. s\<lparr>st_text := st_text s @ txt, st_output := True\<rparr>) c)\<lparr>cv_retrying := []\<rparr>
                     else if se_block ev = Some ''tool_use''
                     then (upd_stream n (\<lambda>s. s\<lparr>st_output := True\<rparr>) c)\<lparr>cv_retrying := []\<rparr>
                     else c
                 | None \<Rightarrow>
                     if se_block ev = Some ''tool_use''
                     then (upd_stream n (\<lambda>s. s\<lparr>st_output := True\<rparr>) c)\<lparr>cv_retrying := []\<rparr>
                     else c))"

definition on_assistant :: "streamFrame \<Rightarrow> conv \<Rightarrow> conv" where
  "on_assistant f c =
     (case cv_turn c of
        None \<Rightarrow> c
      | Some n \<Rightarrow>
          if sf_parent f \<noteq> [] then c
          else upd_stream n
            (\<lambda>s. let s1 = (if sf_error f \<noteq> [] then s\<lparr>st_apiError := sf_error f\<rparr> else s)
                 in if ''tool_use'' \<in> set (sf_blocks f) then s1\<lparr>st_output := True\<rparr> else s1) c)"

definition on_api_retry :: "streamFrame \<Rightarrow> conv \<Rightarrow> conv" where
  "on_api_retry f c =
     c\<lparr>cv_retrying := ''api error '' @ itoa (sf_error_status f) @ '' '' @ sf_error f @ '': retrying, attempt '' @
       itoa (sf_attempt f) @ ''/'' @ itoa (sf_max_retries f) @ '' in '' @ itoa (sf_retry_delay f) @ ''ms''\<rparr>"

text \<open>A control response: the channel of the request gets its answer, once.\<close>

definition on_control_response :: "streamFrame \<Rightarrow> conv \<Rightarrow> conv" where
  "on_control_response f c =
     (case sf_response f of
        None \<Rightarrow> c
      | Some (i, success) \<Rightarrow>
          if i \<in> cv_control c
          then c\<lparr>cv_control := cv_control c - {i},
                 cv_replies := (cv_replies c)(i \<mapsto> (if success then None else Some ErrRefused))\<rparr>
          else c)"

text \<open>
  \<open>onStreamFrame\<close>. A \<open>system/init\<close> frame is two regions: the second, when it is due, is left for
  the caller.
\<close>

definition onStreamFrame :: "chatOpts \<Rightarrow> int \<Rightarrow> nat \<Rightarrow> streamFrame \<Rightarrow> conv \<Rightarrow> bool \<times> work list \<times> conv" where
  "onStreamFrame o' now addr f c =
     (if sf_type f = ''command_lifecycle'' then (False, onStreamLifecycle o' now f c)
      else if sf_type f = ''system'' then
        if sf_subtype f = ''init'' then (case onStreamInit_mode f c of (due, c1) \<Rightarrow> (due, [], c1))
        else if sf_subtype f = ''api_retry'' then (False, [], on_api_retry f c)
        else (False, [], c)
      else if sf_type f = ''stream_event'' then (False, [], on_stream_event f c)
      else if sf_type f = ''assistant'' then (False, [], on_assistant f c)
      else if sf_type f = ''result'' then (False, onStreamResult o' now f c)
      else if sf_type f = ''control_response'' then (False, [], on_control_response f c)
      else if sf_type f = ''control_request'' then (False, onStreamControlRequest o' addr f c)
      else if sf_type f = ''rate_limit_event'' then (False, onStreamRateLimit f c)
      else (False, [], c))"

section \<open>Interrupting and answering\<close>

text \<open>
  The region of \<open>streamInterrupt\<close>. A new operation reads \<open>c.currentTurn.ID\<close>, which panics when
  there is no turn in flight.
\<close>

datatype ibegun = IbNoTurn | IbJoined nat | IbNew nat | IbPanic

definition streamInterrupt_begin :: "conv \<Rightarrow> ibegun \<times> conv" where
  "streamInterrupt_begin c =
     (case cv_turn c of
        None \<Rightarrow> (IbNoTurn, c)
      | Some n \<Rightarrow>
          (case st_interrupt (cv_heap c n) of
             Some p \<Rightarrow> (IbJoined p, c)
           | None \<Rightarrow>
               let p = cv_next_op c;
                   c1 = (upd_stream n (\<lambda>s. s\<lparr>st_interrupt := Some p\<rparr>) c)\<lparr>cv_next_op := Suc p\<rparr>
               in case cv_currentTurn c of
                    None \<Rightarrow> (IbPanic, c1)
                  | Some t \<Rightarrow> (IbNew p, c1\<lparr>cv_interruptedBy := ct_id t\<rparr>)))"

text \<open>The first region of \<open>streamAnswer\<close> with the checks after it, and the second.\<close>

definition streamAnswer_check :: "string \<Rightarrow> InputAnswer \<Rightarrow> conv \<Rightarrow> ChatErr + streamPermission \<times> outFrame" where
  "streamAnswer_check requestID ans c =
     (case cv_permission c of
        None \<Rightarrow> Inl ErrNoInputPending
      | Some p \<Rightarrow>
          if pm_request_id p \<noteq> requestID then Inl ErrStaleInputRequest
          else if ia_options ans \<noteq> [] then Inl ErrNotMultiSelect
          else (case answerStreamPermission p (ia_option ans) of Inl e \<Rightarrow> Inl e | Inr fr \<Rightarrow> Inr (p, fr)))"

definition streamAnswer_clear :: "streamPermission \<Rightarrow> conv \<Rightarrow> conv" where
  "streamAnswer_clear p c =
     (case cv_permission c of
        Some q \<Rightarrow> if pm_addr q = pm_addr p then c\<lparr>cv_permission := None\<rparr> else c
      | None \<Rightarrow> c)"

text \<open>The last region of \<open>streamSetPermissionMode\<close>; a request that failed leaves the mode (\<open>None\<close>).\<close>

definition set_stream_mode :: "string option \<Rightarrow> conv \<Rightarrow> conv" where
  "set_stream_mode m c = (case m of None \<Rightarrow> c | Some mode \<Rightarrow> c\<lparr>cv_mode := mode\<rparr>)"

section \<open>Exiting\<close>

text \<open>\<open>streamWait\<close>: stdin is closed, pending control requests fail, and the protocol state is dropped.\<close>

definition exit_stdin :: "conv \<Rightarrow> conv" where
  "exit_stdin c = c\<lparr>cv_stdinClosed := True\<rparr>"

definition exit_control :: "conv \<Rightarrow> conv" where
  "exit_control c =
     c\<lparr>cv_replies := (\<lambda>i. if i \<in> cv_control c then Some (Some ErrExited) else cv_replies c i), cv_control := {}\<rparr>"

definition exit_drop :: "conv \<Rightarrow> work list \<times> conv" where
  "exit_drop c =
     (let st = cv_turn c; perm = cv_permission c; c1 = c\<lparr>cv_turn := None, cv_permission := None\<rparr>
      in (finish_work c1 st None (Some ErrInterruptUnconfirmed) @
          (case perm of Some p \<Rightarrow> if pm_surfaced p then [WEmit (EventInputResolved (pm_request_id p))] else [] | None \<Rightarrow> []), c1))"

text \<open>\<open>exitWith\<close>: the exit is recorded, then the turn left in flight is ended.\<close>

definition exit_record :: "ExitInfo \<Rightarrow> conv \<Rightarrow> conv" where
  "exit_record info c = c\<lparr>cv_exit := Some info\<rparr>"

definition exit_done :: "conv \<Rightarrow> conv" where
  "exit_done c = c\<lparr>cv_done := True\<rparr>"

definition exit_claim :: "chatOpts \<Rightarrow> int \<Rightarrow> ExitInfo \<Rightarrow> conv \<Rightarrow> work list \<times> conv" where
  "exit_claim o' now info c =
     (case claimTurnLocked c of
        (None, c1) \<Rightarrow> ([], c1)
      | (Some t, c1) \<Rightarrow>
          ([WPublish (t\<lparr>ct_state := TurnStateErrored, ct_completed := now,
              ct_reason := op_harness o' @ '': harness exited ('' @ ei_status info @ '')''\<rparr>) None], c1))"

end
