(* ===== verification/Chat_Stream_Sys.thy ===== *)
theory Chat_Stream_Sys
  imports Chat_Stream
begin

text \<open>
  The goroutines of a stream-json conversation as one transition system: the reader of claude's
  frames, the Send that holds the write claim, Interrupts and Answers, and the goroutine that turns
  claude's exit into the conversation's. A step is one region of \<^verbatim>\<open>Chat_Stream\<close> or one item of work
  after it.
\<close>

section \<open>The system\<close>

text \<open>Where the Send stands that holds the write claim; \<open>SMode\<close> is a \<open>SetPermissionMode\<close> that does.\<close>

datatype spc =
  SIdle | SClash | SMode | SReturn
| SReserved string
| SBegun string
| SUser string
| SAsst CTurn string
| SCurrent CTurn string
| SReady CTurn string
| SWriting CTurn string nat
| SWaiting CTurn nat
| SDrop CTurn nat string
| SFail CTurn string
| SPublish CTurn

datatype xpc = XRun | XControl | XDrop | XWork | XRecorded | XDone | XClaimed | XOver

datatype apc = AClear streamPermission | AEmit string

record chat =
  y_c :: conv
  y_s :: spc
  y_reader :: "work list"
  y_due :: "streamFrame option"
  y_eof :: bool
  y_x :: xpc
  y_xwork :: "work list"
  y_info :: ExitInfo
  y_ids :: "string set"
  y_waits :: "nat set"
  y_ctl :: "nat set"
  y_ans :: "apc list"

text \<open>What a conversation starts as, with the exit its process will have.\<close>

definition new_conv :: "(nat \<Rightarrow> streamTurn) \<Rightarrow> conv" where
  "new_conv h =
     \<lparr>cv_exit = None, cv_done = False, cv_closed = False, cv_currentTurn = None, cv_currentPrompt = [], cv_interruptedBy = [],
      cv_writeReserved = False, cv_sending = 0, cv_ending = 0, cv_turn = None, cv_heap = h, cv_next = 0,
      cv_ops = (\<lambda>_. None), cv_next_op = 0, cv_capsChecked = False, cv_mode = [], cv_retrying = [], cv_permission = None,
      cv_rateLimit = None, cv_stdinClosed = False, cv_control = {}, cv_replies = Map.empty, cv_written = [], cv_emitted = [], cv_events = [],
      cv_pushed_last = False\<rparr>"

definition new_chat :: "(nat \<Rightarrow> streamTurn) \<Rightarrow> ExitInfo \<Rightarrow> chat" where
  "new_chat h info =
     \<lparr>y_c = new_conv h, y_s = SIdle, y_reader = [], y_due = None, y_eof = False, y_x = XRun, y_xwork = [], y_info = info,
      y_ids = {}, y_waits = {}, y_ctl = {}, y_ans = []\<rparr>"

definition chat_init :: "chat \<Rightarrow> bool" where
  "chat_init y \<longleftrightarrow> (\<exists>h info. y = new_chat h info)"

definition run_work :: "chatOpts \<Rightarrow> bool \<Rightarrow> bool \<Rightarrow> work \<Rightarrow> conv \<Rightarrow> conv" where
  "run_work o' stored ok w c =
     (case w of
        WReceived n \<Rightarrow> received n c
      | WPublish t e \<Rightarrow> finishTurn o' stored t e c
      | WFinish n r e \<Rightarrow> finish_op n r e c
      | WEmit ev \<Rightarrow> emit o' ev c
      | WWrite f \<Rightarrow> snd (streamWrite ok f c)
      | WStop \<Rightarrow> c)"

text \<open>The reader.\<close>

inductive reader_step :: "chatOpts \<Rightarrow> chat \<Rightarrow> chat \<Rightarrow> bool" for o' :: chatOpts where
  frame: "\<lbrakk>y_reader y = []; y_due y = None; \<not> y_eof y; onStreamFrame o' now addr f (y_c y) = (due, ws, c)\<rbrakk> \<Longrightarrow>
    reader_step o' y (y\<lparr>y_c := c, y_reader := ws, y_due := (if due then Some f else None)\<rparr>)"
| due: "\<lbrakk>y_reader y = []; y_due y = Some f; onStreamInit_refuse o' now f (y_c y) = (ws, c)\<rbrakk> \<Longrightarrow>
    reader_step o' y (y\<lparr>y_c := c, y_reader := ws, y_due := None\<rparr>)"
| work: "y_reader y = w # ws \<Longrightarrow>
    reader_step o' y (y\<lparr>y_c := run_work o' stored ok w (y_c y), y_reader := ws\<rparr>)"
| eof: "y_reader y = [] \<Longrightarrow> y_due y = None \<Longrightarrow> reader_step o' y (y\<lparr>y_eof := True\<rparr>)"

text \<open>A Send. Turn ids are fresh; \<open>SClash\<close> would be a second caller past the write claim.\<close>

inductive send_step :: "chatOpts \<Rightarrow> chat \<Rightarrow> chat \<Rightarrow> bool" for o' :: chatOpts where
  reserve: "Send_reserve held (y_c y) = (None, c) \<Longrightarrow>
    send_step o' y (y\<lparr>y_c := c, y_s := (if y_s y = SIdle then SReserved txt else SClash)\<rparr>)"
| refused: "Send_reserve held (y_c y) = (Some e, c) \<Longrightarrow> send_step o' y (y\<lparr>y_c := c\<rparr>)"
| set_mode: "reserveHarnessWriteLocked (y_c y) = (None, c) \<Longrightarrow>
    send_step o' y (y\<lparr>y_c := c, y_s := (if y_s y = SIdle then SMode else SClash)\<rparr>)"
| mode_set: "y_s y = SMode \<Longrightarrow> send_step o' y (y\<lparr>y_c := set_stream_mode m (y_c y), y_s := SReturn\<rparr>)"
| begin_turn: "y_s y = SReserved txt \<Longrightarrow> beginTurn_check (y_c y) = (None, c) \<Longrightarrow> send_step o' y (y\<lparr>y_c := c, y_s := SBegun txt\<rparr>)"
| begin_refused: "y_s y = SReserved txt \<Longrightarrow> beginTurn_check (y_c y) = (Some e, c) \<Longrightarrow> send_step o' y (y\<lparr>y_c := c, y_s := SReturn\<rparr>)"
| user: "y_s y = SBegun txt \<Longrightarrow> i \<notin> y_ids y \<Longrightarrow>
    send_step o' y (y\<lparr>y_c := emit o' (EventTurn (user_turn o' i txt now) None) (y_c y), y_s := SUser txt, y_ids := insert i (y_ids y)\<rparr>)"
| asst: "y_s y = SUser txt \<Longrightarrow> i \<notin> y_ids y \<Longrightarrow>
    send_step o' y (y\<lparr>y_c := emit o' (EventTurn (assistant_turn o' i now) None) (y_c y), y_s := SAsst (assistant_turn o' i now) txt,
      y_ids := insert i (y_ids y)\<rparr>)"
| not_stored: "y_s y = SBegun txt \<or> y_s y = SUser txt \<Longrightarrow> send_step o' y (y\<lparr>y_c := sending_done (y_c y), y_s := SReturn\<rparr>)"
| current: "y_s y = SAsst t txt \<Longrightarrow> send_step o' y (y\<lparr>y_c := beginTurn_set t txt (y_c y), y_s := SCurrent t txt\<rparr>)"
| begun: "y_s y = SCurrent t txt \<Longrightarrow> send_step o' y (y\<lparr>y_c := sending_done (y_c y), y_s := SReady t txt\<rparr>)"
| register: "y_s y = SReady t txt \<Longrightarrow> streamSend_register uuid t (y_c y) = (r, c) \<Longrightarrow>
    send_step o' y (y\<lparr>y_c := c, y_s := (case r of None \<Rightarrow> SReturn | Some n \<Rightarrow> SWriting t txt n)\<rparr>)"
| written: "y_s y = SWriting t txt n \<Longrightarrow> streamWrite ok (OutUser (st_uuid (cv_heap (y_c y) n)) txt) (y_c y) = (r, c) \<Longrightarrow>
    send_step o' y (y\<lparr>y_c := c, y_s := (case r of None \<Rightarrow> SWaiting t n | Some _ \<Rightarrow> SDrop t n ''write'')\<rparr>)"
| taken: "y_s y = SWaiting t n \<Longrightarrow> st_receipt (cv_heap (y_c y) n) \<or> cv_done (y_c y) \<Longrightarrow> send_step o' y (y\<lparr>y_s := SReturn\<rparr>)"
| gives_up: "y_s y = SWaiting t n \<Longrightarrow> send_step o' y (y\<lparr>y_s := SDrop t n err\<rparr>)"
| drop: "y_s y = SDrop t n err \<Longrightarrow> send_step o' y (y\<lparr>y_c := dropStreamTurn n (y_c y), y_s := SFail t err\<rparr>)"
| fail: "y_s y = SFail t err \<Longrightarrow> failSubmit (ct_id t) err now (y_c y) = (r, c) \<Longrightarrow>
    send_step o' y (y\<lparr>y_c := c, y_s := (case r of None \<Rightarrow> SReturn | Some t' \<Rightarrow> SPublish t')\<rparr>)"
| publish: "y_s y = SPublish t \<Longrightarrow>
    send_step o' y (y\<lparr>y_c := finishTurn o' stored t (Some ErrWrite) (y_c y), y_s := SReturn\<rparr>)"
| return: "y_s y = SReturn \<Longrightarrow> send_step o' y (y\<lparr>y_c := releaseHarnessWrite (y_c y), y_s := SIdle\<rparr>)"

text \<open>Interrupts, Answers, and what closes the conversation or claude's stdin.\<close>

inductive call_step :: "chatOpts \<Rightarrow> chat \<Rightarrow> chat \<Rightarrow> bool" for o' :: chatOpts where
  interrupt: "\<not> cv_closed (y_c y) \<Longrightarrow> streamInterrupt_begin (y_c y) = (r, c) \<Longrightarrow> r \<noteq> IbPanic \<Longrightarrow>
    call_step o' y (y\<lparr>y_c := c, y_waits := (case r of IbNew p \<Rightarrow> insert p (y_waits y) | IbJoined p \<Rightarrow> insert p (y_waits y) | _ \<Rightarrow> y_waits y),
      y_ctl := (case r of IbNew p \<Rightarrow> insert p (y_ctl y) | _ \<Rightarrow> y_ctl y)\<rparr>)"
| asked: "p \<in> y_ctl y \<Longrightarrow> call_step o' y (y\<lparr>y_ctl := y_ctl y - {p}\<rparr>)"
| ask_failed: "p \<in> y_ctl y \<Longrightarrow>
    call_step o' y (y\<lparr>y_c := finish_op p None (Some ErrInterruptUnconfirmed) (y_c y), y_ctl := y_ctl y - {p}\<rparr>)"
| answer: "streamAnswer_check i ans (y_c y) = Inr (p, f) \<Longrightarrow> streamWrite ok f (y_c y) = (None, c) \<Longrightarrow>
    call_step o' y (y\<lparr>y_c := c, y_ans := AClear p # y_ans y\<rparr>)"
| cleared: "AClear p \<in> set (y_ans y) \<Longrightarrow>
    call_step o' y (y\<lparr>y_c := streamAnswer_clear p (y_c y), y_ans := AEmit (pm_request_id p) # remove1 (AClear p) (y_ans y)\<rparr>)"
| resolved: "AEmit i \<in> set (y_ans y) \<Longrightarrow>
    call_step o' y (y\<lparr>y_c := emit o' (EventInputResolved i) (y_c y), y_ans := remove1 (AEmit i) (y_ans y)\<rparr>)"
| stop: "call_step o' y (y\<lparr>y_c := exit_stdin (y_c y)\<rparr>)"
| close: "call_step o' y (y\<lparr>y_c := (y_c y)\<lparr>cv_closed := True\<rparr>\<rparr>)"

text \<open>The exit: the reader is done before it begins.\<close>

inductive exit_step :: "chatOpts \<Rightarrow> chat \<Rightarrow> chat \<Rightarrow> bool" for o' :: chatOpts where
  ended: "y_x y = XRun \<Longrightarrow> y_eof y \<Longrightarrow> exit_step o' y (y\<lparr>y_c := exit_stdin (y_c y), y_x := XControl\<rparr>)"
| control: "y_x y = XControl \<Longrightarrow> exit_step o' y (y\<lparr>y_c := exit_control (y_c y), y_x := XDrop\<rparr>)"
| dropped: "y_x y = XDrop \<Longrightarrow> exit_drop (y_c y) = (ws, c) \<Longrightarrow> exit_step o' y (y\<lparr>y_c := c, y_xwork := ws, y_x := XWork\<rparr>)"
| work: "y_x y = XWork \<or> y_x y = XClaimed \<Longrightarrow> y_xwork y = w # ws \<Longrightarrow>
    exit_step o' y (y\<lparr>y_c := run_work o' stored ok w (y_c y), y_xwork := ws\<rparr>)"
| recorded: "y_x y = XWork \<Longrightarrow> y_xwork y = [] \<Longrightarrow> exit_step o' y (y\<lparr>y_c := exit_record (y_info y) (y_c y), y_x := XRecorded\<rparr>)"
| done_closed: "y_x y = XRecorded \<Longrightarrow> exit_step o' y (y\<lparr>y_c := exit_done (y_c y), y_x := XDone\<rparr>)"
| claimed: "y_x y = XDone \<Longrightarrow> cv_sending (y_c y) = 0 \<Longrightarrow> exit_claim o' now (y_info y) (y_c y) = (ws, c) \<Longrightarrow>
    exit_step o' y (y\<lparr>y_c := c, y_xwork := ws, y_x := XClaimed\<rparr>)"
| last: "y_x y = XClaimed \<Longrightarrow> y_xwork y = [] \<Longrightarrow> cv_ending (y_c y) = 0 \<Longrightarrow>
    exit_step o' y (y\<lparr>y_c := PushLast_exited (y_info y) (y_c y), y_x := XOver\<rparr>)"

definition chat_step :: "chatOpts \<Rightarrow> chat \<Rightarrow> chat \<Rightarrow> bool" where
  "chat_step o' y z \<longleftrightarrow> reader_step o' y z \<or> send_step o' y z \<or> call_step o' y z \<or> exit_step o' y z"

end
