(* ===== verification/Chat_Stream_Inv.thy ===== *)
theory Chat_Stream_Inv
  imports Chat_Stream_Sys "HOL-Library.Multiset"
begin

text \<open>
  The invariant of the stream-json conversation: where every announced turn is, from its pending
  event to its terminal one, and what holds back the last event of the stream.
\<close>

section \<open>The event log\<close>

definition ends_turn :: "TurnState \<Rightarrow> bool" where
  "ends_turn s \<longleftrightarrow> s = TurnStateComplete \<or> s = TurnStateErrored \<or> s = TurnStateInterrupted"

text \<open>The assistant turn an event announces as pending, and the one it ends.\<close>

definition pend_of :: "ConversationEvent \<Rightarrow> string list" where
  "pend_of ev =
     (case ev of
        EventTurn t _ \<Rightarrow> if ct_role t = RoleAssistant \<and> ct_state t = TurnStatePending then [ct_id t] else []
      | _ \<Rightarrow> [])"

definition term_of :: "ConversationEvent \<Rightarrow> string list" where
  "term_of ev =
     (case ev of
        EventTurn t _ \<Rightarrow> if ct_role t = RoleAssistant \<and> ends_turn (ct_state t) then [ct_id t] else []
      | _ \<Rightarrow> [])"

definition pend_ids :: "ConversationEvent list \<Rightarrow> string list" where
  "pend_ids L = concat (map pend_of L)"

definition term_ids :: "ConversationEvent list \<Rightarrow> string list" where
  "term_ids L = concat (map term_of L)"

definition is_exited :: "ConversationEvent \<Rightarrow> bool" where
  "is_exited ev \<longleftrightarrow> (case ev of EventExited _ \<Rightarrow> True | _ \<Rightarrow> False)"

lemma ids_append [simp]:
  "pend_ids (A @ B) = pend_ids A @ pend_ids B" "term_ids (A @ B) = term_ids A @ term_ids B"
  by (simp_all add: pend_ids_def term_ids_def)

lemma ids_simps [simp]:
  "pend_ids [] = []" "term_ids [] = []" "pend_ids (ev # L) = pend_of ev @ pend_ids L" "term_ids (ev # L) = term_of ev @ term_ids L"
  by (simp_all add: pend_ids_def term_ids_def)

text \<open>Every ending comes after its announcement.\<close>

definition ordered :: "ConversationEvent list \<Rightarrow> bool" where
  "ordered L \<longleftrightarrow> (\<forall>A ev B. L = A @ ev # B \<longrightarrow> set (term_of ev) \<subseteq> set (pend_ids A))"

lemma ordered_Nil [simp]: "ordered []"
  by (simp add: ordered_def)

lemma ordered_snoc: "ordered (L @ [ev]) \<longleftrightarrow> ordered L \<and> set (term_of ev) \<subseteq> set (pend_ids L)"
proof
  assume o: "ordered (L @ [ev])"
  have "set (term_of e) \<subseteq> set (pend_ids A)" if "L = A @ e # B" for A e B
    using o that unfolding ordered_def by (metis append_Cons append_assoc)
  with o show "ordered L \<and> set (term_of ev) \<subseteq> set (pend_ids L)" unfolding ordered_def by blast
next
  assume o: "ordered L \<and> set (term_of ev) \<subseteq> set (pend_ids L)"
  show "ordered (L @ [ev])"
    unfolding ordered_def
  proof (intro allI impI)
    fix A e B assume eq: "L @ [ev] = A @ e # B"
    show "set (term_of e) \<subseteq> set (pend_ids A)"
    proof (cases B rule: rev_cases)
      case Nil
      with eq o show ?thesis by simp
    next
      case (snoc B' b)
      with eq have "L = A @ e # B'" by simp
      with o show ?thesis unfolding ordered_def by blast
    qed
  qed
qed

text \<open>
  The log with the turns announced and not yet ended, whoever carries them, and the ids in use.
\<close>

definition log_ok :: "string list \<Rightarrow> string set \<Rightarrow> ConversationEvent list \<Rightarrow> bool" where
  "log_ok cs ids L \<longleftrightarrow>
     distinct (pend_ids L) \<and> mset (pend_ids L) = mset cs + mset (term_ids L) \<and> set (pend_ids L) \<subseteq> ids \<and> ordered L \<and>
     (\<forall>ev \<in> set L. pend_of ev \<noteq> [] \<longrightarrow> eventSize ev = 256)"

lemma log_ok_quiet: "log_ok cs ids L \<Longrightarrow> pend_of ev = [] \<Longrightarrow> term_of ev = [] \<Longrightarrow> log_ok cs ids (L @ [ev])"
  by (simp add: log_ok_def ordered_snoc)

lemma log_ok_announce:
  "log_ok cs ids L \<Longrightarrow> pend_of ev = [i] \<Longrightarrow> term_of ev = [] \<Longrightarrow> eventSize ev = 256 \<Longrightarrow> i \<notin> ids \<Longrightarrow> log_ok (i # cs) (insert i ids) (L @ [ev])"
  by (auto simp: log_ok_def ordered_snoc)

lemma log_ok_end:
  assumes "log_ok cs ids L" and "pend_of ev = []" and "term_of ev = [i]" and "mset cs = add_mset i (mset cs')"
  shows "log_ok cs' ids (L @ [ev])"
proof -
  have "i \<in># mset (pend_ids L)" using assms(1,4) by (simp add: log_ok_def)
  then show ?thesis using assms by (auto simp: log_ok_def ordered_snoc)
qed

lemma log_ok_perm: "log_ok cs ids L \<Longrightarrow> mset cs = mset cs' \<Longrightarrow> log_ok cs' ids L"
  by (simp add: log_ok_def)

lemma log_ok_ids: "log_ok cs ids L \<Longrightarrow> ids \<subseteq> ids' \<Longrightarrow> log_ok cs ids' L"
  by (auto simp: log_ok_def)

section \<open>Who carries a turn\<close>

definition pubs :: "work list \<Rightarrow> string list" where
  "pubs ws = concat (map (\<lambda>w. case w of WPublish t _ \<Rightarrow> [ct_id t] | _ \<Rightarrow> []) ws)"

lemma pubs_simps [simp]:
  "pubs [] = []" "pubs (WPublish t e # ws) = ct_id t # pubs ws" "pubs (WReceived n # ws) = pubs ws"
  "pubs (WFinish n r e' # ws) = pubs ws" "pubs (WEmit ev # ws) = pubs ws" "pubs (WWrite f # ws) = pubs ws"
  "pubs (WStop # ws) = pubs ws" "pubs (xs @ ys) = pubs xs @ pubs ys"
  by (simp_all add: pubs_def)

lemma pubs_work [simp]: "pubs (receive_work st) = []" "pubs (finish_work c st r e) = []" "pubs (answer_work p i) = []"
  by (auto simp: receive_work_def finish_work_def answer_work_def split: option.split sum.split)

definition sent :: "spc \<Rightarrow> string list" where
  "sent s = (case s of SPublish t \<Rightarrow> [ct_id t] | _ \<Rightarrow> [])"

definition announced :: "spc \<Rightarrow> string list" where
  "announced s = (case s of SAsst t _ \<Rightarrow> [ct_id t] | _ \<Rightarrow> [])"

definition current :: "conv \<Rightarrow> string list" where
  "current c = (case cv_currentTurn c of None \<Rightarrow> [] | Some t \<Rightarrow> [ct_id t])"

definition claimed :: "chat \<Rightarrow> string list" where
  "claimed y = pubs (y_reader y) @ pubs (y_xwork y) @ sent (y_s y)"

definition carriers :: "chat \<Rightarrow> string list" where
  "carriers y = announced (y_s y) @ current (y_c y) @ claimed y"

lemma pc_simps [simp]:
  "sent SIdle = []" "sent SMode = []" "sent SReturn = []" "sent (SReserved a) = []" "sent (SBegun a) = []" "sent (SUser a) = []"
  "sent (SAsst t a) = []" "sent (SCurrent t a) = []" "sent (SReady t a) = []" "sent (SWriting t a n) = []"
  "sent (SWaiting t n) = []" "sent (SDrop t n a) = []" "sent (SFail t a) = []" "sent (SPublish t) = [ct_id t]"
  "announced SIdle = []" "announced SMode = []" "announced SReturn = []" "announced (SReserved a) = []" "announced (SBegun a) = []"
  "announced (SUser a) = []" "announced (SAsst t a) = [ct_id t]" "announced (SCurrent t a) = []" "announced (SReady t a) = []"
  "announced (SWriting t a n) = []" "announced (SWaiting t n) = []" "announced (SDrop t n a) = []" "announced (SFail t a) = []"
  "announced (SPublish t) = []"
  by (simp_all add: sent_def announced_def)

text \<open>What a list of work may do to the log.\<close>

definition quiet_event :: "ConversationEvent \<Rightarrow> bool" where
  "quiet_event ev \<longleftrightarrow> pend_of ev = [] \<and> term_of ev = [] \<and> \<not> is_exited ev"

definition ending_turn :: "CTurn \<Rightarrow> bool" where
  "ending_turn t \<longleftrightarrow> ct_role t = RoleAssistant \<and> ends_turn (ct_state t)"

definition work_ok :: "work \<Rightarrow> bool" where
  "work_ok w \<longleftrightarrow> (case w of WPublish t _ \<Rightarrow> ending_turn t | WEmit ev \<Rightarrow> quiet_event ev | _ \<Rightarrow> True)"

lemma work_ok_simps [simp]:
  "work_ok (WPublish t e) = ending_turn t" "work_ok (WEmit ev) = quiet_event ev" "work_ok (WReceived n)"
  "work_ok (WFinish n r e')" "work_ok (WWrite f)" "work_ok WStop"
  by (simp_all add: work_ok_def)

lemma works_ok_lists [simp]:
  "list_all work_ok (receive_work st)" "list_all work_ok (finish_work c st r e)" "list_all work_ok (answer_work p i)"
  by (auto simp: receive_work_def finish_work_def answer_work_def split: option.split sum.split)

section \<open>What a region does\<close>

text \<open>The part of the state the invariant speaks of.\<close>

definition core :: "conv \<Rightarrow> CTurn option \<times> nat \<times> nat \<times> ConversationEvent list \<times> ConversationEvent list \<times> ExitInfo option \<times> bool \<times> bool" where
  "core c = (cv_currentTurn c, cv_sending c, cv_ending c, cv_emitted c, cv_events c, cv_exit c, cv_writeReserved c, cv_pushed_last c)"

lemma core_eqD:
  assumes "core c' = core c"
  shows "cv_currentTurn c' = cv_currentTurn c" "cv_sending c' = cv_sending c" "cv_ending c' = cv_ending c"
    "cv_emitted c' = cv_emitted c" "cv_events c' = cv_events c" "cv_exit c' = cv_exit c" "cv_writeReserved c' = cv_writeReserved c"
    "cv_pushed_last c' = cv_pushed_last c" "current c' = current c"
  using assms by (simp_all add: core_def current_def)

lemma core_simps [simp]:
  "core (received n c) = core c" "core (finish_op n r e c) = core c" "core (upd_stream n g c) = core c"
  "core (on_stream_event f c) = core c" "core (on_assistant f c) = core c" "core (on_api_retry f c) = core c"
  "core (on_control_response f c) = core c" "core (snd (onStreamInit_mode f c)) = core c"
  "core (snd (streamWrite ok fr c)) = core c" "core (snd (streamInterrupt_begin c)) = core c"
  "core (streamAnswer_clear p c) = core c" "core (set_stream_mode m c) = core c" "core (exit_stdin c) = core c"
  "core (exit_control c) = core c" "core (snd (exit_drop c)) = core c" "core (exit_done c) = core c"
  "core (dropStreamTurn n c) = core c" "core (snd (streamSend_register uuid t c)) = core c"
  "core (snd (onStreamRateLimit f c)) = core c" "core (snd (onStreamControlRequest o' a f c)) = core c"
  "core (c\<lparr>cv_closed := b\<rparr>) = core c"
  by (simp_all add: core_def received_def finish_op_def upd_stream_def on_stream_event_def on_assistant_def on_api_retry_def
      on_control_response_def onStreamInit_mode_def streamWrite_def streamInterrupt_begin_def streamAnswer_clear_def
      set_stream_mode_def exit_stdin_def exit_control_def exit_drop_def exit_done_def dropStreamTurn_def
      streamSend_register_def onStreamRateLimit_def onStreamControlRequest_def Let_def split: option.split)

text \<open>A region that may claim the turn in flight, with the work it leaves.\<close>

definition claims :: "conv \<Rightarrow> work list \<Rightarrow> conv \<Rightarrow> bool" where
  "claims c ws c' \<longleftrightarrow>
     ((\<forall>t. cv_currentTurn c = Some t \<longrightarrow> ct_role t = RoleAssistant) \<longrightarrow> list_all work_ok ws) \<and>
     (pubs ws = [] \<and> core c' = core c \<or>
      (\<exists>t. cv_currentTurn c = Some t \<and> pubs ws = [ct_id t] \<and>
         core c' = core (c\<lparr>cv_currentTurn := None, cv_ending := Suc (cv_ending c)\<rparr>)))"

lemma claims_quiet: "core c' = core c \<Longrightarrow> pubs ws = [] \<Longrightarrow> list_all work_ok ws \<Longrightarrow> claims c ws c'"
  by (simp add: claims_def)

lemma claims_refuse: "onStreamInit_refuse o' now f c = (ws, c') \<Longrightarrow> claims c ws c'"
  by (auto simp: onStreamInit_refuse_def claimTurnLocked_def claims_def core_def ending_turn_def ends_turn_def Let_def
      split: option.splits)

lemma claims_lifecycle: "onStreamLifecycle o' now f c = (ws, c') \<Longrightarrow> claims c ws c'"
  by (auto simp: onStreamLifecycle_def claimTurnLocked_def claims_def core_def ending_turn_def ends_turn_def Let_def
      split: option.splits if_splits)

lemma result_turn_ends: "snd (result_turn o' now f st t) = t' \<Longrightarrow>
    ct_id t' = ct_id t \<and> ct_role t' = ct_role t \<and> ends_turn (ct_state t')"
  by (auto simp: result_turn_def ends_turn_def Let_def split: option.splits if_splits)

lemma claims_result:
  assumes "onStreamResult o' now f c = (ws, c')"
  shows "claims c ws c'"
proof (cases "cv_currentTurn c")
  case None
  then show ?thesis using assms by (auto simp: onStreamResult_def claimTurnLocked_def claims_def core_def Let_def)
next
  case (Some t)
  let ?c = "c\<lparr>cv_currentTurn := None, cv_ending := Suc (cv_ending c), cv_turn := None, cv_retrying := []\<rparr>"
  obtain out t' where r: "result_turn o' now f (map_option (cv_heap ?c) (cv_turn c)) t = (out, t')" by fastforce
  have ws: "ws = receive_work (cv_turn c) @ [WPublish t' None] @ finish_work ?c (cv_turn c) (Some out) None" "c' = ?c"
    using assms Some r by (auto simp: onStreamResult_def claimTurnLocked_def Let_def)
  have "ct_id t' = ct_id t \<and> ct_role t' = ct_role t \<and> ends_turn (ct_state t')"
    using result_turn_ends [of o' now f "map_option (cv_heap ?c) (cv_turn c)" t t'] r by simp
  then show ?thesis using Some by (simp add: ws claims_def core_def ending_turn_def)
qed

lemma claims_control: "onStreamControlRequest o' a f c = (ws, c') \<Longrightarrow> claims c ws c'"
  by (rule claims_quiet)
    (auto simp: onStreamControlRequest_def core_def quiet_event_def pend_of_def term_of_def is_exited_def Let_def
      split: option.splits if_splits)

lemma claims_rate_limit: "onStreamRateLimit f c = (ws, c') \<Longrightarrow> claims c ws c'"
  by (rule claims_quiet)
    (auto simp: onStreamRateLimit_def core_def quiet_event_def pend_of_def term_of_def is_exited_def split: option.splits)

lemma claims_init: "onStreamInit_mode f c = (due, c') \<Longrightarrow> claims c [] c'"
  using core_simps(8) [of f c] by (simp add: claims_quiet)

lemma claims_frame:
  assumes "onStreamFrame o' now addr f c = (due, ws, c')"
  shows "claims c ws c'"
  using assms unfolding onStreamFrame_def
  by (auto simp: claims_quiet split: if_splits prod.splits
      intro: claims_lifecycle claims_result claims_control claims_rate_limit claims_init)

lemma claims_drop: "exit_drop c = (ws, c') \<Longrightarrow> claims c ws c'"
  by (rule claims_quiet)
    (auto simp: exit_drop_def core_def quiet_event_def pend_of_def term_of_def is_exited_def Let_def split: option.splits)

lemma claims_exit: "exit_claim o' now info c = (ws, c') \<Longrightarrow> claims c ws c'"
  by (auto simp: exit_claim_def claimTurnLocked_def claims_def core_def ending_turn_def ends_turn_def
      split: option.splits)

section \<open>The invariant\<close>

text \<open>The Send between its check and the end of \<open>beginTurn\<close>, and before the turn is in flight.\<close>

definition counted :: "spc \<Rightarrow> bool" where
  "counted s \<longleftrightarrow> (case s of SBegun _ \<Rightarrow> True | SUser _ \<Rightarrow> True | SAsst _ _ \<Rightarrow> True | SCurrent _ _ \<Rightarrow> True | _ \<Rightarrow> False)"

definition preparing :: "spc \<Rightarrow> bool" where
  "preparing s \<longleftrightarrow> (case s of SBegun _ \<Rightarrow> True | SUser _ \<Rightarrow> True | SAsst _ _ \<Rightarrow> True | _ \<Rightarrow> False)"

definition send_ok :: "spc \<Rightarrow> conv \<Rightarrow> bool" where
  "send_ok s c \<longleftrightarrow>
     s \<noteq> SClash \<and> (cv_writeReserved c \<longleftrightarrow> s \<noteq> SIdle) \<and> cv_sending c = (if counted s then 1 else 0) \<and>
     (preparing s \<longrightarrow> cv_currentTurn c = None) \<and>
     (case s of SAsst t _ \<Rightarrow> ct_role t = RoleAssistant | SPublish t \<Rightarrow> ending_turn t | _ \<Rightarrow> True) \<and>
     (\<forall>t. cv_currentTurn c = Some t \<longrightarrow> ct_role t = RoleAssistant)"

definition exit_ok :: "xpc \<Rightarrow> bool \<Rightarrow> work list \<Rightarrow> streamFrame option \<Rightarrow> work list \<Rightarrow> conv \<Rightarrow> bool" where
  "exit_ok x eof reader due xwork c \<longleftrightarrow>
     (eof \<longrightarrow> reader = [] \<and> due = None) \<and> (x \<noteq> XRun \<longrightarrow> eof) \<and>
     (x = XRecorded \<or> x = XDone \<or> x = XClaimed \<or> x = XOver \<longrightarrow> cv_exit c \<noteq> None) \<and>
     (x = XClaimed \<or> x = XOver \<longrightarrow> cv_currentTurn c = None \<and> cv_sending c = 0) \<and>
     (x \<noteq> XWork \<and> x \<noteq> XClaimed \<longrightarrow> xwork = []) \<and>
     (cv_pushed_last c \<longleftrightarrow> x = XOver) \<and> (x = XOver \<longrightarrow> cv_ending c = 0)"

definition last_ok :: "conv \<Rightarrow> bool" where
  "last_ok c \<longleftrightarrow>
     (if cv_pushed_last c then \<exists>L info. cv_emitted c = L @ [EventExited info] \<and> list_all (Not \<circ> is_exited) L
      else list_all (Not \<circ> is_exited) (cv_emitted c))"

definition chat_inv :: "chat \<Rightarrow> bool" where
  "chat_inv y \<longleftrightarrow>
     log_ok (carriers y) (y_ids y) (cv_emitted (y_c y)) \<and> cv_ending (y_c y) = length (claimed y) \<and>
     list_all work_ok (y_reader y) \<and> list_all work_ok (y_xwork y) \<and>
     send_ok (y_s y) (y_c y) \<and>
     exit_ok (y_x y) (y_eof y) (y_reader y) (y_due y) (y_xwork y) (y_c y) \<and> last_ok (y_c y)"

text \<open>Regions that do not touch the core keep it.\<close>

lemma ok_core:
  assumes "core c' = core c"
  shows "send_ok s c' = send_ok s c" "exit_ok x eof r d w c' = exit_ok x eof r d w c" "last_ok c' = last_ok c"
  using core_eqD [OF assms] by (simp_all add: send_ok_def exit_ok_def last_ok_def)

lemma chat_inv_core:
  assumes "chat_inv y" and c: "core c' = core (y_c y)"
  shows "chat_inv (y\<lparr>y_c := c'\<rparr>)"
  using assms(1) unfolding chat_inv_def carriers_def claimed_def
  by (simp add: core_eqD [OF c] ok_core [OF c])

lemma chat_inv_other [simp]:
  "chat_inv (y\<lparr>y_waits := a\<rparr>) = chat_inv y" "chat_inv (y\<lparr>y_ctl := b\<rparr>) = chat_inv y" "chat_inv (y\<lparr>y_ans := d\<rparr>) = chat_inv y"
  by (simp_all add: chat_inv_def carriers_def claimed_def)

text \<open>Emitting an event that neither announces nor ends a turn.\<close>

lemma emit_rest:
  "cv_currentTurn (emit o' ev c) = cv_currentTurn c" "cv_sending (emit o' ev c) = cv_sending c"
  "cv_ending (emit o' ev c) = cv_ending c" "current (emit o' ev c) = current c" "send_ok s (emit o' ev c) = send_ok s c"
  "exit_ok x eof r d w (emit o' ev c) = exit_ok x eof r d w c"
  by (simp_all add: emit_def current_def send_ok_def exit_ok_def)

lemma last_ok_emit: "last_ok c \<Longrightarrow> \<not> is_exited ev \<Longrightarrow> last_ok (emit o' ev c)"
  by (auto simp: last_ok_def emit_def)

lemma chat_inv_emit:
  assumes inv: "chat_inv y" and ev: "quiet_event ev"
  shows "chat_inv (y\<lparr>y_c := emit o' ev (y_c y)\<rparr>)"
proof -
  have "log_ok (carriers y) (y_ids y) (cv_emitted (emit o' ev (y_c y)))"
    using inv ev by (auto simp: chat_inv_def emit_def quiet_event_def intro: log_ok_quiet)
  then show ?thesis using inv ev
    by (simp add: chat_inv_def carriers_def claimed_def emit_rest last_ok_emit quiet_event_def)
qed

text \<open>Publishing a claimed turn.\<close>

lemma finishTurn_rest:
  "cv_currentTurn (finishTurn o' st t e c) = cv_currentTurn c" "cv_sending (finishTurn o' st t e c) = cv_sending c"
  "cv_ending (finishTurn o' st t e c) = cv_ending c - 1"
  "send_ok s (finishTurn o' st t e c) = send_ok s c" "current (finishTurn o' st t e c) = current c"
  "exit_ok x eof r d w c \<Longrightarrow> exit_ok x eof r d w (finishTurn o' st t e c)"
  "last_ok c \<Longrightarrow> last_ok (finishTurn o' st t e c)"
  by (auto simp: finishTurn_def emit_def Let_def send_ok_def exit_ok_def current_def last_ok_def is_exited_def)

lemma finishTurn_log:
  assumes log: "log_ok cs ids (cv_emitted c)" and t: "ending_turn t" and cs: "mset cs = add_mset (ct_id t) (mset cs')"
    and open': "\<not> cv_pushed_last c"
  shows "log_ok cs' ids (cv_emitted (finishTurn o' stored t e c))"
proof -
  have "pend_of (EventTurn t r) = []" "term_of (EventTurn t r) = [ct_id t]" for r
    using t by (auto simp: pend_of_def term_of_def ending_turn_def ends_turn_def)
  then show ?thesis using log_ok_end [OF log _ _ cs] open' by (simp add: finishTurn_def emit_def Let_def)
qed

text \<open>While a claimed turn is unpublished the stream is open.\<close>

lemma claimed_open: "chat_inv y \<Longrightarrow> claimed y \<noteq> [] \<Longrightarrow> \<not> cv_pushed_last (y_c y)"
  by (auto simp: chat_inv_def exit_ok_def)

section \<open>Steps\<close>

text \<open>A claim moves the turn in flight into the work of its goroutine.\<close>

definition claimed_conv :: "conv \<Rightarrow> conv" where
  "claimed_conv c = c\<lparr>cv_currentTurn := None, cv_ending := Suc (cv_ending c)\<rparr>"

lemma claimed_conv_ok:
  "send_ok s c \<Longrightarrow> send_ok s (claimed_conv c)" "last_ok (claimed_conv c) = last_ok c"
  "exit_ok x eof r d w c \<Longrightarrow> cv_currentTurn c \<noteq> None \<Longrightarrow> exit_ok x eof r d w (claimed_conv c)"
  by (auto simp: send_ok_def last_ok_def exit_ok_def claimed_conv_def)

lemma claims_cases:
  assumes "claims c ws c'" and "send_ok s c"
  obtains "list_all work_ok ws" "pubs ws = []" "core c' = core c"
  | t where "list_all work_ok ws" "cv_currentTurn c = Some t" "pubs ws = [ct_id t]" "core c' = core (claimed_conv c)"
  using assms unfolding claims_def send_ok_def claimed_conv_def by blast

lemma chat_inv_reader:
  assumes inv: "chat_inv y" and idle: "y_reader y = []" "\<not> y_eof y" and cl: "claims (y_c y) ws c"
  shows "chat_inv (y\<lparr>y_c := c, y_reader := ws, y_due := d\<rparr>)"
proof -
  have ok: "send_ok (y_s y) (y_c y)" "exit_ok (y_x y) False [] (y_due y) (y_xwork y) (y_c y)"
    using inv idle by (simp_all add: chat_inv_def)
  have run: "exit_ok (y_x y) False ws d (y_xwork y) c'" if "exit_ok (y_x y) False [] (y_due y) (y_xwork y) c'" for c'
    using that by (simp add: exit_ok_def)
  show ?thesis
  proof (rule claims_cases [OF cl ok(1)])
    assume ws: "list_all work_ok ws" "pubs ws = []" and c: "core c = core (y_c y)"
    show ?thesis using inv idle ws run [OF ok(2)]
      by (simp add: chat_inv_def carriers_def claimed_def core_eqD [OF c] ok_core [OF c])
  next
    fix t assume ws: "list_all work_ok ws" "pubs ws = [ct_id t]" and t: "cv_currentTurn (y_c y) = Some t"
      and c: "core c = core (claimed_conv (y_c y))"
    have ex: "exit_ok (y_x y) False ws d (y_xwork y) (claimed_conv (y_c y))"
      by (rule run [OF claimed_conv_ok(3) [OF ok(2)]]) (simp add: t)
    have cur: "current (y_c y) = [ct_id t]" "current (claimed_conv (y_c y)) = []" "cv_emitted (claimed_conv (y_c y)) = cv_emitted (y_c y)"
      "cv_ending (claimed_conv (y_c y)) = Suc (cv_ending (y_c y))"
      using t by (simp_all add: current_def claimed_conv_def)
    show ?thesis using inv idle ws ex cur claimed_conv_ok(1) [OF ok(1)]
      by (auto simp: chat_inv_def carriers_def claimed_def core_eqD [OF c] ok_core [OF c] claimed_conv_ok(2)
          intro: log_ok_perm)
  qed
qed

text \<open>One item of work, by the reader or by the exit.\<close>

lemma run_work_core: "(\<forall>t e. w \<noteq> WPublish t e) \<Longrightarrow> (\<forall>ev. w \<noteq> WEmit ev) \<Longrightarrow> core (run_work o' st ok w c) = core c"
  by (cases w) (auto simp: run_work_def)

lemma pubs_other: "(\<forall>t e. w \<noteq> WPublish t e) \<Longrightarrow> pubs (w # ws) = pubs ws"
  by (cases w) auto

lemma exit_ok_reading: "exit_ok x False r d w c \<Longrightarrow> exit_ok x False r' d' w c"
  by (simp add: exit_ok_def)

lemma exit_ok_xwork: "exit_ok x e r d (w # ws) c \<Longrightarrow> exit_ok x e r d ws c"
  by (auto simp: exit_ok_def)

lemma chat_swap: "y\<lparr>y_reader := ws, y_c := c\<rparr> = y\<lparr>y_c := c, y_reader := ws\<rparr>" "y\<lparr>y_xwork := ws, y_c := c\<rparr> = y\<lparr>y_c := c, y_xwork := ws\<rparr>"
  "y\<lparr>y_s := s, y_c := c\<rparr> = y\<lparr>y_c := c, y_s := s\<rparr>"
  by simp_all

lemma chat_inv_run:
  assumes inv: "chat_inv y" and w: "work_ok w"
    and z: "\<And>c. chat_inv (y\<lparr>y_c := c\<rparr>) \<Longrightarrow> (\<forall>t e. w \<noteq> WPublish t e) \<Longrightarrow> chat_inv (z\<lparr>y_c := c\<rparr>)"
    and pub: "\<And>t e. w = WPublish t e \<Longrightarrow> chat_inv (z\<lparr>y_c := run_work o' st ok w (y_c y)\<rparr>)"
  shows "chat_inv (z\<lparr>y_c := run_work o' st ok w (y_c y)\<rparr>)"
proof (cases w)
  case (WEmit ev)
  then show ?thesis using z chat_inv_emit [OF inv] w by (simp add: run_work_def)
qed (use pub z chat_inv_core [OF inv run_work_core] in auto)

lemma chat_inv_publish:
  assumes inv: "chat_inv y" and t: "ending_turn t" and open': "claimed y \<noteq> []"
    and one: "mset (claimed y) = add_mset (ct_id t) (mset (claimed z))"
    and same: "y_s z = s" "announced s = announced (y_s y)" "y_ids z = y_ids y"
    and ok: "list_all work_ok (y_reader z)" "list_all work_ok (y_xwork z)" "send_ok s (y_c y)"
      "exit_ok (y_x z) (y_eof z) (y_reader z) (y_due z) (y_xwork z) (y_c y)"
  shows "chat_inv (z\<lparr>y_c := finishTurn o' st t e (y_c y)\<rparr>)"
proof -
  let ?c = "finishTurn o' st t e (y_c y)"
  have cl: "claimed (z\<lparr>y_c := ?c\<rparr>) = claimed z" by (simp add: claimed_def)
  have log: "log_ok (carriers y) (y_ids y) (cv_emitted (y_c y))" using inv by (simp add: chat_inv_def)
  have "mset (carriers y) = add_mset (ct_id t) (mset (announced s @ current (y_c y) @ claimed z))"
    using one same by (simp add: carriers_def)
  then have "log_ok (announced s @ current (y_c y) @ claimed z) (y_ids y) (cv_emitted ?c)"
    by (rule finishTurn_log [OF log t _ claimed_open [OF inv open']])
  moreover have "cv_ending ?c = length (claimed z)"
    using inv arg_cong [OF one, of "size :: string multiset \<Rightarrow> nat"] by (simp add: chat_inv_def finishTurn_rest)
  ultimately show ?thesis
    using inv same ok by (simp add: chat_inv_def carriers_def cl finishTurn_rest)
qed

lemma reader_inv: "chat_inv y \<Longrightarrow> reader_step o' y z \<Longrightarrow> chat_inv z"
proof (erule reader_step.cases)
  fix y' now addr f due ws c
  assume inv: "chat_inv y" and s: "y = y'" "z = y'\<lparr>y_c := c, y_reader := ws, y_due := if due then Some f else None\<rparr>"
    "y_reader y' = []" "\<not> y_eof y'" "onStreamFrame o' now addr f (y_c y') = (due, ws, c)"
  show ?thesis unfolding s(2) by (rule chat_inv_reader) (use inv s claims_frame in auto)
next
  fix y' f now ws c
  assume inv: "chat_inv y" and s: "y = y'" "z = y'\<lparr>y_c := c, y_reader := ws, y_due := None\<rparr>" "y_reader y' = []" "y_due y' = Some f"
    "onStreamInit_refuse o' now f (y_c y') = (ws, c)"
  have "\<not> y_eof y" using inv s by (auto simp: chat_inv_def exit_ok_def)
  then show ?thesis unfolding s(2) by (intro chat_inv_reader) (use inv s claims_refuse in auto)
next
  fix y' w ws st ok
  assume inv: "chat_inv y" and s: "y = y'" "z = y'\<lparr>y_c := run_work o' st ok w (y_c y'), y_reader := ws\<rparr>" "y_reader y' = w # ws"
  have w: "work_ok w" "list_all work_ok ws" "\<not> y_eof y" using inv s by (auto simp: chat_inv_def exit_ok_def)
  have "chat_inv ((y\<lparr>y_reader := ws\<rparr>)\<lparr>y_c := run_work o' st ok w (y_c y)\<rparr>)"
  proof (rule chat_inv_run [OF inv w(1)])
    show "chat_inv ((y\<lparr>y_reader := ws\<rparr>)\<lparr>y_c := c\<rparr>)" if "chat_inv (y\<lparr>y_c := c\<rparr>)" "\<forall>t e. w \<noteq> WPublish t e" for c
      using that(1) s w pubs_other [OF that(2), of ws]
      by (auto simp: chat_inv_def carriers_def claimed_def intro: exit_ok_reading)
    show "chat_inv ((y\<lparr>y_reader := ws\<rparr>)\<lparr>y_c := run_work o' st ok w (y_c y)\<rparr>)" if "w = WPublish t e" for t e
      unfolding that run_work_def work.case
      by (rule chat_inv_publish [OF inv]) (use inv s w that in \<open>auto simp: chat_inv_def claimed_def intro: exit_ok_reading\<close>)
  qed
  then show ?thesis using s by (simp add: chat_swap)
next
  fix y' assume inv: "chat_inv y" and s: "y = y'" "z = y'\<lparr>y_eof := True\<rparr>" "y_reader y' = []" "y_due y' = None"
  then show ?thesis by (auto simp: chat_inv_def carriers_def claimed_def exit_ok_def)
qed

lemma call_inv: "chat_inv y \<Longrightarrow> call_step o' y z \<Longrightarrow> chat_inv z"
proof (erule call_step.cases)
  fix y' p f c i ans ok
  assume inv: "chat_inv y" and s: "y = y'" "z = y'\<lparr>y_c := c, y_ans := AClear p # y_ans y'\<rparr>" "streamWrite ok f (y_c y') = (None, c)"
  have "core c = core (y_c y)" using core_simps(9) [of ok f "y_c y"] s by simp
  then show ?thesis using chat_inv_core [OF inv] s by simp
next
  fix y' r c
  assume inv: "chat_inv y" and s: "y = y'" "streamInterrupt_begin (y_c y') = (r, c)"
    "z = y'\<lparr>y_c := c, y_waits := (case r of IbNew p \<Rightarrow> insert p (y_waits y') | IbJoined p \<Rightarrow> insert p (y_waits y') | _ \<Rightarrow> y_waits y'),
      y_ctl := (case r of IbNew p \<Rightarrow> insert p (y_ctl y') | _ \<Rightarrow> y_ctl y')\<rparr>"
  have "core c = core (y_c y)" using core_simps(10) [of "y_c y"] s by simp
  then show ?thesis using chat_inv_core [OF inv] s by simp
next
  fix y' i
  assume inv: "chat_inv y" and s: "y = y'"
    "z = y'\<lparr>y_c := emit o' (EventInputResolved i) (y_c y'), y_ans := remove1 (AEmit i) (y_ans y')\<rparr>"
  have "quiet_event (EventInputResolved i)" by (simp add: quiet_event_def pend_of_def term_of_def is_exited_def)
  then show ?thesis using chat_inv_emit [OF inv] s by simp
qed (use chat_inv_core in auto)

lemma exit_inv: "chat_inv y \<Longrightarrow> exit_step o' y z \<Longrightarrow> chat_inv z"
proof (erule exit_step.cases)
  fix y' ws c
  assume inv: "chat_inv y" and s: "y = y'" "z = y'\<lparr>y_c := c, y_xwork := ws, y_x := XWork\<rparr>" "y_x y' = XDrop" "exit_drop (y_c y') = (ws, c)"
  have c: "core c = core (y_c y)" using core_simps(15) [of "y_c y"] s by simp
  have "pubs ws = []" "list_all work_ok ws" using s
    by (auto simp: exit_drop_def Let_def quiet_event_def pend_of_def term_of_def is_exited_def split: option.splits)
  then show ?thesis using inv s
    by (auto simp: chat_inv_def carriers_def claimed_def core_eqD [OF c] ok_core [OF c] exit_ok_def)
next
  fix y' w ws st ok
  assume inv: "chat_inv y" and s: "y = y'" "z = y'\<lparr>y_c := run_work o' st ok w (y_c y'), y_xwork := ws\<rparr>" "y_xwork y' = w # ws"
  have w: "work_ok w" "list_all work_ok ws" using inv s by (auto simp: chat_inv_def)
  have "chat_inv ((y\<lparr>y_xwork := ws\<rparr>)\<lparr>y_c := run_work o' st ok w (y_c y)\<rparr>)"
  proof (rule chat_inv_run [OF inv w(1)])
    show "chat_inv ((y\<lparr>y_xwork := ws\<rparr>)\<lparr>y_c := c\<rparr>)" if "chat_inv (y\<lparr>y_c := c\<rparr>)" "\<forall>t e. w \<noteq> WPublish t e" for c
      using that(1) s w pubs_other [OF that(2), of ws]
      by (auto simp: chat_inv_def carriers_def claimed_def intro: exit_ok_xwork)
    show "chat_inv ((y\<lparr>y_xwork := ws\<rparr>)\<lparr>y_c := run_work o' st ok w (y_c y)\<rparr>)" if "w = WPublish t e" for t e
      unfolding that run_work_def work.case
      by (rule chat_inv_publish [OF inv]) (use inv s w that in \<open>auto simp: chat_inv_def claimed_def intro: exit_ok_xwork\<close>)
  qed
  then show ?thesis using s by (simp add: chat_swap)
next
  fix y' assume inv: "chat_inv y" and s: "y = y'" "z = y'\<lparr>y_c := exit_stdin (y_c y'), y_x := XControl\<rparr>" "y_x y' = XRun" "y_eof y'"
  show ?thesis using inv s ok_core(1,3) [OF core_simps(13)] core_eqD [OF core_simps(13)]
    by (auto simp: chat_inv_def carriers_def claimed_def exit_ok_def)
next
  fix y' assume inv: "chat_inv y" and s: "y = y'" "z = y'\<lparr>y_c := exit_control (y_c y'), y_x := XDrop\<rparr>" "y_x y' = XControl"
  show ?thesis using inv s ok_core(1,3) [OF core_simps(14)] core_eqD [OF core_simps(14)]
    by (auto simp: chat_inv_def carriers_def claimed_def exit_ok_def)
next
  fix y' assume inv: "chat_inv y" and s: "y = y'" "z = y'\<lparr>y_c := exit_record (y_info y') (y_c y'), y_x := XRecorded\<rparr>" "y_x y' = XWork"
    "y_xwork y' = []"
  show ?thesis using inv s
    by (auto simp: chat_inv_def carriers_def claimed_def exit_ok_def exit_record_def send_ok_def last_ok_def current_def)
next
  fix y' assume inv: "chat_inv y" and s: "y = y'" "z = y'\<lparr>y_c := exit_done (y_c y'), y_x := XDone\<rparr>" "y_x y' = XRecorded"
  show ?thesis using inv s ok_core(1,3) [OF core_simps(16)] core_eqD [OF core_simps(16)]
    by (auto simp: chat_inv_def carriers_def claimed_def exit_ok_def)
next
  fix y' now ws c
  assume inv: "chat_inv y" and s: "y = y'" "z = y'\<lparr>y_c := c, y_xwork := ws, y_x := XClaimed\<rparr>" "y_x y' = XDone"
    "cv_sending (y_c y') = 0" "exit_claim o' now (y_info y') (y_c y') = (ws, c)"
  have ok: "send_ok (y_s y) (y_c y)" "exit_ok XDone (y_eof y) (y_reader y) (y_due y) [] (y_c y)" "y_xwork y = []"
    using inv s by (auto simp: chat_inv_def exit_ok_def)
  have out: "cv_currentTurn c = None" using s(5) by (auto simp: exit_claim_def claimTurnLocked_def split: option.splits)
  show ?thesis
  proof (rule claims_cases [OF claims_exit [OF s(5)]])
    show "send_ok (y_s y) (y_c y')" using ok s by simp
  next
    assume ws: "list_all work_ok ws" "pubs ws = []" and c: "core c = core (y_c y')"
    have "exit_ok XClaimed (y_eof y) (y_reader y) (y_due y) ws c"
      using ok(2) out s core_eqD [OF c] by (auto simp: exit_ok_def)
    then show ?thesis using inv s ws ok(3)
      by (simp add: chat_inv_def carriers_def claimed_def core_eqD [OF c] ok_core(1,3) [OF c])
  next
    fix t assume ws: "list_all work_ok ws" "pubs ws = [ct_id t]" and t: "cv_currentTurn (y_c y') = Some t"
      and c: "core c = core (claimed_conv (y_c y'))"
    have "exit_ok XClaimed (y_eof y) (y_reader y) (y_due y) ws c"
      using ok(2) out s core_eqD [OF c] by (auto simp: exit_ok_def claimed_conv_def)
    moreover have "current (y_c y) = [ct_id t]" "current (claimed_conv (y_c y)) = []" "cv_emitted (claimed_conv (y_c y)) = cv_emitted (y_c y)"
      "cv_ending (claimed_conv (y_c y)) = Suc (cv_ending (y_c y))"
      using t s by (simp_all add: current_def claimed_conv_def)
    ultimately show ?thesis using inv s ws ok claimed_conv_ok(1) [OF ok(1)]
      by (auto simp: chat_inv_def carriers_def claimed_def core_eqD [OF c] ok_core(1,3) [OF c] claimed_conv_ok(2)
          intro: log_ok_perm)
  qed
next
  fix y' assume inv: "chat_inv y" and s: "y = y'" "z = y'\<lparr>y_c := PushLast_exited (y_info y') (y_c y'), y_x := XOver\<rparr>"
    "y_x y' = XClaimed" "y_xwork y' = []" "cv_ending (y_c y') = 0"
  have open': "\<not> cv_pushed_last (y_c y)" "current (y_c y) = []" "claimed y = []" "announced (y_s y) = []"
    using inv s by (auto simp: chat_inv_def exit_ok_def send_ok_def counted_def current_def announced_def split: spc.splits)
  have "log_ok (carriers y) (y_ids y) (cv_emitted (y_c y) @ [EventExited (y_info y)])"
    using inv by (intro log_ok_quiet) (simp_all add: chat_inv_def pend_of_def term_of_def)
  then show ?thesis using inv s open'
    by (auto simp: chat_inv_def carriers_def claimed_def PushLast_exited_def exit_ok_def send_ok_def last_ok_def current_def)
qed

lemma send_ok_pc: "chat_inv y \<Longrightarrow> send_ok (y_s y) (y_c y)"
  by (simp add: chat_inv_def)

lemma exit_ok_pc: "chat_inv y \<Longrightarrow> exit_ok (y_x y) (y_eof y) (y_reader y) (y_due y) (y_xwork y) (y_c y)"
  by (simp add: chat_inv_def)

lemma last_ok_pc: "chat_inv y \<Longrightarrow> last_ok (y_c y)"
  by (simp add: chat_inv_def)

lemma last_ok_cong: "cv_pushed_last c = cv_pushed_last c' \<Longrightarrow> cv_emitted c = cv_emitted c' \<Longrightarrow> last_ok c = last_ok c'"
  by (simp add: last_ok_def)

lemma exit_ok_cong:
  assumes "exit_ok x eof r d w c'" and "cv_currentTurn c = cv_currentTurn c'" "cv_ending c = cv_ending c'" "cv_exit c = cv_exit c'"
    "cv_pushed_last c = cv_pushed_last c'" and "cv_sending c \<le> cv_sending c' \<or> cv_exit c' = None"
  shows "exit_ok x eof r d w c"
  using assms by (cases x) (auto simp: exit_ok_def)

text \<open>A Send that moves on without a turn changing hands.\<close>

lemma chat_inv_send:
  assumes inv: "chat_inv y" and ok: "send_ok s c" and hands: "sent s = sent (y_s y)" "announced s = announced (y_s y)"
    and same: "cv_currentTurn c = cv_currentTurn (y_c y)" "cv_ending c = cv_ending (y_c y)" "cv_emitted c = cv_emitted (y_c y)"
      "cv_exit c = cv_exit (y_c y)" "cv_pushed_last c = cv_pushed_last (y_c y)"
    and sending: "cv_sending c \<le> cv_sending (y_c y) \<or> cv_exit (y_c y) = None"
  shows "chat_inv (y\<lparr>y_c := c, y_s := s\<rparr>)"
proof -
  have "exit_ok (y_x y) (y_eof y) (y_reader y) (y_due y) (y_xwork y) c"
    by (rule exit_ok_cong [OF exit_ok_pc [OF inv]]) (use same sending in simp_all)
  moreover have "last_ok c" "current c = current (y_c y)"
    using last_ok_pc [OF inv] last_ok_cong [OF same(5,3)] same(1) by (simp_all add: current_def)
  ultimately show ?thesis using inv ok hands same by (simp add: chat_inv_def carriers_def claimed_def)
qed

lemma send_inv_claim:
  assumes inv: "chat_inv y" and step: "Send_reserve held (y_c y) = (None, c) \<and> s = SReserved txt \<or>
    reserveHarnessWriteLocked (y_c y) = (None, c) \<and> s = SMode"
  shows "chat_inv (y\<lparr>y_c := c, y_s := (if y_s y = SIdle then s else SClash)\<rparr>)"
proof -
  have c: "c = (y_c y)\<lparr>cv_writeReserved := True\<rparr>" "\<not> cv_writeReserved (y_c y)"
    using step by (auto simp: Send_reserve_def reserveHarnessWriteLocked_def split: if_splits)
  then have idle: "y_s y = SIdle" using send_ok_pc [OF inv] by (simp add: send_ok_def)
  have s: "s = SReserved txt \<or> s = SMode" using step by blast
  then have ok: "send_ok s c" using send_ok_pc [OF inv] c idle by (auto simp: send_ok_def counted_def preparing_def)
  have "chat_inv (y\<lparr>y_c := c, y_s := s\<rparr>)" by (rule chat_inv_send [OF inv ok]) (use s c idle in auto)
  then show ?thesis using idle by simp
qed

lemma Send_reserve_refused: "Send_reserve held c = (Some e, c') \<Longrightarrow> core c' = core c"
  by (auto simp: Send_reserve_def reserveHarnessWriteLocked_def core_def split: if_splits)

lemma beginTurn_check_cases:
  "beginTurn_check c = (r, c') \<Longrightarrow>
   r = None \<and> cv_currentTurn c = None \<and> cv_exit c = None \<and> c' = c\<lparr>cv_sending := Suc (cv_sending c)\<rparr> \<or> r \<noteq> None \<and> c' = c"
  by (auto simp: beginTurn_check_def split: if_splits)

lemma send_inv_begin:
  assumes inv: "chat_inv y" and pc: "y_s y = SReserved txt" and step: "beginTurn_check (y_c y) = (r, c)"
  shows "chat_inv (y\<lparr>y_c := c, y_s := (if r = None then SBegun txt else SReturn)\<rparr>)"
  using beginTurn_check_cases [OF step] send_ok_pc [OF inv] pc
  by (auto intro!: chat_inv_send [OF inv] simp: send_ok_def counted_def preparing_def)

text \<open>The announcements, and the turn coming into flight.\<close>

lemma preparing_open: "chat_inv y \<Longrightarrow> counted (y_s y) \<Longrightarrow> \<not> cv_pushed_last (y_c y)"
  using exit_ok_pc [of y] send_ok_pc [of y] by (auto simp: exit_ok_def send_ok_def)

lemma send_inv_user:
  assumes inv: "chat_inv y" and pc: "y_s y = SBegun txt"
  shows "chat_inv (y\<lparr>y_c := emit o' (EventTurn (user_turn o' i txt now) None) (y_c y), y_s := SUser txt, y_ids := insert i (y_ids y)\<rparr>)"
proof -
  let ?c = "emit o' (EventTurn (user_turn o' i txt now) None) (y_c y)"
  have q: "quiet_event (EventTurn (user_turn o' i txt now) None)"
    by (simp add: quiet_event_def pend_of_def term_of_def is_exited_def user_turn_def)
  have ok: "send_ok (SUser txt) (y_c y)" using send_ok_pc [OF inv] pc by (simp add: send_ok_def counted_def preparing_def)
  have log: "log_ok (carriers y) (y_ids y) (cv_emitted ?c)"
    using chat_inv_emit [OF inv q, of o'] by (simp add: chat_inv_def carriers_def claimed_def emit_rest)
  have "log_ok (carriers y) (insert i (y_ids y)) (cv_emitted ?c)" by (rule log_ok_ids [OF log subset_insertI])
  moreover have "last_ok ?c" using inv q by (simp add: chat_inv_def last_ok_emit quiet_event_def)
  ultimately show ?thesis using inv pc ok by (simp add: chat_inv_def carriers_def claimed_def emit_rest)
qed

lemma send_inv_asst:
  assumes inv: "chat_inv y" and pc: "y_s y = SUser txt" and new: "i \<notin> y_ids y"
  shows "chat_inv (y\<lparr>y_c := emit o' (EventTurn (assistant_turn o' i now) None) (y_c y), y_s := SAsst (assistant_turn o' i now) txt,
    y_ids := insert i (y_ids y)\<rparr>)"
proof -
  let ?t = "assistant_turn o' i now" and ?c = "emit o' (EventTurn (assistant_turn o' i now) None) (y_c y)"
  have ev: "pend_of (EventTurn ?t None) = [i]" "term_of (EventTurn ?t None) = []" "\<not> is_exited (EventTurn ?t None)" "ct_id ?t = i"
    "eventSize (EventTurn ?t None) = 256"
    by (simp_all add: pend_of_def term_of_def is_exited_def assistant_turn_def ends_turn_def eventSize_def zero_turn_def)
  have "\<not> cv_pushed_last (y_c y)" using preparing_open [OF inv] pc by (simp add: counted_def)
  then have "log_ok (i # carriers y) (insert i (y_ids y)) (cv_emitted ?c)"
    using log_ok_announce [OF _ _ _ _ new, of "carriers y" "cv_emitted (y_c y)" "EventTurn ?t None"] inv ev
    by (simp add: emit_def chat_inv_def)
  moreover have "send_ok (SAsst ?t txt) ?c"
    using send_ok_pc [OF inv] pc by (simp add: emit_rest) (simp add: send_ok_def counted_def preparing_def assistant_turn_def)
  ultimately show ?thesis using inv pc ev
    by (simp add: chat_inv_def carriers_def claimed_def emit_rest last_ok_emit)
qed

lemma send_inv_current:
  assumes inv: "chat_inv y" and pc: "y_s y = SAsst t txt"
  shows "chat_inv (y\<lparr>y_c := beginTurn_set t txt (y_c y), y_s := SCurrent t txt\<rparr>)"
proof -
  have ok: "cv_currentTurn (y_c y) = None" "ct_role t = RoleAssistant" "cv_sending (y_c y) = 1"
    using send_ok_pc [OF inv] pc by (simp_all add: send_ok_def preparing_def counted_def)
  then have "exit_ok (y_x y) (y_eof y) (y_reader y) (y_due y) (y_xwork y) (beginTurn_set t txt (y_c y))"
    using exit_ok_pc [OF inv] by (auto simp: exit_ok_def beginTurn_set_def)
  moreover have "send_ok (SCurrent t txt) (beginTurn_set t txt (y_c y))"
    using send_ok_pc [OF inv] pc ok by (simp add: send_ok_def counted_def preparing_def beginTurn_set_def)
  moreover have "last_ok (beginTurn_set t txt (y_c y))"
    using last_ok_pc [OF inv] last_ok_cong [of "beginTurn_set t txt (y_c y)" "y_c y"] by (simp add: beginTurn_set_def)
  moreover have "current (beginTurn_set t txt (y_c y)) = [ct_id t]" "current (y_c y) = []"
    "cv_emitted (beginTurn_set t txt (y_c y)) = cv_emitted (y_c y)" "cv_ending (beginTurn_set t txt (y_c y)) = cv_ending (y_c y)"
    using ok by (simp_all add: beginTurn_set_def current_def)
  ultimately show ?thesis using inv pc by (simp add: chat_inv_def carriers_def claimed_def)
qed

text \<open>The steps of a Send that is past \<open>beginTurn\<close>, or has left it.\<close>

definition plain :: "spc \<Rightarrow> bool" where
  "plain s \<longleftrightarrow>
     (case s of SMode \<Rightarrow> True | SReturn \<Rightarrow> True | SReserved _ \<Rightarrow> True | SReady _ _ \<Rightarrow> True | SWriting _ _ _ \<Rightarrow> True
      | SWaiting _ _ \<Rightarrow> True | SDrop _ _ _ \<Rightarrow> True | SFail _ _ \<Rightarrow> True | _ \<Rightarrow> False)"

lemma plain_send:
  assumes "plain s"
  shows "sent s = []" "announced s = []" "\<not> counted s" "\<not> preparing s" "s \<noteq> SClash" "s \<noteq> SIdle"
    "(case s of SAsst t _ \<Rightarrow> ct_role t = RoleAssistant | SPublish t \<Rightarrow> ending_turn t | _ \<Rightarrow> True)"
  using assms by (cases s; simp add: plain_def counted_def preparing_def)+

lemma chat_inv_plain:
  assumes inv: "chat_inv y" and c: "core c = core (y_c y)" and p: "plain (y_s y)" "plain s"
  shows "chat_inv (y\<lparr>y_c := c, y_s := s\<rparr>)"
proof -
  have "send_ok s (y_c y)" using send_ok_pc [OF inv] plain_send [OF p(1)] plain_send [OF p(2)] by (simp add: send_ok_def)
  then have "send_ok s c" by (simp add: ok_core [OF c])
  then show ?thesis by (rule chat_inv_send [OF inv]) (use plain_send [OF p(1)] plain_send [OF p(2)] core_eqD [OF c] in simp_all)
qed

lemma sending_done_inv:
  assumes inv: "chat_inv y" and pc: "counted (y_s y)" "announced (y_s y) = []" and s: "plain s"
  shows "chat_inv (y\<lparr>y_c := sending_done (y_c y), y_s := s\<rparr>)"
proof (rule chat_inv_send [OF inv])
  show "send_ok s (sending_done (y_c y))"
    using send_ok_pc [OF inv] pc plain_send [OF s] by (auto simp: send_ok_def sending_done_def counted_def)
  show "sent s = sent (y_s y)" using pc plain_send [OF s] by (auto simp: counted_def split: spc.splits)
qed (use pc plain_send [OF s] in \<open>simp_all add: sending_done_def\<close>)

lemma send_inv_fail:
  assumes inv: "chat_inv y" and pc: "y_s y = SFail t err" and step: "failSubmit (ct_id t) err now (y_c y) = (r, c)"
  shows "chat_inv (y\<lparr>y_c := c, y_s := (case r of None \<Rightarrow> SReturn | Some t' \<Rightarrow> SPublish t')\<rparr>)"
proof (cases r)
  case None
  with step have "core c = core (y_c y)" by (auto simp: failSubmit_def claimTurnLocked_def split: option.splits if_splits)
  then show ?thesis using chat_inv_plain [OF inv, of c SReturn] pc None by (simp add: plain_def)
next
  case (Some t')
  with step obtain t0 where t0: "cv_currentTurn (y_c y) = Some t0" "c = claimed_conv (y_c y)"
    "t' = t0\<lparr>ct_state := TurnStateErrored, ct_reason := ''submit: '' @ err, ct_completed := now\<rparr>"
    by (auto simp: failSubmit_def claimTurnLocked_def claimed_conv_def split: option.splits if_splits)
  have ok: "send_ok (y_s y) (y_c y)" "last_ok (y_c y)"
    "exit_ok (y_x y) (y_eof y) (y_reader y) (y_due y) (y_xwork y) (y_c y)"
    using inv by (simp_all add: chat_inv_def)
  have "send_ok (SPublish t') c"
    using ok(1) pc t0 by (simp add: send_ok_def claimed_conv_def counted_def preparing_def ending_turn_def ends_turn_def)
  moreover have "exit_ok (y_x y) (y_eof y) (y_reader y) (y_due y) (y_xwork y) c" "last_ok c"
    using claimed_conv_ok(3) [OF ok(3)] ok(2) t0 by (simp_all add: claimed_conv_ok(2))
  moreover have "current (y_c y) = [ct_id t']" "current c = []" "cv_emitted c = cv_emitted (y_c y)"
    "cv_ending c = Suc (cv_ending (y_c y))"
    using t0 by (simp_all add: current_def claimed_conv_def)
  ultimately show ?thesis using inv pc Some by (auto simp: chat_inv_def carriers_def claimed_def intro: log_ok_perm)
qed

lemma send_inv_publish:
  assumes inv: "chat_inv y" and pc: "y_s y = SPublish t"
  shows "chat_inv (y\<lparr>y_c := finishTurn o' st t e (y_c y), y_s := SReturn\<rparr>)"
proof -
  have ok: "ending_turn t" "send_ok SReturn (y_c y)"
    using send_ok_pc [OF inv] pc by (simp_all add: send_ok_def counted_def preparing_def)
  have "chat_inv ((y\<lparr>y_s := SReturn\<rparr>)\<lparr>y_c := finishTurn o' st t e (y_c y)\<rparr>)"
    by (rule chat_inv_publish [OF inv ok(1)]) (use inv pc ok in \<open>simp_all add: chat_inv_def claimed_def\<close>)
  then show ?thesis by (simp add: chat_swap)
qed

lemma send_inv_return:
  assumes inv: "chat_inv y" and pc: "y_s y = SReturn"
  shows "chat_inv (y\<lparr>y_c := releaseHarnessWrite (y_c y), y_s := SIdle\<rparr>)"
  by (rule chat_inv_send [OF inv])
    (use send_ok_pc [OF inv] pc in \<open>simp_all add: send_ok_def releaseHarnessWrite_def counted_def preparing_def\<close>)

lemmas send_inv_begun = send_inv_begin [where r = None, simplified] and send_inv_not_begun = send_inv_begin [where r = "Some e" for e, simplified]

lemmas send_invs = send_inv_begun send_inv_not_begun send_inv_user send_inv_asst send_inv_current send_inv_fail send_inv_publish send_inv_return

lemma send_inv: "chat_inv y \<Longrightarrow> send_step o' y z \<Longrightarrow> chat_inv z"
proof (erule send_step.cases)
  fix y' held c e assume "chat_inv y" "y = y'" "z = y'\<lparr>y_c := c\<rparr>" "Send_reserve held (y_c y') = (Some e, c)"
  then show ?thesis using chat_inv_core Send_reserve_refused by simp
next
  fix y' held c m
  assume "chat_inv y" "y = y'" "z = y'\<lparr>y_c := c, y_s := if y_s y' = SIdle then SReserved m else SClash\<rparr>"
    "Send_reserve held (y_c y') = (None, c)"
  then show ?thesis using send_inv_claim [of y held c "SReserved m" m] by simp
next
  fix y' c
  assume "chat_inv y" "y = y'" "z = y'\<lparr>y_c := c, y_s := if y_s y' = SIdle then SMode else SClash\<rparr>"
    "reserveHarnessWriteLocked (y_c y') = (None, c)"
  then show ?thesis using send_inv_claim [of y False c SMode] by simp
next
  fix y' t m uuid r c
  assume inv: "chat_inv y" and s: "y = y'" "z = y'\<lparr>y_c := c, y_s := case r of None \<Rightarrow> SReturn | Some n \<Rightarrow> SWriting t m n\<rparr>"
    "y_s y' = SReady t m" "streamSend_register uuid t (y_c y') = (r, c)"
  have "core c = core (y_c y)" using core_simps(18) [of uuid t "y_c y"] s by simp
  then show ?thesis using chat_inv_plain [OF inv] s by (simp add: plain_def split: option.split)
next
  fix y' t m n ok r c
  assume inv: "chat_inv y" and s: "y = y'" "z = y'\<lparr>y_c := c, y_s := case r of None \<Rightarrow> SWaiting t n | Some x \<Rightarrow> SDrop t n ''write''\<rparr>"
    "y_s y' = SWriting t m n" "streamWrite ok (OutUser (st_uuid (cv_heap (y_c y') n)) m) (y_c y') = (r, c)"
  have "core c = core (y_c y)" using core_simps(9) [of ok "OutUser (st_uuid (cv_heap (y_c y') n)) m" "y_c y"] s by simp
  then show ?thesis using chat_inv_plain [OF inv] s by (simp add: plain_def split: option.split)
next
  fix y' t n assume inv: "chat_inv y" and s: "y = y'" "z = y'\<lparr>y_s := SReturn\<rparr>" "y_s y' = SWaiting t n"
  then show ?thesis using chat_inv_plain [OF inv refl, of SReturn] by (simp add: plain_def)
next
  fix y' t n err assume inv: "chat_inv y" and s: "y = y'" "z = y'\<lparr>y_s := SDrop t n err\<rparr>" "y_s y' = SWaiting t n"
  then show ?thesis using chat_inv_plain [OF inv refl, of "SDrop t n err"] by (simp add: plain_def)
next
  fix y' m assume inv: "chat_inv y" and s: "y = y'" "z = y'\<lparr>y_c := sending_done (y_c y'), y_s := SReturn\<rparr>"
    "y_s y' = SBegun m \<or> y_s y' = SUser m"
  then show ?thesis by (auto intro: sending_done_inv simp: counted_def plain_def)
qed (auto intro: send_invs sending_done_inv chat_inv_plain simp: plain_def counted_def)

lemma chat_inv_init: "chat_init y \<Longrightarrow> chat_inv y"
  by (auto simp: chat_init_def new_chat_def new_conv_def chat_inv_def carriers_def claimed_def current_def log_ok_def send_ok_def
      exit_ok_def last_ok_def counted_def preparing_def)

interpretation chat: inductive_invariant chat_init "chat_step o'" chat_inv for o'
  by unfold_locales (auto simp: chat_step_def intro: chat_inv_init reader_inv send_inv call_inv exit_inv)

section \<open>What the queue took\<close>

text \<open>
  The queue takes of the emitted events what fits, and the last event always.
\<close>

definition taken :: "int \<Rightarrow> ConversationEvent list \<Rightarrow> ConversationEvent list" where
  "taken m L = concat (map (emit_fit m) L)"

definition link :: "int \<Rightarrow> conv \<Rightarrow> bool" where
  "link m c \<longleftrightarrow>
     (if cv_pushed_last c
      then \<exists>L info. cv_emitted c = L @ [EventExited info] \<and> cv_events c = taken m L @ [EventExited info]
      else cv_events c = taken m (cv_emitted c))"

definition logs :: "conv \<Rightarrow> ConversationEvent list \<times> ConversationEvent list \<times> bool" where
  "logs c = (cv_emitted c, cv_events c, cv_pushed_last c)"

lemma link_logs: "link m c \<Longrightarrow> logs c' = logs c \<Longrightarrow> link m c'"
  by (simp add: link_def logs_def)

lemma logs_core: "core c' = core c \<Longrightarrow> logs c' = logs c"
  by (simp add: core_def logs_def)

lemma link_core: "link m c \<Longrightarrow> core c' = core c \<Longrightarrow> link m c'"
  by (rule link_logs [OF _ logs_core])

lemma logs_claims: "claims c ws c' \<Longrightarrow> logs c' = logs c"
  by (auto simp: claims_def core_def logs_def)

lemma link_emit: "link m c \<Longrightarrow> m = op_max_bytes o' \<Longrightarrow> link m (emit o' ev c)"
  by (auto simp: link_def emit_def taken_def)

lemma link_finish: "link m c \<Longrightarrow> m = op_max_bytes o' \<Longrightarrow> link m (finishTurn o' st t e c)"
  by (rule link_logs [OF link_emit]) (auto simp: finishTurn_def logs_def Let_def)

lemma link_push: "link m c \<Longrightarrow> link m (PushLast_exited info c)"
  by (auto simp: link_def PushLast_exited_def)

lemma link_work: "link m c \<Longrightarrow> m = op_max_bytes o' \<Longrightarrow> link m (run_work o' st ok w c)"
  by (cases w) (auto simp: run_work_def intro: link_emit link_finish link_core)

lemma logs_send:
  "Send_reserve held c = (r, c') \<Longrightarrow> logs c' = logs c" "reserveHarnessWriteLocked c = (r, c') \<Longrightarrow> logs c' = logs c"
  "beginTurn_check c = (r, c') \<Longrightarrow> logs c' = logs c" "logs (beginTurn_set t m c) = logs c" "logs (sending_done c) = logs c"
  "failSubmit i err now c = (q, c') \<Longrightarrow> logs c' = logs c" "logs (releaseHarnessWrite c) = logs c" "logs (exit_record info c) = logs c"
  "streamSend_register uuid t c = (n, c') \<Longrightarrow> logs c' = logs c" "streamWrite ok f c = (r, c') \<Longrightarrow> logs c' = logs c"
  "streamInterrupt_begin c = (b, c') \<Longrightarrow> logs c' = logs c"
  by (auto simp: Send_reserve_def reserveHarnessWriteLocked_def beginTurn_check_def beginTurn_set_def sending_done_def
      failSubmit_def claimTurnLocked_def releaseHarnessWrite_def exit_record_def streamSend_register_def streamWrite_def
      streamInterrupt_begin_def upd_stream_def logs_def Let_def split: option.splits if_splits)

lemmas link_intros = link_logs link_emit link_finish link_push link_work link_core logs_send

lemma link_step: "link (op_max_bytes o') (y_c y) \<Longrightarrow> chat_step o' y z \<Longrightarrow> link (op_max_bytes o') (y_c z)"
  unfolding chat_step_def
proof (elim disjE)
  assume l: "link (op_max_bytes o') (y_c y)"
  show ?thesis if "reader_step o' y z"
    using that l by cases (auto intro: link_intros dest: logs_claims [OF claims_frame] logs_claims [OF claims_refuse])
  show ?thesis if "send_step o' y z" using that l by cases (auto intro: link_intros)
  show ?thesis if "call_step o' y z" using that l by cases (auto intro: link_intros)
  show ?thesis if "exit_step o' y z"
    using that l by cases (auto intro: link_intros dest: logs_claims [OF claims_drop] logs_claims [OF claims_exit])
qed

lemma link_init: "chat_init y \<Longrightarrow> link m (y_c y)"
  by (auto simp: chat_init_def new_chat_def new_conv_def link_def taken_def)

interpretation queue_link: inductive_invariant chat_init "chat_step o'" "\<lambda>y. link (op_max_bytes o') (y_c y)" for o'
  by unfold_locales (auto intro: link_init link_step)

text \<open>An event keeps whose turn it announces or ends; pending ones are the smallest.\<close>

lemma fit_of: "e \<in> set (emit_fit m ev) \<Longrightarrow> pend_of e = pend_of ev \<and> term_of e = term_of ev \<and> is_exited e = is_exited ev"
  by (auto simp: emit_fit_def pend_of_def term_of_def is_exited_def Let_def split: ConversationEvent.splits if_splits)

lemma fit_cases: "emit_fit m ev = [] \<or> (\<exists>e. emit_fit m ev = [e])"
  by (auto simp: emit_fit_def Let_def)

lemma fit_small: "m < 256 \<Longrightarrow> emit_fit m ev = []"
  using eventSize_least [of ev] eventSize_least [of "case ev of EventTurn t e \<Rightarrow> EventTurn (t\<lparr>ct_text := []\<rparr>) (Some ''ErrEventTooLarge'') | _ \<Rightarrow> ev"]
  by (simp add: emit_fit_def Let_def)

lemma taken_snoc [simp]: "taken m (L @ [ev]) = taken m L @ emit_fit m ev" "taken m [] = []"
  by (simp_all add: taken_def)

lemma taken_pend:
  assumes "256 \<le> m" and "\<forall>ev \<in> set L. pend_of ev \<noteq> [] \<longrightarrow> eventSize ev = 256"
  shows "pend_ids (taken m L) = pend_ids L"
  using assms(2)
proof (induction L rule: rev_induct)
  case (snoc ev L)
  have "pend_ids (emit_fit m ev) = pend_of ev"
  proof (cases "pend_of ev = []")
    case True
    then show ?thesis using fit_cases [of m ev] fit_of [of _ m ev] by auto
  next
    case False
    then show ?thesis using snoc.prems assms(1) by (simp add: emit_fit_def)
  qed
  with snoc show ?case by simp
qed simp

lemma taken_ordered:
  assumes "ordered L" and "\<forall>ev \<in> set L. pend_of ev \<noteq> [] \<longrightarrow> eventSize ev = 256"
  shows "ordered (taken m L)"
proof (cases "256 \<le> m")
  case True
  then show ?thesis using assms
  proof (induction L rule: rev_induct)
    case (snoc ev L)
    then have "ordered (taken m L)" "set (term_of ev) \<subseteq> set (pend_ids (taken m L))" by (simp_all add: ordered_snoc taken_pend)
    then show ?case using fit_cases [of m ev] fit_of [of _ m ev] by (auto simp: ordered_snoc)
  qed simp
next
  case False
  then have "emit_fit m = (\<lambda>_. [])" using fit_small by fastforce
  then have "taken m L = []" by (simp add: taken_def)
  then show ?thesis by simp
qed

lemma taken_term:
  "distinct (term_ids L) \<Longrightarrow> distinct (term_ids (taken m L))" "distinct (pend_ids L) \<Longrightarrow> distinct (pend_ids (taken m L))"
  "set (term_ids (taken m L)) \<subseteq> set (term_ids L)" "set (pend_ids (taken m L)) \<subseteq> set (pend_ids L)"
proof (induction L rule: rev_induct)
  case (snoc ev L)
  have fit: "term_ids (emit_fit m ev) = [] \<or> term_ids (emit_fit m ev) = term_of ev"
    "pend_ids (emit_fit m ev) = [] \<or> pend_ids (emit_fit m ev) = pend_of ev"
    using fit_cases [of m ev] fit_of [of _ m ev] by auto
  { case 1 then show ?case using snoc fit by auto }
  { case 2 then show ?case using snoc fit by auto }
  { case 3 then show ?case using snoc fit by auto }
  { case 4 then show ?case using snoc fit by auto }
qed simp_all

end
