(* ===== verification/Chat_Control.thy ===== *)
theory Chat_Control
  imports Prelude
begin

text \<open>
  \<^verbatim>\<open>internal/chatcore/control.go\<close>: the control token of a conversation, a FIFO mutex whose waiters
  can give up and which can be closed under them. A waiter's channel is the number of its call to
  \<open>Acquire\<close>; it is closed to wake the waiter. Every definition is one region under \<open>q.mu\<close>.
\<close>

section \<open>The queue\<close>

record controlQueue =
  cq_held :: bool
  cq_closed :: bool
  cq_queue :: "nat list"

definition newControlQueue :: controlQueue where
  "newControlQueue = \<lparr>cq_held = False, cq_closed = False, cq_queue = []\<rparr>"

datatype entered = AcErrClosed | AcGranted | AcWaits

definition Acquire_enter :: "nat \<Rightarrow> controlQueue \<Rightarrow> entered \<times> controlQueue" where
  "Acquire_enter waiter q =
     (if cq_closed q then (AcErrClosed, q)
      else if \<not> cq_held q then (AcGranted, q\<lparr>cq_held := True\<rparr>)
      else (AcWaits, q\<lparr>cq_queue := cq_queue q @ [waiter]\<rparr>))"

text \<open>After \<open><-waiter\<close>: \<open>isClosed\<close> tells the token from a close.\<close>

definition Acquire_woken :: "controlQueue \<Rightarrow> entered" where
  "Acquire_woken q = (if cq_closed q then AcErrClosed else AcGranted)"

text \<open>After \<open>ctx.Done()\<close>: \<open>woken\<close> says whether the waiter's channel is closed.\<close>

datatype cancelled = CcErrClosed | CcHandOff | CcErr

definition Acquire_cancel :: "nat \<Rightarrow> bool \<Rightarrow> controlQueue \<Rightarrow> cancelled \<times> controlQueue" where
  "Acquire_cancel waiter woken q =
     (if woken then (if cq_closed q then (CcErrClosed, q) else (CcHandOff, q))
      else (CcErr, q\<lparr>cq_queue := remove1 waiter (cq_queue q)\<rparr>))"

definition Held :: "controlQueue \<Rightarrow> bool" where
  "Held q = cq_held q"

text \<open>The waiters \<open>Close\<close> wakes, and what is left.\<close>

definition Close_queue :: "controlQueue \<Rightarrow> nat list \<times> controlQueue" where
  "Close_queue q = (cq_queue q, q\<lparr>cq_closed := True, cq_queue := []\<rparr>)"

text \<open>The body of a release function, which runs once: the waiter it wakes, if any.\<close>

definition releaseFunc :: "controlQueue \<Rightarrow> nat option \<times> controlQueue" where
  "releaseFunc q =
     (if \<not> cq_held q then (None, q)
      else
        case cq_queue q of
          [] \<Rightarrow> (None, q\<lparr>cq_held := False\<rparr>)
        | next # rest \<Rightarrow> (Some next, q\<lparr>cq_queue := rest\<rparr>))"

section \<open>Callers\<close>

text \<open>
  Where each call to \<open>Acquire\<close> stands, the channels that are closed, and three histories: the calls
  in the order they were granted the token or queued, those granted it in order, and those that
  gave up while queued.
\<close>

datatype cpc = PNew | PWait | PHolds | PHandOff | PReleased | PFailed

record csys =
  cs_q :: controlQueue
  cs_pc :: "nat \<Rightarrow> cpc"
  cs_chans :: "nat set"
  cs_arrived :: "nat list"
  cs_granted :: "nat list"
  cs_gave_up :: "nat set"

definition cs_init :: "csys \<Rightarrow> bool" where
  "cs_init y \<longleftrightarrow> y = \<lparr>cs_q = newControlQueue, cs_pc = (\<lambda>_. PNew), cs_chans = {}, cs_arrived = [], cs_granted = [],
     cs_gave_up = {}\<rparr>"

definition cs_enter :: "nat \<Rightarrow> csys \<Rightarrow> csys" where
  "cs_enter c y =
     (case Acquire_enter c (cs_q y) of
        (AcErrClosed, q) \<Rightarrow> y\<lparr>cs_q := q, cs_pc := (cs_pc y)(c := PFailed)\<rparr>
      | (AcGranted, q) \<Rightarrow> y\<lparr>cs_q := q, cs_pc := (cs_pc y)(c := PHolds), cs_arrived := cs_arrived y @ [c],
                          cs_granted := cs_granted y @ [c]\<rparr>
      | (AcWaits, q) \<Rightarrow> y\<lparr>cs_q := q, cs_pc := (cs_pc y)(c := PWait), cs_arrived := cs_arrived y @ [c]\<rparr>)"

definition cs_woken :: "nat \<Rightarrow> csys \<Rightarrow> csys" where
  "cs_woken c y =
     y\<lparr>cs_pc := (cs_pc y)(c := (case Acquire_woken (cs_q y) of AcGranted \<Rightarrow> PHolds | _ \<Rightarrow> PFailed))\<rparr>"

definition cs_cancel :: "nat \<Rightarrow> csys \<Rightarrow> csys" where
  "cs_cancel c y =
     (case Acquire_cancel c (c \<in> cs_chans y) (cs_q y) of
        (CcErrClosed, q) \<Rightarrow> y\<lparr>cs_q := q, cs_pc := (cs_pc y)(c := PFailed)\<rparr>
      | (CcHandOff, q) \<Rightarrow> y\<lparr>cs_q := q, cs_pc := (cs_pc y)(c := PHandOff)\<rparr>
      | (CcErr, q) \<Rightarrow> y\<lparr>cs_q := q, cs_pc := (cs_pc y)(c := PFailed), cs_gave_up := insert c (cs_gave_up y)\<rparr>)"

definition cs_release :: "nat \<Rightarrow> cpc \<Rightarrow> csys \<Rightarrow> csys" where
  "cs_release c pc y =
     (case releaseFunc (cs_q y) of
        (None, q) \<Rightarrow> y\<lparr>cs_q := q, cs_pc := (cs_pc y)(c := pc)\<rparr>
      | (Some w, q) \<Rightarrow> y\<lparr>cs_q := q, cs_pc := (cs_pc y)(c := pc), cs_chans := insert w (cs_chans y),
                        cs_granted := cs_granted y @ [w]\<rparr>)"

definition cs_close :: "csys \<Rightarrow> csys" where
  "cs_close y = (let (ws, q) = Close_queue (cs_q y) in y\<lparr>cs_q := q, cs_chans := cs_chans y \<union> set ws\<rparr>)"

inductive cs_step :: "csys \<Rightarrow> csys \<Rightarrow> bool" where
  enter: "cs_pc y c = PNew \<Longrightarrow> cs_step y (cs_enter c y)"
| woken: "cs_pc y c = PWait \<Longrightarrow> c \<in> cs_chans y \<Longrightarrow> cs_step y (cs_woken c y)"
| cancel: "cs_pc y c = PWait \<Longrightarrow> cs_step y (cs_cancel c y)"
| handoff: "cs_pc y c = PHandOff \<Longrightarrow> cs_step y (cs_release c PFailed y)"
| release: "cs_pc y c = PHolds \<Longrightarrow> cs_step y (cs_release c PReleased y)"
| close: "cs_step y (cs_close y)"

section \<open>The invariant\<close>

text \<open>Who has the token: it holds it, is about to hand it on, or was woken with it.\<close>

definition owner :: "csys \<Rightarrow> nat \<Rightarrow> bool" where
  "owner y c \<longleftrightarrow>
     cs_pc y c = PHolds \<or> cs_pc y c = PHandOff \<or> cs_pc y c = PWait \<and> c \<in> cs_chans y \<and> \<not> cq_closed (cs_q y)"

text \<open>The queue: who is in it waits, and every waiter is in it or has been woken.\<close>

definition queue_ok :: "csys \<Rightarrow> bool" where
  "queue_ok y \<longleftrightarrow>
     (\<forall>c \<in> set (cq_queue (cs_q y)). cs_pc y c = PWait \<and> c \<notin> cs_chans y) \<and> distinct (cq_queue (cs_q y)) \<and>
     (\<forall>c. cs_pc y c = PWait \<longrightarrow> c \<in> cs_chans y \<or> c \<in> set (cq_queue (cs_q y))) \<and>
     (\<forall>c. cs_pc y c = PNew \<longrightarrow> c \<notin> cs_chans y) \<and>
     (cq_closed (cs_q y) \<longrightarrow> cq_queue (cs_q y) = []) \<and> (\<not> cq_held (cs_q y) \<longrightarrow> cq_queue (cs_q y) = [])"

text \<open>The token: at most one caller has it, and until a close it is held exactly while one does.\<close>

definition token_at :: "nat option \<Rightarrow> csys \<Rightarrow> bool" where
  "token_at t y \<longleftrightarrow>
     (\<forall>c. owner y c \<longleftrightarrow> t = Some c) \<and> (t \<noteq> None \<longrightarrow> cq_held (cs_q y)) \<and>
     (\<not> cq_closed (cs_q y) \<longrightarrow> cq_held (cs_q y) \<longrightarrow> t \<noteq> None)"

text \<open>The histories: those that did not give up were granted the token in the order they came.\<close>

definition order_ok :: "csys \<Rightarrow> bool" where
  "order_ok y \<longleftrightarrow>
     (\<forall>c. cs_pc y c = PNew \<longrightarrow> c \<notin> set (cs_arrived y) \<and> c \<notin> cs_gave_up y) \<and> distinct (cs_arrived y) \<and>
     (\<exists>left. filter (\<lambda>c. c \<notin> cs_gave_up y) (cs_arrived y) = cs_granted y @ cq_queue (cs_q y) @ left \<and>
        (cq_closed (cs_q y) \<or> left = []))"

definition cs_inv :: "csys \<Rightarrow> bool" where
  "cs_inv y \<longleftrightarrow> queue_ok y \<and> (\<exists>t. token_at t y) \<and> order_ok y"

lemmas region_defs = Acquire_enter_def Acquire_woken_def Acquire_cancel_def Close_queue_def releaseFunc_def
lemmas caller_defs = cs_enter_def cs_woken_def cs_cancel_def cs_release_def cs_close_def

lemma queue_ok_step: "cs_step y z \<Longrightarrow> queue_ok y \<Longrightarrow> queue_ok z"
  by (induction rule: cs_step.induct)
    (auto simp: queue_ok_def region_defs caller_defs split: list.splits if_splits)

text \<open>How each region moves the token.\<close>

lemma owner_enter:
  "queue_ok y \<Longrightarrow> cs_pc y c = PNew \<Longrightarrow>
   owner (cs_enter c y) d \<longleftrightarrow> owner y d \<or> \<not> cq_closed (cs_q y) \<and> \<not> cq_held (cs_q y) \<and> d = c"
  by (cases "d = c") (simp_all add: queue_ok_def owner_def cs_enter_def Acquire_enter_def)

lemma owner_woken: "cs_pc y c = PWait \<Longrightarrow> c \<in> cs_chans y \<Longrightarrow> owner (cs_woken c y) d \<longleftrightarrow> owner y d"
  by (cases "d = c") (simp_all add: owner_def cs_woken_def Acquire_woken_def)

lemma owner_cancel: "cs_pc y c = PWait \<Longrightarrow> owner (cs_cancel c y) d \<longleftrightarrow> owner y d"
  by (cases "d = c") (simp_all add: owner_def cs_cancel_def Acquire_cancel_def)

lemma owner_release:
  assumes q: "queue_ok y" and held: "cq_held (cs_q y)" and pc: "pc = PReleased \<or> pc = PFailed" and c: "cs_pc y c \<noteq> PWait"
  shows "owner (cs_release c pc y) d \<longleftrightarrow> d \<noteq> c \<and> owner y d \<or> (\<exists>rest. cq_queue (cs_q y) = d # rest)"
proof (cases "cq_queue (cs_q y)")
  case Nil
  then show ?thesis using held pc by (cases "d = c") (auto simp: owner_def cs_release_def releaseFunc_def)
next
  case (Cons w rest)
  then have "cs_pc y w = PWait" "\<not> cq_closed (cs_q y)" using q by (auto simp: queue_ok_def)
  then show ?thesis using held pc c Cons by (cases "d = w") (auto simp: owner_def cs_release_def releaseFunc_def)
qed

lemma owner_close: "owner (cs_close y) d \<longleftrightarrow> owner y d \<and> cs_pc y d \<noteq> PWait"
  by (auto simp: owner_def cs_close_def Close_queue_def)

lemma held_simps:
  "cq_held (cs_q (cs_enter c y)) \<longleftrightarrow> cq_held (cs_q y) \<or> \<not> cq_closed (cs_q y)"
  "cq_held (cs_q (cs_woken c y)) = cq_held (cs_q y)" "cq_held (cs_q (cs_cancel c y)) = cq_held (cs_q y)"
  "cq_held (cs_q (cs_close y)) = cq_held (cs_q y)"
  "cq_held (cs_q (cs_release c pc y)) \<longleftrightarrow> cq_held (cs_q y) \<and> cq_queue (cs_q y) \<noteq> []"
  "cq_closed (cs_q (cs_enter c y)) = cq_closed (cs_q y)" "cq_closed (cs_q (cs_woken c y)) = cq_closed (cs_q y)"
  "cq_closed (cs_q (cs_cancel c y)) = cq_closed (cs_q y)" "cq_closed (cs_q (cs_release c pc y)) = cq_closed (cs_q y)"
  "cq_closed (cs_q (cs_close y))"
  by (auto simp: region_defs caller_defs split: list.splits)

lemma token_atI:
  "(\<And>d. owner y d = (t = Some d)) \<Longrightarrow> (t \<noteq> None \<longrightarrow> cq_held (cs_q y)) \<Longrightarrow>
   (\<not> cq_closed (cs_q y) \<longrightarrow> cq_held (cs_q y) \<longrightarrow> t \<noteq> None) \<Longrightarrow> token_at t y"
  by (simp add: token_at_def)

lemma token_at_release:
  assumes q: "queue_ok y" and t: "token_at t y" and c: "cs_pc y c = PHolds \<or> cs_pc y c = PHandOff"
    and pc: "pc = PReleased \<or> pc = PFailed"
  shows "token_at (case cq_queue (cs_q y) of [] \<Rightarrow> None | w # _ \<Rightarrow> Some w) (cs_release c pc y)"
proof -
  have "owner y c" using c by (auto simp: owner_def)
  then have tc: "t = Some c" and held: "cq_held (cs_q y)" using t by (simp_all add: token_at_def)
  have "owner (cs_release c pc y) d \<longleftrightarrow> (\<exists>rest. cq_queue (cs_q y) = d # rest)" for d
    using owner_release [OF q held pc] c t tc by (auto simp: token_at_def)
  then show ?thesis by (auto simp: token_at_def held_simps held split: list.split)
qed

lemma token_at_step:
  assumes step: "cs_step y z" and q: "queue_ok y" and t: "token_at t y"
  shows "\<exists>u. token_at u z"
proof -
  have own: "\<And>d. owner y d = (t = Some d)" and held: "t \<noteq> None \<longrightarrow> cq_held (cs_q y)"
    "\<not> cq_closed (cs_q y) \<longrightarrow> cq_held (cs_q y) \<longrightarrow> t \<noteq> None"
    using t by (auto simp: token_at_def)
  show ?thesis using step
  proof cases
    case (enter c)
    note moved = owner_enter [OF q enter(2)]
    show ?thesis
    proof (cases "\<not> cq_closed (cs_q y) \<and> \<not> cq_held (cs_q y)")
      case True
      then have "owner z d \<longleftrightarrow> Some c = Some d" for d using held own moved [of d] unfolding enter(1) by auto
      then have "token_at (Some c) z" using True unfolding token_at_def enter(1) by (simp add: held_simps)
      then show ?thesis ..
    next
      case False
      then have "owner z d \<longleftrightarrow> t = Some d" for d using own moved [of d] unfolding enter(1) by auto
      moreover have "t \<noteq> None \<longrightarrow> cq_held (cs_q z)" "\<not> cq_closed (cs_q z) \<longrightarrow> cq_held (cs_q z) \<longrightarrow> t \<noteq> None"
        using False held unfolding enter(1) held_simps by blast+
      ultimately have "token_at t z" by (rule token_atI)
      then show ?thesis ..
    qed
  next
    case (woken c)
    have "token_at t z" unfolding woken(1)
      by (rule token_atI; unfold held_simps owner_woken [OF woken(2,3)] own; rule refl held)
    then show ?thesis ..
  next
    case (cancel c)
    have "token_at t z" unfolding cancel(1)
      by (rule token_atI; unfold held_simps owner_cancel [OF cancel(2)] own; rule refl held)
    then show ?thesis ..
  next
    case close
    have "token_at (case t of Some c \<Rightarrow> if cs_pc y c = PWait then None else t | None \<Rightarrow> None) z"
      using held(1) unfolding close by (intro token_atI; unfold held_simps owner_close own) (auto simp: held_simps split: option.split)
    then show ?thesis ..
  qed (use token_at_release [OF q t] in blast)+
qed

lemma filter_gone:
  assumes "distinct xs" and "filter P xs = as @ bs @ cs" and "c \<in> set bs"
  shows "filter (\<lambda>x. P x \<and> x \<noteq> c) xs = as @ remove1 c bs @ cs"
proof -
  have d: "distinct (as @ bs @ cs)" using assms(1,2) by (metis distinct_filter)
  have "filter (\<lambda>x. P x \<and> x \<noteq> c) xs = filter (\<lambda>x. x \<noteq> c) (filter P xs)" by (simp add: conj_commute)
  also have "\<dots> = removeAll c as @ removeAll c bs @ removeAll c cs"
    using assms(2) by (simp add: removeAll_filter_not_eq eq_commute)
  also have "\<dots> = as @ remove1 c bs @ cs"
    using d assms(3) by (simp add: distinct_remove1_removeAll) (metis disjoint_iff removeAll_id UnI1)
  finally show ?thesis .
qed

lemma order_ok_enter: "queue_ok y \<Longrightarrow> order_ok y \<Longrightarrow> cs_pc y c = PNew \<Longrightarrow> order_ok (cs_enter c y)"
  by (auto simp: order_ok_def cs_enter_def Acquire_enter_def queue_ok_def)

lemma order_ok_release: "order_ok y \<Longrightarrow> pc = PReleased \<or> pc = PFailed \<Longrightarrow> order_ok (cs_release c pc y)"
  by (auto simp: order_ok_def cs_release_def releaseFunc_def split: list.splits)

lemma order_ok_cancel:
  assumes q: "queue_ok y" and o: "order_ok y" and c: "cs_pc y c = PWait"
  shows "order_ok (cs_cancel c y)"
proof (cases "c \<in> cs_chans y")
  case True
  then show ?thesis using o c by (auto simp: order_ok_def cs_cancel_def Acquire_cancel_def)
next
  case False
  then have "c \<in> set (cq_queue (cs_q y))" using q c by (auto simp: queue_ok_def)
  then have "filter (\<lambda>x. x \<notin> insert c (cs_gave_up y)) (cs_arrived y) = cs_granted y @ remove1 c (cq_queue (cs_q y)) @ left"
    if "filter (\<lambda>x. x \<notin> cs_gave_up y) (cs_arrived y) = cs_granted y @ cq_queue (cs_q y) @ left" for left
    using filter_gone [OF _ that] o by (simp add: order_ok_def conj_commute)
  then show ?thesis using o c False by (auto simp: order_ok_def cs_cancel_def Acquire_cancel_def)
qed

lemma order_ok_step: "cs_step y z \<Longrightarrow> queue_ok y \<Longrightarrow> order_ok y \<Longrightarrow> order_ok z"
proof (induction rule: cs_step.induct)
  case (woken y c)
  then show ?case by (auto simp: order_ok_def cs_woken_def split: entered.splits)
next
  case (close y)
  then show ?case by (auto simp: order_ok_def cs_close_def Close_queue_def)
qed (auto intro: order_ok_enter order_ok_release order_ok_cancel)

interpretation control: inductive_invariant cs_init cs_step cs_inv
proof
  show "cs_init y \<Longrightarrow> cs_inv y" for y
    by (auto simp: cs_init_def cs_inv_def queue_ok_def token_at_def owner_def order_ok_def newControlQueue_def
        intro!: exI [of _ None])
  show "cs_inv y \<Longrightarrow> cs_step y z \<Longrightarrow> cs_inv z" for y z
    using queue_ok_step token_at_step order_ok_step unfolding cs_inv_def by blast
qed

section \<open>Properties\<close>

text \<open>
  C12: the token is exclusive and never lost. Whatever callers come, give up, hand on, release and
  close, at most one holds the token, and \<open>Held\<close> says so; until a close, a token that is held has
  exactly one owner, who holds it, is handing it on, or has been woken with it, and so no waiter is
  stranded behind a free token; and after a close every waiter has been woken.
\<close>

theorem control_one_holder:
  assumes "reachable cs_init cs_step y"
  shows "(\<forall>c d. cs_pc y c = PHolds \<longrightarrow> cs_pc y d = PHolds \<longrightarrow> c = d) \<and> (\<forall>c. cs_pc y c = PHolds \<longrightarrow> Held (cs_q y)) \<and>
    (\<not> cq_closed (cs_q y) \<longrightarrow> (if Held (cs_q y) then \<exists>!c. owner y c else cq_queue (cs_q y) = [])) \<and>
    (cq_closed (cs_q y) \<longrightarrow> (\<forall>c. cs_pc y c = PWait \<longrightarrow> c \<in> cs_chans y))"
proof -
  have "cs_inv y" by (rule control.inv_reachable [OF assms])
  then obtain t where q: "queue_ok y" and own: "\<And>c. owner y c = (t = Some c)"
    and held: "t \<noteq> None \<longrightarrow> cq_held (cs_q y)" "\<not> cq_closed (cs_q y) \<longrightarrow> cq_held (cs_q y) \<longrightarrow> t \<noteq> None"
    unfolding cs_inv_def token_at_def by blast
  have holds: "cs_pc y c = PHolds \<Longrightarrow> t = Some c" for c using own [of c] unfolding owner_def by blast
  show ?thesis
  proof (intro conjI allI impI)
    show "c = d" if "cs_pc y c = PHolds" "cs_pc y d = PHolds" for c d using holds [OF that(1)] holds [OF that(2)] by simp
    show "Held (cs_q y)" if "cs_pc y c = PHolds" for c using holds [OF that] held(1) by (simp add: Held_def)
    show "if Held (cs_q y) then \<exists>!c. owner y c else cq_queue (cs_q y) = []" if "\<not> cq_closed (cs_q y)"
      using held(2) that q unfolding own Held_def queue_ok_def by auto
    show "c \<in> cs_chans y" if "cq_closed (cs_q y)" "cs_pc y c = PWait" for c using q that by (auto simp: queue_ok_def)
  qed
qed

text \<open>
  first come, first served. The callers granted the token so far are, in that order, the first
  of those that came and did not give up; and while the queue is open, those not granted it yet are
  exactly the queue, in the order they came.
\<close>

lemma control_fifo:
  assumes "reachable cs_init cs_step y"
  shows "\<exists>left. filter (\<lambda>c. c \<notin> cs_gave_up y) (cs_arrived y) = cs_granted y @ left \<and>
    (\<not> cq_closed (cs_q y) \<longrightarrow> left = cq_queue (cs_q y))"
  using control.inv_reachable [OF assms] by (auto simp: cs_inv_def order_ok_def)

section \<open>Witnesses\<close>

text \<open>Two callers: the first holds the token, the second waits and is woken by the release.\<close>

definition demo_control :: csys where
  "demo_control = cs_release 0 PReleased (cs_enter 1 (cs_enter 0 \<lparr>cs_q = newControlQueue, cs_pc = (\<lambda>_. PNew), cs_chans = {},
     cs_arrived = [], cs_granted = [], cs_gave_up = {}\<rparr>))"

lemma demo_control_simps:
  "cs_q demo_control = \<lparr>cq_held = True, cq_closed = False, cq_queue = []\<rparr>" "cs_pc demo_control 1 = PWait"
  "cs_chans demo_control = {1}" "cs_arrived demo_control = [0, 1]" "cs_granted demo_control = [0, 1]" "cs_gave_up demo_control = {}"
  by (simp_all add: demo_control_def cs_enter_def cs_release_def Acquire_enter_def releaseFunc_def newControlQueue_def)

lemma demo_control_reachable: "reachable cs_init cs_step demo_control"
proof -
  let ?R = "reachable cs_init cs_step"
  have enter: "?R y \<Longrightarrow> cs_pc y c = PNew \<Longrightarrow> ?R (cs_enter c y)" for y c by (rule reach_step) (auto intro: cs_step.enter)
  have release: "?R y \<Longrightarrow> cs_pc y c = PHolds \<Longrightarrow> ?R (cs_release c PReleased y)" for y c
    by (rule reach_step) (auto intro: cs_step.release)
  show ?thesis unfolding demo_control_def
    by (intro release enter reach_init) (simp_all add: cs_init_def cs_enter_def Acquire_enter_def newControlQueue_def)
qed

theorem control_one_holder_witness: "Held (cs_q demo_control) \<and> (\<exists>!c. owner demo_control c)"
  using control_one_holder [OF demo_control_reachable] by (simp add: demo_control_simps Held_def)

end
