(* ===== verification/Chat_Stream_Properties.thy ===== *)
theory Chat_Stream_Properties
  imports Chat_Stream_Inv Chat_Control
begin

text \<open>
  What a client of a stream-json conversation can rely on, and three places where it cannot: an
  Interrupt that is forgotten, one that panics, and a permission answer that is lost.
\<close>

section \<open>The events of a conversation\<close>

lemma log_ok_facts:
  assumes "log_ok cs ids L"
  shows "distinct (term_ids L)" "cs = [] \<Longrightarrow> set (term_ids L) = set (pend_ids L)"
proof -
  have m: "mset (pend_ids L) = mset (cs @ term_ids L)" and d: "distinct (pend_ids L)" using assms by (simp_all add: log_ok_def)
  have "distinct (cs @ term_ids L)" using d mset_eq_imp_distinct_iff [OF m] by simp
  then show "distinct (term_ids L)" by simp
  show "set (term_ids L) = set (pend_ids L)" if "cs = []" using mset_eq_setD [OF m] that by simp
qed

lemma events_ok:
  assumes "log_ok cs ids L"
  shows "distinct (pend_ids (taken m L)) \<and> distinct (term_ids (taken m L)) \<and> ordered (taken m L)"
  using assms log_ok_facts(1) [OF assms] taken_term(1,2) [of L m] taken_ordered [of L m] by (simp add: log_ok_def)

lemma log_ok_last:
  assumes "log_ok cs ids (L @ [EventExited info])"
  shows "log_ok cs ids L"
  using assms by (simp add: log_ok_def ordered_snoc pend_of_def term_of_def)

text \<open>
  C10: the assistant turns on the event stream, in every interleaving of the reader, the Sends, the
  Interrupts and Answers and the exit, and for every byte bound of the event queue. No turn is
  announced twice, none ends twice, and none ends before it was announced.
\<close>

theorem chat_turn_log:
  assumes "reachable chat_init (chat_step o') y"
  shows "distinct (pend_ids (cv_events (y_c y))) \<and> distinct (term_ids (cv_events (y_c y))) \<and> ordered (cv_events (y_c y))"
proof -
  have "chat_inv y" by (rule chat.inv_reachable [OF assms])
  then have log: "log_ok (carriers y) (y_ids y) (cv_emitted (y_c y))" by (simp add: chat_inv_def)
  have link: "link (op_max_bytes o') (y_c y)" by (rule queue_link.inv_reachable [OF assms])
  show ?thesis
  proof (cases "cv_pushed_last (y_c y)")
    case True
    with link obtain L info where L: "cv_emitted (y_c y) = L @ [EventExited info]"
      "cv_events (y_c y) = taken (op_max_bytes o') L @ [EventExited info]" by (auto simp: link_def)
    show ?thesis using events_ok [OF log_ok_last] log unfolding L
      by (simp add: ordered_snoc pend_of_def term_of_def)
  next
    case False
    with link events_ok [OF log] show ?thesis by (simp add: link_def)
  qed
qed

text \<open>When the last event is out nobody carries a turn.\<close>

lemma over_carriers: "chat_inv y \<Longrightarrow> cv_pushed_last (y_c y) \<Longrightarrow> carriers y = []"
proof -
  assume inv: "chat_inv y" and l: "cv_pushed_last (y_c y)"
  have x: "cv_currentTurn (y_c y) = None" "cv_sending (y_c y) = 0" "cv_ending (y_c y) = 0"
    using exit_ok_pc [OF inv] l by (auto simp: exit_ok_def)
  have "announced (y_s y) = []" using send_ok_pc [OF inv] x(2) by (cases "y_s y") (simp_all add: send_ok_def counted_def)
  moreover have "claimed y = []" using inv x(3) by (simp add: chat_inv_def)
  ultimately show ?thesis using x(1) by (simp add: carriers_def current_def)
qed

lemma taken_exited: "list_all (Not \<circ> is_exited) L \<Longrightarrow> list_all (Not \<circ> is_exited) (taken m L)"
  by (auto simp: list_all_iff taken_def dest: fit_of)

lemma exited_split:
  assumes "last_ok c" and "link m c" and eq: "cv_events c = A @ EventExited info # B"
  shows "cv_pushed_last c \<and> B = [] \<and> (\<exists>L. cv_emitted c = L @ [EventExited info] \<and> A = taken m L)"
proof -
  have ev: "is_exited (EventExited info)" by (simp add: is_exited_def)
  have l: "cv_pushed_last c"
  proof (rule ccontr)
    assume "\<not> cv_pushed_last c"
    then have "list_all (Not \<circ> is_exited) (cv_events c)" using assms(1,2) by (simp add: last_ok_def link_def taken_exited)
    with eq ev show False by simp
  qed
  with assms(1,2) obtain L i where L: "cv_emitted c = L @ [EventExited i]" "cv_events c = taken m L @ [EventExited i]"
    and no: "list_all (Not \<circ> is_exited) L"
    by (auto simp: last_ok_def link_def)
  have "B = []"
  proof (cases B rule: rev_cases)
    case (snoc B' b)
    with L(2) eq have "taken m L = A @ EventExited info # B'" by simp
    with taken_exited [OF no, of m] ev show ?thesis by simp
  qed simp
  with l L eq show ?thesis by simp
qed

lemma term_taken:
  assumes "i \<in> set (term_ids L)"
  shows "i \<in> set (term_ids (taken m L)) \<or>
    (\<exists>t e. EventTurn t e \<in> set L \<and> ct_id t = i \<and> ending_turn t \<and> m < 256 + int (length (ct_reason t)))"
proof -
  obtain ev where ev: "ev \<in> set L" "i \<in> set (term_of ev)" using assms by (auto simp: term_ids_def)
  then obtain t e where t: "ev = EventTurn t e" "ct_id t = i" "ending_turn t"
    by (auto simp: term_of_def ending_turn_def split: ConversationEvent.splits if_splits)
  show ?thesis
  proof (cases "emit_fit m ev = []")
    case True
    then have "m < 256 + int (length (ct_reason t))"
      using t(1) by (auto simp: emit_fit_def eventSize_def Let_def split: if_splits)
    with ev t show ?thesis by blast
  next
    case False
    then obtain e' where e': "emit_fit m ev = [e']" using fit_cases [of m ev] by blast
    then have "i \<in> set (term_of e')" "e' \<in> set (taken m L)" using ev fit_of [of e' m ev] by (auto simp: taken_def intro!: bexI [of _ ev])
    then show ?thesis by (auto simp: term_ids_def)
  qed
qed

text \<open>
  C11: \<open>EventExited\<close> is the last event of the stream and comes once; when it is there the exit has
  been recorded and every turn that was announced has ended, whatever was in flight when claude
  exited. The ending is on the stream too, unless its reason alone is over the queue's byte bound:
  such an event is dropped without a word.
\<close>

theorem chat_exit_last:
  assumes "reachable chat_init (chat_step o') y" and "cv_events (y_c y) = A @ EventExited info # B"
  shows "B = [] \<and> cv_exit (y_c y) \<noteq> None \<and> cv_currentTurn (y_c y) = None \<and>
    (\<forall>i \<in> set (pend_ids A). i \<in> set (term_ids A) \<or>
      (\<exists>t e. EventTurn t e \<in> set (cv_emitted (y_c y)) \<and> ct_id t = i \<and> ending_turn t \<and>
        op_max_bytes o' < 256 + int (length (ct_reason t))))"
proof -
  have inv: "chat_inv y" by (rule chat.inv_reachable [OF assms(1)])
  have link: "link (op_max_bytes o') (y_c y)" by (rule queue_link.inv_reachable [OF assms(1)])
  obtain L where l: "cv_pushed_last (y_c y)" "B = []" and L: "cv_emitted (y_c y) = L @ [EventExited info]"
      "A = taken (op_max_bytes o') L"
    using exited_split [OF last_ok_pc [OF inv] link assms(2)] by blast
  have log: "log_ok (carriers y) (y_ids y) (cv_emitted (y_c y))" using inv by (simp add: chat_inv_def)
  have "set (term_ids L) = set (pend_ids L)"
    using log_ok_facts(2) [OF log_ok_last [OF log [unfolded L(1)]] over_carriers [OF inv l(1)]] .
  then have "i \<in> set (term_ids L)" if "i \<in> set (pend_ids A)" for i
    using that taken_term(4) [of "op_max_bytes o'" L] L(2) by auto
  then have "\<forall>i \<in> set (pend_ids A). i \<in> set (term_ids A) \<or> (\<exists>t e. EventTurn t e \<in> set (cv_emitted (y_c y)) \<and> ct_id t = i \<and>
      ending_turn t \<and> op_max_bytes o' < 256 + int (length (ct_reason t)))"
    using term_taken [of _ L "op_max_bytes o'"] L by fastforce
  then show ?thesis using exit_ok_pc [OF inv] l by (auto simp: exit_ok_def)
qed

section \<open>Interrupts that come to nothing\<close>

text \<open>
  An operation nobody will finish: no goroutine is about to, and no stream turn the conversation
  still knows names it.
\<close>

definition forgotten :: "nat \<Rightarrow> conv \<Rightarrow> bool" where
  "forgotten p c \<longleftrightarrow>
     cv_ops c p = None \<and> p < cv_next_op c \<and> (\<forall>n. cv_turn c = Some n \<longrightarrow> st_interrupt (cv_heap c n) \<noteq> Some p)"

definition no_finish :: "nat \<Rightarrow> work list \<Rightarrow> bool" where
  "no_finish p ws \<longleftrightarrow> (\<forall>r e. WFinish p r e \<notin> set ws)"

definition orphan :: "nat \<Rightarrow> chat \<Rightarrow> bool" where
  "orphan p y \<longleftrightarrow> forgotten p (y_c y) \<and> p \<notin> y_ctl y \<and> no_finish p (y_reader y) \<and> no_finish p (y_xwork y)"

lemma no_finish_simps [simp]:
  "no_finish p []" "no_finish p (w # ws) \<longleftrightarrow> (\<forall>r e. w \<noteq> WFinish p r e) \<and> no_finish p ws"
  "no_finish p (ws @ ws') \<longleftrightarrow> no_finish p ws \<and> no_finish p ws'" "no_finish p (receive_work st)" "no_finish p (answer_work q i)"
  by (auto simp: no_finish_def receive_work_def answer_work_def split: option.splits sum.splits)

text \<open>What the regions read and write of it.\<close>

definition hold :: "conv \<Rightarrow> (nat \<Rightarrow> (InterruptResult option \<times> ChatErr option) option) \<times> nat \<times> nat option \<times> (nat \<Rightarrow> nat option)" where
  "hold c = (cv_ops c, cv_next_op c, cv_turn c, st_interrupt \<circ> cv_heap c)"

lemma forgotten_hold: "forgotten p c \<Longrightarrow> hold c' = hold c \<Longrightarrow> forgotten p c'"
  unfolding hold_def forgotten_def by (auto simp: fun_eq_iff)

lemma hold_upd: "(\<And>s. st_interrupt (g s) = st_interrupt s) \<Longrightarrow> hold (upd_stream n g c) = hold c"
  by (simp add: hold_def upd_stream_def fun_eq_iff)

lemma hold_field:
  "hold (c\<lparr>cv_retrying := s\<rparr>) = hold c" "hold (c\<lparr>cv_control := ids, cv_replies := rs\<rparr>) = hold c" "hold (c\<lparr>cv_closed := b\<rparr>) = hold c"
  by (simp_all add: hold_def)

lemma hold_frames [simp]:
  "hold (received n c) = hold c" "hold (on_stream_event f c) = hold c" "hold (on_assistant f c) = hold c"
  "hold (on_control_response f c) = hold c"
proof -
  show "hold (received n c) = hold c" by (simp add: hold_def received_def fun_eq_iff)
  show "hold (on_stream_event f c) = hold c"
    by (simp add: on_stream_event_def hold_field hold_upd split: option.split prod.split)
  show "hold (on_assistant f c) = hold c"
    by (simp add: on_assistant_def hold_upd Let_def split: option.split)
  show "hold (on_control_response f c) = hold c"
    by (simp add: on_control_response_def hold_field split: option.split prod.split)
qed

lemma hold_turns [simp]:
  "hold (emit o' ev c) = hold c" "hold (finishTurn o' st t e c) = hold c" "hold (PushLast_exited info c) = hold c"
  "hold (snd (claimTurnLocked c)) = hold c" "hold (snd (Send_reserve held c)) = hold c"
  "hold (snd (reserveHarnessWriteLocked c)) = hold c" "hold (snd (beginTurn_check c)) = hold c"
  "hold (beginTurn_set t prompt c) = hold c" "hold (sending_done c) = hold c" "hold (releaseHarnessWrite c) = hold c"
  "hold (snd (failSubmit i err now c)) = hold c"
  by (simp_all add: hold_def emit_def finishTurn_def PushLast_exited_def claimTurnLocked_def Send_reserve_def
      reserveHarnessWriteLocked_def beginTurn_check_def beginTurn_set_def sending_done_def releaseHarnessWrite_def
      failSubmit_def Let_def split: option.split)

lemma hold_others [simp]:
  "hold (on_api_retry f c) = hold c" "hold (snd (onStreamInit_mode f c)) = hold c" "hold (snd (streamWrite ok fr c)) = hold c"
  "hold (streamAnswer_clear q c) = hold c" "hold (set_stream_mode m c) = hold c" "hold (exit_stdin c) = hold c"
  "hold (exit_control c) = hold c" "hold (exit_record info c) = hold c" "hold (exit_done c) = hold c"
  "hold (snd (onStreamRateLimit f c)) = hold c" "hold (snd (onStreamControlRequest o' a f c)) = hold c"
  "hold (snd (exit_claim o' now info c)) = hold c"
  by (simp_all add: hold_def on_api_retry_def onStreamInit_mode_def streamWrite_def streamAnswer_clear_def set_stream_mode_def
      exit_stdin_def exit_control_def exit_record_def exit_done_def onStreamRateLimit_def onStreamControlRequest_def
      exit_claim_def claimTurnLocked_def Let_def split: option.split)

text \<open>Regions that only forget the stream turn, and the work they leave.\<close>

definition forgets :: "conv \<Rightarrow> work list \<Rightarrow> conv \<Rightarrow> bool" where
  "forgets c ws c' \<longleftrightarrow> (\<forall>p. forgotten p c \<longrightarrow> forgotten p c' \<and> no_finish p ws)"

lemma forgets_hold: "hold c' = hold c \<Longrightarrow> (\<And>p. no_finish p ws) \<Longrightarrow> forgets c ws c'"
  unfolding forgets_def by (blast intro: forgotten_hold)

lemma forgets_turn:
  "cv_ops c' = cv_ops c \<Longrightarrow> cv_next_op c' = cv_next_op c \<Longrightarrow> cv_turn c' = None \<Longrightarrow>
   (\<And>p. (\<forall>n. cv_turn c = Some n \<longrightarrow> st_interrupt (cv_heap c n) \<noteq> Some p) \<Longrightarrow> no_finish p ws) \<Longrightarrow> forgets c ws c'"
  by (simp add: forgets_def forgotten_def)

lemma forgets_refuse: "onStreamInit_refuse o' now f c = (ws, c') \<Longrightarrow> forgets c ws c'"
  by (rule forgets_turn)
    (auto simp: onStreamInit_refuse_def claimTurnLocked_def finish_work_def Let_def split: option.splits)

lemma forgets_lifecycle: "onStreamLifecycle o' now f c = (ws, c') \<Longrightarrow> forgets c ws c'"
  by (auto simp: onStreamLifecycle_def claimTurnLocked_def finish_work_def forgets_def forgotten_def Let_def
      split: option.splits if_splits)

lemma forgets_result: "onStreamResult o' now f c = (ws, c') \<Longrightarrow> forgets c ws c'"
  by (rule forgets_turn)
    (auto simp: onStreamResult_def claimTurnLocked_def finish_work_def Let_def split: option.splits prod.splits)

lemma forgets_drop: "exit_drop c = (ws, c') \<Longrightarrow> forgets c ws c'"
  by (rule forgets_turn) (auto simp: exit_drop_def finish_work_def Let_def split: option.splits)

lemma forgets_control: "onStreamControlRequest o' a f c = (ws, c') \<Longrightarrow> forgets c ws c'"
  by (rule forgets_hold, use hold_others(11) [of o' a f c] in simp)
    (auto simp: onStreamControlRequest_def Let_def split: option.splits if_splits)

lemma forgets_rate_limit: "onStreamRateLimit f c = (ws, c') \<Longrightarrow> forgets c ws c'"
  by (rule forgets_hold, use hold_others(10) [of f c] in simp) (auto simp: onStreamRateLimit_def split: option.splits)

lemma forgets_claim: "exit_claim o' now info c = (ws, c') \<Longrightarrow> forgets c ws c'"
  by (rule forgets_hold, use hold_others(12) [of o' now info c] in simp) (auto simp: exit_claim_def split: option.splits prod.splits)

lemma forgets_init: "onStreamInit_mode f c = (due, c') \<Longrightarrow> forgets c [] c'"
  by (rule forgets_hold) (use hold_others(2) [of f c] in simp_all)

lemma forgets_frame: "onStreamFrame o' now addr f c = (due, ws, c') \<Longrightarrow> forgets c ws c'"
  unfolding onStreamFrame_def
  by (auto simp: forgets_hold split: if_splits prod.splits
      intro: forgets_lifecycle forgets_result forgets_control forgets_rate_limit forgets_init)

lemma forgotten_register: "streamSend_register uuid t c = (r, c') \<Longrightarrow> forgotten p c \<Longrightarrow> forgotten p c'"
  by (auto simp: streamSend_register_def forgotten_def Let_def split: option.splits if_splits)

lemma forgotten_drop: "forgotten p c \<Longrightarrow> forgotten p (dropStreamTurn n c)"
  by (auto simp: dropStreamTurn_def forgotten_def)

lemma forgotten_finish: "forgotten p c \<Longrightarrow> n \<noteq> p \<Longrightarrow> forgotten p (finish_op n r e c)"
  by (auto simp: finish_op_def forgotten_def)

lemma forgotten_begin:
  assumes "streamInterrupt_begin c = (r, c')" and "forgotten p c"
  shows "forgotten p c' \<and> r \<noteq> IbNew p"
proof (cases "cv_turn c")
  case None
  then show ?thesis using assms by (simp add: streamInterrupt_begin_def)
next
  case (Some n)
  then show ?thesis
    using assms by (cases "st_interrupt (cv_heap c n)"; cases "cv_currentTurn c")
      (auto simp: streamInterrupt_begin_def forgotten_def upd_stream_def Let_def)
qed

lemma forgotten_work: "forgotten p c \<Longrightarrow> (\<forall>r e. w \<noteq> WFinish p r e) \<Longrightarrow> forgotten p (run_work o' st ok w c)"
  by (cases w) (auto simp: run_work_def intro: forgotten_hold forgotten_finish)

lemma hold_results:
  "Send_reserve held c = (r, c') \<Longrightarrow> hold c' = hold c" "reserveHarnessWriteLocked c = (r, c') \<Longrightarrow> hold c' = hold c"
  "beginTurn_check c = (r, c') \<Longrightarrow> hold c' = hold c" "streamWrite ok f c = (r, c') \<Longrightarrow> hold c' = hold c"
  "failSubmit i err now c = (q, c') \<Longrightarrow> hold c' = hold c"
  using hold_turns(5-7,11) hold_others(3) by (metis snd_conv)+

lemma orphan_reader: "reader_step o' y z \<Longrightarrow> orphan p y \<Longrightarrow> orphan p z"
  by (erule reader_step.cases)
    (auto simp: orphan_def dest!: forgets_frame forgets_refuse intro: forgotten_work simp: forgets_def)

lemma orphan_send: "send_step o' y z \<Longrightarrow> orphan p y \<Longrightarrow> orphan p z"
  by (erule send_step.cases) (auto simp: orphan_def intro: forgotten_hold hold_results forgotten_register forgotten_drop)

lemma orphan_call: "call_step o' y z \<Longrightarrow> orphan p y \<Longrightarrow> orphan p z"
  by (erule call_step.cases)
    (auto simp: orphan_def hold_field intro: forgotten_hold hold_results forgotten_finish dest: forgotten_begin split: ibegun.splits)

lemma orphan_exit: "exit_step o' y z \<Longrightarrow> orphan p y \<Longrightarrow> orphan p z"
  by (erule exit_step.cases)
    (auto simp: orphan_def intro: forgotten_hold forgotten_work dest!: forgets_drop forgets_claim simp: forgets_def)

lemma orphan_step: "chat_step o' y z \<Longrightarrow> orphan p y \<Longrightarrow> orphan p z"
  unfolding chat_step_def using orphan_reader orphan_send orphan_call orphan_exit by blast

lemma orphan_forever: "(chat_step o')\<^sup>*\<^sup>* y w \<Longrightarrow> orphan p y \<Longrightarrow> orphan p w"
  by (induction rule: rtranclp_induct) (auto intro: orphan_step)

subsection \<open>Two schedules\<close>

lemma chat_pc:
  "y\<lparr>y_s := s, y_c := c\<rparr> = y\<lparr>y_c := c, y_s := s\<rparr>" "y\<lparr>y_waits := a, y_s := s\<rparr> = y\<lparr>y_s := s, y_waits := a\<rparr>"
  "y\<lparr>y_ctl := b, y_s := s\<rparr> = y\<lparr>y_s := s, y_ctl := b\<rparr>" "y\<lparr>y_waits := a, y_c := c\<rparr> = y\<lparr>y_c := c, y_waits := a\<rparr>"
  "y\<lparr>y_ctl := b, y_c := c\<rparr> = y\<lparr>y_c := c, y_ctl := b\<rparr>"
  by simp_all

lemma chat_reach:
  "reachable I (chat_step o') y \<Longrightarrow> reader_step o' y z \<Longrightarrow> reachable I (chat_step o') z"
  "reachable I (chat_step o') y \<Longrightarrow> send_step o' y z \<Longrightarrow> reachable I (chat_step o') z"
  "reachable I (chat_step o') y \<Longrightarrow> call_step o' y z \<Longrightarrow> reachable I (chat_step o') z"
  "reachable I (chat_step o') y \<Longrightarrow> exit_step o' y z \<Longrightarrow> reachable I (chat_step o') z"
  by (auto intro: reach_step simp: chat_step_def)

text \<open>A Send that has announced its turn and not yet put it in flight.\<close>

definition announced_chat :: "chatOpts \<Rightarrow> (nat \<Rightarrow> streamTurn) \<Rightarrow> ExitInfo \<Rightarrow> chat" where
  "announced_chat o' h info =
     (let y = new_chat h info; a = assistant_turn o' ''a'' 0; u = user_turn o' ''u'' ''hi'' 0;
          c = (new_conv h)\<lparr>cv_writeReserved := True, cv_sending := 1\<rparr>
      in y\<lparr>y_c := emit o' (EventTurn a None) (emit o' (EventTurn u None) c), y_s := SAsst a ''hi'', y_ids := {''a'', ''u''}\<rparr>)"

lemma announced_reachable: "reachable chat_init (chat_step o') (announced_chat o' h info)"
proof -
  let ?R = "reachable chat_init (chat_step o')" and ?y = "new_chat h info"
  let ?c = "(new_conv h)\<lparr>cv_writeReserved := True\<rparr>" and ?u = "EventTurn (user_turn o' ''u'' ''hi'' 0) None"
  have "?R ?y" by (rule reach_init) (auto simp: chat_init_def)
  moreover have "send_step o' ?y (?y\<lparr>y_c := ?c, y_s := SReserved ''hi''\<rparr>)"
    using send_step.reserve [of True ?y ?c o' "''hi''"]
    by (simp add: new_chat_def new_conv_def Send_reserve_def reserveHarnessWriteLocked_def)
  ultimately have "?R (?y\<lparr>y_c := ?c, y_s := SReserved ''hi''\<rparr>)" by (rule chat_reach(2))
  moreover have "send_step o' (?y\<lparr>y_c := ?c, y_s := SReserved ''hi''\<rparr>) (?y\<lparr>y_c := ?c\<lparr>cv_sending := 1\<rparr>, y_s := SBegun ''hi''\<rparr>)"
    using send_step.begin_turn [of "?y\<lparr>y_c := ?c, y_s := SReserved ''hi''\<rparr>" "''hi''" "?c\<lparr>cv_sending := 1\<rparr>" o']
    by (simp add: new_conv_def beginTurn_check_def)
  ultimately have "?R (?y\<lparr>y_c := ?c\<lparr>cv_sending := 1\<rparr>, y_s := SBegun ''hi''\<rparr>)" by (rule chat_reach(2))
  moreover have "send_step o' (?y\<lparr>y_c := ?c\<lparr>cv_sending := 1\<rparr>, y_s := SBegun ''hi''\<rparr>)
    (?y\<lparr>y_c := emit o' ?u (?c\<lparr>cv_sending := 1\<rparr>), y_s := SUser ''hi'', y_ids := {''u''}\<rparr>)"
    using send_step.user [of "?y\<lparr>y_c := ?c\<lparr>cv_sending := 1\<rparr>, y_s := SBegun ''hi''\<rparr>" "''hi''" "''u''" o' 0] by (simp add: new_chat_def)
  ultimately have "?R (?y\<lparr>y_c := emit o' ?u (?c\<lparr>cv_sending := 1\<rparr>), y_s := SUser ''hi'', y_ids := {''u''}\<rparr>)" by (rule chat_reach(2))
  then show ?thesis
    by (rule chat_reach(2))
      (use send_step.asst [of "?y\<lparr>y_c := emit o' ?u (?c\<lparr>cv_sending := 1\<rparr>), y_s := SUser ''hi'', y_ids := {''u''}\<rparr>" "''hi''" "''a''" o' 0]
        in \<open>simp add: announced_chat_def Let_def\<close>)
qed

text \<open>The turn comes into flight and its stream turn is registered.\<close>

definition in_flight :: "CTurn \<Rightarrow> string \<Rightarrow> chat \<Rightarrow> chat" where
  "in_flight t m y =
     y\<lparr>y_c := snd (streamSend_register ''id'' t (sending_done (beginTurn_set t m (y_c y)))), y_s := SWriting t m (cv_next (y_c y))\<rparr>"

lemma in_flight_reachable:
  assumes "reachable chat_init (chat_step o') y" and "y_s y = SAsst t m"
  shows "reachable chat_init (chat_step o') (in_flight t m y)"
proof -
  let ?R = "reachable chat_init (chat_step o')" and ?c = "beginTurn_set t m (y_c y)"
  have "?R (y\<lparr>y_c := ?c, y_s := SCurrent t m\<rparr>)"
    using assms send_step.current by (blast intro: chat_reach(2))
  then have "?R (y\<lparr>y_c := sending_done ?c, y_s := SReady t m\<rparr>)"
    by (rule chat_reach(2)) (use send_step.begun [of "y\<lparr>y_c := ?c, y_s := SCurrent t m\<rparr>" t m o'] in simp)
  moreover have "streamSend_register ''id'' t (sending_done ?c) = (Some (cv_next (y_c y)), snd (streamSend_register ''id'' t (sending_done ?c)))"
    by (simp add: streamSend_register_def sending_done_def beginTurn_set_def Let_def)
  ultimately show ?thesis unfolding in_flight_def
    using send_step.register [of "y\<lparr>y_c := sending_done ?c, y_s := SReady t m\<rparr>" t m "''id''" "Some (cv_next (y_c y))"
        "snd (streamSend_register ''id'' t (sending_done ?c))" o'] by (auto intro: chat_reach(2))
qed

text \<open>claude exits while no stream turn is known: up to the point where the exit waits for Sends.\<close>

definition exiting :: "chat \<Rightarrow> chat" where
  "exiting y =
     y\<lparr>y_eof := True, y_c := exit_done (exit_record (y_info y) (snd (exit_drop (exit_control (exit_stdin (y_c y)))))), y_xwork := [], y_x := XDone\<rparr>"

lemma exiting_reachable:
  assumes r: "reachable chat_init (chat_step o') y" and s: "y_x y = XRun" "y_reader y = []" "y_due y = None" "y_xwork y = []"
    "cv_turn (y_c y) = None" "cv_permission (y_c y) = None"
  shows "reachable chat_init (chat_step o') (exiting y)"
proof -
  let ?R = "reachable chat_init (chat_step o')" and ?c = "exit_control (exit_stdin (y_c y))"
  have drop: "exit_drop ?c = ([], snd (exit_drop ?c))"
    using s by (simp add: exit_drop_def exit_control_def exit_stdin_def finish_work_def Let_def)
  have "?R (y\<lparr>y_eof := True\<rparr>)" using chat_reach(1) [OF r reader_step.eof] s by simp
  then have "?R (y\<lparr>y_eof := True, y_c := exit_stdin (y_c y), y_x := XControl\<rparr>)"
    by (rule chat_reach(4)) (use exit_step.ended [of "y\<lparr>y_eof := True\<rparr>" o'] s in simp)
  then have "?R (y\<lparr>y_eof := True, y_c := ?c, y_x := XDrop\<rparr>)"
    by (rule chat_reach(4)) (use exit_step.control [of "y\<lparr>y_eof := True, y_c := exit_stdin (y_c y), y_x := XControl\<rparr>" o'] in simp)
  then have "?R (y\<lparr>y_eof := True, y_c := snd (exit_drop ?c), y_xwork := [], y_x := XWork\<rparr>)"
    by (rule chat_reach(4)) (use exit_step.dropped [of "y\<lparr>y_eof := True, y_c := ?c, y_x := XDrop\<rparr>" "[]" "snd (exit_drop ?c)" o'] drop in simp)
  then have "?R (y\<lparr>y_eof := True, y_c := exit_record (y_info y) (snd (exit_drop ?c)), y_xwork := [], y_x := XRecorded\<rparr>)"
    by (rule chat_reach(4))
      (use exit_step.recorded [of "y\<lparr>y_eof := True, y_c := snd (exit_drop ?c), y_xwork := [], y_x := XWork\<rparr>" o'] in \<open>simp add: chat_swap\<close>)
  then show ?thesis
    by (rule chat_reach(4))
      (use exit_step.done_closed [of "y\<lparr>y_eof := True, y_c := exit_record (y_info y) (snd (exit_drop ?c)), y_xwork := [], y_x := XRecorded\<rparr>" o'] s
        in \<open>simp add: exiting_def chat_swap\<close>)
qed

text \<open>
  C34: a Send that gives up (its context ends, or claude is slow to acknowledge) drops its stream turn
  with the Interrupt that waits on it. The schedule: a message is written, an Interrupt is accepted
  by claude, the Send gives up. From there on no frame, no exit and no other call ever finishes the
  operation the Interrupt waits for, which then returns only when its own context ends.
\<close>

theorem interrupt_orphaned:
  "\<exists>y p. reachable chat_init (chat_step o') y \<and> p \<in> y_waits y \<and> y_x y = XRun \<and>
     (\<forall>w. (chat_step o')\<^sup>*\<^sup>* y w \<longrightarrow> cv_ops (y_c w) p = None)"
proof -
  let ?R = "reachable chat_init (chat_step o')" and ?t = "assistant_turn o' ''a'' 0"
  let ?y = "in_flight ?t ''hi'' (announced_chat o' (\<lambda>_. undefined) undefined)"
  let ?c = "snd (streamWrite True (OutUser ''id'' ''hi'') (y_c ?y))"
  let ?d = "snd (streamInterrupt_begin ?c)"
  let ?z = "?y\<lparr>y_c := dropStreamTurn 0 ?d, y_s := SFail ?t ''ctx'', y_waits := {0}, y_ctl := {}\<rparr>"
  have y: "y_s ?y = SWriting ?t ''hi'' 0" "\<not> cv_stdinClosed (y_c ?y)" "cv_turn (y_c ?y) = Some 0" "st_uuid (cv_heap (y_c ?y) 0) = ''id''"
    "st_interrupt (cv_heap (y_c ?y) 0) = None" "cv_next_op (y_c ?y) = 0" "cv_currentTurn (y_c ?y) = Some ?t" "\<not> cv_closed (y_c ?y)"
    "y_ctl ?y = {}" "y_x ?y = XRun" "y_reader ?y = []" "y_xwork ?y = []" "cv_ops (y_c ?y) = (\<lambda>_. None)" "y_waits ?y = {}"
    by (simp_all add: in_flight_def announced_chat_def streamSend_register_def sending_done_def beginTurn_set_def emit_def
        new_chat_def new_conv_def assistant_turn_def Let_def)
  have c: "streamWrite True (OutUser ''id'' ''hi'') (y_c ?y) = (None, ?c)" "streamInterrupt_begin ?c = (IbNew 0, ?d)" "\<not> cv_closed ?c"
    using y by (simp_all add: streamWrite_def streamInterrupt_begin_def Let_def)
  have "?R ?y" by (rule in_flight_reachable [OF announced_reachable]) (simp add: announced_chat_def Let_def)
  then have "?R (?y\<lparr>y_c := ?c, y_s := SWaiting ?t 0\<rparr>)"
    by (rule chat_reach(2)) (use send_step.written [OF y(1), of True None ?c o'] c y in simp)
  then have "?R (?y\<lparr>y_c := ?d, y_s := SWaiting ?t 0, y_waits := {0}, y_ctl := {0}\<rparr>)"
    by (rule chat_reach(3)) (use call_step.interrupt [of "?y\<lparr>y_c := ?c, y_s := SWaiting ?t 0\<rparr>" "IbNew 0" ?d o'] c y in \<open>simp add: chat_swap\<close>)
  then have "?R (?y\<lparr>y_c := ?d, y_s := SWaiting ?t 0, y_waits := {0}, y_ctl := {}\<rparr>)"
    by (rule chat_reach(3))
      (use call_step.asked [of 0 "?y\<lparr>y_c := ?d, y_s := SWaiting ?t 0, y_waits := {0}, y_ctl := {0}\<rparr>" o'] in \<open>simp add: chat_pc\<close>)
  then have "?R (?y\<lparr>y_c := ?d, y_s := SDrop ?t 0 ''ctx'', y_waits := {0}, y_ctl := {}\<rparr>)"
    by (rule chat_reach(2))
      (use send_step.gives_up [of "?y\<lparr>y_c := ?d, y_s := SWaiting ?t 0, y_waits := {0}, y_ctl := {}\<rparr>" ?t 0 o' "''ctx''"] in \<open>simp add: chat_pc\<close>)
  then have r: "?R ?z"
    by (rule chat_reach(2))
      (use send_step.drop [of "?y\<lparr>y_c := ?d, y_s := SDrop ?t 0 ''ctx'', y_waits := {0}, y_ctl := {}\<rparr>" ?t 0 "''ctx''" o'] in \<open>simp add: chat_pc\<close>)
  have "cv_turn ?d = Some 0" "cv_next_op ?d = 1" "cv_ops ?d = (\<lambda>_. None)"
    using y by (simp_all add: streamWrite_def streamInterrupt_begin_def upd_stream_def Let_def)
  then have "orphan 0 ?z" using y by (simp add: orphan_def forgotten_def dropStreamTurn_def)
  then have "cv_ops (y_c w) 0 = None" if "(chat_step o')\<^sup>*\<^sup>* ?z w" for w
    using orphan_forever [OF that] by (simp add: orphan_def forgotten_def)
  moreover have "0 \<in> y_waits ?z" "y_x ?z = XRun" using y by simp_all
  ultimately show ?thesis using r by blast
qed

text \<open>A Send that comes late into a conversation that is exiting, and the exit's claim of its turn.\<close>

definition late :: "chatOpts \<Rightarrow> (nat \<Rightarrow> streamTurn) \<Rightarrow> ExitInfo \<Rightarrow> chat" where
  "late o' h info =
     (let y = in_flight (assistant_turn o' ''a'' 0) ''hi'' (exiting (announced_chat o' h info)); (ws, c) = exit_claim o' 0 (y_info y) (y_c y)
      in y\<lparr>y_c := c, y_xwork := ws, y_x := XClaimed\<rparr>)"

lemma late_reachable: "reachable chat_init (chat_step o') (late o' h info)"
proof -
  let ?R = "reachable chat_init (chat_step o')" and ?t = "assistant_turn o' ''a'' 0" and ?a = "announced_chat o' h info"
  let ?y = "in_flight ?t ''hi'' (exiting ?a)"
  have a: "y_x ?a = XRun" "y_reader ?a = []" "y_due ?a = None" "y_xwork ?a = []" "cv_turn (y_c ?a) = None"
    "cv_permission (y_c ?a) = None" "y_s ?a = SAsst ?t ''hi''" "cv_sending (y_c ?a) = 1"
    by (simp_all add: announced_chat_def new_chat_def new_conv_def emit_def Let_def)
  have e: "y_s (exiting ?a) = SAsst ?t ''hi''" "y_x ?y = XDone" using a by (simp_all add: exiting_def in_flight_def)
  have y: "cv_sending (y_c ?y) = 0"
    using a by (simp add: in_flight_def exiting_def streamSend_register_def sending_done_def beginTurn_set_def exit_done_def
        exit_record_def exit_drop_def exit_control_def exit_stdin_def Let_def)
  have "?R ?y" by (rule in_flight_reachable [OF exiting_reachable [OF announced_reachable] e(1)]) (use a in simp_all)
  then show ?thesis unfolding late_def Let_def
    by (rule chat_reach(4)) (use exit_step.claimed [OF e(2) y, of o' 0] in \<open>simp add: case_prod_unfold\<close>)
qed

lemmas late_defs = late_def in_flight_def exiting_def announced_chat_def exit_claim_def claimTurnLocked_def upd_stream_def
  streamSend_register_def sending_done_def beginTurn_set_def exit_done_def exit_record_def exit_drop_def exit_control_def
  exit_stdin_def emit_def new_chat_def new_conv_def Let_def

text \<open>
  an Interrupt can panic. claude exits while a Send has announced its turn and not yet registered
  its stream turn: the exit drops the protocol state first, the Send then puts both the turn in
  flight and its stream turn, and the exit's last claim takes only the first. The stream turn stays,
  and an Interrupt that finds it reads the id of a turn that is not there.
\<close>

lemma interrupt_panics:
  "\<exists>y. reachable chat_init (chat_step o') y \<and> \<not> cv_closed (y_c y) \<and> cv_exit (y_c y) \<noteq> None \<and>
     fst (streamInterrupt_begin (y_c y)) = IbPanic"
proof -
  let ?y = "late o' (\<lambda>_. undefined) undefined"
  have "\<not> cv_closed (y_c ?y)" "cv_exit (y_c ?y) \<noteq> None" "fst (streamInterrupt_begin (y_c ?y)) = IbPanic"
    by (simp_all add: late_defs streamInterrupt_begin_def)
  then show ?thesis using late_reachable by blast
qed

section \<open>Permission requests\<close>

text \<open>The option the policy or the handler chose for a permission request, if they chose one.\<close>

definition decided :: "chatOpts \<Rightarrow> InputRequest \<Rightarrow> string option" where
  "decided o' r =
     (case resolve (op_policy o') streamPermissionKind of
        Some d \<Rightarrow> if dp_kind d = Some DispositionAnswer then Some (dp_option d) else Option.bind (op_on_input o') (\<lambda>h. map_option ia_option (h r))
      | None \<Rightarrow> Option.bind (op_on_input o') (\<lambda>h. map_option ia_option (h r)))"

text \<open>
  C35: what becomes of a \<open>can_use_tool\<close> request. An option chosen by the policy or the handler is
  written to claude when it is \<open>allow\<close> or \<open>deny\<close>, and then nothing is surfaced; when nobody chose
  the request is surfaced and pending under claude's request id. Any other option is neither
  written nor surfaced: nothing is pending, and claude waits for an answer nobody will give. A
  policy that says \<open>deny\<close> (\<open>DispositionDeny\<close>) chooses nothing here: with no handler the request is
  surfaced.
\<close>

theorem stream_permission_outcome:
  assumes "sf_request f = Some a" and "ca_subtype a = ''can_use_tool''"
    and "onStreamControlRequest o' addr f c = (ws, c')"
  shows "(case decided o' (permission_request f a) of
        None \<Rightarrow> ws = [WEmit (EventInputRequest (permission_request f a))] \<and>
          (\<exists>p. cv_permission c' = Some p \<and> pm_request_id p = sf_request_id f \<and> pm_surfaced p)
      | Some i \<Rightarrow> c' = c \<and>
          (if i = ''allow'' then \<exists>input. ws = [WWrite (OutAllow (sf_request_id f) input)] \<and> input \<noteq> []
           else if i = ''deny'' then ws = [WWrite (OutDeny (sf_request_id f))] else ws = [])) \<and>
    (op_on_input o' = None \<and> map_option dp_kind (resolve (op_policy o') streamPermissionKind) = Some (Some DispositionDeny) \<longrightarrow>
      ws = [WEmit (EventInputRequest (permission_request f a))])"
  using assms
  by (auto simp: decided_def onStreamControlRequest_def answer_work_def answerStreamPermission_def Let_def
      split: option.splits if_splits)

section \<open>Witnesses\<close>

definition demo_opts :: chatOpts where
  "demo_opts = \<lparr>op_harness = ''claude'', op_session = ''s'', op_max_bytes = 1000, op_policy = None, op_on_input = None, op_resume = (\<lambda>_. 0)\<rparr>"

definition demo_exit :: ExitInfo where
  "demo_exit = \<lparr>ei_status = ''idle'', ei_exit_code = 0, ei_signal = [], ei_reason = [], ei_class = [], ei_ended = 0\<rparr>"

text \<open>The late Send again, to the end: its turn is published as errored, then the last event.\<close>

definition demo_over :: chat where
  "demo_over =
     (let y = late demo_opts (\<lambda>_. undefined) demo_exit; c = run_work demo_opts True True (hd (y_xwork y)) (y_c y)
      in y\<lparr>y_c := PushLast_exited demo_exit c, y_xwork := [], y_x := XOver\<rparr>)"

definition demo_asst :: "TurnState \<Rightarrow> string \<Rightarrow> ConversationEvent" where
  "demo_asst st r = EventTurn (zero_turn\<lparr>ct_id := ''a'', ct_session := ''s'', ct_role := RoleAssistant, ct_state := st, ct_reason := r\<rparr>) None"

lemma demo_late:
  "\<exists>w. y_xwork (late demo_opts h demo_exit) = [w] \<and> cv_ending (run_work demo_opts True True w (y_c (late demo_opts h demo_exit))) = 0"
  "y_x (late demo_opts h demo_exit) = XClaimed" "y_info (late demo_opts h demo_exit) = demo_exit"
  by (simp_all add: late_defs run_work_def finishTurn_def)

lemma demo_over_reachable: "reachable chat_init (chat_step demo_opts) demo_over"
proof -
  let ?R = "reachable chat_init (chat_step demo_opts)" and ?y = "late demo_opts (\<lambda>_. undefined) demo_exit"
  obtain w where w: "y_xwork ?y = [w]" "cv_ending (run_work demo_opts True True w (y_c ?y)) = 0" using demo_late(1) by blast
  let ?z = "?y\<lparr>y_c := run_work demo_opts True True w (y_c ?y), y_xwork := []\<rparr>"
  have "?R ?z" using chat_reach(4) [OF late_reachable exit_step.work] w demo_late(2) by blast
  then have "?R (?z\<lparr>y_c := PushLast_exited (y_info ?z) (y_c ?z), y_x := XOver\<rparr>)"
    by (rule chat_reach(4)) (rule exit_step.last, use w demo_late in simp_all)
  then show ?thesis using w demo_late by (simp add: demo_over_def Let_def chat_swap)
qed

lemma demo_over_events:
  "cv_events (y_c demo_over) =
     [EventTurn (zero_turn\<lparr>ct_id := ''u'', ct_session := ''s'', ct_state := TurnStateComplete, ct_text := ''hi''\<rparr>) None,
      demo_asst TurnStatePending [], demo_asst TurnStateErrored ''claude: harness exited (idle)''] @ EventExited demo_exit # []"
  by (simp add: demo_over_def late_defs run_work_def finishTurn_def PushLast_exited_def demo_opts_def demo_exit_def demo_asst_def
      emit_fit_def eventSize_def user_turn_def assistant_turn_def zero_turn_def)

theorem chat_turn_log_witness:
  "distinct (pend_ids (cv_events (y_c demo_over))) \<and> term_ids (cv_events (y_c demo_over)) = [''a''] \<and> ordered (cv_events (y_c demo_over))"
  using chat_turn_log [OF demo_over_reachable]
  by (simp add: demo_over_events demo_asst_def term_of_def zero_turn_def ends_turn_def)

theorem chat_exit_last_witness:
  "cv_exit (y_c demo_over) \<noteq> None \<and> term_ids (cv_events (y_c demo_over)) = [''a''] \<and> cv_currentTurn (y_c demo_over) = None"
  using chat_exit_last [OF demo_over_reachable demo_over_events]
  by (simp add: demo_over_events demo_asst_def term_of_def zero_turn_def ends_turn_def)

theorem interrupt_orphaned_witness:
  "\<exists>y p. reachable chat_init (chat_step demo_opts) y \<and> p \<in> y_waits y \<and> cv_ops (y_c y) p = None"
  using interrupt_orphaned [of demo_opts] by blast

definition demo_ask :: streamFrame where
  "demo_ask =
     \<lparr>sf_type = ''control_request'', sf_subtype = [], sf_session_id = [], sf_capabilities = [], sf_mode = [], sf_version = [], sf_attempt = 0,
      sf_max_retries = 0, sf_retry_delay = 0, sf_error_status = 0, sf_error = [], sf_state = [], sf_command_uuid = [],
      sf_event = None, sf_blocks = [], sf_parent = [], sf_is_error = False, sf_result = [], sf_terminal = [], sf_http = 0,
      sf_request_id = ''r1'',
      sf_request = Some \<lparr>ca_subtype = ''can_use_tool'', ca_tool = ''Bash'', ca_display = [], ca_description = [], ca_input = [], ca_blocked = []\<rparr>,
      sf_response = None, sf_rate_limit = None\<rparr>"

text \<open>A policy that answers with the TUI's option is lost on the stream.\<close>

theorem stream_permission_outcome_witness:
  "onStreamControlRequest (demo_opts\<lparr>op_policy := Some \<lparr>ip_default = None, ip_by_kind = [''permission_prompt'' \<mapsto>
     \<lparr>dp_kind = Some DispositionAnswer, dp_option = ''yes'', dp_text = []\<rparr>]\<rparr>\<rparr>) 0 demo_ask (new_conv (\<lambda>_. undefined)) = ([], new_conv (\<lambda>_. undefined))"
  using stream_permission_outcome [of demo_ask _ "demo_opts\<lparr>op_policy := Some \<lparr>ip_default = None, ip_by_kind = [''permission_prompt'' \<mapsto>
     \<lparr>dp_kind = Some DispositionAnswer, dp_option = ''yes'', dp_text = []\<rparr>]\<rparr>\<rparr>" 0 "new_conv (\<lambda>_. undefined)", OF _ _ prod.collapse [symmetric]]
  by (auto simp: demo_ask_def decided_def resolve_def streamPermissionKind_def prod_eq_iff)

end
