(* ===== verification/Turns_Core.thy ===== *)
theory Turns_Core
  imports Wrap_Harnesses
begin

text \<open>
  The vocabulary of \<^verbatim>\<open>pkg/turns\<close>: turn events, interactive requests and their options, what an answer waits for; the
  generic adapter, which reads the wrapper's status only; the tracker of the dialog on screen
  (\<^verbatim>\<open>internal/inputtrack\<close>); and the intent of a menu label (\<^verbatim>\<open>internal/menu\<close>). The locale \<open>screen_adapter\<close> is the
  contract of an adapter's \<^verbatim>\<open>OnScreen\<close> towards its requests; the adapters of Claude Code and Codex interpret it.
\<close>

section \<open>Data\<close>

datatype TKind = TurnComplete | ToolCall | Blocked | Errored | InputRequested | InputResolved

record TOption =
  o_ID :: string
  o_Alias :: string
  o_Label :: string
  o_Description :: string
  o_Keys :: string
  o_Highlighted :: bool
  o_Checked :: bool
  o_Typed :: string

record TRequest =
  q_ID :: string
  q_Kind :: string
  q_Prompt :: string
  q_Header :: string
  q_MultiSelect :: bool
  q_Options :: "TOption list"

record Snapshot =
  sn_Text :: string
  sn_CursorCol :: int
  sn_CursorRow :: int

text \<open>A time is a number of nanoseconds; \<open>None\<close> is the zero \<^verbatim>\<open>time.Time\<close>.\<close>

record TurnEvent =
  te_Kind :: TKind
  te_At :: "int option"
  te_Reason :: string
  te_Snap :: "Snapshot option"
  te_HTTPCode :: int
  te_RetryAfter :: int
  te_Input :: "TRequest option"

definition zero_option :: TOption where
  "zero_option = \<lparr>o_ID = [], o_Alias = [], o_Label = [], o_Description = [], o_Keys = [], o_Highlighted = False,
     o_Checked = False, o_Typed = []\<rparr>"

definition zero_request :: TRequest where
  "zero_request = \<lparr>q_ID = [], q_Kind = [], q_Prompt = [], q_Header = [], q_MultiSelect = False, q_Options = []\<rparr>"

definition turn_event :: "TKind \<Rightarrow> string \<Rightarrow> TurnEvent" where
  "turn_event k reason = \<lparr>te_Kind = k, te_At = None, te_Reason = reason, te_Snap = None, te_HTTPCode = 0,
     te_RetryAfter = 0, te_Input = None\<rparr>"

datatype DialogState = DialogNone | DialogPending | DialogUnparseable | DialogReadable

datatype EvidenceKind = EvidenceGone | EvidenceHighlighted | EvidenceUnhighlighted | EvidenceChecked | EvidenceTyped

record AnswerEvidence =
  ev_Kind :: EvidenceKind
  ev_OptionID :: string
  ev_Text :: string

record AnswerStep =
  st_After :: int
  st_Keys :: string
  st_Until :: AnswerEvidence

datatype TInterruptOutcome = InterruptPending | InterruptStopped | InterruptCancelled | InterruptFinished

record PermissionPosture =
  pp_Rung :: string
  pp_Native :: string
  pp_OnRing :: bool

section \<open>The wrapper's status\<close>

text \<open>\<open>generic.Adapter\<close>, which every adapter embeds.\<close>

definition OnWrapperStatus :: "string \<Rightarrow> string \<Rightarrow> TurnEvent list" where
  "OnWrapperStatus status reason =
     (if status = StatusWaitingForInput then [turn_event TurnComplete reason]
      else if status \<in> {StatusBlockedByCost, StatusRetryLater, StatusAPIError} then [turn_event Blocked reason]
      else if status \<in> {StatusFailed, StatusInterrupted} then [turn_event Errored reason]
      else if status = StatusIdle then [turn_event Errored ''harness exited'']
      else [])"

text \<open>What \<^verbatim>\<open>StatusEvents\<close> reads of a \<^verbatim>\<open>wrapper.SessionEvent\<close>.\<close>

record StatusEvent =
  sv_Status :: string
  sv_Reason :: string
  sv_At :: "int option"
  sv_HTTPCode :: int
  sv_RetryAfter :: int

definition enrichFromStatus :: "TurnEvent \<Rightarrow> StatusEvent \<Rightarrow> TurnEvent" where
  "enrichFromStatus te ev =
     te\<lparr>te_At := (if te_At te = None then sv_At ev else te_At te),
        te_HTTPCode := (if te_HTTPCode te = 0 then sv_HTTPCode ev else te_HTTPCode te),
        te_RetryAfter := (if te_RetryAfter te = 0 then sv_RetryAfter ev else te_RetryAfter te)\<rparr>"

definition StatusEvents :: "StatusEvent \<Rightarrow> TurnEvent list" where
  "StatusEvents ev = map (\<lambda>te. enrichFromStatus te ev) (OnWrapperStatus (sv_Status ev) (sv_Reason ev))"

definition enrichFromScreen :: "int \<Rightarrow> TurnEvent \<Rightarrow> Snapshot \<Rightarrow> TurnEvent" where
  "enrichFromScreen now te snap =
     te\<lparr>te_At := (if te_At te = None then Some now else te_At te),
        te_Snap := (if te_Snap te = None then Some snap else te_Snap te)\<rparr>"

text \<open>The body of \<^verbatim>\<open>pumpScreen\<close>, over the snapshots it reads with the time of each.\<close>

fun pumpScreen :: "('st \<Rightarrow> Snapshot \<Rightarrow> TurnEvent list \<times> 'st) \<Rightarrow> 'st \<Rightarrow> (int \<times> Snapshot) list \<Rightarrow> TurnEvent list \<times> 'st" where
  "pumpScreen onScreen a [] = ([], a)"
| "pumpScreen onScreen a ((now, snap) # rest) =
     (let (evs, a') = onScreen a snap; (more_evs, a'') = pumpScreen onScreen a' rest
      in (map (\<lambda>te. enrichFromScreen now te snap) evs @ more_evs, a''))"

section \<open>The tracker of the dialog on screen\<close>

record Tracker =
  tr_lastID :: string
  tr_last :: "TRequest option"

definition new_tracker :: Tracker where
  "new_tracker = \<lparr>tr_lastID = [], tr_last = None\<rparr>"

definition tracker_resolve :: "string \<Rightarrow> Tracker \<Rightarrow> TurnEvent list \<times> Tracker" where
  "tracker_resolve pre t =
     (if tr_lastID t = [] then ([], t)
      else
        let resolved = (case tr_last t of Some r \<Rightarrow> r | None \<Rightarrow> zero_request\<lparr>q_ID := tr_lastID t\<rparr>)
        in ([(turn_event InputResolved (pre @ ''input resolved''))\<lparr>te_Input := Some resolved\<rparr>], new_tracker))"

definition tracker_Observe :: "TRequest option \<Rightarrow> string \<Rightarrow> Tracker \<Rightarrow> TurnEvent list \<times> Tracker" where
  "tracker_Observe req pre t =
     (case req of
        Some r \<Rightarrow>
          if q_ID r = tr_lastID t then ([], t)
          else
            let (out, t1) = tracker_resolve pre t
            in (out @ [(turn_event InputRequested (pre @ q_Prompt r))\<lparr>te_Input := Some r\<rparr>],
                t1\<lparr>tr_lastID := q_ID r, tr_last := Some r\<rparr>)
      | None \<Rightarrow> tracker_resolve pre t)"

section \<open>The intent of a menu label\<close>

definition proceedWords :: "string list" where
  "proceedWords = [''proceed'', ''accept'', ''trust'', ''continue'', ''allow'', ''approve'']"

definition firstWord :: "string \<Rightarrow> string" where
  "firstWord l = takeWhile is_lower l"

definition containsAny :: "string \<Rightarrow> string list \<Rightarrow> bool" where
  "containsAny s subs = list_ex (\<lambda>sub. sublist sub s) subs"

definition dont :: string where
  "dont = ''don'' @ apostrophe @ ''t''"

definition IntentAlias :: "string \<Rightarrow> string" where
  "IntentAlias label =
     (let l = go_lower (trim_space label) in
      if firstWord l = ''yes'' then ''proceed''
      else if firstWord l = ''no'' then ''deny''
      else if list_ex (\<lambda>neg. list_ex (\<lambda>verb. sublist (neg @ verb) l) proceedWords) [dont @ '' '', ''do not '', ''not '']
      then ''deny''
      else if containsAny l proceedWords then ''proceed''
      else if containsAny l [''exit'', ''deny'', ''reject'', ''cancel'', ''quit'', dont, ''do not''] then ''deny''
      else [])"

section \<open>The identity of a request\<close>

text \<open>
  \<open>inputID\<close> and \<open>inputFingerprint\<close> are the first eight bytes of a SHA-256 sum in hexadecimal. The sum is a
  parameter: \<open>sum8 s\<close> is those bytes of the sum of \<open>s\<close>, as a number.
\<close>

definition hex_digit :: "nat \<Rightarrow> char" where
  "hex_digit n = char_of (if n < 10 then 48 + n else 87 + n)"

definition hex8 :: "nat \<Rightarrow> string" where
  "hex8 n = map (\<lambda>i. hex_digit (n div 16 ^ i mod 16)) (rev [0 ..< 16])"

definition inputID :: "(string \<Rightarrow> nat) \<Rightarrow> TRequest \<Rightarrow> string" where
  "inputID sum8 req =
     hex8 (sum8 (q_Kind req @ [CHR 0x00] @ q_Prompt req @ concat (map (\<lambda>opt. CHR 0x00 # o_Label opt) (q_Options req))))"

lemma length_hex8 [simp]: "length (hex8 n) = 16"
  by (simp add: hex8_def)

lemma inputID_ne [simp]: "inputID sum8 req \<noteq> []"
  by (metis inputID_def length_0_conv length_hex8 zero_neq_numeral)

lemma inputID_cong:
  "q_Kind r = q_Kind r' \<Longrightarrow> q_Prompt r = q_Prompt r' \<Longrightarrow> map o_Label (q_Options r) = map o_Label (q_Options r') \<Longrightarrow>
     inputID sum8 r = inputID sum8 r'"
proof -
  have l: "map (\<lambda>opt. CHR 0x00 # o_Label opt) os = map (\<lambda>l. CHR 0x00 # l) (map o_Label os)" for os by simp
  show "q_Kind r = q_Kind r' \<Longrightarrow> q_Prompt r = q_Prompt r' \<Longrightarrow> map o_Label (q_Options r) = map o_Label (q_Options r') \<Longrightarrow>
     inputID sum8 r = inputID sum8 r'"
    unfolding inputID_def l by simp
qed

section \<open>Every request is resolved\<close>

text \<open>
  A consumer of the events has at most one request pending: \<open>balanced p\<close> says that, with \<open>p\<close> pending, each
  \<open>InputRequested\<close> finds none pending and each \<open>InputResolved\<close> names the one that is. \<open>pending_after\<close> is what the consumer
  has pending at the end.
\<close>

fun balanced :: "TRequest option \<Rightarrow> TurnEvent list \<Rightarrow> bool" where
  "balanced p [] = True"
| "balanced p (e # es) =
     (case te_Kind e of
        InputRequested \<Rightarrow> p = None \<and> te_Input e \<noteq> None \<and> balanced (te_Input e) es
      | InputResolved \<Rightarrow> p \<noteq> None \<and> te_Input e = p \<and> balanced None es
      | _ \<Rightarrow> balanced p es)"

fun pending_after :: "TRequest option \<Rightarrow> TurnEvent list \<Rightarrow> TRequest option" where
  "pending_after p [] = p"
| "pending_after p (e # es) =
     (case te_Kind e of
        InputRequested \<Rightarrow> pending_after (te_Input e) es
      | InputResolved \<Rightarrow> pending_after None es
      | _ \<Rightarrow> pending_after p es)"

definition input_event :: "TurnEvent \<Rightarrow> bool" where
  "input_event e \<longleftrightarrow> te_Kind e \<in> {InputRequested, InputResolved}"

definition tracker_ok :: "Tracker \<Rightarrow> bool" where
  "tracker_ok t \<longleftrightarrow> (case tr_last t of None \<Rightarrow> tr_lastID t = [] | Some r \<Rightarrow> tr_lastID t = q_ID r \<and> q_ID r \<noteq> [])"

lemma balanced_append: "balanced p (xs @ ys) \<longleftrightarrow> balanced p xs \<and> balanced (pending_after p xs) ys"
  by (induction xs arbitrary: p) (auto split: TKind.splits)

lemma pending_after_append: "pending_after p (xs @ ys) = pending_after (pending_after p xs) ys"
  by (induction xs arbitrary: p) (auto split: TKind.splits)

lemma balanced_others: "list_all (\<lambda>e. \<not> input_event e) es \<Longrightarrow> balanced p es \<and> pending_after p es = p"
  by (induction es) (auto simp: input_event_def split: TKind.splits)

lemma enrichFromScreen_keeps [simp]:
  "te_Kind (enrichFromScreen now te snap) = te_Kind te" "te_Input (enrichFromScreen now te snap) = te_Input te"
  "te_Reason (enrichFromScreen now te snap) = te_Reason te"
  by (simp_all add: enrichFromScreen_def)

lemma balanced_enriched [simp]:
  "balanced p (map (\<lambda>te. enrichFromScreen now te snap) es) = balanced p es"
  "pending_after p (map (\<lambda>te. enrichFromScreen now te snap) es) = pending_after p es"
  by (induction es arbitrary: p) (auto split: TKind.splits)

lemma tracker_ok_new [simp]: "tracker_ok new_tracker" "tr_last new_tracker = None" "tr_lastID new_tracker = []"
  by (simp_all add: tracker_ok_def new_tracker_def)

lemma tracker_resolve_balanced:
  "tracker_ok t \<Longrightarrow> tracker_resolve pre t = (evs, t') \<Longrightarrow>
     balanced (tr_last t) evs \<and> pending_after (tr_last t) evs = None \<and> tr_last t' = None \<and> tr_lastID t' = []"
  by (auto simp: tracker_resolve_def tracker_ok_def turn_event_def Let_def split: option.splits if_splits)

lemma tracker_Observe_balanced:
  assumes "tracker_ok t" and "\<And>r. req = Some r \<Longrightarrow> q_ID r \<noteq> []" and "tracker_Observe req pre t = (evs, t')"
  shows "balanced (tr_last t) evs \<and> pending_after (tr_last t) evs = tr_last t' \<and> tracker_ok t' \<and>
    map_option q_ID (tr_last t') = map_option q_ID req"
proof (cases req)
  case None
  then show ?thesis using tracker_resolve_balanced [OF assms(1)] assms(3) by (auto simp: tracker_Observe_def tracker_ok_def)
next
  case (Some r)
  show ?thesis
  proof (cases "q_ID r = tr_lastID t")
    case True
    then show ?thesis using assms Some by (auto simp: tracker_Observe_def tracker_ok_def split: option.splits)
  next
    case False
    obtain out t1 where res: "tracker_resolve pre t = (out, t1)" by (cases "tracker_resolve pre t")
    have b: "balanced (tr_last t) out" "pending_after (tr_last t) out = None"
      using tracker_resolve_balanced [OF assms(1) res] by simp_all
    have e: "evs = out @ [(turn_event InputRequested (pre @ q_Prompt r))\<lparr>te_Input := Some r\<rparr>]"
      "t' = t1\<lparr>tr_lastID := q_ID r, tr_last := Some r\<rparr>"
      using assms(3) Some False res by (simp_all add: tracker_Observe_def)
    show ?thesis using assms(2) Some b
      by (simp add: e balanced_append pending_after_append turn_event_def tracker_ok_def)
  qed
qed

text \<open>
  The contract of an adapter that reports dialogs: its input events for a screen are what its tracker makes of
  the request it reads there, and every request has an ID.
\<close>

locale screen_adapter =
  fixes onScreen :: "'st \<Rightarrow> Snapshot \<Rightarrow> TurnEvent list \<times> 'st"
    and inputs :: "'st \<Rightarrow> Tracker"
    and request :: "Snapshot \<Rightarrow> TRequest option"
    and label :: string
  assumes observes: "onScreen a snap = (evs, a') \<Longrightarrow>
      \<exists>xs obs ys. evs = xs @ obs @ ys \<and> list_all (\<lambda>e. \<not> input_event e) xs \<and> list_all (\<lambda>e. \<not> input_event e) ys \<and>
        tracker_Observe (request snap) label (inputs a) = (obs, inputs a')"
    and named: "request snap = Some r \<Longrightarrow> q_ID r \<noteq> []"
begin

lemma screen_balanced:
  assumes "tracker_ok (inputs a)" and "onScreen a snap = (evs, a')"
  shows "balanced (tr_last (inputs a)) evs \<and> pending_after (tr_last (inputs a)) evs = tr_last (inputs a') \<and>
    tracker_ok (inputs a') \<and> map_option q_ID (tr_last (inputs a')) = map_option q_ID (request snap)"
proof -
  obtain xs obs ys where e: "evs = xs @ obs @ ys" and other: "list_all (\<lambda>e. \<not> input_event e) xs" "list_all (\<lambda>e. \<not> input_event e) ys"
    and t: "tracker_Observe (request snap) label (inputs a) = (obs, inputs a')"
    using observes [OF assms(2)] by blast
  have "balanced (tr_last (inputs a)) obs \<and> pending_after (tr_last (inputs a)) obs = tr_last (inputs a') \<and>
    tracker_ok (inputs a') \<and> map_option q_ID (tr_last (inputs a')) = map_option q_ID (request snap)"
    using tracker_Observe_balanced [OF assms(1) named [of snap] t] by simp
  then show ?thesis using balanced_others [OF other(1)] balanced_others [OF other(2)]
    by (simp add: e balanced_append pending_after_append)
qed

lemma pump_balanced:
  "tracker_ok (inputs a) \<Longrightarrow> pumpScreen onScreen a snaps = (evs, a') \<Longrightarrow>
     balanced (tr_last (inputs a)) evs \<and> pending_after (tr_last (inputs a)) evs = tr_last (inputs a') \<and>
     tracker_ok (inputs a') \<and>
     (snaps \<noteq> [] \<longrightarrow> map_option q_ID (tr_last (inputs a')) = map_option q_ID (request (snd (last snaps))))"
proof (induction snaps arbitrary: a evs a')
  case (Cons s rest)
  obtain now snap where s: "s = (now, snap)" by (cases s)
  obtain es a1 where one: "onScreen a snap = (es, a1)" by (cases "onScreen a snap")
  obtain es' where rest: "pumpScreen onScreen a1 rest = (es', a')" and evs: "evs = map (\<lambda>te. enrichFromScreen now te snap) es @ es'"
    using Cons.prems(2) one by (auto simp: s split: prod.splits)
  note here = screen_balanced [OF Cons.prems(1) one]
  show ?case
  proof (cases "rest = []")
    case True
    then show ?thesis using rest here by (simp add: evs s)
  next
    case False
    then show ?thesis using Cons.IH [OF _ rest] here by (simp add: evs balanced_append pending_after_append)
  qed
qed simp

end

section \<open>Turns are reported once\<close>

text \<open>The reasons of the completions reported, and the markers of the screens that have one, in order.\<close>

definition completions :: "TurnEvent list \<Rightarrow> string list" where
  "completions evs = map te_Reason (filter (\<lambda>e. te_Kind e = TurnComplete) evs)"

lemma completions_append [simp]: "completions (xs @ ys) = completions xs @ completions ys"
  by (simp add: completions_def)

lemma completions_enriched [simp]: "completions (map (\<lambda>te. enrichFromScreen now te snap) es) = completions es"
  by (induction es) (auto simp: completions_def)

lemma completions_none: "list_all (\<lambda>e. te_Kind e \<noteq> TurnComplete) es \<Longrightarrow> completions es = []"
  by (induction es) (auto simp: completions_def)

lemma tracker_no_completion: "tracker_Observe req label t = (obs, t') \<Longrightarrow> completions obs = []"
  by (rule completions_none)
    (auto simp: tracker_Observe_def tracker_resolve_def turn_event_def Let_def split: option.splits if_splits prod.splits)

definition markers :: "(Snapshot \<Rightarrow> string option) \<Rightarrow> (int \<times> Snapshot) list \<Rightarrow> string list" where
  "markers marker snaps = List.map_filter (\<lambda>(_, snap). marker snap) snaps"

lemma markers_simps [simp]:
  "markers marker [] = []"
  "markers marker ((now, snap) # rest) = (case marker snap of Some m \<Rightarrow> m # markers marker rest | None \<Rightarrow> markers marker rest)"
  by (simp_all add: markers_def List.map_filter_simps split: option.splits)

text \<open>
  The contract of an adapter that knows the end of a turn by a marker on the screen: it reports a marker that is
  not the last one it reported, and remembers it.
\<close>

locale turn_reporter =
  fixes onScreen :: "'st \<Rightarrow> Snapshot \<Rightarrow> TurnEvent list \<times> 'st"
    and fingerprint :: "'st \<Rightarrow> string"
    and marker :: "Snapshot \<Rightarrow> string option"
    and label :: string
  assumes reports: "onScreen a snap = (evs, a') \<Longrightarrow>
      completions evs = (case marker snap of Some m \<Rightarrow> if m \<noteq> fingerprint a then [label @ m] else [] | None \<Rightarrow> []) \<and>
      fingerprint a' = (case marker snap of Some m \<Rightarrow> m | None \<Rightarrow> fingerprint a)"
begin

lemma pump_completions:
  "pumpScreen onScreen a snaps = (evs, a') \<Longrightarrow>
     completions evs = map ((@) label) (tl (remdups_adj (fingerprint a # markers marker snaps)))"
proof (induction snaps arbitrary: a evs)
  case (Cons s rest)
  obtain now snap where s: "s = (now, snap)" by (cases s)
  obtain es a1 where one: "onScreen a snap = (es, a1)" by (cases "onScreen a snap")
  obtain es' where rest: "pumpScreen onScreen a1 rest = (es', a')"
      and evs: "evs = map (\<lambda>te. enrichFromScreen now te snap) es @ es'"
    using Cons.prems one by (auto simp: s split: prod.splits)
  note here = reports [OF one] and tail = Cons.IH [OF rest]
  show ?case
  proof (cases "marker snap")
    case None
    then show ?thesis using here tail by (simp add: evs s)
  next
    case (Some m)
    have now: "completions evs = completions es @ map ((@) label) (tl (remdups_adj (m # markers marker rest)))"
      using here tail Some by (simp add: evs)
    show ?thesis
    proof (cases "m = fingerprint a")
      case True
      then show ?thesis using here Some now by (simp add: s)
    next
      case False
      then have skip: "tl (remdups_adj (fingerprint a # m # markers marker rest)) = m # tl (remdups_adj (m # markers marker rest))"
        by simp
      moreover have "markers marker (s # rest) = m # markers marker rest" using Some by (simp add: s)
      moreover have "completions es = [label @ m]" using here Some False by simp
      ultimately show ?thesis unfolding now by (simp only: append_Cons append_Nil list.map)
    qed
  qed
qed (simp add: completions_def)

end

end
