(* ===== verification/Turns_Claude_Screen.thy ===== *)
theory Turns_Claude_Screen
  imports Turns_Core
begin

text \<open>
  How Claude Code's rendered screen is read (\<^verbatim>\<open>pkg/turns/harness/claudecode\<close>): its expressions, the status region above
  and below the composer and whether it is busy, the last reply, the permission footer, and what became of an
  interrupted turn. The categories \<^verbatim>\<open>Lu\<close> and \<^verbatim>\<open>L\<close> of Unicode are parameters, as lists of encoded runes.
\<close>

record unicode =
  u_Lu :: "string list"
  u_L :: "string list"

section \<open>Expressions\<close>

definition selectorGlyph :: string where "selectorGlyph = utf8 0x276F"

definition middot :: item where "middot = Runes [utf8 0xB7]"

definition spinnerGlyph :: item where
  "spinnerGlyph = Runes (map utf8 [0xB7, 0x2722, 0x2733, 0x2736, 0x273B, 0x273D])"

definition not_eol :: item where "not_eol = NotIn [CR, LF]"

definition not_space :: item where "not_space = NotIn [CHR 0x09, LF, CHR 0x0C, CR, CHR '' '']"

definition hms :: item where "hms = Runes [''h'', ''m'', ''s'']"

definition ellipsis_re :: re where
  "ellipsis_re = Alt (One (Runes [utf8 0x2026])) (exact ''...'')"

definition thinkingRE :: "unicode \<Rightarrow> re" where
  "thinkingRE u =
     seq [Bol, Star hspace,
       Group 1 (seq [exact (utf8 0x273B @ '' ''), One (Runes (u_Lu u)), Plus (Runes (u_L u)), exact '' for '', Plus digit_item, One hms,
         Many (seq [exact '' '', Plus digit_item, One hms])]),
       Opt (seq [Star hspace, One middot, Star hspace, Star not_eol]), Star hspace, Eol]"

definition hex_item :: item where
  "hex_item = Runes (map (\<lambda>c. [c]) ''0123456789abcdefABCDEF'')"

definition uuid_re :: re where
  "uuid_re = seq [times_re 8 hex_item, exact ''-'', times_re 4 hex_item, exact ''-'', times_re 4 hex_item, exact ''-'',
     times_re 4 hex_item, exact ''-'', times_re 12 hex_item]"

definition resumeRE :: re where
  "resumeRE = Cat (exact ''claude --resume '') (Group 1 uuid_re)"

definition bulletRE :: re where
  "bulletRE = seq [Bot, Star hspace, One (Runes (map utf8 [0x23FA, 0x25CF])), exact '' '', Group 1 (Star any_rune), Eot]"

definition effortLineRE :: re where
  "effortLineRE = seq [exact ''/effort'', Star hspace, Eot]"

definition toolResultRE :: re where
  "toolResultRE = seq [Bot, Star hspace, exact (utf8 0x23BF)]"

definition boxOrRuleRE :: re where
  "boxOrRuleRE = seq [Bot, Star hspace,
     One (Runes (map utf8 [0x2500, 0x2501, 0x256D, 0x256E, 0x2570, 0x256F, 0x2502, 0x250C, 0x2510, 0x2514, 0x2518]))]"

definition workingRE :: re where
  "workingRE = seq [ellipsis_re, Star hspace, exact ''('', Plus digit_item, One hms, Star (NotIn [CHR '')'', CR, LF]), One middot]"

definition spinnerLineRE :: re where
  "spinnerLineRE = seq [Bot, Star hspace, One spinnerGlyph, Plus hspace, One not_space, Star not_eol, ellipsis_re]"

definition retryLineRE :: re where
  "retryLineRE = seq [Bol, Star hspace, One spinnerGlyph, Plus hspace, Star not_eol, One middot, Star hspace,
     exact ''Retrying in '', Plus digit_item]"

definition waitingLineRE :: re where
  "waitingLineRE = seq [Bol, Star hspace, One spinnerGlyph, Plus hspace, exact ''Waiting for '', Plus digit_item,
     exact '' background agent'', Opt (exact ''s''), exact '' to finish'']"

definition composerRuleRE :: re where
  "composerRuleRE =
     seq [Bot, Star hspace, times_re 8 (Runes [utf8 0x2500]), Star (Runes [utf8 0x2500]), Star hspace, Eot]"

definition busyMarker :: string where "busyMarker = ''esc to interrupt''"

section \<open>Rows\<close>

text \<open>The last row of a range that satisfies a condition.\<close>

definition last_row :: "nat \<Rightarrow> nat \<Rightarrow> (string \<Rightarrow> bool) \<Rightarrow> string list \<Rightarrow> nat option" where
  "last_row from to P lines = find (\<lambda>i. P (lines ! i)) (rev [from ..< to])"

definition slice_rows :: "string list \<Rightarrow> nat \<Rightarrow> nat \<Rightarrow> string list" where
  "slice_rows lines from to = take (to - from) (drop from lines)"

lemma last_row_Some:
  "last_row from to P lines = Some i \<Longrightarrow> from \<le> i \<and> i < to \<and> P (lines ! i) \<and> (\<forall>j. i < j \<and> j < to \<longrightarrow> \<not> P (lines ! j))"
proof (induction to)
  case (Suc to)
  show ?case
  proof (cases "from \<le> to \<and> P (lines ! to)")
    case True
    then show ?thesis using Suc.prems by (auto simp: last_row_def)
  next
    case False
    then have "last_row from to P lines = Some i" using Suc.prems by (auto simp: last_row_def split: if_splits)
    then show ?thesis using Suc.IH False by (auto simp: less_Suc_eq)
  qed
qed (simp add: last_row_def)

lemma last_row_None: "last_row from to P lines = None \<longleftrightarrow> (\<forall>j. from \<le> j \<and> j < to \<longrightarrow> \<not> P (lines ! j))"
  by (auto simp: last_row_def find_None_iff)

lemma last_row_eq:
  "from \<le> i \<Longrightarrow> i < to \<Longrightarrow> P (lines ! i) \<Longrightarrow> (\<And>j. i < j \<Longrightarrow> j < to \<Longrightarrow> \<not> P (lines ! j)) \<Longrightarrow> last_row from to P lines = Some i"
proof (cases "last_row from to P lines")
  case (Some k)
  assume "from \<le> i" "i < to" "P (lines ! i)" and above: "\<And>j. i < j \<Longrightarrow> j < to \<Longrightarrow> \<not> P (lines ! j)"
  then show ?thesis using last_row_Some [OF Some] by (metis Some linorder_neqE_nat)
qed (auto simp: last_row_None)

section \<open>The status region\<close>

definition maxComposerLines :: nat where "maxComposerLines = 12"

definition statusRegion :: "string \<Rightarrow> (string \<times> string list) option" where
  "statusRegion text =
     (let lines = split_on LF text in
      case last_row 0 (length lines) (MatchString composerRuleRE) lines of
        None \<Rightarrow> None
      | Some bottom \<Rightarrow>
          (case last_row (bottom - maxComposerLines - 1) bottom (MatchString composerRuleRE) lines of
             None \<Rightarrow> None
           | Some upper \<Rightarrow>
               let status =
                 (case last_row 0 upper (\<lambda>ln. \<not> (trim_space ln = [] \<or> MatchString effortLineRE (trim_space ln))) lines of
                    Some i \<Rightarrow> lines ! i | None \<Rightarrow> [])
               in Some (status, drop (bottom + 1) lines)))"

definition claude_Busy :: "string \<Rightarrow> bool" where
  "claude_Busy text =
     (case statusRegion text of
        None \<Rightarrow> sublist busyMarker text \<or> MatchString workingRE text \<or> MatchString retryLineRE text \<or> MatchString waitingLineRE text
      | Some (status, footer) \<Rightarrow>
          list_ex (sublist busyMarker) footer \<or> MatchString spinnerLineRE status \<or> MatchString retryLineRE status \<or>
          MatchString waitingLineRE status)"

section \<open>The last reply\<close>

definition isBullet :: "string \<Rightarrow> bool" where
  "isBullet ln \<longleftrightarrow> MatchString bulletRE ln \<and> \<not> MatchString effortLineRE ln"

definition lastThinkingFooter :: "unicode \<Rightarrow> string list \<Rightarrow> nat" where
  "lastThinkingFooter u lines =
     (case last_row 0 (length lines) (MatchString (thinkingRE u)) lines of Some i \<Rightarrow> i | None \<Rightarrow> length lines)"

definition lastBulletStart :: "string list \<Rightarrow> nat \<Rightarrow> nat option" where
  "lastBulletStart lines limit =
     (case last_row 0 limit isBullet lines of
        Some i \<Rightarrow> Some i
      | None \<Rightarrow> last_row 0 (length lines) isBullet lines)"

definition isBlockBoundary :: "unicode \<Rightarrow> string \<Rightarrow> bool" where
  "isBlockBoundary u ln \<longleftrightarrow>
     isBullet ln \<or> MatchString toolResultRE ln \<or> MatchString boxOrRuleRE ln \<or> MatchString (thinkingRE u) ln \<or>
     prefix selectorGlyph (trim_left_set '' '' ln)"

text \<open>The text after the bullet. A row that is no bullet would be an index panic; \<open>bullet_rows\<close> below shows there is none.\<close>

definition bulletText :: "string \<Rightarrow> string" where
  "bulletText ln = (case FindStringSubmatch bulletRE ln of Some m \<Rightarrow> m 1 | None \<Rightarrow> [])"

fun block_rest :: "unicode \<Rightarrow> string list \<Rightarrow> string list" where
  "block_rest u [] = []"
| "block_rest u (ln # lns) =
     (if isBlockBoundary u ln then []
      else (if trim_space ln = [] then [] else trim_right_set '' '' ln) # block_rest u lns)"

definition collectBlock :: "unicode \<Rightarrow> string list \<Rightarrow> nat \<Rightarrow> string list" where
  "collectBlock u lines start =
     trim_right_set '' '' (bulletText (lines ! start)) #
     rev (dropWhile (\<lambda>ln. trim_space ln = []) (rev (block_rest u (drop (start + 1) lines))))"

definition indent_of :: "string \<Rightarrow> nat" where
  "indent_of ln = length ln - length (trim_left_set '' '' ln)"

fun min_indent :: "string list \<Rightarrow> nat option \<Rightarrow> nat option" where
  "min_indent [] m = m"
| "min_indent (ln # lns) m =
     (if trim_space ln = [] then min_indent lns m
      else min_indent lns
        (case m of None \<Rightarrow> Some (indent_of ln) | Some k \<Rightarrow> Some (if indent_of ln < k then indent_of ln else k)))"

definition dedent :: "string list \<Rightarrow> string" where
  "dedent lines =
     (let flat = (\<lambda>lns. trim_right_set [LF] (join_on LF lns)) in
      case min_indent lines None of
        None \<Rightarrow> flat lines
      | Some n \<Rightarrow>
          if n = 0 then flat lines
          else flat (map (\<lambda>ln. if n \<le> length ln then drop n ln else trim_left_set '' '' ln) lines))"

definition assembleMessage :: "string list \<Rightarrow> string" where
  "assembleMessage block =
     (let tail = dedent (tl block) in
      if 1 < length block \<and> tail \<noteq> [] then hd block @ [LF] @ tail else hd block)"

definition ExtractMessage :: "unicode \<Rightarrow> string \<Rightarrow> string option" where
  "ExtractMessage u text =
     (let lines = split_on LF text in
      case lastBulletStart lines (lastThinkingFooter u lines) of
        None \<Rightarrow> None
      | Some start \<Rightarrow>
          let msg = assembleMessage (collectBlock u lines start) in
          if trim_space msg = [] then None else Some msg)"

definition PromptNotAccepted :: "unicode \<Rightarrow> string \<Rightarrow> string \<Rightarrow> bool" where
  "PromptNotAccepted u text sentScreenText =
     (if ExtractMessage u text \<noteq> None then False
      else if text = sentScreenText then True
      else FindAllStringIndex (thinkingRE u) text = [])"

section \<open>The permission footer\<close>

definition spaced_words :: "re list \<Rightarrow> re" where
  "spaced_words ws = (case ws of [] \<Rightarrow> Eps | w # r \<Rightarrow> seq (w # concat (map (\<lambda>x. [Plus hspace, x]) r)))"

definition permissionModeRE :: re where
  "permissionModeRE =
     (let mode = One (Runes (map utf8 [0x23F8, 0x23F5])); words = (\<lambda>ws. spaced_words (map exact ws)) in
      seq [Alt (Cat mode mode) mode, Plus hspace,
        Group 1 (alts [words [''plan'', ''mode''], words [''manual'', ''mode''], words [''accept'', ''edits''], words [''auto'', ''mode''],
          words [''bypass'', ''permissions''],
          spaced_words [seq [exact ''don'', One (Runes [apostrophe, utf8 0x2019]), exact ''t''], exact ''ask'']]),
        Plus hspace, exact ''on'', WordB])"

definition permissionModeRungs :: "(string \<times> string) list" where
  "permissionModeRungs =
     [(''plan mode'', ''plan''), (''manual mode'', ''manual''), (''accept edits'', ''ask''), (''auto mode'', ''auto''),
      (''bypass permissions'', ''bypass''), (dont @ '' ask'', ''manual'')]"

definition permissionModeNatives :: "(string \<times> string) list" where
  "permissionModeNatives =
     [(''plan mode'', ''plan''), (''manual mode'', ''default''), (''accept edits'', ''acceptEdits''), (''auto mode'', ''auto''),
      (''bypass permissions'', ''bypassPermissions''), (dont @ '' ask'', ''dontAsk'')]"

definition cycleRingNatives :: "(string \<times> bool) list" where
  "cycleRingNatives =
     [(''plan'', True), (''default'', True), (''acceptEdits'', True), (''auto'', True), (''bypassPermissions'', True),
      (''dontAsk'', False)]"

definition permissionPostureFromFooter :: "string \<Rightarrow> PermissionPosture option" where
  "permissionPostureFromFooter text =
     (case FindStringSubmatch permissionModeRE text of
        None \<Rightarrow> None
      | Some m \<Rightarrow>
          let key = replace_all (utf8 0x2019) apostrophe (join_on (CHR '' '') (fields_ws (m 1))) in
          case map_of permissionModeRungs key of
            None \<Rightarrow> None
          | Some rung \<Rightarrow>
              (case map_of permissionModeNatives key of
                 None \<Rightarrow> None
               | Some native \<Rightarrow>
                   Some \<lparr>pp_Rung = rung, pp_Native = native, pp_OnRing = (map_of cycleRingNatives native = Some True)\<rparr>))"

definition permissionModeFromFooter :: "string \<Rightarrow> string option" where
  "permissionModeFromFooter text = map_option pp_Rung (permissionPostureFromFooter text)"

section \<open>The composer and interrupts\<close>

definition interruptMarker :: string where
  "interruptMarker = utf8 0x23BF @ '' '' @ utf8 0xA0 @ ''Interrupted '' @ utf8 0xB7 @ '' What should Claude do instead?''"

definition interruptLineRE :: re where
  "interruptLineRE = seq [Bot, Star hspace, exact interruptMarker]"

definition echoLineRE :: re where
  "echoLineRE = seq [Bot, exact (utf8 0x276F @ '' ''), Group 1 (Star any_rune), Eot]"

definition upper_item :: item where "upper_item = Runes (map (\<lambda>c. [c]) ''ABCDEFGHIJKLMNOPQRSTUVWXYZ'')"

definition letter_item :: item where
  "letter_item = Runes (map (\<lambda>c. [c]) ''ABCDEFGHIJKLMNOPQRSTUVWXYZabcdefghijklmnopqrstuvwxyz'')"

definition toolCallRE :: re where
  "toolCallRE = seq [Bot, One upper_item, Star letter_item, Opt (seq [exact '' '', One upper_item, Star letter_item]), exact ''('']"

definition quote :: string where "quote = [CHR 0x22]"

definition placeholderRE :: re where
  "placeholderRE = seq [Bot, exact (''Try '' @ quote), Star (NotIn [CHR 0x22, LF]), exact quote, Eot]"

definition placeholderCol :: int where "placeholderCol = 2"

definition minComposerMatch :: nat where "minComposerMatch = 12"

text \<open>The composer's rules: the upper one is \<open>None\<close> when the composer runs off the top of the screen.\<close>

definition composerBounds :: "string list \<Rightarrow> (nat option \<times> nat) option" where
  "composerBounds lines =
     (case last_row 0 (length lines) (MatchString composerRuleRE) lines of
        None \<Rightarrow> None
      | Some bottom \<Rightarrow>
          (case last_row 0 bottom (MatchString composerRuleRE) lines of
             Some upper \<Rightarrow>
               if bottom \<le> upper + 1 \<or> \<not> prefix selectorGlyph (lines ! (upper + 1)) then None else Some (Some upper, bottom)
           | None \<Rightarrow>
               let rows = filter (\<lambda>ln. trim_space ln \<noteq> []) (take bottom lines) in
               if list_all (prefix ''  '') rows \<and> rows \<noteq> [] then Some (None, bottom) else None))"

definition composer_line :: "bool \<Rightarrow> string \<Rightarrow> string" where
  "composer_line first ln =
     (let l = trim_right_set '' '' ln in
      if first then trim_prefix (trim_prefix l selectorGlyph) '' '' else trim_prefix l ''  '')"

definition composerText :: "string list \<Rightarrow> nat option \<Rightarrow> nat \<Rightarrow> string" where
  "composerText lines upper bottom =
     (let body = (case upper of
          Some t \<Rightarrow> slice_rows lines (t + 1) bottom
        | None \<Rightarrow> take bottom lines)
      in trim_space (join_on LF (map (\<lambda>(i, ln). composer_line (i = 0 \<and> upper \<noteq> None) ln) (enumerate 0 body))))"

definition squash :: "string \<Rightarrow> string" where
  "squash s = concat (filter (\<lambda>r. \<not> rune_space r) (runes s))"

definition composerHolds :: "string \<Rightarrow> string \<Rightarrow> bool" where
  "composerHolds prompt composer =
     (let c = squash composer; p = squash prompt in c \<noteq> [] \<and> sublist c p \<and> min (length p) minComposerMatch \<le> length c)"

definition echoOf :: "string \<Rightarrow> string \<Rightarrow> bool" where
  "echoOf prompt row =
     (if prefix ''[Pasted text #'' (trim_space row) then True
      else squash row \<noteq> [] \<and> prefix (squash row) (squash prompt))"

definition turnRegion :: "string list \<Rightarrow> string \<Rightarrow> string list option" where
  "turnRegion convo prompt =
     (case last_row 0 (length convo) (MatchString echoLineRE) convo of
        None \<Rightarrow> Some convo
      | Some i \<Rightarrow>
          (case FindStringSubmatch echoLineRE (convo ! i) of
             Some m \<Rightarrow> if echoOf prompt (m 1) then Some (drop (i + 1) convo) else None
           | None \<Rightarrow> None))"

definition lastReply :: "unicode \<Rightarrow> string list \<Rightarrow> string" where
  "lastReply u rows =
     (case last_row 0 (length rows) (\<lambda>ln. isBullet ln \<and> \<not> MatchString toolCallRE (bulletText ln)) rows of
        None \<Rightarrow> []
      | Some i \<Rightarrow> assembleMessage (collectBlock u rows i))"

text \<open>The last row of the region with the marker and the last with a summary; a row with the marker counts as that.\<close>

definition region_marks :: "unicode \<Rightarrow> string list \<Rightarrow> nat option \<times> nat option" where
  "region_marks u region =
     (last_row 0 (length region) (MatchString interruptLineRE) region,
      last_row 0 (length region) (\<lambda>ln. \<not> MatchString interruptLineRE ln \<and> MatchString (thinkingRE u) ln) region)"

definition row_no :: "nat option \<Rightarrow> int" where
  "row_no r = (case r of None \<Rightarrow> - 1 | Some i \<Rightarrow> int i)"

definition claude_InterruptOutcome :: "unicode \<Rightarrow> string \<Rightarrow> string \<Rightarrow> TInterruptOutcome \<times> string" where
  "claude_InterruptOutcome u prompt text =
     (if claude_Busy text then (InterruptPending, [])
      else
        let lines = split_on LF text in
        case composerBounds lines of
          None \<Rightarrow> (InterruptPending, [])
        | Some (upper, bottom) \<Rightarrow>
            if composerHolds prompt (composerText lines upper bottom) then (InterruptCancelled, [])
            else
              case upper of
                None \<Rightarrow> (InterruptPending, [])
              | Some t \<Rightarrow>
                  (case turnRegion (take t lines) prompt of
                     None \<Rightarrow> (InterruptPending, [])
                   | Some region \<Rightarrow>
                       let (marker, summary) = region_marks u region in
                       if row_no marker < row_no summary then (InterruptFinished, [])
                       else case marker of
                           Some i \<Rightarrow> (InterruptStopped, lastReply u (take i region))
                         | None \<Rightarrow> (InterruptPending, [])))"

definition claude_ComposerText :: "Snapshot \<Rightarrow> string option" where
  "claude_ComposerText snap =
     (let lines = split_on LF (sn_Text snap) in
      case composerBounds lines of
        None \<Rightarrow> None
      | Some (upper, bottom) \<Rightarrow>
          let text = composerText lines upper bottom in
          case upper of
            Some t \<Rightarrow>
              if sn_CursorRow snap = int t + 1 \<and> sn_CursorCol snap = placeholderCol \<and> MatchString placeholderRE text
              then Some [] else Some text
          | None \<Rightarrow> Some text)"

definition claude_interruptKey :: string where "claude_interruptKey = ESC # ''[27u''"

definition keyEndOfLine :: char where "keyEndOfLine = CHR 0x05"
definition keyKillToEnd :: char where "keyKillToEnd = CHR 0x0B"
definition keyKillStart :: char where "keyKillStart = CHR 0x15"

definition ClearComposerSequence :: "string \<Rightarrow> string" where
  "ClearComposerSequence composer =
     (let n = count_list composer LF + 1 in keyEndOfLine # replicate (2 * n) keyKillToEnd @ replicate (2 * n + 1) keyKillStart)"

section \<open>Sessions\<close>

definition IsUUID :: "string \<Rightarrow> bool" where
  "IsUUID s = MatchString (seq [Bot, uuid_re, Eot]) s"

definition ExtractSessionIDFromLine :: "string \<Rightarrow> string option" where
  "ExtractSessionIDFromLine line = map_option (\<lambda>m. m 1) (FindStringSubmatch resumeRE line)"

definition claude_SessionControlFlags :: "string list" where
  "claude_SessionControlFlags =
     [''--session-id'', ''-r'', ''--resume'', ''-c'', ''--continue'', ''--fork-session'', ''--from-pr'', ''--no-session-persistence'']"

definition envLookup :: "string list \<Rightarrow> string \<Rightarrow> string" where
  "envLookup env key = fold (\<lambda>kv val. if prefix (key @ ''='') kv then drop (length key + 1) kv else val) env []"

definition claude_ConfigureFromEnv :: "string list \<Rightarrow> string \<Rightarrow> string" where
  "claude_ConfigureFromEnv env projectsRoot =
     (let dir = trim_space (envLookup env ''CLAUDE_CONFIG_DIR'') in
      if dir = [] then projectsRoot else path_join dir ''projects'')"

end
