(* ===== verification/Turns_Claude_Dialog.thy ===== *)
theory Turns_Claude_Dialog
  imports Turns_Claude_Screen
begin

text \<open>
  Claude Code's blocking dialogs, read from the screen (\<^verbatim>\<open>claudecode.go\<close>, \<^verbatim>\<open>menu_selector.go\<close>, \<^verbatim>\<open>question.go\<close>): the startup
  dialogs with their numbered or unnumbered menus, the questions the model asks, and the keys that answer them.
\<close>

section \<open>Menus\<close>

definition digit_dot :: re where "digit_dot = Cat (Group 1 (One digit_item)) (exact ''.'')"

definition before_digit :: item where
  "before_digit = NotIn (''0123456789ABCDEFGHIJKLMNOPQRSTUVWXYZabcdefghijklmnopqrstuvwxyz'' @ [LF])"

text \<open>\<^verbatim>\<open>[^\S\n]\<close>.\<close>

definition space_not_lf :: item where "space_not_lf = Runes [[CHR 0x09], [CHR 0x0C], [CR], '' '']"

definition menuRE :: re where
  "menuRE = seq [Bol, Star before_digit, digit_dot, Plus space_not_lf, Group 2 (Cat (One not_space) (Star any_rune)), Eol]"

definition numberedLineRE :: re where
  "numberedLineRE = seq [Bol, Star before_digit, One digit_item, exact ''.'']"

definition footerHintRE :: re where
  "footerHintRE = alts [lit ''enter to confirm'', lit ''enter to continue'', lit ''esc to '', One middot]"

definition cleanLabel :: "string \<Rightarrow> string" where
  "cleanLabel s = trim_space (case index_sub s ''  '' of Some i \<Rightarrow> take i s | None \<Rightarrow> s)"

fun numbered_loop :: "(nat \<Rightarrow> string) list \<Rightarrow> string list \<Rightarrow> TOption list" where
  "numbered_loop [] seen = []"
| "numbered_loop (m # ms) seen =
     (let num = m 1; label = cleanLabel (m 2) in
      if num = ''0'' \<or> num \<in> set seen \<or> label = [] then numbered_loop ms seen
      else zero_option\<lparr>o_ID := num, o_Alias := IntentAlias label, o_Label := label, o_Keys := num @ [CR]\<rparr> #
           numbered_loop ms (num # seen))"

definition parseNumberedMenu :: "string \<Rightarrow> TOption list" where
  "parseNumberedMenu text = numbered_loop (FindAllStringSubmatch menuRE text) []"

subsection \<open>The unnumbered menu\<close>

definition minSelectorRows :: nat where "minSelectorRows = 2"
definition maxSelectorRows :: nat where "maxSelectorRows = 8"
definition maxAnchorToMenuRows :: nat where "maxAnchorToMenuRows = 20"

definition borderRunes :: "string list" where
  "borderRunes = map utf8 [0x256D, 0x256E, 0x2570, 0x256F, 0x2500, 0x2501, 0x2502, 0x2503, 0x250C, 0x2510, 0x2514, 0x2518,
     0x251C, 0x2524, 0x253C, 0x2550, 0x2551]"

definition pad_rune :: "string \<Rightarrow> bool" where
  "pad_rune r \<longleftrightarrow> r = '' '' \<or> r = [CHR 0x09]"

definition isTerminator :: "string \<Rightarrow> bool" where
  "isTerminator line =
     (let trimmed = trim_space line in
      trimmed = [] \<or> MatchString footerHintRE trimmed \<or>
      list_all (\<lambda>r. r = '' '' \<or> r \<in> set borderRunes) (runes trimmed))"

definition lineContent :: "string \<Rightarrow> string" where
  "lineContent line =
     (case dropWhile pad_rune (runes line) of
        r # rest \<Rightarrow> if r \<in> set borderRunes then concat rest else line
      | [] \<Rightarrow> line)"

definition selectorLabelColumn :: "string \<Rightarrow> nat option" where
  "selectorLabelColumn content =
     (let r = runes content; i = length (takeWhile (\<lambda>c. c \<noteq> selectorGlyph) r);
          j = i + 1 + length (takeWhile pad_rune (drop (i + 1) r))
      in if i < length r \<and> j < length r then Some j else None)"

definition textColumn :: "string \<Rightarrow> nat option" where
  "textColumn content =
     (let r = runes content; i = length (takeWhile pad_rune r) in if i < length r then Some i else None)"

definition isSelectorSibling :: "string \<Rightarrow> nat \<Rightarrow> bool" where
  "isSelectorSibling line labelCol =
     (if isTerminator line then False
      else if sublist selectorGlyph (lineContent line) then False
      else textColumn (lineContent line) = Some labelCol)"

definition selectorKeys :: "int \<Rightarrow> string" where
  "selectorKeys delta =
     (if 0 < delta then concat (replicate (nat delta) (ESC # ''[B'')) @ [CR]
      else if delta < 0 then concat (replicate (nat (- delta)) (ESC # ''[A'')) @ [CR]
      else [CR])"

text \<open>The first row with a highlight, and the row its label starts in.\<close>

fun first_highlight :: "nat \<Rightarrow> string list \<Rightarrow> (nat \<times> nat) option" where
  "first_highlight i [] = None"
| "first_highlight i (ln # lns) =
     (case selectorLabelColumn (lineContent ln) of Some col \<Rightarrow> Some (i, col) | None \<Rightarrow> first_highlight (i + 1) lns)"

text \<open>How many rows right above, and right below, belong to the menu.\<close>

definition rows_up :: "string list \<Rightarrow> nat \<Rightarrow> nat \<Rightarrow> nat" where
  "rows_up lines highlight labelCol = length (takeWhile (\<lambda>ln. isSelectorSibling ln labelCol) (rev (take highlight lines)))"

definition rows_down :: "string list \<Rightarrow> nat \<Rightarrow> nat \<Rightarrow> nat" where
  "rows_down lines highlight labelCol = length (takeWhile (\<lambda>ln. isSelectorSibling ln labelCol) (drop (highlight + 1) lines))"

definition selector_option :: "string list \<Rightarrow> nat \<Rightarrow> nat \<Rightarrow> nat \<Rightarrow> nat \<Rightarrow> TOption option" where
  "selector_option lines start highlight labelCol i =
     (let r = runes (lineContent (lines ! i)); label = cleanLabel (concat (drop labelCol r)) in
      if length r \<le> labelCol \<or> label = [] then None
      else Some (zero_option\<lparr>o_ID := itoa (int i - int start), o_Alias := IntentAlias label, o_Label := label,
        o_Keys := selectorKeys (int i - int highlight), o_Highlighted := (i = highlight)\<rparr>))"

text \<open>\<open>None\<close> when one row of the block has no option: then the menu has none.\<close>

fun all_options :: "TOption option list \<Rightarrow> TOption list option" where
  "all_options [] = Some []"
| "all_options (x # xs) = (case x of None \<Rightarrow> None | Some opt \<Rightarrow> map_option ((#) opt) (all_options xs))"

definition parseSelectorMenu :: "string \<Rightarrow> TOption list" where
  "parseSelectorMenu after =
     (let lines = split_on LF after in
      case first_highlight 0 lines of
        None \<Rightarrow> []
      | Some (highlight, labelCol) \<Rightarrow>
          if maxAnchorToMenuRows < highlight then []
          else
            let start = highlight - rows_up lines highlight labelCol; stop = highlight + rows_down lines highlight labelCol;
                rows = stop - start + 1
            in if rows < minSelectorRows \<or> maxSelectorRows < rows then []
               else (case all_options (map (selector_option lines start highlight labelCol) [start ..< stop + 1]) of
                       Some opts \<Rightarrow> opts | None \<Rightarrow> []))"

definition hasChoiceShapedLine :: "string \<Rightarrow> bool" where
  "hasChoiceShapedLine after \<longleftrightarrow> sublist selectorGlyph after \<or> MatchString numberedLineRE after"

definition candidateLines :: "string \<Rightarrow> string list" where
  "candidateLines after = take maxSelectorRows (filter (\<lambda>t. t \<noteq> []) (map trim_space (split_on LF after)))"

definition parseMenuOptions :: "string \<Rightarrow> string \<Rightarrow> TOption list" where
  "parseMenuOptions text after =
     (let opts = parseNumberedMenu text in if opts \<noteq> [] then opts else parseSelectorMenu after)"

section \<open>The startup dialogs\<close>

definition trustAnchor :: string where "trustAnchor = ''Do you trust the files in this folder?''"
definition trustAnchorAlt :: string where "trustAnchorAlt = ''Is this a project you created or one you trust?''"
definition bypassAnchor :: string where "bypassAnchor = ''Bypass Permissions mode''"
definition autoNudgeAnchor :: string where "autoNudgeAnchor = ''Make auto mode your default permission mode?''"

definition KindTrustPrompt :: string where "KindTrustPrompt = ''trust_prompt''"
definition KindBypassAcceptance :: string where "KindBypassAcceptance = ''bypass_acceptance''"
definition KindAutoModeNudge :: string where "KindAutoModeNudge = ''auto_mode_nudge''"

definition DialogAnchors :: "string list" where
  "DialogAnchors = [trustAnchor, trustAnchorAlt, bypassAnchor, autoNudgeAnchor]"

definition dialogAnchors :: "(string \<times> string) list" where
  "dialogAnchors = [(trustAnchor, KindTrustPrompt), (trustAnchorAlt, KindTrustPrompt), (bypassAnchor, KindBypassAcceptance),
     (autoNudgeAnchor, KindAutoModeNudge)]"

fun composer_in :: "string list \<Rightarrow> bool" where
  "composer_in (ln # ln' # lns) \<longleftrightarrow>
     MatchString composerRuleRE ln \<and> prefix selectorGlyph (trim_left_set '' '' ln') \<or> composer_in (ln' # lns)"
| "composer_in _ \<longleftrightarrow> False"

definition composerFollows :: "string \<Rightarrow> bool" where
  "composerFollows text = composer_in (split_on LF text)"

fun live_scan :: "(string \<times> string) list \<Rightarrow> string \<Rightarrow> (string \<times> nat \<times> string) option" where
  "live_scan [] text = None"
| "live_scan ((anchor, kind) # rest) text =
     (case (index_sub text anchor, last_index text anchor) of
        (Some first, Some latest) \<Rightarrow>
          if composerFollows (drop (latest + length anchor) text) then live_scan rest text else Some (anchor, first, kind)
      | _ \<Rightarrow> live_scan rest text)"

definition liveAnchor :: "string \<Rightarrow> (string \<times> nat \<times> string) option" where
  "liveAnchor text = live_scan dialogAnchors text"

definition anchorSplit :: "string \<Rightarrow> (string \<times> string) option" where
  "anchorSplit text = map_option (\<lambda>(anchor, idx, _). (anchor, drop (idx + length anchor) text)) (liveAnchor text)"

datatype Detection = DetectNone | DetectPending | DetectUnparseable | DetectOK

section \<open>Questions\<close>

definition KindQuestion :: string where "KindQuestion = ''question''"
definition KindQuestionReview :: string where "KindQuestionReview = ''question_review''"

definition questionFooterAnchor :: string where "questionFooterAnchor = ''Enter to select '' @ utf8 0xB7"
definition questionReviewAnchor :: string where "questionReviewAnchor = ''Ready to submit your answers?''"
definition questionSubmitTab :: string where "questionSubmitTab = utf8 0x2714 @ '' Submit''"
definition questionOtherLabel :: string where "questionOtherLabel = ''Type something''"
definition questionChatLabel :: string where "questionChatLabel = ''Chat about this''"
definition questionSubmitRow :: string where "questionSubmitRow = ''Submit''"

definition box_glyph :: item where "box_glyph = Runes (map utf8 [0x2610, 0x2612])"

definition strip_runes :: "string list" where "strip_runes = map utf8 [0x2610, 0x2612, 0x2714, 0x2190, 0x2192]"

definition questionTabRE :: re where
  "questionTabRE = seq [Bot, Star hspace, Opt (Cat (exact (utf8 0x2190)) (Plus hspace)), One box_glyph, One hspace]"

definition questionOptionRE :: re where
  "questionOptionRE = seq [Bot, Star hspace, Opt (Group 1 (Cat (exact (utf8 0x276F)) (Plus hspace))), Group 2 (Plus digit_item), exact ''.'',
     Plus space_not_lf, Group 3 (Cat (One not_space) (Star any_rune)), Eot]"

definition questionCheckboxRE :: re where
  "questionCheckboxRE = seq [Bot, exact ''['', Group 1 (Star (NotIn '']'')), exact '']'', Star space_not_lf]"

definition questionTabEntryRE :: re where
  "questionTabEntryRE =
     (let inner = NotRunes strip_runes; edge = NotRunes (strip_runes @ [[CHR 0x09], [LF], [CHR 0x0C], [CR], '' '']) in
      seq [Group 1 (One box_glyph), Plus hspace, Group 2 (Cat (One edge) (Opt (Cat (Star inner) (One edge))))])"

definition questionTabLine :: "string list \<Rightarrow> nat option" where
  "questionTabLine lines = last_row 0 (length lines) (MatchString questionTabRE) lines"

definition lastLineAfter :: "string list \<Rightarrow> nat \<Rightarrow> (string \<Rightarrow> bool) \<Rightarrow> nat option" where
  "lastLineAfter lines after match = last_row (after + 1) (length lines) match lines"

definition isQuestionFooter :: "string \<Rightarrow> bool" where
  "isQuestionFooter ln = prefix questionFooterAnchor (trim_space ln)"

record questionOption =
  qo_id :: string
  qo_label :: string
  qo_description :: string
  qo_highlighted :: bool
  qo_checked :: bool

record parsedQuestion =
  pq_preamble :: "string list"
  pq_options :: "questionOption list"
  pq_multi :: bool
  pq_seen :: "string list"

definition question_row :: "(nat \<Rightarrow> string) \<Rightarrow> questionOption \<times> bool" where
  "question_row m =
     (let label = cleanLabel (m 3);
          base = \<lparr>qo_id = m 2, qo_label = label, qo_description = [], qo_highlighted = (m 1 \<noteq> []), qo_checked = False\<rparr>
      in case (FindStringSubmatch questionCheckboxRE label, FindStringIndex questionCheckboxRE label) of
           (Some c, Some (lo, hi)) \<Rightarrow>
             (base\<lparr>qo_checked := (trim_space (c 1) \<noteq> []), qo_label := trim_space (drop (hi - lo) label)\<rparr>, True)
         | _ \<Rightarrow> (base, False))"

definition describe :: "string \<Rightarrow> questionOption \<Rightarrow> questionOption" where
  "describe trimmed opt =
     opt\<lparr>qo_description := (if qo_description opt = [] then trimmed else qo_description opt @ '' '' @ trimmed)\<rparr>"

text \<open>The options are kept in the order they were read.\<close>

definition question_line :: "string \<Rightarrow> parsedQuestion \<Rightarrow> parsedQuestion" where
  "question_line ln out =
     (let trimmed = trim_space ln in
      if trimmed = [] \<or> MatchString boxOrRuleRE ln then out
      else if trim_space (trim_prefix trimmed selectorGlyph) = questionSubmitRow then out
      else
        case FindStringSubmatch questionOptionRE ln of
          Some m \<Rightarrow>
            let (opt, boxed) = question_row m; out1 = out\<lparr>pq_multi := (pq_multi out \<or> boxed)\<rparr> in
            if qo_id opt = ''0'' \<or> qo_id opt \<in> set (pq_seen out) \<or> qo_label opt = [] then out1
            else out1\<lparr>pq_seen := qo_id opt # pq_seen out, pq_options := pq_options out @ [opt]\<rparr>
        | None \<Rightarrow>
            if pq_options out = [] then out\<lparr>pq_preamble := pq_preamble out @ [trimmed]\<rparr>
            else out\<lparr>pq_options := butlast (pq_options out) @ [describe trimmed (last (pq_options out))]\<rparr>)"

definition parseQuestionRegion :: "string list \<Rightarrow> nat \<Rightarrow> nat \<Rightarrow> parsedQuestion" where
  "parseQuestionRegion lines from to =
     fold question_line (slice_rows lines from to) \<lparr>pq_preamble = [], pq_options = [], pq_multi = False, pq_seen = []\<rparr>"

definition preamble :: "parsedQuestion \<Rightarrow> string" where
  "preamble p = join_on LF (pq_preamble p)"

fun header_scan :: "(nat \<Rightarrow> string) list \<Rightarrow> string \<Rightarrow> string" where
  "header_scan [] first = first"
| "header_scan (m # ms) first =
     (let label = trim_space (m 2) in
      if m 1 = utf8 0x2610 then label else header_scan ms (if first = [] then label else first))"

definition questionHeader :: "string \<Rightarrow> string" where
  "questionHeader tabLine = header_scan (FindAllStringSubmatch questionTabEntryRE tabLine) []"

definition reviewAlias :: "string \<Rightarrow> string" where
  "reviewAlias label = (if sublist ''submit'' (go_lower label) then ''proceed'' else IntentAlias label)"

text \<open>The ID of the text field: the row before \<open>Chat about this\<close>.\<close>

definition other_id :: "questionOption list \<Rightarrow> string" where
  "other_id opts =
     fold (\<lambda>opt acc.
       if qo_label opt = questionChatLabel
       then (case atoi (qo_id opt) of Some n \<Rightarrow> if 1 < n then itoa (n - 1) else acc | None \<Rightarrow> acc)
       else acc) opts []"

definition question_option :: "string \<Rightarrow> questionOption \<Rightarrow> TOption" where
  "question_option otherID q =
     (let opt = zero_option\<lparr>o_ID := qo_id q, o_Label := qo_label q, o_Description := qo_description q, o_Keys := qo_id q,
            o_Highlighted := qo_highlighted q, o_Checked := qo_checked q\<rparr>;
          placeholder = (trim_suffix (qo_label q) ''.'' = questionOtherLabel)
      in if qo_label q = questionChatLabel then opt\<lparr>o_Alias := ''chat''\<rparr>
         else if qo_id q = otherID \<or> otherID = [] \<and> placeholder
         then opt\<lparr>o_Alias := ''other'', o_Typed := (if placeholder then [] else qo_label q), o_Label := questionOtherLabel\<rparr>
         else opt\<lparr>o_Alias := IntentAlias (qo_label q)\<rparr>)"

definition with_id :: "(string \<Rightarrow> nat) \<Rightarrow> TRequest \<Rightarrow> TRequest" where
  "with_id sum8 req = req\<lparr>q_ID := inputID sum8 req\<rparr>"

definition questionRequest :: "(string \<Rightarrow> nat) \<Rightarrow> string \<Rightarrow> parsedQuestion \<Rightarrow> TRequest" where
  "questionRequest sum8 tabLine p =
     with_id sum8 \<lparr>q_ID = [], q_Kind = KindQuestion, q_Prompt = preamble p, q_Header = questionHeader tabLine,
       q_MultiSelect = pq_multi p, q_Options = map (question_option (other_id (pq_options p))) (pq_options p)\<rparr>"

definition review_option :: "questionOption \<Rightarrow> TOption" where
  "review_option q = zero_option\<lparr>o_ID := qo_id q, o_Alias := reviewAlias (qo_label q), o_Label := qo_label q,
     o_Description := qo_description q, o_Keys := qo_id q, o_Highlighted := qo_highlighted q\<rparr>"

definition reviewRequest :: "(string \<Rightarrow> nat) \<Rightarrow> string list \<Rightarrow> nat \<Rightarrow> nat \<Rightarrow> TRequest option \<times> Detection" where
  "reviewRequest sum8 lines tabIdx anchorIdx =
     (let p = parseQuestionRegion lines (anchorIdx + 1) (length lines) in
      if length (pq_options p) < 2 then (None, DetectPending)
      else
        let body = map trim_space
              (filter (\<lambda>ln. \<not> (trim_space ln = [] \<or> MatchString boxOrRuleRE ln)) (slice_rows lines (tabIdx + 1) (anchorIdx + 1)))
        in (Some (with_id sum8 (zero_request\<lparr>q_Kind := KindQuestionReview, q_Prompt := join_on LF body,
              q_Options := map review_option (pq_options p)\<rparr>)), DetectOK))"

definition detectQuestion :: "(string \<Rightarrow> nat) \<Rightarrow> string \<Rightarrow> TRequest option \<times> Detection" where
  "detectQuestion sum8 text =
     (let lines = split_on LF text in
      case questionTabLine lines of
        None \<Rightarrow> (None, DetectNone)
      | Some tabIdx \<Rightarrow>
          let tabLine = lines ! tabIdx;
              question =
                (case lastLineAfter lines tabIdx isQuestionFooter of
                   None \<Rightarrow> (None, DetectNone)
                 | Some footerIdx \<Rightarrow>
                     let p = parseQuestionRegion lines (tabIdx + 1) footerIdx in
                     if pq_options p = [] \<or> preamble p = [] then (None, DetectPending)
                     else (Some (questionRequest sum8 tabLine p), DetectOK))
          in if sublist questionSubmitTab tabLine
             then (case lastLineAfter lines tabIdx (sublist questionReviewAnchor) of
                     Some anchorIdx \<Rightarrow> reviewRequest sum8 lines tabIdx anchorIdx
                   | None \<Rightarrow> question)
             else question)"

definition questionPresent :: "string \<Rightarrow> bool" where
  "questionPresent text =
     (let lines = split_on LF text in
      case questionTabLine lines of
        None \<Rightarrow> False
      | Some tabIdx \<Rightarrow>
          lastLineAfter lines tabIdx (\<lambda>ln. isQuestionFooter ln \<or> sublist questionReviewAnchor ln) \<noteq> None)"

section \<open>Detection\<close>

definition DetectInputDetail :: "(string \<Rightarrow> nat) \<Rightarrow> string \<Rightarrow> TRequest option \<times> Detection" where
  "DetectInputDetail sum8 text =
     (case liveAnchor text of
        None \<Rightarrow> detectQuestion sum8 text
      | Some (prompt, idx, kind) \<Rightarrow>
          let after = drop (idx + length prompt) text; opts = parseMenuOptions text after in
          if opts = [] then (None, if hasChoiceShapedLine after then DetectUnparseable else DetectPending)
          else (Some (with_id sum8 (zero_request\<lparr>q_Kind := kind, q_Prompt := prompt, q_Options := opts\<rparr>)), DetectOK))"

definition DetectInput :: "(string \<Rightarrow> nat) \<Rightarrow> string \<Rightarrow> TRequest option" where
  "DetectInput sum8 text = (case DetectInputDetail sum8 text of (req, det) \<Rightarrow> if det = DetectOK then req else None)"

definition AnchorPresent :: "string \<Rightarrow> bool" where
  "AnchorPresent text \<longleftrightarrow> anchorSplit text \<noteq> None \<or> questionPresent text"

definition claude_ReadyForInput :: "(string \<Rightarrow> nat) \<Rightarrow> string \<Rightarrow> bool" where
  "claude_ReadyForInput sum8 text =
     (if snd (DetectInputDetail sum8 text) \<noteq> DetectNone then False else sublist selectorGlyph text)"

definition claude_DialogState :: "(string \<Rightarrow> nat) \<Rightarrow> string \<Rightarrow> DialogState" where
  "claude_DialogState sum8 text =
     (case snd (DetectInputDetail sum8 text) of
        DetectPending \<Rightarrow> DialogPending
      | DetectUnparseable \<Rightarrow> DialogUnparseable
      | DetectOK \<Rightarrow> DialogReadable
      | DetectNone \<Rightarrow> DialogNone)"

end
