(* ===== verification/Turns_Claude.thy ===== *)
theory Turns_Claude
  imports Turns_Claude_Dialog
begin

text \<open>
  Claude Code's turn adapter (\<^verbatim>\<open>pkg/turns/harness/claudecode\<close>): the plan of an answer to a question, and what the adapter
  reports for a screen. It interprets \<open>screen_adapter\<close>.
\<close>

section \<open>Planned answers\<close>

datatype plan_error = NoOption string | NoneChosen | TakesOneOption | ChatAlone | OtherNeedsText | TextNeedsOther | ReviewTakesOne

datatype plan = Unplanned | PlanError plan_error | Planned "AnswerStep list"

definition questionSettle :: int where "questionSettle = 300000000"

definition step_of :: "string \<Rightarrow> EvidenceKind \<Rightarrow> string \<Rightarrow> string \<Rightarrow> AnswerStep" where
  "step_of keys kind optID text =
     \<lparr>st_After = 0, st_Keys = keys, st_Until = \<lparr>ev_Kind = kind, ev_OptionID = optID, ev_Text = text\<rparr>\<rparr>"

definition optionByID :: "TRequest \<Rightarrow> string \<Rightarrow> TOption option" where
  "optionByID req i = find (\<lambda>opt. o_ID opt = i) (q_Options req)"

definition option_index :: "(TOption \<Rightarrow> bool) \<Rightarrow> TRequest \<Rightarrow> int" where
  "option_index P req =
     (let i = length (takeWhile (\<lambda>opt. \<not> P opt) (q_Options req)) in if i < length (q_Options req) then int i else 0)"

definition optionIndex :: "TRequest \<Rightarrow> string \<Rightarrow> int" where
  "optionIndex req i = option_index (\<lambda>opt. o_ID opt = i) req"

definition highlightedIndex :: "TRequest \<Rightarrow> int" where
  "highlightedIndex req = option_index o_Highlighted req"

definition arrowKeys :: "int \<Rightarrow> string" where
  "arrowKeys delta =
     (if 0 < delta then concat (replicate (nat delta) (ESC # ''[B''))
      else if delta < 0 then concat (replicate (nat (- delta)) (ESC # ''[A''))
      else [])"

definition oneLine :: "string \<Rightarrow> string" where
  "oneLine text = join_on (CHR '' '') (fields_by (\<lambda>r. r = '' '' \<or> (length r = 1 \<and> (ord (hd r) < 0x20 \<or> ord (hd r) = 0x7F))) text)"

definition planReview :: "TRequest \<Rightarrow> string list \<Rightarrow> string \<Rightarrow> plan_error + AnswerStep list" where
  "planReview req ids text =
     (if length ids \<noteq> 1 \<or> text \<noteq> [] then Inl ReviewTakesOne
      else case optionByID req (hd ids) of
          None \<Rightarrow> Inl (NoOption (hd ids))
        | Some opt \<Rightarrow> Inr [step_of (o_Keys opt) EvidenceGone [] []])"

record choice =
  ch_other :: "TOption option"
  ch_chat :: "TOption option"
  ch_picks :: "TOption list"

fun plan_choose :: "TRequest \<Rightarrow> string list \<Rightarrow> choice \<Rightarrow> plan_error + choice" where
  "plan_choose req [] c = Inr c"
| "plan_choose req (i # ids) c =
     (case optionByID req i of
        None \<Rightarrow> Inl (NoOption i)
      | Some opt \<Rightarrow>
          plan_choose req ids
            (if o_Alias opt = ''other'' then c\<lparr>ch_other := Some opt\<rparr>
             else if o_Alias opt = ''chat'' then c\<lparr>ch_chat := Some opt\<rparr>
             else c\<lparr>ch_picks := ch_picks c @ [opt]\<rparr>))"

definition no_choice :: choice where
  "no_choice = \<lparr>ch_other = None, ch_chat = None, ch_picks = []\<rparr>"

definition toggles :: "TOption list \<Rightarrow> AnswerStep list" where
  "toggles picks = map (\<lambda>opt. step_of (o_Keys opt) EvidenceChecked (o_ID opt) []) (filter (\<lambda>opt. \<not> o_Checked opt) picks)"

definition other_steps :: "TRequest \<Rightarrow> TOption \<Rightarrow> string \<Rightarrow> AnswerStep list" where
  "other_steps req opt text =
     (let nav = arrowKeys (optionIndex req (o_ID opt) - highlightedIndex req) in
      (if nav \<noteq> [] then [step_of nav EvidenceHighlighted (o_ID opt) []] else []) @
      [step_of text EvidenceTyped (o_ID opt) text, step_of (ESC # ''[B'') EvidenceUnhighlighted (o_ID opt) [],
       step_of [CR] EvidenceGone [] []])"

text \<open>\<open>None\<close> as the steps is the index panic of \<^verbatim>\<open>picks[0]\<close>; \<open>plan_no_panic\<close> shows there is none.\<close>

definition question_steps :: "TRequest \<Rightarrow> choice \<Rightarrow> string \<Rightarrow> AnswerStep list option" where
  "question_steps req c text =
     (case ch_chat c of
        Some opt \<Rightarrow> Some [step_of (o_Keys opt) EvidenceGone [] []]
      | None \<Rightarrow>
          if \<not> q_MultiSelect req
          then (case ch_other c of
                  None \<Rightarrow> (case ch_picks c of [] \<Rightarrow> None | opt # _ \<Rightarrow> Some [step_of (o_Keys opt) EvidenceGone [] []])
                | Some opt \<Rightarrow>
                    Some [step_of (o_Keys opt) EvidenceHighlighted (o_ID opt) [], step_of text EvidenceTyped (o_ID opt) text,
                      step_of [CR] EvidenceGone [] []])
          else (case ch_other c of
                  None \<Rightarrow> Some (toggles (ch_picks c) @ [step_of [CHR 0x09] EvidenceGone [] []])
                | Some opt \<Rightarrow> Some (toggles (ch_picks c) @ other_steps req opt text)))"

definition planQuestion :: "TRequest \<Rightarrow> string list \<Rightarrow> string \<Rightarrow> plan_error + AnswerStep list option" where
  "planQuestion req ids text0 =
     (let text = oneLine text0 in
      case plan_choose req ids no_choice of
        Inl e \<Rightarrow> Inl e
      | Inr c \<Rightarrow>
          if ids = [] then Inl NoneChosen
          else if \<not> q_MultiSelect req \<and> 1 < length ids then Inl TakesOneOption
          else if ch_chat c \<noteq> None \<and> 1 < length ids then Inl ChatAlone
          else if ch_other c \<noteq> None \<and> text = [] then Inl OtherNeedsText
          else if ch_other c = None \<and> text \<noteq> [] then Inl TextNeedsOther
          else Inr (question_steps req c text))"

definition settle_first :: "AnswerStep list \<Rightarrow> AnswerStep list option" where
  "settle_first steps = (case steps of [] \<Rightarrow> None | s # ss \<Rightarrow> Some (s\<lparr>st_After := questionSettle\<rparr> # ss))"

text \<open>\<open>None\<close> is a panic.\<close>

definition PlanAnswer :: "TRequest \<Rightarrow> string list \<Rightarrow> string \<Rightarrow> plan option" where
  "PlanAnswer req ids text =
     (if q_Options req = [] then Some Unplanned
      else
        let finish = (\<lambda>steps. map_option Planned (Option.bind steps settle_first)) in
        if q_Kind req = KindQuestion
        then (case planQuestion req ids text of Inl e \<Rightarrow> Some (PlanError e) | Inr steps \<Rightarrow> finish steps)
        else if q_Kind req = KindQuestionReview
        then (case planReview req ids text of Inl e \<Rightarrow> Some (PlanError e) | Inr steps \<Rightarrow> finish (Some steps))
        else Some Unplanned)"

section \<open>The adapter\<close>

definition reasonPrefix :: string where "reasonPrefix = ''claude-code: ''"

record ClaudeAdapter =
  ca_lastFingerprint :: string
  ca_inputs :: Tracker
  ca_lastUnparseable :: string

definition claude_New :: ClaudeAdapter where
  "claude_New = \<lparr>ca_lastFingerprint = [], ca_inputs = new_tracker, ca_lastUnparseable = []\<rparr>"

definition inputFingerprint :: "(string \<Rightarrow> nat) \<Rightarrow> string \<Rightarrow> string list \<Rightarrow> string" where
  "inputFingerprint sum8 anchor lines = hex8 (sum8 (anchor @ concat (map (\<lambda>l. CHR 0x00 # l) lines)))"

definition unparseableEvents :: "(string \<Rightarrow> nat) \<Rightarrow> string \<Rightarrow> Detection \<Rightarrow> ClaudeAdapter \<Rightarrow> TurnEvent list \<times> ClaudeAdapter" where
  "unparseableEvents sum8 text det a =
     (if det \<noteq> DetectUnparseable then ([], a\<lparr>ca_lastUnparseable := []\<rparr>)
      else case anchorSplit text of
          None \<Rightarrow> ([], a)
        | Some (anchor, after) \<Rightarrow>
            let lines = candidateLines after; fp = inputFingerprint sum8 anchor lines in
            if fp = ca_lastUnparseable a then ([], a)
            else ([turn_event Errored (reasonPrefix @ ''unrecognized blocking dialog: '' @ anchor @ '': '' @ join_str '' | '' lines)],
                  a\<lparr>ca_lastUnparseable := fp\<rparr>))"

definition turn_complete :: "unicode \<Rightarrow> string \<Rightarrow> ClaudeAdapter \<Rightarrow> TurnEvent list \<times> ClaudeAdapter" where
  "turn_complete u text a =
     (let matches = FindAllStringSubmatch (thinkingRE u) text in
      if matches \<noteq> [] \<and> \<not> claude_Busy text
      then let latest = (last matches) 1 in
           if latest \<noteq> ca_lastFingerprint a
           then ([turn_event TurnComplete (reasonPrefix @ latest)], a\<lparr>ca_lastFingerprint := latest\<rparr>)
           else ([], a)
      else ([], a))"

definition claude_OnScreen :: "(string \<Rightarrow> nat) \<Rightarrow> unicode \<Rightarrow> ClaudeAdapter \<Rightarrow> Snapshot \<Rightarrow> TurnEvent list \<times> ClaudeAdapter" where
  "claude_OnScreen sum8 u a snap =
     (let text = sn_Text snap; (out, a1) = turn_complete u text a; (req0, det) = DetectInputDetail sum8 text;
          req = (if det \<noteq> DetectOK then None else req0);
          (obs, t) = tracker_Observe req reasonPrefix (ca_inputs a1); a2 = a1\<lparr>ca_inputs := t\<rparr>;
          (errs, a3) = unparseableEvents sum8 text det a2
      in (out @ obs @ errs, a3))"

end
