(* ===== verification/Turns_Claude_Properties.thy ===== *)
theory Turns_Claude_Properties
  imports Turns_Claude Wrap_Launch
begin

text \<open>
  What holds of the reading of Claude Code's screen: menus and the keys that answer them, planned answers, the identity of
  a request, the events of the adapter over any sequence of screens, and which part of the screen a reading depends on.
\<close>

section \<open>Menus\<close>

text \<open>
  A menu of \<open>n\<close> rows as the keys move it: Down and Up move the highlight by a row and stop at the ends, Enter takes the
  highlighted row. The result is the row that was taken, if the keys end with taking one.
\<close>

fun menu_run :: "nat \<Rightarrow> nat \<Rightarrow> string \<Rightarrow> nat option" where
  "menu_run n cur [k] = (if k = CR then Some cur else None)"
| "menu_run n cur (a # b # c # ks) =
     (if [a, b, c] = ESC # ''[B'' then menu_run n (if cur + 1 < n then cur + 1 else cur) ks
      else if [a, b, c] = ESC # ''[A'' then menu_run n (cur - 1) ks
      else None)"
| "menu_run n cur _ = None"

lemma menu_run_down: "cur + d < n \<Longrightarrow> menu_run n cur (concat (replicate d (ESC # ''[B'')) @ [CR]) = Some (cur + d)"
  by (induction d arbitrary: cur) auto

lemma menu_run_up: "d \<le> cur \<Longrightarrow> menu_run n cur (concat (replicate d (ESC # ''[A'')) @ [CR]) = Some (cur - d)"
  by (induction d arbitrary: cur) auto

lemma menu_run_selectorKeys:
  assumes "cur < n" and "k < n"
  shows "menu_run n cur (selectorKeys (int k - int cur)) = Some k"
proof (cases "cur < k")
  case True
  then have "nat (int k - int cur) = k - cur" by simp
  then show ?thesis using menu_run_down [of cur "k - cur" n] True assms by (simp add: selectorKeys_def)
next
  case False
  then have "nat (int cur - int k) = cur - k" by simp
  then show ?thesis using menu_run_up [of "cur - k" cur n] False by (auto simp: selectorKeys_def)
qed

lemma selectorKeys_bare: "selectorKeys d = [CR] \<longleftrightarrow> d = 0"
proof -
  have "concat (replicate (Suc m) (x # xs)) @ [CR] \<noteq> [CR]" for m and x :: char and xs by simp
  then show ?thesis by (cases "nat d"; cases "nat (- d)") (auto simp: selectorKeys_def)
qed

lemma all_options_Some: "all_options xs = Some ys \<longleftrightarrow> xs = map Some ys"
  by (induction xs arbitrary: ys) (auto split: option.splits)

lemma itoa_inj: "itoa (int i) = itoa (int j) \<longleftrightarrow> i = j"
  by (metis digits_value_nat_text itoa_def nat_int of_nat_less_0_iff)

lemma rows_up_le: "rows_up lines h col \<le> h"
  using length_takeWhile_le [of "\<lambda>ln. isSelectorSibling ln col" "rev (take h lines)"] by (simp add: rows_up_def)

lemma selector_option_Some:
  "selector_option lines start h col i = Some opt \<Longrightarrow>
     o_ID opt = itoa (int i - int start) \<and> o_Keys opt = selectorKeys (int i - int h) \<and> (o_Highlighted opt \<longleftrightarrow> i = h) \<and>
     o_Label opt \<noteq> [] \<and> o_Alias opt = IntentAlias (o_Label opt)"
  by (auto simp: selector_option_def Let_def zero_option_def split: if_splits)

lemma selector_menu:
  assumes "parseSelectorMenu after = opts" and "opts \<noteq> []"
  shows "\<exists>h < length opts. 2 \<le> length opts \<and> length opts \<le> 8 \<and>
    (\<forall>k < length opts. o_ID (opts ! k) = itoa (int k) \<and> (o_Highlighted (opts ! k) \<longleftrightarrow> k = h) \<and>
       menu_run (length opts) h (o_Keys (opts ! k)) = Some k \<and> (o_Keys (opts ! k) = [CR] \<longleftrightarrow> k = h) \<and> o_Label (opts ! k) \<noteq> [])"
proof -
  define lines where "lines = split_on LF after"
  obtain h col where hl: "first_highlight 0 lines = Some (h, col)"
    using assms by (cases "first_highlight 0 lines") (auto simp: parseSelectorMenu_def lines_def Let_def)
  define up down where "up = rows_up lines h col" and "down = rows_down lines h col"
  have up: "up \<le> h" using rows_up_le by (simp add: up_def)
  define start stop where "start = h - up" and "stop = h + down"
  have rows: "stop - start + 1 = up + down + 1" using up by (simp add: start_def stop_def)
  have bounds: "2 \<le> up + down + 1" "up + down + 1 \<le> 8"
    and opts: "map (selector_option lines start h col) [start ..< stop + 1] = map Some opts"
    using assms hl rows
    by (auto simp: parseSelectorMenu_def lines_def [symmetric] up_def [symmetric] down_def [symmetric] start_def [symmetric]
        stop_def [symmetric] minSelectorRows_def maxSelectorRows_def all_options_Some Let_def simp del: upt_Suc
        split: if_splits option.splits)
  have len: "length opts = up + down + 1"
    using arg_cong [OF opts, of length] rows up by (simp add: start_def stop_def del: upt_Suc)
  have hs: "h = start + up" using up by (simp add: start_def)
  have nth: "selector_option lines start h col (start + k) = Some (opts ! k)" if "k < length opts" for k
    using arg_cong [OF opts, of "\<lambda>l. l ! k"] that len up by (simp add: start_def stop_def del: upt_Suc)
  have "o_ID (opts ! k) = itoa (int k) \<and> (o_Highlighted (opts ! k) \<longleftrightarrow> k = up) \<and>
       menu_run (length opts) up (o_Keys (opts ! k)) = Some k \<and> (o_Keys (opts ! k) = [CR] \<longleftrightarrow> k = up) \<and> o_Label (opts ! k) \<noteq> []"
    if "k < length opts" for k
    using selector_option_Some [OF nth [OF that]] menu_run_selectorKeys [of up "length opts" k] that len
    by (simp add: hs selectorKeys_bare)
  then show ?thesis using bounds len by (intro exI [of _ up]) simp
qed

lemma numbered_loop_props:
  "distinct (map o_ID (numbered_loop ms seen)) \<and> set (map o_ID (numbered_loop ms seen)) \<inter> set seen = {} \<and>
   list_all (\<lambda>opt. o_Keys opt = o_ID opt @ [CR] \<and> o_ID opt \<noteq> ''0'' \<and> o_Label opt \<noteq> []) (numbered_loop ms seen)"
  by (induction ms seen rule: numbered_loop.induct) (auto simp: Let_def zero_option_def)

section \<open>Planned answers\<close>

definition gone :: "AnswerStep \<Rightarrow> bool" where
  "gone s \<longleftrightarrow> ev_Kind (st_Until s) = EvidenceGone"

lemma step_of_simps [simp]:
  "st_Keys (step_of k e i t) = k" "st_After (step_of k e i t) = 0" "gone (step_of k e i t) \<longleftrightarrow> e = EvidenceGone"
  "ev_Kind (st_Until (step_of k e i t)) = e" "ev_OptionID (st_Until (step_of k e i t)) = i"
  by (simp_all add: step_of_def gone_def)

lemma optionByID_Some: "optionByID req i = Some opt \<Longrightarrow> opt \<in> set (q_Options req) \<and> o_ID opt = i"
  by (auto simp: optionByID_def find_Some_iff)

text \<open>What the chosen options are, of the options the IDs name in their order.\<close>

lemma plan_choose_Inr:
  "plan_choose req ids c = Inr c' \<Longrightarrow>
     \<exists>os. map (optionByID req) ids = map Some os \<and>
       ch_picks c' = ch_picks c @ filter (\<lambda>opt. o_Alias opt \<notin> {''other'', ''chat''}) os \<and>
       (ch_chat c' \<noteq> None \<longleftrightarrow> ch_chat c \<noteq> None \<or> (\<exists>opt \<in> set os. o_Alias opt = ''chat'')) \<and>
       (ch_other c' \<noteq> None \<longleftrightarrow> ch_other c \<noteq> None \<or> (\<exists>opt \<in> set os. o_Alias opt = ''other''))"
proof (induction req ids c rule: plan_choose.induct)
  case (2 req i ids c)
  obtain opt where opt: "optionByID req i = Some opt" using "2.prems" by (auto split: option.splits)
  obtain os where "map (optionByID req) ids = map Some os"
      "ch_picks c' = ch_picks c @ filter (\<lambda>opt. o_Alias opt \<notin> {''other'', ''chat''}) (opt # os)"
      "ch_chat c' \<noteq> None \<longleftrightarrow> ch_chat c \<noteq> None \<or> (\<exists>opt \<in> set (opt # os). o_Alias opt = ''chat'')"
      "ch_other c' \<noteq> None \<longleftrightarrow> ch_other c \<noteq> None \<or> (\<exists>opt \<in> set (opt # os). o_Alias opt = ''other'')"
    using "2.IH" [OF opt] "2.prems" by (simp add: opt split: if_splits) auto
  then show ?case using opt by (intro exI [of _ "opt # os"]) simp
qed simp

lemma plan_choose_Inl: "plan_choose req ids c = Inl e \<Longrightarrow> \<exists>i \<in> set ids. e = NoOption i \<and> optionByID req i = None"
  by (induction req ids c rule: plan_choose.induct) (auto split: option.splits)

lemma question_steps_some:
  assumes "plan_choose req ids no_choice = Inr c" and "ids \<noteq> []" and "\<not> q_MultiSelect req \<longrightarrow> length ids \<le> 1"
  shows "question_steps req c text \<noteq> None"
proof -
  obtain os where os: "map (optionByID req) ids = map Some os" "ch_picks c = filter (\<lambda>opt. o_Alias opt \<notin> {''other'', ''chat''}) os"
    "ch_chat c \<noteq> None \<longleftrightarrow> (\<exists>opt \<in> set os. o_Alias opt = ''chat'')" "ch_other c \<noteq> None \<longleftrightarrow> (\<exists>opt \<in> set os. o_Alias opt = ''other'')"
    using plan_choose_Inr [OF assms(1)] by (auto simp: no_choice_def)
  have "os \<noteq> []" using os(1) assms(2) by auto
  then show ?thesis using os(2-4) by (cases os) (auto simp: question_steps_def split: option.splits list.splits)
qed

lemma toggles_not_gone: "list_all (\<lambda>s. \<not> gone s) (toggles picks)"
  by (simp add: toggles_def list_all_iff)

text \<open>The steps end with the one that closes the dialog, and no other does.\<close>

definition closing :: "AnswerStep list \<Rightarrow> bool" where
  "closing steps \<longleftrightarrow> steps \<noteq> [] \<and> gone (last steps) \<and> list_all (\<lambda>s. \<not> gone s) (butlast steps) \<and> list_all (\<lambda>s. st_After s = 0) steps"

lemma closing_toggles: "closing ss \<Longrightarrow> closing (toggles picks @ ss)"
  by (auto simp: closing_def toggles_def list_all_iff butlast_append)

lemma question_steps_closing: "question_steps req c text = Some steps \<Longrightarrow> closing steps"
proof -
  have one: "closing [step_of k EvidenceGone i t]" for k i t by (simp add: closing_def)
  have two: "closing (step_of k e i t # ss) \<longleftrightarrow> closing ss" if "ss \<noteq> []" "e \<noteq> EvidenceGone" for k e i t ss
    using that by (auto simp: closing_def)
  have other: "closing (other_steps req opt text)" for opt
    by (simp add: other_steps_def Let_def one two)
  show "question_steps req c text = Some steps \<Longrightarrow> closing steps"
    by (auto simp: question_steps_def one two other closing_toggles split: option.splits if_splits list.splits)
qed

lemma settle_first_closing:
  "closing steps \<Longrightarrow> \<exists>steps'. settle_first steps = Some steps' \<and> steps' \<noteq> [] \<and> gone (last steps') \<and>
     list_all (\<lambda>s. \<not> gone s) (butlast steps') \<and> map st_Keys steps' = map st_Keys steps \<and> map st_Until steps' = map st_Until steps \<and>
     st_After (hd steps') = questionSettle \<and> list_all (\<lambda>s. st_After s = 0) (tl steps')"
  by (cases steps) (auto simp: settle_first_def closing_def gone_def split: if_splits)

lemma planQuestion_closing: "planQuestion req ids text = Inr steps \<Longrightarrow> \<exists>ss. steps = Some ss \<and> closing ss"
proof -
  assume p: "planQuestion req ids text = Inr steps"
  then obtain c where c: "plan_choose req ids no_choice = Inr c" "ids \<noteq> []" "\<not> q_MultiSelect req \<longrightarrow> length ids \<le> 1"
      "steps = question_steps req c (oneLine text)"
    by (auto simp: planQuestion_def Let_def split: sum.splits if_splits)
  then show ?thesis using question_steps_some [OF c(1-3)] question_steps_closing by (metis not_None_eq)
qed

section \<open>Requests\<close>

lemma with_id_simps [simp]:
  "q_ID (with_id sum8 r) = inputID sum8 r" "q_Options (with_id sum8 r) = q_Options r" "q_Kind (with_id sum8 r) = q_Kind r"
  "q_Prompt (with_id sum8 r) = q_Prompt r" "q_MultiSelect (with_id sum8 r) = q_MultiSelect r"
  by (simp_all add: with_id_def)

lemma inputID_with_id [simp]: "inputID sum8 (with_id sum8 r) = inputID sum8 r"
  by (rule inputID_cong) simp_all

lemma question_line_ids:
  "distinct (map qo_id (pq_options out)) \<and> set (map qo_id (pq_options out)) = set (pq_seen out) \<Longrightarrow>
     distinct (map qo_id (pq_options (question_line ln out))) \<and>
     set (map qo_id (pq_options (question_line ln out))) = set (pq_seen (question_line ln out))"
proof -
  assume out: "distinct (map qo_id (pq_options out)) \<and> set (map qo_id (pq_options out)) = set (pq_seen out)"
  have desc: "map qo_id (butlast os @ [describe t (last os)]) = map qo_id os" if "os \<noteq> []" for os t
    using that by (cases os rule: rev_cases) (simp_all add: describe_def)
  show ?thesis
  proof (cases "FindStringSubmatch questionOptionRE ln")
    case None
    then have "map qo_id (pq_options (question_line ln out)) = map qo_id (pq_options out) \<and> pq_seen (question_line ln out) = pq_seen out"
      using desc [of "pq_options out" "trim_space ln"] by (simp add: question_line_def Let_def)
    then show ?thesis using out by simp
  next
    case (Some m)
    obtain opt boxed where "question_row m = (opt, boxed)" by (cases "question_row m")
    then show ?thesis using out Some by (auto simp: question_line_def Let_def)
  qed
qed

lemma parseQuestionRegion_ids: "distinct (map qo_id (pq_options (parseQuestionRegion lines from to)))"
proof -
  have "distinct (map qo_id (pq_options (fold question_line rows out)))"
    if "distinct (map qo_id (pq_options out)) \<and> set (map qo_id (pq_options out)) = set (pq_seen out)" for rows out
    using that
  proof (induction rows arbitrary: out)
    case (Cons ln rows)
    then show ?case using question_line_ids by simp
  qed simp
  then show ?thesis by (simp add: parseQuestionRegion_def)
qed

lemma question_option_id [simp]: "o_ID (question_option i q) = qo_id q" "o_Keys (question_option i q) = qo_id q"
  by (simp_all add: question_option_def Let_def zero_option_def)

lemma review_option_id [simp]: "o_ID (review_option q) = qo_id q" "o_Keys (review_option q) = qo_id q"
  by (simp_all add: review_option_def zero_option_def)

lemma detectQuestion_OK:
  assumes "detectQuestion sum8 text = (r, DetectOK)"
  shows "\<exists>req. r = Some req \<and> q_Options req \<noteq> [] \<and> distinct (map o_ID (q_Options req)) \<and> q_ID req = inputID sum8 req \<and>
    q_Kind req \<in> {KindQuestion, KindQuestionReview} \<and> list_all (\<lambda>opt. o_Keys opt = o_ID opt) (q_Options req) \<and> questionPresent text"
proof -
  define lines where "lines = split_on LF text"
  obtain tab where tab: "questionTabLine lines = Some tab"
    using assms by (cases "questionTabLine lines") (auto simp: detectQuestion_def lines_def Let_def)
  have present: "questionPresent text" if "lastLineAfter lines tab P = Some i" "\<And>ln. P ln \<Longrightarrow> isQuestionFooter ln \<or> sublist questionReviewAnchor ln" for P i
  proof -
    have "P (lines ! i)" "tab + 1 \<le> i" "i < length lines" using last_row_Some that(1) unfolding lastLineAfter_def by blast+
    then show ?thesis using that(2) tab
      by (auto simp: questionPresent_def lines_def [symmetric] lastLineAfter_def last_row_None)
  qed
  show ?thesis
  proof (cases "sublist questionSubmitTab (lines ! tab) \<and> lastLineAfter lines tab (sublist questionReviewAnchor) \<noteq> None")
    case True
    then obtain i where i: "lastLineAfter lines tab (sublist questionReviewAnchor) = Some i" by auto
    then have "reviewRequest sum8 lines tab i = (r, DetectOK)"
      using assms tab True by (simp add: detectQuestion_def lines_def [symmetric] Let_def)
    then show ?thesis using present [OF i] parseQuestionRegion_ids [of lines "i + 1" "length lines"]
      by (auto simp: reviewRequest_def Let_def list_all_iff zero_request_def comp_def split: if_splits)
  next
    case False
    then obtain j where j: "lastLineAfter lines tab isQuestionFooter = Some j"
      using assms tab by (cases "lastLineAfter lines tab isQuestionFooter") (auto simp: detectQuestion_def lines_def [symmetric] Let_def split: if_splits)
    define p where "p = parseQuestionRegion lines (tab + 1) j"
    have "r = Some (questionRequest sum8 (lines ! tab) p)" "pq_options p \<noteq> []"
      using assms tab False j by (auto simp: detectQuestion_def lines_def [symmetric] p_def Let_def split: if_splits)
    then show ?thesis using present [OF j] parseQuestionRegion_ids [of lines "tab + 1" j]
      by (auto simp: questionRequest_def list_all_iff comp_def p_def)
  qed
qed

lemma parseMenuOptions_ids: "distinct (map o_ID (parseMenuOptions text after))"
proof (cases "parseNumberedMenu text = []")
  case False
  then show ?thesis using numbered_loop_props by (simp add: parseMenuOptions_def parseNumberedMenu_def)
next
  case True
  show ?thesis
  proof (cases "parseSelectorMenu after = []")
    case False
    obtain h where "\<forall>k < length (parseSelectorMenu after). o_ID (parseSelectorMenu after ! k) = itoa (int k)"
      using selector_menu [OF refl False] by auto
    then show ?thesis using True by (auto simp: parseMenuOptions_def distinct_conv_nth itoa_inj)
  qed (simp add: parseMenuOptions_def True)
qed

lemma DetectInputDetail_OK:
  assumes "DetectInputDetail sum8 text = (r, DetectOK)"
  shows "\<exists>req. r = Some req \<and> q_Options req \<noteq> [] \<and> distinct (map o_ID (q_Options req)) \<and> q_ID req = inputID sum8 req \<and> AnchorPresent text"
proof (cases "liveAnchor text")
  case None
  then show ?thesis using detectQuestion_OK assms by (fastforce simp: DetectInputDetail_def AnchorPresent_def)
next
  case (Some l)
  obtain anchor idx kind where "l = (anchor, idx, kind)" by (cases l)
  then show ?thesis using Some assms parseMenuOptions_ids
    by (auto simp: DetectInputDetail_def AnchorPresent_def anchorSplit_def Let_def zero_request_def split: if_splits)
qed

lemma DetectInput_Some:
  "DetectInput sum8 text = Some req \<longleftrightarrow> DetectInputDetail sum8 text = (Some req, DetectOK)"
  by (auto simp: DetectInput_def split: prod.splits if_splits)

section \<open>The adapter over a sequence of screens\<close>

lemma turn_complete_props:
  "turn_complete u text a = (out, a1) \<Longrightarrow> ca_inputs a1 = ca_inputs a \<and> list_all (\<lambda>e. \<not> input_event e) out \<and>
     ca_lastUnparseable a1 = ca_lastUnparseable a"
  by (auto simp: turn_complete_def Let_def input_event_def turn_event_def split: if_splits)

lemma unparseable_props:
  "unparseableEvents sum8 text det a = (errs, a1) \<Longrightarrow> ca_inputs a1 = ca_inputs a \<and> ca_lastFingerprint a1 = ca_lastFingerprint a \<and>
     list_all (\<lambda>e. te_Kind e = Errored) errs"
  by (auto simp: unparseableEvents_def Let_def turn_event_def split: if_splits option.splits prod.splits)

interpretation claude: screen_adapter "claude_OnScreen sum8 u" ca_inputs "\<lambda>snap. DetectInput sum8 (sn_Text snap)" reasonPrefix
  for sum8 :: "string \<Rightarrow> nat" and u :: unicode
proof
  fix a snap evs a'
  assume on: "claude_OnScreen sum8 u a snap = (evs, a')"
  obtain out a1 where tc: "turn_complete u (sn_Text snap) a = (out, a1)" by (cases "turn_complete u (sn_Text snap) a")
  obtain req0 det where d: "DetectInputDetail sum8 (sn_Text snap) = (req0, det)" by (cases "DetectInputDetail sum8 (sn_Text snap)")
  have req: "DetectInput sum8 (sn_Text snap) = (if det \<noteq> DetectOK then None else req0)" using d by (simp add: DetectInput_def)
  obtain obs t where o: "tracker_Observe (DetectInput sum8 (sn_Text snap)) reasonPrefix (ca_inputs a1) = (obs, t)"
    by (cases "tracker_Observe (DetectInput sum8 (sn_Text snap)) reasonPrefix (ca_inputs a1)")
  obtain errs a3 where un: "unparseableEvents sum8 (sn_Text snap) det (a1\<lparr>ca_inputs := t\<rparr>) = (errs, a3)"
    by (cases "unparseableEvents sum8 (sn_Text snap) det (a1\<lparr>ca_inputs := t\<rparr>)")
  have "evs = out @ obs @ errs" "a' = a3" using on tc d o un req by (auto simp: claude_OnScreen_def Let_def)
  moreover have "ca_inputs a3 = t" "list_all (\<lambda>e. \<not> input_event e) errs"
    using unparseable_props [OF un] by (auto simp: list_all_iff input_event_def)
  ultimately show "\<exists>xs obs ys. evs = xs @ obs @ ys \<and> list_all (\<lambda>e. \<not> input_event e) xs \<and> list_all (\<lambda>e. \<not> input_event e) ys \<and>
      tracker_Observe (DetectInput sum8 (sn_Text snap)) reasonPrefix (ca_inputs a) = (obs, ca_inputs a')"
    using turn_complete_props [OF tc] o by auto
next
  fix snap r
  assume "DetectInput sum8 (sn_Text snap) = Some r"
  then show "q_ID r \<noteq> []" using DetectInputDetail_OK by (fastforce simp: DetectInput_Some)
qed

text \<open>The marker of a screen that is idle and has one.\<close>

definition idle_marker :: "unicode \<Rightarrow> string \<Rightarrow> string option" where
  "idle_marker u text =
     (let matches = FindAllStringSubmatch (thinkingRE u) text in
      if matches \<noteq> [] \<and> \<not> claude_Busy text then Some ((last matches) 1) else None)"

lemma claude_OnScreen_completions:
  assumes "claude_OnScreen sum8 u a snap = (evs, a')"
  shows "completions evs =
      (case idle_marker u (sn_Text snap) of
         Some m \<Rightarrow> if m \<noteq> ca_lastFingerprint a then [reasonPrefix @ m] else [] | None \<Rightarrow> []) \<and>
    ca_lastFingerprint a' = (case idle_marker u (sn_Text snap) of Some m \<Rightarrow> m | None \<Rightarrow> ca_lastFingerprint a)"
proof -
  obtain out a1 where tc: "turn_complete u (sn_Text snap) a = (out, a1)" by (cases "turn_complete u (sn_Text snap) a")
  obtain req0 det where d: "DetectInputDetail sum8 (sn_Text snap) = (req0, det)" by (cases "DetectInputDetail sum8 (sn_Text snap)")
  define req where "req = (if det \<noteq> DetectOK then None else req0)"
  obtain obs t where o: "tracker_Observe req reasonPrefix (ca_inputs a1) = (obs, t)" by (cases "tracker_Observe req reasonPrefix (ca_inputs a1)")
  obtain errs a3 where un: "unparseableEvents sum8 (sn_Text snap) det (a1\<lparr>ca_inputs := t\<rparr>) = (errs, a3)"
    by (cases "unparseableEvents sum8 (sn_Text snap) det (a1\<lparr>ca_inputs := t\<rparr>)")
  have e: "evs = out @ obs @ errs" "a' = a3" using assms tc d o un by (auto simp: claude_OnScreen_def Let_def req_def)
  have "completions errs = []" "ca_lastFingerprint a3 = ca_lastFingerprint a1"
    using unparseable_props [OF un] by (auto intro!: completions_none simp: list_all_iff)
  moreover have "completions obs = []" using tracker_no_completion [OF o] .
  ultimately show ?thesis using tc
    by (auto simp: e turn_complete_def idle_marker_def Let_def completions_def turn_event_def split: if_splits)
qed

interpretation claude: turn_reporter "claude_OnScreen sum8 u" ca_lastFingerprint "\<lambda>snap. idle_marker u (sn_Text snap)" reasonPrefix
  for sum8 :: "string \<Rightarrow> nat" and u :: unicode
  by unfold_locales (rule claude_OnScreen_completions)

section \<open>Which part of the screen is read\<close>

text \<open>
  A painted screen: the conversation, the status line, blank rows or the effort indicator, the composer between its
  two rules, the footer.
\<close>

definition quiet_row :: "string \<Rightarrow> bool" where
  "quiet_row ln \<longleftrightarrow> trim_space ln = [] \<or> MatchString effortLineRE (trim_space ln)"

abbreviation rule_row :: "string \<Rightarrow> bool" where "rule_row \<equiv> MatchString composerRuleRE"

definition painted :: "string list \<Rightarrow> string \<Rightarrow> string list \<Rightarrow> string \<Rightarrow> string list \<Rightarrow> string \<Rightarrow> string list \<Rightarrow> string list" where
  "painted convo status gap rule1 composer rule2 footer = convo @ [status] @ gap @ [rule1] @ composer @ [rule2] @ footer"

lemma last_row_split:
  assumes "P x" and "list_all (\<lambda>ln. \<not> P ln) ys" and "lo \<le> length xs"
  shows "last_row lo (length xs + 1 + length ys) P (xs @ x # ys @ zs) = Some (length xs)"
proof (rule last_row_eq)
  fix j
  assume j: "length xs < j" "j < length xs + 1 + length ys"
  then have k: "j - Suc (length xs) < length ys" by simp
  then have "(xs @ x # ys @ zs) ! j = ys ! (j - Suc (length xs))" using j by (simp add: nth_append nth_Cons')
  with k show "\<not> P ((xs @ x # ys @ zs) ! j)" using assms(2) by (simp add: list_all_length)
qed (use assms in \<open>auto simp: nth_append\<close>)

lemma statusRegion_painted:
  assumes lines: "\<forall>ln \<in> set (painted convo status gap rule1 composer rule2 footer). LF \<notin> set ln"
    and rules: "rule_row rule1" "rule_row rule2" and plain: "list_all (\<lambda>ln. \<not> rule_row ln) (composer @ footer)"
    and size: "length composer \<le> maxComposerLines" and status: "\<not> quiet_row status" and gap: "list_all quiet_row gap"
  shows "statusRegion (join_on LF (painted convo status gap rule1 composer rule2 footer)) = Some (status, footer)"
proof -
  define lines where "lines = painted convo status gap rule1 composer rule2 footer"
  have split: "split_on LF (join_on LF lines) = lines"
    using split_join [of lines LF] lines by (simp add: lines_def painted_def)
  define upper where "upper = length (convo @ [status] @ gap)"
  define bottom where "bottom = length (convo @ [status] @ gap @ [rule1] @ composer)"
  have b: "last_row 0 (length lines) rule_row lines = Some bottom"
    using last_row_split [of rule_row rule2 footer 0 "convo @ [status] @ gap @ [rule1] @ composer" "[]"] rules plain
    by (simp add: lines_def painted_def bottom_def ac_simps)
  have "bottom - maxComposerLines - 1 \<le> upper" "bottom = length (convo @ [status] @ gap) + 1 + length composer"
    using size by (simp_all add: bottom_def upper_def)
  then have t: "last_row (bottom - maxComposerLines - 1) bottom rule_row lines = Some upper"
    using last_row_split [of rule_row rule1 composer "bottom - maxComposerLines - 1" "convo @ [status] @ gap" "rule2 # footer"] rules plain
    by (simp add: lines_def painted_def upper_def)
  have s: "last_row 0 upper (\<lambda>ln. \<not> quiet_row ln) lines = Some (length convo)"
    using last_row_split [of "\<lambda>ln. \<not> quiet_row ln" status gap 0 convo "rule1 # composer @ rule2 # footer"] status gap
    by (simp add: lines_def painted_def upper_def)
  have "lines = (convo @ [status] @ gap @ [rule1] @ composer) @ rule2 # footer" by (simp add: lines_def painted_def)
  then have "drop (bottom + 1) lines = footer" unfolding bottom_def by (simp del: append_assoc)
  moreover have "lines ! length convo = status" by (simp add: lines_def painted_def)
  ultimately show ?thesis using b t s
    by (simp add: statusRegion_def split lines_def [symmetric] quiet_row_def [symmetric, abs_def])
qed

section \<open>Clearing the composer\<close>

text \<open>
  A composer's lines around its cursor, and the keys as the adapter's comment records them: Ctrl-E moves to the end of
  the line; Ctrl-K kills to the end of the line and at the end of a line joins the next one; Ctrl-U kills to the start of
  the line and on an empty line joins it to the one above; a key with nothing to do does nothing.
\<close>

record composer =
  c_up :: "string list"
  c_left :: string
  c_right :: string
  c_down :: "string list"

definition edits :: "(char \<Rightarrow> composer \<Rightarrow> composer) \<Rightarrow> bool" where
  "edits press \<longleftrightarrow>
     (\<forall>c. press keyEndOfLine c = c\<lparr>c_left := c_left c @ c_right c, c_right := []\<rparr>) \<and>
     (\<forall>c. press keyKillToEnd c =
        (if c_right c \<noteq> [] then c\<lparr>c_right := []\<rparr>
         else case c_down c of [] \<Rightarrow> c | l # ls \<Rightarrow> c\<lparr>c_right := l, c_down := ls\<rparr>)) \<and>
     (\<forall>c. c_right c = [] \<longrightarrow> press keyKillStart c =
        (if c_left c \<noteq> [] then c\<lparr>c_left := []\<rparr>
         else if c_up c = [] then c else c\<lparr>c_up := butlast (c_up c), c_left := last (c_up c)\<rparr>))"

abbreviation presses :: "string list \<Rightarrow> nat" where
  "presses ls \<equiv> sum_list (map (\<lambda>l. if l = [] then 1 else 2) ls)"

lemma presses_le: "presses ls \<le> 2 * length ls"
  by (induction ls) auto

lemma kill_down:
  assumes "edits press"
  shows "(if c_right c = [] then 0 else 1) + presses (c_down c) \<le> n \<Longrightarrow>
    fold press (replicate n keyKillToEnd) c = c\<lparr>c_right := [], c_down := []\<rparr>"
proof (induction n arbitrary: c)
  case 0
  then show ?case by (cases "c_down c") (auto split: if_splits)
next
  case (Suc n)
  have k: "press keyKillToEnd c = (if c_right c \<noteq> [] then c\<lparr>c_right := []\<rparr>
      else case c_down c of [] \<Rightarrow> c | l # ls \<Rightarrow> c\<lparr>c_right := l, c_down := ls\<rparr>)"
    using assms by (simp add: edits_def)
  show ?case using Suc.prems Suc.IH [of "press keyKillToEnd c"] by (auto simp: k split: list.splits if_splits)
qed

lemma kill_up:
  assumes "edits press"
  shows "c_right c = [] \<Longrightarrow> (if c_left c = [] then 0 else 1) + presses (c_up c) \<le> n \<Longrightarrow>
    fold press (replicate n keyKillStart) c = c\<lparr>c_left := [], c_up := []\<rparr>"
proof (induction n arbitrary: c)
  case 0
  then show ?case by (cases "c_up c") (auto split: if_splits)
next
  case (Suc n)
  have k: "press keyKillStart c = (if c_left c \<noteq> [] then c\<lparr>c_left := []\<rparr>
      else if c_up c = [] then c else c\<lparr>c_up := butlast (c_up c), c_left := last (c_up c)\<rparr>)"
    using assms Suc.prems(1) by (simp add: edits_def)
  show ?case using Suc.prems Suc.IH [of "press keyKillStart c"]
    by (cases "c_up c" rule: rev_cases) (auto simp: k split: if_splits)
qed

lemma clear_composer:
  assumes "edits press" and "length (c_up c) + 1 + length (c_down c) \<le> count_list composer LF + 1"
  shows "fold press (ClearComposerSequence composer) c = \<lparr>c_up = [], c_left = [], c_right = [], c_down = []\<rparr>"
proof -
  define n where "n = count_list composer LF + 1"
  define c1 where "c1 = c\<lparr>c_left := c_left c @ c_right c, c_right := []\<rparr>"
  define c2 where "c2 = c1\<lparr>c_right := [], c_down := []\<rparr>"
  have e: "press keyEndOfLine c = c1" using assms(1) by (simp add: edits_def c1_def)
  have "presses (c_down c) \<le> 2 * n" "presses (c_up c) + 1 \<le> 2 * n + 1"
    using presses_le [of "c_down c"] presses_le [of "c_up c"] assms(2) by (auto simp: n_def)
  then have "fold press (replicate (2 * n) keyKillToEnd) c1 = c2"
    "fold press (replicate (2 * n + 1) keyKillStart) c2 = c2\<lparr>c_left := [], c_up := []\<rparr>"
    using kill_down [OF assms(1), of c1 "2 * n"] kill_up [OF assms(1), of c2 "2 * n + 1"]
    by (auto simp: c1_def c2_def)
  then show ?thesis
    unfolding ClearComposerSequence_def Let_def n_def [symmetric] fold_Cons fold_append comp_apply e by (simp add: c2_def c1_def)
qed

section \<open>The permission footer\<close>

lemma permission_posture:
  assumes "permissionPostureFromFooter text = Some p"
  shows "pp_Rung p \<in> set PermissionRungs \<and> 
    claudeRung (pp_Native p) = (if pp_Native p = ''default'' then [] else pp_Rung p) \<and> (pp_OnRing p \<longleftrightarrow> pp_Native p \<noteq> ''dontAsk'')"
proof -
  obtain key where rung: "map_of permissionModeRungs key = Some (pp_Rung p)" and native: "map_of permissionModeNatives key = Some (pp_Native p)"
    and ring: "pp_OnRing p \<longleftrightarrow> map_of cycleRingNatives (pp_Native p) = Some True"
    using assms by (auto simp: permissionPostureFromFooter_def Let_def split: option.splits)
  have "(pp_Rung p, pp_Native p) \<in> {(''plan'', ''plan''), (''manual'', ''default''), (''ask'', ''acceptEdits''), (''auto'', ''auto''),
      (''bypass'', ''bypassPermissions''), (''manual'', ''dontAsk'')}"
  proof -
    have "key \<in> fst ` set permissionModeRungs" using rung by (metis domI dom_map_of_conv_image_fst)
    then have "key \<in> {''plan mode'', ''manual mode'', ''accept edits'', ''auto mode'', ''bypass permissions'', dont @ '' ask''}"
      by (simp add: permissionModeRungs_def)
    then show ?thesis using rung native
      by (elim insertE emptyE) (simp_all add: permissionModeRungs_def permissionModeNatives_def dont_def)
  qed
  then show ?thesis using ring unfolding insert_iff empty_iff prod.inject
    by (elim disjE conjE) (simp_all add: cycleRingNatives_def claudeRung_def rungIndex_def PermissionRungs_def)
qed

end
