(* ===== verification/Turns_Claude_Reply.thy ===== *)
theory Turns_Claude_Reply
  imports Turns_Claude_Properties
begin

text \<open>
  A reply painted on Claude Code's screen is read back as it was: its first line after a bullet, the others indented
  below it, and the end-of-turn summary under them.
\<close>

section \<open>The bullet\<close>

lemma star_any_rune:
  "i \<le> length s \<Longrightarrow> LF \<notin> set (drop i s) \<Longrightarrow> \<exists>es. star_ends True s any_rune i = length s # es"
proof (induction True s any_rune i rule: star_ends.induct)
  case (1 s i)
  define n where "n = item_len any_rune (drop i s)"
  show ?case
  proof (cases "n = 0")
    case True
    have "drop i s = []"
    proof (rule ccontr)
      assume "drop i s \<noteq> []"
      then obtain a t where "drop i s = a # t" by (cases "drop i s") auto
      then show False using True "1.prems"(2) rune_len_pos [of "drop i s"] by (auto simp: n_def)
    qed
    then show ?thesis using "1.prems"(1) by (simp add: star_ends.simps [of True s any_rune i])
  next
    case False
    have "i + n \<le> length s" using item_len_le [of any_rune "drop i s"] "1.prems"(1) by (simp add: n_def)
    moreover have "LF \<notin> set (drop (i + n) s)"
      using "1.prems"(2) set_drop_subset_set_drop [of i "i + n" s] by auto
    ultimately show ?thesis using "1.hyps"(1) [OF n_def False] False
      by (auto simp: star_ends.simps [of True s any_rune i] n_def [symmetric] Let_def)
  qed
qed

lemma bullet_bytes: "utf8 0x23FA = [CHR 0xE2, CHR 0x8F, CHR 0xBA]" "utf8 0x25CF = [CHR 0xE2, CHR 0x97, CHR 0x8F]"
  by (code_simp, code_simp)

definition bullet :: "string \<Rightarrow> bool" where
  "bullet g \<longleftrightarrow> g = utf8 0x23FA \<or> g = utf8 0x25CF"

lemma bulletRE_runs:
  assumes "bullet g" and "LF \<notin> set m"
  shows "\<exists>rest. runs (g @ '' '' @ m) bulletRE (0, []) = (length (g @ '' '' @ m), [(1, 4, length (g @ '' '' @ m))]) # rest"
proof -
  define s where "s = g @ '' '' @ m"
  have g: "g = [CHR 0xE2, CHR 0x8F, CHR 0xBA] \<or> g = [CHR 0xE2, CHR 0x97, CHR 0x8F]"
    using assms(1) by (simp add: bullet_def bullet_bytes)
  have ex: "exact '' '' = One (Runes ['' ''])" by (simp add: exact_def rune_parts_ascii)
  have hs: "item_len hspace s = 0" using g by (auto simp: s_def hspace_def)
  have gl: "item_len (Runes (map utf8 [0x23FA, 0x25CF])) s = 3" using g by (auto simp: s_def bullet_bytes)
  have sp: "item_len (Runes ['' '']) (drop 3 s) = 1" using g by (auto simp: s_def)
  have d4: "drop 4 s = m" "4 \<le> length s" using g by (auto simp: s_def)
  obtain es where es: "star_ends True s any_rune 4 = length s # es"
    using star_any_rune [of 4 s] d4 assms(2) by auto
  have star: "star_ends True s hspace 0 = [0]" using hs by (simp add: star_ends.simps [of True s hspace 0])
  show ?thesis unfolding s_def [symmetric]
    using star gl sp es by (simp add: bulletRE_def ex)
qed

lemma bulletText_painted:
  assumes "bullet g" and "LF \<notin> set m"
  shows "MatchString bulletRE (g @ '' '' @ m) \<and> bulletText (g @ '' '' @ m) = m"
proof -
  define s where "s = g @ '' '' @ m"
  obtain rest where r: "runs s bulletRE (0, []) = (length s, [(1, 4, length s)]) # rest"
    using bulletRE_runs [OF assms] by (auto simp: s_def)
  have "find_from bulletRE s 0 = Some (0, length s, [(1, 4, length s)])" by (simp add: find_from.simps [of bulletRE s 0] r)
  moreover have "drop 4 s = m" "length s = 4 + length m" using assms(1) by (auto simp: s_def bullet_def bullet_bytes)
  ultimately show ?thesis unfolding s_def [symmetric] by (simp add: MatchString_def bulletText_def FindStringSubmatch_def)
qed

section \<open>The rows below it\<close>

definition paint_row :: "string \<Rightarrow> string" where
  "paint_row l = (if l = [] then [] else ''  '' @ l)"

text \<open>A line of a reply that comes back as it was: it is empty, or is not blank and has no space at either end.\<close>

definition flush :: "string \<Rightarrow> bool" where
  "flush l \<longleftrightarrow> l = [] \<or> hd l \<noteq> CHR '' '' \<and> last l \<noteq> CHR '' '' \<and> trim_space (''  '' @ l) \<noteq> []"

lemma trim_right_flush: "s \<noteq> [] \<Longrightarrow> last s \<notin> set cs \<Longrightarrow> trim_right_set cs s = s"
  by (cases s rule: rev_cases) (simp_all add: trim_right_set_def)

lemma trim_space_Nil [simp]: "trim_space [] = []"
  by (simp add: trim_space_def trim_left.simps trim_right.simps)

lemma paint_row_blank: "flush l \<Longrightarrow> trim_space (paint_row l) = [] \<longleftrightarrow> l = []"
  by (auto simp: flush_def paint_row_def)

lemma block_rest_painted:
  assumes "list_all (\<lambda>l. flush l \<and> \<not> isBlockBoundary u (paint_row l)) ms" and "isBlockBoundary u f"
  shows "block_rest u (map paint_row ms @ f # below) = map paint_row ms"
  using assms(1)
proof (induction ms)
  case (Cons l ms)
  then have l: "flush l" "\<not> isBlockBoundary u (paint_row l)" by simp_all
  have "(if trim_space (paint_row l) = [] then [] else trim_right_set '' '' (paint_row l)) = paint_row l"
    using l(1) paint_row_blank [OF l(1)] trim_right_flush [of "paint_row l" "'' ''"] by (auto simp: paint_row_def flush_def)
  then show ?case using Cons l by simp
qed (simp add: assms(2))

lemma indent_painted: "flush l \<Longrightarrow> l \<noteq> [] \<Longrightarrow> indent_of (paint_row l) = 2"
  by (cases l) (auto simp: indent_of_def paint_row_def flush_def trim_left_set_def)

lemma min_indent_painted:
  "list_all flush ms \<Longrightarrow> min_indent (map paint_row ms) (Some 2) = Some 2"
  "list_all flush ms \<Longrightarrow> min_indent (map paint_row ms) None = (if list_all (\<lambda>l. l = []) ms then None else Some 2)"
  by (induction ms) (auto simp: paint_row_blank indent_painted)

lemma join_on_last: "ms \<noteq> [] \<Longrightarrow> last ms \<noteq> [] \<Longrightarrow> join_on c ms \<noteq> [] \<and> last (join_on c ms) = last (last ms)"
  by (induction ms) (auto simp: join_on_Cons)

lemma dedent_painted:
  assumes flush: "list_all flush ms" and ne: "ms \<noteq> []" "last ms \<noteq> []" and lf: "\<forall>l \<in> set ms. LF \<notin> set l"
  shows "dedent (map paint_row ms) = join_on LF ms"
proof -
  have "\<not> list_all (\<lambda>l. l = []) ms" using ne last_in_set [OF ne(1)] by (auto simp: list_all_iff)
  then have mi: "min_indent (map paint_row ms) None = Some 2" using min_indent_painted(2) flush by simp
  have rows: "map (\<lambda>ln. if 2 \<le> length ln then drop 2 ln else trim_left_set '' '' ln) (map paint_row ms) = ms"
    unfolding map_map by (rule map_idI) (simp add: paint_row_def trim_left_set_def)
  have "join_on LF ms \<noteq> [] \<and> last (join_on LF ms) = last (last ms)" by (rule join_on_last [OF ne])
  moreover have "last (last ms) \<noteq> LF" using bspec [OF lf last_in_set [OF ne(1)]] last_in_set [OF ne(2)] by metis
  ultimately have "trim_right_set [LF] (join_on LF ms) = join_on LF ms" by (simp add: trim_right_flush)
  then show ?thesis by (simp add: dedent_def mi rows Let_def del: map_map list.map_comp)
qed

lemma assemble_painted:
  assumes "list_all flush ms" and "ms \<noteq> [] \<Longrightarrow> last ms \<noteq> []" and "\<forall>l \<in> set ms. LF \<notin> set l"
  shows "assembleMessage (m0 # map paint_row ms) = join_on LF (m0 # ms)"
proof (cases "ms = []")
  case False
  have d: "dedent (map paint_row ms) = join_on LF ms"
    by (rule dedent_painted [OF assms(1) False assms(2) [OF False] assms(3)])
  have "join_on LF ms \<noteq> []" using join_on_last [OF False assms(2) [OF False]] by simp
  then show ?thesis using False by (simp add: assembleMessage_def d join_on_Cons)
qed (simp add: assembleMessage_def)

section \<open>The reply\<close>



end
