(* ===== verification/Turns_Codex.thy ===== *)
theory Turns_Codex
  imports Turns_Claude_Properties
begin

text \<open>
  Codex's turn adapter (\<^verbatim>\<open>pkg/turns/harness/codex\<close>): its startup notices and approval dialogs, the keys that dismiss a
  notice, the collaboration mode on the screen, and what the adapter reports for a screen. It interprets
  \<open>screen_adapter\<close> and \<open>turn_reporter\<close>.
\<close>

section \<open>Expressions\<close>

definition updateAnchor :: string where "updateAnchor = ''Update available!''"

definition migrationAnchor :: string where
  "migrationAnchor = ''Choose how you'' @ apostrophe @ ''d like Codex to proceed''"

definition continueAnchor :: string where "continueAnchor = ''Press enter to continue''"

definition approvalAnchors :: "string list" where
  "approvalAnchors = [''Would you like to run the following command?'', ''Would you like to make the following edits?'']"

definition KindUpdateNotice :: string where "KindUpdateNotice = ''codex_update_notice''"
definition KindModelMigration :: string where "KindModelMigration = ''codex_model_migration''"
definition KindNotice :: string where "KindNotice = ''codex_notice''"
definition KindApproval :: string where "KindApproval = ''approval_prompt''"

definition signinWallRE :: re where
  "signinWallRE = Alt (lit ''sign in with chatgpt'') (lit ''finish signing in via your browser'')"

definition promptGlyph :: re where "promptGlyph = One (Runes [utf8 0x203A])"

definition codex_menuRE :: re where
  "codex_menuRE = seq [Bol, Star hspace, Opt (Group 1 promptGlyph), Star hspace, Group 2 (Plus digit_item), exact ''.'', Plus hspace,
     Group 3 (Cat (One any_rune) (Lazy any_rune)), Star hspace, Eol]"

definition promptRE :: re where
  "promptRE = seq [Bol, Star hspace, promptGlyph]"

definition count_item :: item where
  "count_item = Runes (map (\<lambda>c. [c]) ''0123456789,'')"

definition tokenUsageRE :: re where
  "tokenUsageRE = seq [exact ''Token usage: total='', Plus count_item, exact '' input='', Plus count_item, exact '' (+ '', Plus count_item,
     exact '' cached) output='', Plus count_item, Opt (seq [exact '' (reasoning '', Plus digit_item, exact '')''])]"

definition codex_resumeRE :: re where
  "codex_resumeRE = Cat (exact ''codex resume '') (Group 1 uuid_re)"

text \<open>\<open>spaced\<close>: each space of the expression is one or more of \<^verbatim>\<open>[^\S\r\n]\<close>.\<close>

definition collaborationPlanRE :: re where
  "collaborationPlanRE =
     seq [Alt (Cat Bol (Star hspace)) (seq [One hspace, One hspace, Star hspace]), spaced_words [exact ''Plan'', exact ''mode''],
       Opt (seq [Plus hspace, spaced_words [exact ''(shift+tab'', exact ''to'', exact ''cycle)'']]),
       Star hspace, alts [One (Runes [[CR]]), One (Runes [[LF]]), Eot]]"

section \<open>Options\<close>

definition aliasForLabel :: "string \<Rightarrow> string" where
  "aliasForLabel label =
     (let l = go_lower label in
      if sublist ''skip'' l then ''skip'' else if sublist ''update'' l then ''update'' else IntentAlias label)"

definition findByAlias :: "TRequest \<Rightarrow> string \<Rightarrow> TOption option" where
  "findByAlias req alias = find (\<lambda>opt. o_Alias opt = alias) (q_Options req)"

fun codex_menu_loop :: "(nat \<Rightarrow> string) list \<Rightarrow> string list \<Rightarrow> TOption list" where
  "codex_menu_loop [] seen = []"
| "codex_menu_loop (m # ms) seen =
     (let num = m 2; label = cleanLabel (m 3) in
      if num \<in> set seen \<or> label = [] then codex_menu_loop ms seen
      else zero_option\<lparr>o_ID := num, o_Alias := aliasForLabel label, o_Label := label, o_Keys := num @ [CR],
             o_Highlighted := (m 1 \<noteq> [])\<rparr> # codex_menu_loop ms (num # seen))"

definition codex_parseMenuOptions :: "string \<Rightarrow> TOption list" where
  "codex_parseMenuOptions text = codex_menu_loop (FindAllStringSubmatch codex_menuRE text) []"

definition continueOption :: "TOption list" where
  "continueOption = [zero_option\<lparr>o_ID := ''continue'', o_Alias := ''continue'', o_Label := ''Continue'', o_Keys := [CR]\<rparr>]"

section \<open>Detection\<close>

definition continueFooterLast :: "string \<Rightarrow> bool" where
  "continueFooterLast text = sublist continueAnchor (last (split_on LF (trim_right_set [CHR '' '', CHR 0x09, CR, LF] text)))"

fun first_anchor :: "string list \<Rightarrow> string \<Rightarrow> (nat \<times> string) option" where
  "first_anchor [] text = None"
| "first_anchor (a # as) text = (case index_sub text a of Some i \<Rightarrow> Some (i, a) | None \<Rightarrow> first_anchor as text)"

definition detectApproval :: "(string \<Rightarrow> nat) \<Rightarrow> string \<Rightarrow> TRequest option" where
  "detectApproval sum8 text =
     (case first_anchor approvalAnchors text of
        None \<Rightarrow> None
      | Some (idx, anchor) \<Rightarrow>
          let opts = codex_parseMenuOptions (drop (idx + length anchor) text);
              req = zero_request\<lparr>q_Kind := KindApproval, q_Prompt := anchor, q_Options := opts\<rparr>
          in if findByAlias req ''proceed'' = None then None
             else if findByAlias req ''deny'' = None then None
             else if \<not> list_ex o_Highlighted opts then None
             else Some (with_id sum8 req))"

definition codex_DetectInput :: "(string \<Rightarrow> nat) \<Rightarrow> string \<Rightarrow> TRequest option" where
  "codex_DetectInput sum8 text =
     (case detectApproval sum8 text of
        Some req \<Rightarrow> Some req
      | None \<Rightarrow>
          if MatchString signinWallRE text then None
          else if sublist updateAnchor text
          then let req = zero_request\<lparr>q_Kind := KindUpdateNotice, q_Prompt := updateAnchor, q_Options := codex_parseMenuOptions text\<rparr>
               in if findByAlias req ''skip'' = None then None else Some (with_id sum8 req)
          else if \<not> continueFooterLast text then None
          else if sublist migrationAnchor text
          then Some (with_id sum8 (zero_request\<lparr>q_Kind := KindModelMigration, q_Prompt := migrationAnchor, q_Options := continueOption\<rparr>))
          else if sublist continueAnchor text
          then let opts0 = codex_parseMenuOptions text; opts = (if opts0 = [] then continueOption else opts0)
               in Some (with_id sum8 (zero_request\<lparr>q_Kind := KindNotice, q_Prompt := continueAnchor, q_Options := opts\<rparr>))
          else None)"

definition PromptReady :: "string \<Rightarrow> bool" where
  "PromptReady text = MatchString promptRE text"

text \<open>The keys, when the request is one to dismiss. The outer \<open>None\<close> is a nil request.\<close>

definition AutoDismissKeys :: "TRequest option \<Rightarrow> string option" where
  "AutoDismissKeys r =
     (case r of
        None \<Rightarrow> None
      | Some req \<Rightarrow>
          if q_Kind req = KindUpdateNotice then map_option o_Keys (findByAlias req ''skip'')
          else if q_Kind req = KindNotice then Some [CR]
          else if q_Kind req = KindModelMigration then Some [CR]
          else None)"

definition codex_DismissKeys :: "TRequest option \<Rightarrow> bool \<Rightarrow> string option" where
  "codex_DismissKeys r updates =
     (case r of
        Some req \<Rightarrow> if q_Kind req = KindUpdateNotice \<and> \<not> updates then None else AutoDismissKeys r
      | None \<Rightarrow> AutoDismissKeys r)"

definition codex_ReadyForInput :: "(string \<Rightarrow> nat) \<Rightarrow> string \<Rightarrow> bool" where
  "codex_ReadyForInput sum8 text = (if codex_DetectInput sum8 text \<noteq> None then False else PromptReady text)"

section \<open>The collaboration mode\<close>

definition collabPlan :: string where "collabPlan = ''plan''"
definition collabDefault :: string where "collabDefault = ''default''"

definition composerReadable :: "(string \<Rightarrow> nat) \<Rightarrow> string \<Rightarrow> bool" where
  "composerReadable sum8 text =
     (if MatchString signinWallRE text then False
      else if codex_DetectInput sum8 text \<noteq> None then False
      else PromptReady text)"

definition collaborationMode :: "(string \<Rightarrow> nat) \<Rightarrow> string \<Rightarrow> string option" where
  "collaborationMode sum8 text =
     (if MatchString collaborationPlanRE text then Some collabPlan
      else if \<not> composerReadable sum8 text then None
      else Some collabDefault)"

section \<open>The adapter\<close>

record CodexAdapter =
  xa_SessionsRoot :: string
  xa_lastFingerprint :: string
  xa_inputs :: Tracker

definition codex_New :: CodexAdapter where
  "codex_New = \<lparr>xa_SessionsRoot = [], xa_lastFingerprint = [], xa_inputs = new_tracker\<rparr>"

definition codex_label :: string where "codex_label = ''codex: ''"

definition codex_OnScreen :: "(string \<Rightarrow> nat) \<Rightarrow> CodexAdapter \<Rightarrow> Snapshot \<Rightarrow> TurnEvent list \<times> CodexAdapter" where
  "codex_OnScreen sum8 a snap =
     (let matches = FindAllStringIndex tokenUsageRE (sn_Text snap);
          (out, a1) =
            (if matches \<noteq> []
             then let latest = slice (sn_Text snap) (fst (last matches)) (snd (last matches)) in
                  if latest \<noteq> xa_lastFingerprint a
                  then ([turn_event TurnComplete (codex_label @ latest)], a\<lparr>xa_lastFingerprint := latest\<rparr>)
                  else ([], a)
             else ([], a));
          (obs, t) = tracker_Observe (codex_DetectInput sum8 (sn_Text snap)) codex_label (xa_inputs a1)
      in (out @ obs, a1\<lparr>xa_inputs := t\<rparr>))"

definition codex_ResumeArgs :: "string \<Rightarrow> string list" where
  "codex_ResumeArgs harnessSessionID = [''resume'', harnessSessionID]"

definition codex_ExtractSessionID :: "Snapshot \<Rightarrow> string option" where
  "codex_ExtractSessionID snap = map_option (\<lambda>m. m 1) (FindStringSubmatch codex_resumeRE (sn_Text snap))"

definition codex_PermissionMode :: "(string \<Rightarrow> nat) \<Rightarrow> Snapshot \<Rightarrow> string option" where
  "codex_PermissionMode sum8 snap = collaborationMode sum8 (sn_Text snap)"

definition codex_ConfigureFromEnv :: "string list \<Rightarrow> CodexAdapter \<Rightarrow> CodexAdapter" where
  "codex_ConfigureFromEnv env a =
     (let home = trim_space (envLookup env ''CODEX_HOME'') in
      if home = [] then a else a\<lparr>xa_SessionsRoot := path_join home ''sessions''\<rparr>)"

section \<open>What is read off the screen\<close>

lemma codex_menu_loop_props:
  "distinct (map o_ID (codex_menu_loop ms seen)) \<and> set (map o_ID (codex_menu_loop ms seen)) \<inter> set seen = {} \<and>
   list_all (\<lambda>opt. o_Keys opt = o_ID opt @ [CR] \<and> o_Label opt \<noteq> [] \<and> o_Alias opt = aliasForLabel (o_Label opt)) (codex_menu_loop ms seen)"
  by (induction ms seen rule: codex_menu_loop.induct) (auto simp: Let_def zero_option_def)

lemma codex_menu_props:
  "distinct (map o_ID (codex_parseMenuOptions text))"
  "opt \<in> set (codex_parseMenuOptions text) \<Longrightarrow>
     o_Keys opt = o_ID opt @ [CR] \<and> o_Label opt \<noteq> [] \<and> o_Alias opt = aliasForLabel (o_Label opt)"
  using codex_menu_loop_props [of "FindAllStringSubmatch codex_menuRE text" "[]"]
  by (simp_all add: codex_parseMenuOptions_def list_all_iff)

lemma IntentAlias_range: "IntentAlias label \<in> {''proceed'', ''deny'', []}"
  by (simp add: IntentAlias_def Let_def)

lemma aliasForLabel_skip: "aliasForLabel label = ''skip'' \<longleftrightarrow> sublist ''skip'' (go_lower label)"
  using IntentAlias_range [of label] by (auto simp: aliasForLabel_def Let_def split: if_splits)

lemma findByAlias_Some: "findByAlias req alias = Some opt \<Longrightarrow> opt \<in> set (q_Options req) \<and> o_Alias opt = alias"
  by (auto simp: findByAlias_def find_Some_iff)

lemma findByAlias_with_id [simp]: "findByAlias (with_id sum8 r) = findByAlias r"
  by (simp add: findByAlias_def fun_eq_iff)

lemma codex_kinds [simp]:
  "KindApproval \<noteq> KindUpdateNotice" "KindApproval \<noteq> KindNotice" "KindApproval \<noteq> KindModelMigration"
  "KindUpdateNotice \<noteq> KindApproval" "KindUpdateNotice \<noteq> KindNotice" "KindUpdateNotice \<noteq> KindModelMigration"
  "KindNotice \<noteq> KindApproval" "KindNotice \<noteq> KindUpdateNotice" "KindNotice \<noteq> KindModelMigration"
  "KindModelMigration \<noteq> KindApproval" "KindModelMigration \<noteq> KindUpdateNotice" "KindModelMigration \<noteq> KindNotice"
  by (simp_all add: KindApproval_def KindUpdateNotice_def KindNotice_def KindModelMigration_def)

lemma detectApproval_Some:
  assumes "detectApproval sum8 text = Some r"
  shows "q_ID r = inputID sum8 r \<and> q_Kind r = KindApproval \<and>
    (\<exists>idx. index_sub text (q_Prompt r) = Some idx \<and> q_Prompt r \<in> set approvalAnchors \<and>
       q_Options r = codex_parseMenuOptions (drop (idx + length (q_Prompt r)) text)) \<and>
    (\<exists>opt \<in> set (q_Options r). o_Alias opt = ''proceed'') \<and> (\<exists>opt \<in> set (q_Options r). o_Alias opt = ''deny'') \<and>
    (\<exists>opt \<in> set (q_Options r). o_Highlighted opt)"
proof -
  obtain idx anchor where a: "first_anchor approvalAnchors text = Some (idx, anchor)"
    using assms by (cases "first_anchor approvalAnchors text") (auto simp: detectApproval_def)
  define opts where "opts = codex_parseMenuOptions (drop (idx + length anchor) text)"
  define req where "req = zero_request\<lparr>q_Kind := KindApproval, q_Prompt := anchor, q_Options := opts\<rparr>"
  have "findByAlias req ''proceed'' \<noteq> None" "findByAlias req ''deny'' \<noteq> None" "list_ex o_Highlighted opts" "r = with_id sum8 req"
    using assms a by (simp_all add: detectApproval_def Let_def opts_def [symmetric] req_def [symmetric] split: if_splits)
  moreover have "index_sub text anchor = Some idx \<and> anchor \<in> set approvalAnchors"
  proof -
    have "first_anchor as text = Some (idx, anchor) \<Longrightarrow> index_sub text anchor = Some idx \<and> anchor \<in> set as" for as
      by (induction as) (auto split: option.splits)
    then show ?thesis using a .
  qed
  ultimately show ?thesis using findByAlias_Some by (fastforce simp: req_def opts_def list_ex_iff zero_request_def)
qed

lemma codex_DetectInput_notice:
  assumes "codex_DetectInput sum8 text = Some r" and "detectApproval sum8 text = None"
  shows "\<not> MatchString signinWallRE text \<and> q_ID r = inputID sum8 r \<and>
    (q_Kind r = KindUpdateNotice \<and> q_Options r = codex_parseMenuOptions text \<and> findByAlias r ''skip'' \<noteq> None \<or>
     q_Kind r \<in> {KindNotice, KindModelMigration} \<and> continueFooterLast text \<and> \<not> sublist updateAnchor text)"
  using assms by (simp add: codex_DetectInput_def Let_def zero_request_def split: if_splits) auto

lemma codex_DetectInput_named: "codex_DetectInput sum8 text = Some r \<Longrightarrow> q_ID r \<noteq> []"
proof -
  assume r: "codex_DetectInput sum8 text = Some r"
  have "q_ID r = inputID sum8 r"
  proof (cases "detectApproval sum8 text")
    case None
    then show ?thesis using codex_DetectInput_notice [OF r] by simp
  next
    case (Some q)
    then show ?thesis using r detectApproval_Some [OF Some] by (simp add: codex_DetectInput_def)
  qed
  then show ?thesis by simp
qed

section \<open>The adapter over a sequence of screens\<close>

definition usage_marker :: "string \<Rightarrow> string option" where
  "usage_marker text =
     (let matches = FindAllStringIndex tokenUsageRE text in
      if matches = [] then None else Some (slice text (fst (last matches)) (snd (last matches))))"

lemma codex_OnScreen_parts:
  assumes "codex_OnScreen sum8 a snap = (evs, a')"
  shows "\<exists>out obs. evs = out @ obs \<and> tracker_Observe (codex_DetectInput sum8 (sn_Text snap)) codex_label (xa_inputs a) = (obs, xa_inputs a') \<and>
    out = (case usage_marker (sn_Text snap) of
        Some m \<Rightarrow> if m \<noteq> xa_lastFingerprint a then [turn_event TurnComplete (codex_label @ m)] else [] | None \<Rightarrow> []) \<and>
    xa_lastFingerprint a' = (case usage_marker (sn_Text snap) of Some m \<Rightarrow> m | None \<Rightarrow> xa_lastFingerprint a)"
  using assms by (auto simp: codex_OnScreen_def usage_marker_def Let_def split: prod.splits if_splits)

interpretation codex: screen_adapter "codex_OnScreen sum8" xa_inputs "\<lambda>snap. codex_DetectInput sum8 (sn_Text snap)" codex_label
  for sum8 :: "string \<Rightarrow> nat"
proof
  fix a snap evs a'
  assume "codex_OnScreen sum8 a snap = (evs, a')"
  then obtain out obs where "evs = out @ obs @ []" "list_all (\<lambda>e. \<not> input_event e) out"
      "tracker_Observe (codex_DetectInput sum8 (sn_Text snap)) codex_label (xa_inputs a) = (obs, xa_inputs a')"
    using codex_OnScreen_parts [of sum8 a snap evs a'] by (auto simp: input_event_def turn_event_def split: option.splits)
  then show "\<exists>xs obs ys. evs = xs @ obs @ ys \<and> list_all (\<lambda>e. \<not> input_event e) xs \<and> list_all (\<lambda>e. \<not> input_event e) ys \<and>
      tracker_Observe (codex_DetectInput sum8 (sn_Text snap)) codex_label (xa_inputs a) = (obs, xa_inputs a')"
    by (intro exI [of _ out] exI [of _ obs] exI [of _ "[]"]) simp
qed (rule codex_DetectInput_named)

interpretation codex: turn_reporter "codex_OnScreen sum8" xa_lastFingerprint "\<lambda>snap. usage_marker (sn_Text snap)" codex_label
  for sum8 :: "string \<Rightarrow> nat"
proof
  fix a snap evs a'
  assume "codex_OnScreen sum8 a snap = (evs, a')"
  from codex_OnScreen_parts [OF this]
  show "completions evs = (case usage_marker (sn_Text snap) of
      Some m \<Rightarrow> if m \<noteq> xa_lastFingerprint a then [codex_label @ m] else [] | None \<Rightarrow> []) \<and>
    xa_lastFingerprint a' = (case usage_marker (sn_Text snap) of Some m \<Rightarrow> m | None \<Rightarrow> xa_lastFingerprint a)"
    using tracker_no_completion by (auto simp: completions_def turn_event_def split: option.splits)
qed

section \<open>Dismissing a notice\<close>

text \<open>
  C17: A dialog read off Codex's screen is dismissed without asking unless it is an approval, and then never: an approval is what is read
  first. The keys that dismiss are Enter only on a screen that ends with the continue footer and is no update notice, and
  otherwise they choose, by its own number, an option whose label says skip. No sign-in screen is dismissed.
\<close>

theorem codex_dismiss_safe:
  assumes "codex_DetectInput sum8 text = Some r"
  shows "(AutoDismissKeys (Some r) = None \<longleftrightarrow> q_Kind r = KindApproval) \<and> (q_Kind r = KindApproval \<longleftrightarrow> detectApproval sum8 text = Some r) \<and>
    (\<forall>keys. AutoDismissKeys (Some r) = Some keys \<longrightarrow> detectApproval sum8 text = None \<and> \<not> MatchString signinWallRE text \<and>
       (keys = [CR] \<and> continueFooterLast text \<and> \<not> sublist updateAnchor text \<or>
        distinct (map o_ID (q_Options r)) \<and>
        (\<exists>opt \<in> set (q_Options r). keys = o_ID opt @ [CR] \<and> sublist ''skip'' (go_lower (o_Label opt)))))"
proof (cases "detectApproval sum8 text")
  case (Some q)
  then have "q = r" "q_Kind r = KindApproval" using assms detectApproval_Some [OF Some] by (simp_all add: codex_DetectInput_def)
  then show ?thesis using Some by (simp add: AutoDismissKeys_def)
next
  case None
  note n = codex_DetectInput_notice [OF assms None]
  show ?thesis
  proof (cases "q_Kind r = KindUpdateNotice")
    case True
    then have opts: "q_Options r = codex_parseMenuOptions text" and "findByAlias r ''skip'' \<noteq> None" using n by auto
    then obtain opt where skip: "findByAlias r ''skip'' = Some opt" by auto
    have "opt \<in> set (q_Options r)" "o_Alias opt = ''skip''" using findByAlias_Some [OF skip] by simp_all
    moreover have "o_Keys opt = o_ID opt @ [CR]" "o_Alias opt = aliasForLabel (o_Label opt)" "distinct (map o_ID (q_Options r))"
      using calculation(1) codex_menu_props(2) [of opt "text"] codex_menu_props(1) [of "text"] unfolding opts by blast+
    ultimately show ?thesis using None n True skip by (auto simp: AutoDismissKeys_def aliasForLabel_skip)
  next
    case False
    then show ?thesis using None n by (auto simp: AutoDismissKeys_def)
  qed
qed

definition update_screen :: string where
  "update_screen = updateAnchor @ [LF] @ ''1. Update now'' @ [LF] @ ''2. Skip''"

theorem codex_dismiss_safe_witness:
  "\<exists>r opt. codex_DetectInput length update_screen = Some r \<and> opt \<in> set (q_Options r) \<and> AutoDismissKeys (Some r) = Some (o_ID opt @ [CR]) \<and>
     sublist ''skip'' (go_lower (o_Label opt))"
proof -
  have no: "detectApproval length update_screen = None" "\<not> MatchString signinWallRE update_screen" by (code_simp, code_simp)
  have upd: "sublist updateAnchor update_screen" by (simp add: update_screen_def sublist_def) (metis append_Nil)
  have opts: "codex_parseMenuOptions update_screen =
     [zero_option\<lparr>o_ID := ''1'', o_Alias := ''update'', o_Label := ''Update now'', o_Keys := ''1'' @ [CR]\<rparr>,
      zero_option\<lparr>o_ID := ''2'', o_Alias := ''skip'', o_Label := ''Skip'', o_Keys := ''2'' @ [CR]\<rparr>]" by code_simp
  obtain r where r: "codex_DetectInput length update_screen = Some r" "AutoDismissKeys (Some r) = Some (''2'' @ [CR])"
    using no upd opts by (simp add: codex_DetectInput_def AutoDismissKeys_def findByAlias_def zero_option_def zero_request_def Let_def)
  have "''2'' @ [CR] \<noteq> [CR]" by simp
  then show ?thesis using codex_dismiss_safe [OF r(1)] r by (metis)
qed

end
