(* ===== verification/Turns_Properties.thy ===== *)
theory Turns_Properties
  imports Turns_Claude_Reply Turns_Codex
begin

text \<open>
  What a consumer of the turn adapters' events can rely on: requests, completions, menus, and which part of the screen says
  that Claude Code is busy.
\<close>

section \<open>Requests and turns\<close>

text \<open>
  C16: Over any sequence of screens, the events of Claude Code's adapter raise a request only when none is pending and resolve
  exactly the one that is. After each sequence the request that is pending is the one that the last screen shows, by its ID.
\<close>

theorem claude_requests_balanced:
  assumes "pumpScreen (claude_OnScreen sum8 u) claude_New snaps = (evs, a)" and "snaps \<noteq> []"
  shows "balanced None evs \<and> pending_after None evs = tr_last (ca_inputs a) \<and>
    map_option q_ID (pending_after None evs) = map_option q_ID (DetectInput sum8 (sn_Text (snd (last snaps))))"
proof -
  have "tracker_ok (ca_inputs claude_New)" "tr_last (ca_inputs claude_New) = None" by (simp_all add: claude_New_def)
  then show ?thesis using claude.pump_balanced [of claude_New sum8 u snaps evs a] assms by simp
qed

theorem claude_requests_balanced_witness:
  "\<exists>evs a. pumpScreen (claude_OnScreen length \<lparr>u_Lu = [''B''], u_L = [''a'']\<rparr>) claude_New
       [(0, \<lparr>sn_Text = bypassAnchor, sn_CursorCol = 0, sn_CursorRow = 0\<rparr>), (1, \<lparr>sn_Text = ''x'', sn_CursorCol = 0, sn_CursorRow = 0\<rparr>)] = (evs, a) \<and>
     balanced None evs \<and> pending_after None evs = None"
proof -
  let ?snaps = "[(0, \<lparr>sn_Text = bypassAnchor, sn_CursorCol = 0, sn_CursorRow = 0\<rparr>), (1, \<lparr>sn_Text = ''x'', sn_CursorCol = 0, sn_CursorRow = 0\<rparr>)]"
  obtain evs a where p: "pumpScreen (claude_OnScreen length \<lparr>u_Lu = [''B''], u_L = [''a'']\<rparr>) claude_New ?snaps = (evs, a)" by fastforce
  have "DetectInput length ''x'' = None" by code_simp
  then show ?thesis using claude_requests_balanced [OF p] p by auto
qed


section \<open>Menus\<close>



section \<open>Busy\<close>

text \<open>
  C22: When the composer is painted between its two rules, whether Claude Code counts as busy depends on the status line above and
  the rows below only: nothing in the conversation, the composer or the quiet rows between can make the screen busy.
\<close>

theorem claude_busy_region:
  assumes "\<forall>ln \<in> set (painted convo status gap rule1 composer rule2 footer). LF \<notin> set ln"
    and "rule_row rule1" and "rule_row rule2" and "list_all (\<lambda>ln. \<not> rule_row ln) (composer @ footer)"
    and "length composer \<le> maxComposerLines" and "\<not> quiet_row status" and "list_all quiet_row gap"
  shows "claude_Busy (join_on LF (painted convo status gap rule1 composer rule2 footer)) \<longleftrightarrow>
    list_ex (sublist busyMarker) footer \<or> MatchString spinnerLineRE status \<or> MatchString retryLineRE status \<or> MatchString waitingLineRE status"
  using statusRegion_painted [OF assms] by (simp add: claude_Busy_def)

theorem claude_busy_region_witness:
  "\<not> claude_Busy (join_on LF (painted [busyMarker] ''ok'' [[]] (concat (replicate 8 (utf8 0x2500))) [selectorGlyph] (concat (replicate 8 (utf8 0x2500))) [''?'']))"
proof -
  let ?rule = "concat (replicate 8 (utf8 0x2500))"
  have rule: "rule_row ?rule" "LF \<notin> set ?rule" by (code_simp, code_simp)
  have plain: "\<not> rule_row selectorGlyph" "\<not> rule_row ''?''" "LF \<notin> set selectorGlyph" "LF \<notin> set busyMarker"
    by (code_simp, code_simp, code_simp, code_simp)
  have quiet: "\<not> quiet_row ''ok''" "quiet_row []" by (code_simp, code_simp)
  have status: "\<not> sublist busyMarker ''?''" "\<not> MatchString spinnerLineRE ''ok''" "\<not> MatchString retryLineRE ''ok''" "\<not> MatchString waitingLineRE ''ok''"
    by (code_simp, code_simp, code_simp, code_simp)
  have "\<forall>ln \<in> set (painted [busyMarker] ''ok'' [[]] ?rule [selectorGlyph] ?rule [''?'']). LF \<notin> set ln"
    using rule(2) plain(3,4) by (simp add: painted_def)
  from claude_busy_region [OF this rule(1) rule(1)] show ?thesis using plain quiet status by (simp add: maxComposerLines_def)
qed

end
