(* ===== verification/Chat_Terminal.thy ===== *)
theory Chat_Terminal
  imports Chat_Stream Turns_Codex
begin

text \<open>
  What a conversation over a terminal does with the screen: the keys of a harness, framing a long prompt as a paste and
  submitting it (\<^verbatim>\<open>submit.go\<close>, \<^verbatim>\<open>ready.go\<close>), answering a dialog and confirming that the answer was taken (\<^verbatim>\<open>input.go\<close>,
  \<^verbatim>\<open>answer_plan.go\<close>), and emptying the composer (\<^verbatim>\<open>interrupt.go\<close>). \<^verbatim>\<open>strings.EqualFold\<close>, which needs the case folding
  tables of Unicode, is the parameter \<open>fold_eq\<close>.
\<close>

section \<open>The terminal\<close>

text \<open>
  What the conversation gets to read and what becomes of its writes, as a script: the moments at which a loop looks, each
  with everything it may read then, the outcome of each write and of each timed wait. A call that has used up the script has
  not returned: \<open>None\<close>. The trace is what the call did; a \<open>Peek\<close> is a look at the screen that does not read the posture.
\<close>

datatype echo_event = EchoCtx | EchoClosed | EchoDeadline | EchoHalf | EchoNotify

record moment =
  mo_snap :: Snapshot
  mo_ctx :: bool
  mo_closed :: bool
  mo_expired :: bool
  mo_pending :: "TRequest option"
  mo_surfaced :: bool
  mo_event :: echo_event

datatype waited = WaitOver | WaitCtx | WaitClosed

datatype act = Saw Snapshot | Peek Snapshot | Gate "TRequest option" bool | Wrote string

record script =
  sc_moments :: "moment list"
  sc_writes :: "bool list"
  sc_waits :: "waited list"
  sc_trace :: "act list"

abbreviation mo_text :: "moment \<Rightarrow> string" where "mo_text m \<equiv> sn_Text (mo_snap m)"

definition look :: "script \<Rightarrow> (moment \<times> script) option" where
  "look s = (case sc_moments s of
      [] \<Rightarrow> None
    | m # ms \<Rightarrow> Some (m, s\<lparr>sc_moments := ms, sc_trace := sc_trace s @ [Saw (mo_snap m)]\<rparr>))"

definition peek :: "script \<Rightarrow> (moment \<times> script) option" where
  "peek s = (case sc_moments s of
      [] \<Rightarrow> None
    | m # ms \<Rightarrow> Some (m, s\<lparr>sc_moments := ms, sc_trace := sc_trace s @ [Peek (mo_snap m)]\<rparr>))"

definition look_input :: "script \<Rightarrow> (moment \<times> script) option" where
  "look_input s = (case sc_moments s of
      [] \<Rightarrow> None
    | m # ms \<Rightarrow> Some (m, s\<lparr>sc_moments := ms, sc_trace := sc_trace s @ [Gate (mo_pending m) (mo_surfaced m)]\<rparr>))"

definition conv_write :: "string \<Rightarrow> script \<Rightarrow> (ChatErr option \<times> script) option" where
  "conv_write p s = (case sc_writes s of
      [] \<Rightarrow> None
    | ok # ws \<Rightarrow> Some (if ok then None else Some ErrWrite, s\<lparr>sc_writes := ws, sc_trace := sc_trace s @ [Wrote p]\<rparr>))"

definition timed_wait :: "script \<Rightarrow> (ChatErr option \<times> script) option" where
  "timed_wait s = (case sc_waits s of
      [] \<Rightarrow> None
    | w # ws \<Rightarrow>
        Some (case w of WaitOver \<Rightarrow> None | WaitCtx \<Rightarrow> Some ErrCtx | WaitClosed \<Rightarrow> Some ErrClosed, s\<lparr>sc_waits := ws\<rparr>))"

lemma look_less: "look s = Some (m, s') \<Longrightarrow> length (sc_moments s') < length (sc_moments s)"
  by (auto simp: look_def split: list.splits)

lemma look_input_less: "look_input s = Some (m, s') \<Longrightarrow> length (sc_moments s') < length (sc_moments s)"
  by (auto simp: look_input_def split: list.splits)

text \<open>Whether the condition held, the last text read, and the error of a wait that was given up.\<close>

function awaitScreen :: "(string \<Rightarrow> bool) \<Rightarrow> script \<Rightarrow> ((bool \<times> string \<times> ChatErr option) \<times> script) option" where
  "awaitScreen ready s =
     (case look s of
        None \<Rightarrow> None
      | Some (m, s1) \<Rightarrow>
          if ready (mo_text m) then Some ((True, mo_text m, None), s1)
          else if mo_ctx m then Some ((False, mo_text m, Some ErrCtx), s1)
          else if mo_closed m then Some ((False, mo_text m, Some ErrClosed), s1)
          else if mo_expired m then Some ((False, mo_text m, None), s1)
          else awaitScreen ready s1)"
  by pat_completeness auto
termination
  by (relation "measure (\<lambda>(ready, s). length (sc_moments s))") (auto simp: look_less)

declare awaitScreen.simps [simp del]

section \<open>Keys\<close>

definition Unalias :: "string \<Rightarrow> string" where
  "Unalias name = (if name = ''claude'' then ''claude-code'' else name)"

definition submitKeyForHarness :: "string \<Rightarrow> string" where
  "submitKeyForHarness harness = (if harness \<in> {''claude-code'', ''codex''} then ESC # ''[13u'' else [LF])"

definition shiftTabCSI9_2u :: string where "shiftTabCSI9_2u = ESC # ''[9;2u''"

definition shiftTabForHarness :: "string \<Rightarrow> string" where
  "shiftTabForHarness harness = (if Unalias harness \<in> {''claude-code'', ''codex''} then shiftTabCSI9_2u else [])"

definition pasteStartCSI200 :: string where "pasteStartCSI200 = ESC # ''[200~''"
definition pasteEndCSI201 :: string where "pasteEndCSI201 = ESC # ''[201~''"

definition pasteWrapForHarness :: "string \<Rightarrow> (string \<times> string) option" where
  "pasteWrapForHarness harness =
     (if Unalias harness \<in> {''claude-code'', ''codex''} then Some (pasteStartCSI200, pasteEndCSI201) else None)"

section \<open>Submitting\<close>

definition pasteThreshold :: nat where "pasteThreshold = 1024"
definition echoNeedleLen :: nat where "echoNeedleLen = 24"

definition shouldPaste :: "string \<Rightarrow> string \<Rightarrow> (string \<times> string) option" where
  "shouldPaste harness text =
     (if length text < pasteThreshold then None
      else if prefix ''/'' (trim_space text) then None
      else pasteWrapForHarness harness)"

definition framePaste :: "string \<Rightarrow> string \<Rightarrow> string \<Rightarrow> string" where
  "framePaste pre suf text =
     pre @ replace_all pasteEndCSI201 [] (replace_all pasteStartCSI200 [] text) @ suf"

definition echo_needle :: "string \<Rightarrow> bool \<Rightarrow> string" where
  "echo_needle text framed =
     (if framed then [] else take echoNeedleLen (trim_space (takeWhile (\<lambda>c. c \<noteq> LF) text)))"

function await_echo :: "string \<Rightarrow> string \<Rightarrow> bool \<Rightarrow> script \<Rightarrow> (ChatErr option \<times> script) option" where
  "await_echo needle pre halfDone s =
     (case look s of
        None \<Rightarrow> None
      | Some (m, s1) \<Rightarrow>
          if needle \<noteq> [] \<and> sublist needle (mo_text m) then Some (None, s1)
          else if (halfDone \<or> needle = []) \<and> mo_text m \<noteq> pre then Some (None, s1)
          else case mo_event m of
              EchoCtx \<Rightarrow> Some (Some ErrCtx, s1)
            | EchoClosed \<Rightarrow> Some (None, s1)
            | EchoDeadline \<Rightarrow> Some (None, s1)
            | EchoHalf \<Rightarrow> await_echo needle pre True s1
            | EchoNotify \<Rightarrow> await_echo needle pre halfDone s1)"
  by pat_completeness auto
termination
  by (relation "measure (\<lambda>(needle, pre, h, s). length (sc_moments s))") (auto simp: look_less)

declare await_echo.simps [simp del]

definition awaitComposerEcho :: "string \<Rightarrow> string \<Rightarrow> bool \<Rightarrow> script \<Rightarrow> (ChatErr option \<times> script) option" where
  "awaitComposerEcho text pre framed s = await_echo (echo_needle text framed) pre False s"

definition writeMessageAndSubmit ::
    "bool \<Rightarrow> string \<Rightarrow> string \<Rightarrow> string \<Rightarrow> string \<Rightarrow> script \<Rightarrow> (ChatErr option \<times> script) option" where
  "writeMessageAndSubmit readiness harness text pre submitKey s =
     (if \<not> readiness then conv_write (text @ submitKey) s
      else
        let paste = shouldPaste harness text;
            payload = (case paste of Some (p, q) \<Rightarrow> framePaste p q text | None \<Rightarrow> text)
        in case conv_write payload s of
            None \<Rightarrow> None
          | Some (Some e, s1) \<Rightarrow> Some (Some e, s1)
          | Some (None, s1) \<Rightarrow>
              (case awaitComposerEcho text pre (paste \<noteq> None) s1 of
                 None \<Rightarrow> None
               | Some (Some e, s2) \<Rightarrow> Some (Some e, s2)
               | Some (None, s2) \<Rightarrow> conv_write submitKey s2))"

section \<open>Naming an option\<close>

definition findOption :: "(string \<Rightarrow> string \<Rightarrow> bool) \<Rightarrow> TRequest \<Rightarrow> string \<Rightarrow> TOption option" where
  "findOption fold_eq req s =
     (if s = [] then None
      else find (\<lambda>opt. o_ID opt = s \<or> go_lower (o_Alias opt) = go_lower s \<or> fold_eq (o_Label opt) s) (q_Options req))"

definition findOptionByAlias :: "TRequest \<Rightarrow> string \<Rightarrow> TOption option" where
  "findOptionByAlias req alias = find (\<lambda>opt. o_Alias opt = alias) (q_Options req)"

definition toClientInputRequest :: "TRequest \<Rightarrow> InputRequest" where
  "toClientInputRequest req =
     \<lparr>iq_id = q_ID req, iq_kind = q_Kind req, iq_prompt = q_Prompt req, iq_header = q_Header req, iq_multi = q_MultiSelect req,
      iq_options = map (\<lambda>opt. \<lparr>io_id = o_ID opt, io_alias = o_Alias opt, io_label = o_Label opt, io_description = o_Description opt\<rparr>)
        (q_Options req)\<rparr>"

definition policyOption :: "(string \<Rightarrow> string \<Rightarrow> bool) \<Rightarrow> InputPolicy option \<Rightarrow> TRequest \<Rightarrow> TOption option" where
  "policyOption fold_eq policy req =
     (case resolve policy (q_Kind req) of
        None \<Rightarrow> None
      | Some d \<Rightarrow>
          (case dp_kind d of
             Some DispositionAnswer \<Rightarrow> findOption fold_eq req (dp_option d)
           | Some DispositionDeny \<Rightarrow> findOptionByAlias req ''deny''
           | _ \<Rightarrow> None))"

text \<open>The options the names give, in order, each once; \<open>None\<close> when one gives none.\<close>

fun named_options :: "(string \<Rightarrow> string \<Rightarrow> bool) \<Rightarrow> TRequest \<Rightarrow> string list \<Rightarrow> string list \<Rightarrow> TOption list option" where
  "named_options fold_eq req [] seen = Some []"
| "named_options fold_eq req (n # ns) seen =
     (case findOption fold_eq req n of
        None \<Rightarrow> None
      | Some opt \<Rightarrow>
          if o_ID opt \<in> set seen then named_options fold_eq req ns seen
          else map_option ((#) opt) (named_options fold_eq req ns (o_ID opt # seen)))"

definition answerOptionIDs :: "(string \<Rightarrow> string \<Rightarrow> bool) \<Rightarrow> TRequest \<Rightarrow> InputAnswer \<Rightarrow> string list option" where
  "answerOptionIDs fold_eq req ans =
     (let names = (if ia_option ans \<noteq> [] then [ia_option ans] else ia_options ans) in
      if names = [] \<and> ia_text ans \<noteq> []
      then Some (case findOptionByAlias req ''other'' of Some opt \<Rightarrow> [o_ID opt] | None \<Rightarrow> [])
      else map_option (map o_ID) (named_options fold_eq req names []))"

section \<open>Answering a dialog\<close>

text \<open>\<open>turns.DialogReader\<close>: reading the dialog on the screen again.\<close>

record reader =
  rd_ReadDialog :: "string \<Rightarrow> TRequest option"
  rd_DialogAnchorPresent :: "string \<Rightarrow> bool"

definition claude_reader :: "(string \<Rightarrow> nat) \<Rightarrow> reader" where
  "claude_reader sum8 = \<lparr>rd_ReadDialog = DetectInput sum8, rd_DialogAnchorPresent = AnchorPresent\<rparr>"

datatype dialogState = dialogGone | dialogUnreadable | dialogOnTarget | dialogOffTarget

definition dialogPainted :: "reader \<Rightarrow> TRequest \<Rightarrow> string \<Rightarrow> bool" where
  "dialogPainted rd req text = (if q_Prompt req \<noteq> [] then sublist (q_Prompt req) text else rd_DialogAnchorPresent rd text)"

definition live_dialog :: "reader \<Rightarrow> TRequest \<Rightarrow> string \<Rightarrow> TRequest option" where
  "live_dialog rd req text =
     (case rd_ReadDialog rd text of Some live \<Rightarrow> if q_ID live = q_ID req then Some live else None | None \<Rightarrow> None)"

definition dialogStateOf :: "(string \<Rightarrow> string \<Rightarrow> bool) \<Rightarrow> reader \<Rightarrow> TRequest \<Rightarrow> string \<Rightarrow> string \<Rightarrow> dialogState" where
  "dialogStateOf fold_eq rd req label text =
     (case live_dialog rd req text of
        Some live \<Rightarrow>
          (case findOption fold_eq live label of
             Some opt \<Rightarrow> if o_Keys opt = [CR] then dialogOnTarget else dialogOffTarget
           | None \<Rightarrow> dialogOffTarget)
      | None \<Rightarrow> if dialogPainted rd req text then dialogUnreadable else dialogGone)"

definition keysOnLiveScreen :: "(string \<Rightarrow> string \<Rightarrow> bool) \<Rightarrow> reader \<Rightarrow> TRequest \<Rightarrow> string \<Rightarrow> string \<Rightarrow> string option" where
  "keysOnLiveScreen fold_eq rd req label text =
     (case live_dialog rd req text of
        None \<Rightarrow> None
      | Some live \<Rightarrow>
          (case findOption fold_eq live label of
             None \<Rightarrow> None
           | Some opt \<Rightarrow> if o_Keys opt = [] then None else Some (o_Keys opt)))"

definition splitNavKeys :: "string \<Rightarrow> (string \<times> string) option" where
  "splitNavKeys keys =
     (if length keys < 2 \<or> last keys \<noteq> CR then None
      else if ESC \<notin> set (butlast keys) then None
      else Some (butlast keys, [last keys]))"

datatype AnsErr = Failed ChatErr | ErrConflictingAnswer | InputUnresolved InputRequest string nat | PlanRefused plan_error | PlanPanic

definition answerAttempts :: nat where "answerAttempts = 3"

definition unresolvedInput :: "TRequest \<Rightarrow> string \<Rightarrow> nat \<Rightarrow> AnsErr" where
  "unresolvedInput req observed answered = InputUnresolved (toClientInputRequest req) observed answered"

definition awaitDialog ::
    "(string \<Rightarrow> string \<Rightarrow> bool) \<Rightarrow> reader \<Rightarrow> TRequest \<Rightarrow> string \<Rightarrow> (dialogState \<Rightarrow> bool) \<Rightarrow> script \<Rightarrow>
      ((dialogState \<times> string \<times> ChatErr option) \<times> script) option" where
  "awaitDialog fold_eq rd req label ready s =
     map_option (\<lambda>((held, cur, err), s'). ((dialogStateOf fold_eq rd req label cur, cur, err), s'))
       (awaitScreen (\<lambda>text. ready (dialogStateOf fold_eq rd req label text)) s)"

text \<open>
  The two halves of a pass of the loop of \<^verbatim>\<open>answerAndConfirm\<close>: \<open>Inl\<close> is how the call returns, \<open>Inr\<close> the keys it goes on
  with. \<open>navigate\<close> moves the highlight, \<open>confirm_answer\<close> writes the answer and watches what becomes of it.
\<close>

definition navigate ::
    "(string \<Rightarrow> string \<Rightarrow> bool) \<Rightarrow> reader \<Rightarrow> TRequest \<Rightarrow> string \<Rightarrow> string \<Rightarrow> nat \<Rightarrow> script \<Rightarrow>
      ((AnsErr option + string) \<times> script) option" where
  "navigate fold_eq rd req label keys answered s =
     (case splitNavKeys keys of
        None \<Rightarrow> Some (Inr keys, s)
      | Some (nav, confirm) \<Rightarrow>
          (case conv_write nav s of
             None \<Rightarrow> None
           | Some (Some e, s1) \<Rightarrow> Some (Inl (Some (Failed e)), s1)
           | Some (None, s1) \<Rightarrow>
               (case awaitDialog fold_eq rd req label (\<lambda>st. st = dialogOnTarget \<or> st = dialogGone) s1 of
                  None \<Rightarrow> None
                | Some ((st, seen, err), s2) \<Rightarrow>
                    Some (case err of
                        Some e \<Rightarrow> Inl (Some (Failed e))
                      | None \<Rightarrow>
                          if st = dialogGone then Inl None
                          else if st \<noteq> dialogOnTarget then Inl (Some (unresolvedInput req seen answered))
                          else Inr confirm, s2))))"

definition confirm_answer ::
    "(string \<Rightarrow> string \<Rightarrow> bool) \<Rightarrow> reader \<Rightarrow> TRequest \<Rightarrow> string \<Rightarrow> bool \<Rightarrow> string \<Rightarrow> nat \<Rightarrow> script \<Rightarrow>
      ((AnsErr option + string) \<times> script) option" where
  "confirm_answer fold_eq rd req label split keys answered s =
     (case conv_write keys s of
        None \<Rightarrow> None
      | Some (Some e, s1) \<Rightarrow> Some (Inl (Some (Failed e)), s1)
      | Some (None, s1) \<Rightarrow>
          (case awaitDialog fold_eq rd req label (\<lambda>st. st = dialogGone \<or> split \<and> st = dialogOffTarget) s1 of
             None \<Rightarrow> None
           | Some ((st, seen, Some e), s2) \<Rightarrow> Some (Inl (Some (Failed e)), s2)
           | Some ((st, seen, None), s2) \<Rightarrow>
               if st = dialogGone then Some (Inl None, s2)
               else if \<not> split \<or> st \<noteq> dialogOffTarget \<or> answerAttempts \<le> answered + 1
               then Some (Inl (Some (unresolvedInput req seen (answered + 1))), s2)
               else
                 case timed_wait s2 of
                   None \<Rightarrow> None
                 | Some (Some e, s3) \<Rightarrow> Some (Inl (Some (Failed e)), s3)
                 | Some (None, s3) \<Rightarrow>
                     (case look s3 of
                        None \<Rightarrow> None
                      | Some (m, s4) \<Rightarrow>
                          Some (case keysOnLiveScreen fold_eq rd req label (mo_text m) of
                              Some next \<Rightarrow> Inr next
                            | None \<Rightarrow>
                                if dialogStateOf fold_eq rd req label (mo_text m) = dialogGone then Inl None
                                else Inl (Some (unresolvedInput req (mo_text m) (answered + 1))), s4))))"

lemma confirm_again: "confirm_answer fold_eq rd req label split keys answered s = Some (Inr k, s') \<Longrightarrow> answered + 1 < answerAttempts"
  by (auto simp: confirm_answer_def split: option.splits prod.splits if_splits)

function answer_loop ::
    "(string \<Rightarrow> string \<Rightarrow> bool) \<Rightarrow> reader \<Rightarrow> TRequest \<Rightarrow> string \<Rightarrow> string \<Rightarrow> nat \<Rightarrow> script \<Rightarrow> (AnsErr option \<times> script) option" where
  "answer_loop fold_eq rd req label keys answered s =
     (case navigate fold_eq rd req label keys answered s of
        None \<Rightarrow> None
      | Some (Inl r, s1) \<Rightarrow> Some (r, s1)
      | Some (Inr k, s1) \<Rightarrow>
          (case confirm_answer fold_eq rd req label (splitNavKeys keys \<noteq> None) k answered s1 of
             None \<Rightarrow> None
           | Some (Inl r, s2) \<Rightarrow> Some (r, s2)
           | Some (Inr next, s2) \<Rightarrow> answer_loop fold_eq rd req label next (answered + 1) s2))"
  by pat_completeness auto
termination
  by (relation "measure (\<lambda>(fold_eq, rd, req, label, keys, answered, s). answerAttempts - answered)")
    (auto dest!: confirm_again)

declare answer_loop.simps [simp del]

text \<open>The reader is \<open>None\<close> when the adapter is no \<open>DialogReader\<close> or there is no screen.\<close>

definition answerAndConfirm ::
    "(string \<Rightarrow> string \<Rightarrow> bool) \<Rightarrow> reader option \<Rightarrow> TRequest \<Rightarrow> TOption \<Rightarrow> script \<Rightarrow> (AnsErr option \<times> script) option" where
  "answerAndConfirm fold_eq dr req opt s =
     (case dr of
        None \<Rightarrow> map_option (\<lambda>(e, s'). (map_option Failed e, s')) (conv_write (o_Keys opt) s)
      | Some rd \<Rightarrow> answer_loop fold_eq rd req (o_Label opt) (o_Keys opt) 0 s)"

section \<open>A planned answer\<close>

definition evidenceHolds :: "reader \<Rightarrow> TRequest \<Rightarrow> AnswerEvidence \<Rightarrow> string \<Rightarrow> bool" where
  "evidenceHolds rd req ev text =
     (if ev_Kind ev = EvidenceGone
      then (case rd_ReadDialog rd text of
              Some live \<Rightarrow> q_ID live \<noteq> q_ID req
            | None \<Rightarrow> \<not> rd_DialogAnchorPresent rd text)
      else (case live_dialog rd req text of
              None \<Rightarrow> False
            | Some live \<Rightarrow>
                (case find (\<lambda>opt. o_ID opt = ev_OptionID ev) (q_Options live) of
                   None \<Rightarrow> False
                 | Some opt \<Rightarrow>
                     (case ev_Kind ev of
                        EvidenceHighlighted \<Rightarrow> o_Highlighted opt
                      | EvidenceUnhighlighted \<Rightarrow> \<not> o_Highlighted opt
                      | EvidenceChecked \<Rightarrow> o_Checked opt
                      | EvidenceTyped \<Rightarrow> o_Typed opt = ev_Text ev
                      | EvidenceGone \<Rightarrow> False))))"

text \<open>A request that has been up long enough is a wait that is over at once.\<close>

definition waitAfterRaised :: "int \<Rightarrow> script \<Rightarrow> (ChatErr option \<times> script) option" where
  "waitAfterRaised d s = (if d \<le> 0 then Some (None, s) else timed_wait s)"

text \<open>A pass of the loop of \<^verbatim>\<open>runAnswerPlan\<close>; with no error it goes on to the next step.\<close>

definition plan_step :: "reader \<Rightarrow> TRequest \<Rightarrow> nat \<Rightarrow> AnswerStep \<Rightarrow> script \<Rightarrow> (AnsErr option \<times> script) option" where
  "plan_step rd req i st s =
     (case waitAfterRaised (st_After st) s of
        None \<Rightarrow> None
      | Some (Some e, s1) \<Rightarrow> Some (Some (Failed e), s1)
      | Some (None, s1) \<Rightarrow>
          (case awaitScreen (\<lambda>text. live_dialog rd req text \<noteq> None) s1 of
             None \<Rightarrow> None
           | Some ((on, seen, Some e), s2) \<Rightarrow> Some (Some (Failed e), s2)
           | Some ((on, seen, None), s2) \<Rightarrow>
               if \<not> on then Some (Some (unresolvedInput req seen i), s2)
               else
                 case conv_write (st_Keys st) s2 of
                   None \<Rightarrow> None
                 | Some (Some e, s3) \<Rightarrow> Some (Some (Failed e), s3)
                 | Some (None, s3) \<Rightarrow>
                     (case awaitScreen (evidenceHolds rd req (st_Until st)) s3 of
                        None \<Rightarrow> None
                      | Some ((held, seen, Some e), s4) \<Rightarrow> Some (Some (Failed e), s4)
                      | Some ((held, seen, None), s4) \<Rightarrow>
                          Some (if held then None else Some (unresolvedInput req seen (i + 1)), s4))))"

fun plan_steps :: "reader \<Rightarrow> TRequest \<Rightarrow> nat \<Rightarrow> AnswerStep list \<Rightarrow> script \<Rightarrow> (AnsErr option \<times> script) option" where
  "plan_steps rd req i [] s = Some (None, s)"
| "plan_steps rd req i (st # sts) s =
     (case plan_step rd req i st s of
        None \<Rightarrow> None
      | Some (Some e, s1) \<Rightarrow> Some (Some e, s1)
      | Some (None, s1) \<Rightarrow> plan_steps rd req (i + 1) sts s1)"

fun write_steps :: "AnswerStep list \<Rightarrow> script \<Rightarrow> (AnsErr option \<times> script) option" where
  "write_steps [] s = Some (None, s)"
| "write_steps (st # sts) s =
     (case conv_write (st_Keys st) s of
        None \<Rightarrow> None
      | Some (Some e, s1) \<Rightarrow> Some (Some (Failed e), s1)
      | Some (None, s1) \<Rightarrow> write_steps sts s1)"

definition runAnswerPlan :: "reader option \<Rightarrow> TRequest \<Rightarrow> AnswerStep list \<Rightarrow> script \<Rightarrow> (AnsErr option \<times> script) option" where
  "runAnswerPlan dr req steps s = (case dr of None \<Rightarrow> write_steps steps s | Some rd \<Rightarrow> plan_steps rd req 0 steps s)"

section \<open>Answering a request\<close>

text \<open>What a conversation uses of its adapter: the optional interfaces it asks it for.\<close>

record term_adapter =
  ta_reader :: "reader option"
  ta_PlanAnswer :: "(TRequest \<Rightarrow> string list \<Rightarrow> string \<Rightarrow> plan option) option"
  ta_DismissKeys :: "(TRequest option \<Rightarrow> bool \<Rightarrow> string option) option"
  ta_readiness :: bool

definition claude_adapter :: "(string \<Rightarrow> nat) \<Rightarrow> term_adapter" where
  "claude_adapter sum8 = \<lparr>ta_reader = Some (claude_reader sum8), ta_PlanAnswer = Some PlanAnswer, ta_DismissKeys = None, ta_readiness = True\<rparr>"

definition codex_adapter :: term_adapter where
  "codex_adapter = \<lparr>ta_reader = None, ta_PlanAnswer = None, ta_DismissKeys = Some codex_DismissKeys, ta_readiness = True\<rparr>"

record termOpts = chatOpts +
  to_disable_dismiss :: bool
  to_auto_skip :: bool

definition writeMultiSelect ::
    "(string \<Rightarrow> string \<Rightarrow> bool) \<Rightarrow> string \<Rightarrow> TRequest \<Rightarrow> string list \<Rightarrow> script \<Rightarrow> (AnsErr option \<times> script) option" where
  "writeMultiSelect fold_eq harness req ids s =
     (case named_options fold_eq req ids [] of
        None \<Rightarrow> Some (Some (Failed ErrUnknownOption), s)
      | Some opts \<Rightarrow>
          (case peek s of
             None \<Rightarrow> None
           | Some (_, s1) \<Rightarrow>
               map_option (\<lambda>(e, s'). (map_option Failed e, s'))
                 (conv_write (concat (map o_Keys opts) @ submitKeyForHarness harness) s1)))"

definition writeFreeText :: "bool \<Rightarrow> string \<Rightarrow> string \<Rightarrow> script \<Rightarrow> (AnsErr option \<times> script) option" where
  "writeFreeText readiness harness text s =
     (case look s of
        None \<Rightarrow> None
      | Some (m, s1) \<Rightarrow>
          map_option (\<lambda>(e, s'). (map_option Failed e, s'))
            (writeMessageAndSubmit readiness harness text (mo_text m) (submitKeyForHarness harness) s1))"

definition writeUnplanned ::
    "(string \<Rightarrow> string \<Rightarrow> bool) \<Rightarrow> term_adapter \<Rightarrow> string \<Rightarrow> TRequest \<Rightarrow> InputAnswer \<Rightarrow> script \<Rightarrow> (AnsErr option \<times> script) option" where
  "writeUnplanned fold_eq ad harness req ans s =
     (if ia_options ans \<noteq> [] then writeMultiSelect fold_eq harness req (ia_options ans) s
      else if q_Options req = [] then writeFreeText (ta_readiness ad) harness (ia_text ans) s
      else case findOption fold_eq req (ia_option ans) of
          None \<Rightarrow> Some (Some (Failed ErrUnknownOption), s)
        | Some opt \<Rightarrow> answerAndConfirm fold_eq (ta_reader ad) req opt s)"

definition writeAnswer ::
    "(string \<Rightarrow> string \<Rightarrow> bool) \<Rightarrow> term_adapter \<Rightarrow> string \<Rightarrow> TRequest \<Rightarrow> InputAnswer \<Rightarrow> script \<Rightarrow> (AnsErr option \<times> script) option" where
  "writeAnswer fold_eq ad harness req ans s =
     (if ia_options ans \<noteq> [] \<and> ia_option ans \<noteq> [] then Some (Some ErrConflictingAnswer, s)
      else if ia_options ans \<noteq> [] \<and> \<not> q_MultiSelect req then Some (Some (Failed ErrNotMultiSelect), s)
      else case ta_PlanAnswer ad of
          None \<Rightarrow> writeUnplanned fold_eq ad harness req ans s
        | Some planner \<Rightarrow>
            (case answerOptionIDs fold_eq req ans of
               None \<Rightarrow> Some (Some (Failed ErrUnknownOption), s)
             | Some ids \<Rightarrow>
                 (case planner req ids (ia_text ans) of
                    None \<Rightarrow> Some (Some PlanPanic, s)
                  | Some (PlanError e) \<Rightarrow> Some (Some (PlanRefused e), s)
                  | Some (Planned steps) \<Rightarrow> runAnswerPlan (ta_reader ad) req steps s
                  | Some Unplanned \<Rightarrow> writeUnplanned fold_eq ad harness req ans s)))"

section \<open>A request arrives\<close>

text \<open>The events as they are given to \<open>emit\<close>.\<close>

datatype input_emit = EmitRequest InputRequest | EmitResolved InputRequest

record input_state =
  is_current :: "TRequest option"
  is_surfaced :: bool
  is_unresolved :: "AnsErr option"
  is_events :: "input_emit list"

definition recordUnresolvedInput :: "AnsErr \<Rightarrow> input_state \<Rightarrow> input_state" where
  "recordUnresolvedInput e i = (case e of InputUnresolved _ _ _ \<Rightarrow> i\<lparr>is_unresolved := Some e\<rparr> | _ \<Rightarrow> i)"

text \<open>Whether keys went out. What the write made of them is ignored.\<close>

definition tryAutoDismiss :: "term_adapter \<Rightarrow> termOpts \<Rightarrow> TRequest \<Rightarrow> script \<Rightarrow> (bool \<times> script) option" where
  "tryAutoDismiss ad opts req s =
     (case ta_DismissKeys ad of
        None \<Rightarrow> Some (False, s)
      | Some dismiss \<Rightarrow>
          if to_disable_dismiss opts then Some (False, s)
          else case dismiss (Some req) (to_auto_skip opts) of
              None \<Rightarrow> Some (False, s)
            | Some keys \<Rightarrow> map_option (\<lambda>(_, s'). (True, s')) (conv_write keys s))"

definition take_answer ::
    "(string \<Rightarrow> string \<Rightarrow> bool) \<Rightarrow> term_adapter \<Rightarrow> termOpts \<Rightarrow> TRequest \<Rightarrow> InputAnswer \<Rightarrow> input_state \<Rightarrow> script \<Rightarrow>
      (bool \<times> input_state \<times> script) option" where
  "take_answer fold_eq ad opts req ans i s =
     map_option (\<lambda>(e, s'). (e = None, (case e of None \<Rightarrow> i | Some err \<Rightarrow> recordUnresolvedInput err i), s'))
       (writeAnswer fold_eq ad (op_harness opts) req ans s)"

definition tryResolveInput ::
    "(string \<Rightarrow> string \<Rightarrow> bool) \<Rightarrow> term_adapter \<Rightarrow> termOpts \<Rightarrow> TRequest \<Rightarrow> input_state \<Rightarrow> script \<Rightarrow> (bool \<times> input_state \<times> script) option" where
  "tryResolveInput fold_eq ad opts req i s =
     (case policyOption fold_eq (op_policy opts) req of
        Some opt \<Rightarrow>
          let text = (case resolve (op_policy opts) (q_Kind req) of Some d \<Rightarrow> dp_text d | None \<Rightarrow> []) in
          take_answer fold_eq ad opts req \<lparr>ia_option = o_ID opt, ia_options = [], ia_text = text\<rparr> i s
      | None \<Rightarrow>
          (case op_on_input opts of
             None \<Rightarrow> Some (False, i, s)
           | Some handler \<Rightarrow>
               (case handler (toClientInputRequest req) of
                  None \<Rightarrow> Some (False, i, s)
                | Some ans \<Rightarrow> take_answer fold_eq ad opts req ans i s)))"

definition handleInputRequested ::
    "(string \<Rightarrow> string \<Rightarrow> bool) \<Rightarrow> term_adapter \<Rightarrow> termOpts \<Rightarrow> TRequest option \<Rightarrow> input_state \<Rightarrow> script \<Rightarrow> (input_state \<times> script) option" where
  "handleInputRequested fold_eq ad opts r i s =
     (case r of
        None \<Rightarrow> Some (i, s)
      | Some req \<Rightarrow>
          let i1 = i\<lparr>is_current := Some req, is_surfaced := False, is_unresolved := None\<rparr> in
          case tryAutoDismiss ad opts req s of
            None \<Rightarrow> None
          | Some (True, s1) \<Rightarrow> Some (i1, s1)
          | Some (False, s1) \<Rightarrow>
              (case tryResolveInput fold_eq ad opts req i1 s1 of
                 None \<Rightarrow> None
               | Some (True, i2, s2) \<Rightarrow> Some (i2, s2)
               | Some (False, i2, s2) \<Rightarrow>
                   Some (i2\<lparr>is_surfaced := True, is_events := is_events i2 @ [EmitRequest (toClientInputRequest req)]\<rparr>, s2)))"

definition handleInputResolved :: "input_state \<Rightarrow> input_state" where
  "handleInputResolved i =
     (let i1 = i\<lparr>is_current := None, is_surfaced := False, is_unresolved := None\<rparr> in
      case is_current i of
        None \<Rightarrow> i1
      | Some had \<Rightarrow> i1\<lparr>is_events := is_events i1 @ [EmitResolved (toClientInputRequest had)]\<rparr>)"

definition inputAwaitingClient :: "input_state \<Rightarrow> bool" where
  "inputAwaitingClient i \<longleftrightarrow> is_current i \<noteq> None \<and> is_surfaced i"

definition PendingInput :: "input_state \<Rightarrow> InputRequest option" where
  "PendingInput i = (if is_current i = None \<or> \<not> is_surfaced i then None else map_option toClientInputRequest (is_current i))"

definition term_Answer ::
    "(string \<Rightarrow> string \<Rightarrow> bool) \<Rightarrow> term_adapter \<Rightarrow> termOpts \<Rightarrow> bool \<Rightarrow> bool \<Rightarrow> string \<Rightarrow> InputAnswer \<Rightarrow> input_state \<Rightarrow> script \<Rightarrow>
      (AnsErr option \<times> script) option" where
  "term_Answer fold_eq ad opts isClosed held requestID ans i s =
     (if isClosed then Some (Some (Failed ErrClosed), s)
      else if \<not> held then Some (Some (Failed ErrNoControl), s)
      else case is_current i of
          None \<Rightarrow> Some (Some (Failed ErrNoInputPending), s)
        | Some req \<Rightarrow>
            if requestID \<noteq> [] \<and> requestID \<noteq> q_ID req then Some (Some (Failed ErrStaleInputRequest), s)
            else writeAnswer fold_eq ad (op_harness opts) req ans s)"

text \<open>What keeps a message from being sent: an answer the dialog did not take, or a request the client has not answered.\<close>

datatype input_block = BlockedUnresolved AnsErr | ErrInputPending

definition inputBlocked :: "input_state \<Rightarrow> input_block option" where
  "inputBlocked i =
     (case is_unresolved i of
        Some e \<Rightarrow> Some (BlockedUnresolved e)
      | None \<Rightarrow> if is_current i \<noteq> None \<and> is_surfaced i then Some ErrInputPending else None)"

section \<open>Emptying the composer\<close>

datatype clear_err = ClearFailed ChatErr | ComposerStillHolds string | ComposerNotOnScreen

definition composerClearRounds :: nat where "composerClearRounds = 4"

text \<open>What is to be cleared in a round, or that the call returns, from what the composer reads as.\<close>

definition clear_round :: "string \<Rightarrow> nat \<Rightarrow> string option \<Rightarrow> clear_err option + string" where
  "clear_round hint rnd read =
     (if read = Some [] then Inl None
      else if rnd = composerClearRounds then Inl (Some (ComposerStillHolds (case read of Some held \<Rightarrow> held | None \<Rightarrow> [])))
      else case read of
          Some held \<Rightarrow> Inr held
        | None \<Rightarrow> if 0 < rnd then Inl (Some ComposerNotOnScreen) else if hint = [] then Inl None else Inr hint)"

lemma clear_round_less: "clear_round hint rnd read = Inr text \<Longrightarrow> rnd \<noteq> composerClearRounds"
  by (auto simp: clear_round_def split: if_splits)

text \<open>The call starts with round 0 and no round is past \<open>composerClearRounds\<close>; the first test makes the recursion end.\<close>

function clear_loop ::
    "(Snapshot \<Rightarrow> string option) \<Rightarrow> (string \<Rightarrow> string) \<Rightarrow> string \<Rightarrow> nat \<Rightarrow> script \<Rightarrow> (clear_err option \<times> script) option" where
  "clear_loop composer clearKeys hint rnd s =
     (if composerClearRounds < rnd then None
      else case look s of
          None \<Rightarrow> None
        | Some (m, s1) \<Rightarrow>
            (case clear_round hint rnd (composer (mo_snap m)) of
               Inl r \<Rightarrow> Some (r, s1)
             | Inr text \<Rightarrow>
                 (case conv_write (clearKeys text) s1 of
                    None \<Rightarrow> None
                  | Some (Some e, s2) \<Rightarrow> Some (Some (ClearFailed e), s2)
                  | Some (None, s2) \<Rightarrow>
                      (case timed_wait s2 of
                         None \<Rightarrow> None
                       | Some (Some e, s3) \<Rightarrow> Some (Some (ClearFailed e), s3)
                       | Some (None, s3) \<Rightarrow> clear_loop composer clearKeys hint (rnd + 1) s3))))"
  by pat_completeness auto
termination
  by (relation "measure (\<lambda>(c, k, h, rnd, s). Suc composerClearRounds - rnd)") (auto dest!: clear_round_less)

declare clear_loop.simps [simp del]

definition clearComposer ::
    "(Snapshot \<Rightarrow> string option) \<Rightarrow> (string \<Rightarrow> string) \<Rightarrow> string \<Rightarrow> script \<Rightarrow> (clear_err option \<times> script) option" where
  "clearComposer composer clearKeys hint s = clear_loop composer clearKeys hint 0 s"

end
