(* ===== verification/Chat_Terminal_Properties.thy ===== *)
theory Chat_Terminal_Properties
  imports Chat_Terminal
begin

text \<open>
  What a conversation over a terminal writes, and what it had seen when it wrote it: an answer's keys, a planned answer's
  steps, a prompt and its submit key, the keys that empty the composer.
\<close>

section \<open>Traces\<close>

text \<open>Every write of a trace is allowed by the act before it.\<close>

fun writes_ok :: "(act option \<Rightarrow> string \<Rightarrow> bool) \<Rightarrow> act option \<Rightarrow> act list \<Rightarrow> bool" where
  "writes_ok L p [] = True"
| "writes_ok L p (a # as) = ((case a of Wrote k \<Rightarrow> L p k | _ \<Rightarrow> True) \<and> writes_ok L (Some a) as)"

definition last_act :: "act option \<Rightarrow> act list \<Rightarrow> act option" where
  "last_act p as = (if as = [] then p else Some (last as))"

fun writes :: "act list \<Rightarrow> string list" where
  "writes [] = []"
| "writes (Wrote k # as) = k # writes as"
| "writes (_ # as) = writes as"

lemma last_act_simps [simp]:
  "last_act p [] = p" "last_act p [a] = Some a" "last_act p (as @ [a]) = Some a" "last_act p (a # as) = last_act (Some a) as"
  by (auto simp: last_act_def)

lemma last_act_append [simp]: "last_act p (as @ bs) = last_act (last_act p as) bs"
  by (simp add: last_act_def)

lemma writes_ok_append: "writes_ok L p (as @ bs) \<longleftrightarrow> writes_ok L p as \<and> writes_ok L (last_act p as) bs"
  by (induction as arbitrary: p) simp_all

lemma writes_append [simp]: "writes (as @ bs) = writes as @ writes bs"
  by (induction as rule: writes.induct) simp_all

lemma saws [simp]: "writes (map Saw snaps) = []" "writes_ok L p (map Saw snaps)"
  by (induction snaps arbitrary: p) simp_all

lemma last_act_saws: "snaps \<noteq> [] \<Longrightarrow> last_act p (map Saw snaps) = Some (Saw (last snaps))"
  by (simp add: last_act_def last_map)

text \<open>What a step of a call adds to the trace.\<close>

definition added :: "script \<Rightarrow> script \<Rightarrow> act list \<Rightarrow> bool" where
  "added s s' new \<longleftrightarrow> sc_trace s' = sc_trace s @ new"

lemma added_refl [simp]: "added s s []"
  by (simp add: added_def)

lemma added_trans: "added s s1 as \<Longrightarrow> added s1 s2 bs \<Longrightarrow> added s s2 (as @ bs)"
  by (simp add: added_def)

lemma look_added: "look s = Some (m, s') \<Longrightarrow> added s s' [Saw (mo_snap m)]"
  by (auto simp: look_def added_def split: list.splits)

lemma peek_added: "peek s = Some (m, s') \<Longrightarrow> added s s' [Peek (mo_snap m)]"
  by (auto simp: peek_def added_def split: list.splits)

lemma look_input_added: "look_input s = Some (m, s') \<Longrightarrow> added s s' [Gate (mo_pending m) (mo_surfaced m)]"
  by (auto simp: look_input_def added_def split: list.splits)

lemma conv_write_added: "conv_write p s = Some (e, s') \<Longrightarrow> added s s' [Wrote p]"
  by (auto simp: conv_write_def added_def split: list.splits)

lemma timed_wait_added: "timed_wait s = Some (e, s') \<Longrightarrow> added s s' []"
  by (auto simp: timed_wait_def added_def split: list.splits)

lemma awaitScreen_added:
  "awaitScreen ready s = Some ((held, cur, err), s') \<Longrightarrow>
     \<exists>snaps. added s s' (map Saw snaps) \<and> snaps \<noteq> [] \<and> cur = sn_Text (last snaps) \<and> (held \<longleftrightarrow> ready cur) \<and> (held \<longrightarrow> err = None)"
proof (induction ready s rule: awaitScreen.induct)
  case (1 ready s)
  obtain m s1 where l: "look s = Some (m, s1)" using "1.prems" by (auto simp: awaitScreen.simps [of ready s] split: option.splits)
  note here = look_added [OF l]
  show ?case
  proof (cases "ready (mo_text m) \<or> mo_ctx m \<or> mo_closed m \<or> mo_expired m")
    case True
    then show ?thesis using "1.prems" here l
      by (intro exI [of _ "[mo_snap m]"]) (auto simp: awaitScreen.simps [of ready s] split: if_splits)
  next
    case False
    then have "awaitScreen ready s1 = Some ((held, cur, err), s')" using "1.prems" l by (simp add: awaitScreen.simps [of ready s])
    then obtain snaps where "added s1 s' (map Saw snaps)" "snaps \<noteq> []" "cur = sn_Text (last snaps)" "held \<longleftrightarrow> ready cur" "held \<longrightarrow> err = None"
      using "1.IH" [OF l] False by auto
    then show ?thesis using added_trans [OF here] by (intro exI [of _ "mo_snap m # snaps"]) auto
  qed
qed

section \<open>Scripts\<close>

definition screen :: "string \<Rightarrow> Snapshot" where
  "screen text = \<lparr>sn_Text = text, sn_CursorCol = 0, sn_CursorRow = 0\<rparr>"

definition quiet :: moment where
  "quiet = \<lparr>mo_snap = \<lparr>sn_Text = [], sn_CursorCol = 0, sn_CursorRow = 0\<rparr>, mo_ctx = False, mo_closed = False, mo_expired = False,
     mo_pending = None, mo_surfaced = False, mo_event = EchoNotify\<rparr>"

section \<open>An answer\<close>

text \<open>
  The screen right before a write licenses it: it shows the request's own dialog, with the highlight on the option and the
  write its Enter, or the write is the first of the keys that the screen gives for the option.
\<close>

definition first_keys :: "string \<Rightarrow> string" where
  "first_keys keys = (case splitNavKeys keys of Some (nav, _) \<Rightarrow> nav | None \<Rightarrow> keys)"

definition licensed :: "(string \<Rightarrow> string \<Rightarrow> bool) \<Rightarrow> reader \<Rightarrow> TRequest \<Rightarrow> string \<Rightarrow> act option \<Rightarrow> string \<Rightarrow> bool" where
  "licensed fold_eq rd req label prev keys \<longleftrightarrow>
     (case prev of
        Some (Saw snap) \<Rightarrow>
          keys = [CR] \<and> dialogStateOf fold_eq rd req label (sn_Text snap) = dialogOnTarget \<or>
          (\<exists>k. keysOnLiveScreen fold_eq rd req label (sn_Text snap) = Some k \<and> keys = first_keys k)
      | _ \<Rightarrow> False)"

lemma splitNavKeys_Some: "splitNavKeys keys = Some (nav, confirm) \<Longrightarrow> confirm = [CR] \<and> keys = nav @ [CR]"
  by (cases keys rule: rev_cases) (auto simp: splitNavKeys_def split: if_splits)

lemma awaitDialog_added:
  assumes "awaitDialog fold_eq rd req label ready s = Some ((st, seen, err), s')"
  shows "\<exists>snaps. added s s' (map Saw snaps) \<and> snaps \<noteq> [] \<and> seen = sn_Text (last snaps) \<and> st = dialogStateOf fold_eq rd req label seen"
proof -
  obtain held where "awaitScreen (\<lambda>text. ready (dialogStateOf fold_eq rd req label text)) s = Some ((held, seen, err), s')"
      "st = dialogStateOf fold_eq rd req label seen"
    using assms by (auto simp: awaitDialog_def)
  then show ?thesis using awaitScreen_added by blast
qed

lemma navigate_added:
  assumes "navigate fold_eq rd req label keys answered s = Some (r, s')"
  shows "\<exists>new. added s s' new \<and>
    (case splitNavKeys keys of
       None \<Rightarrow> new = [] \<and> r = Inr keys
     | Some (nav, confirm) \<Rightarrow> \<exists>snaps. new = Wrote nav # map Saw snaps \<and>
         (r = Inl None \<longrightarrow> snaps \<noteq> [] \<and> dialogStateOf fold_eq rd req label (sn_Text (last snaps)) = dialogGone) \<and>
         (\<forall>k. r = Inr k \<longrightarrow> k = [CR] \<and> snaps \<noteq> [] \<and> dialogStateOf fold_eq rd req label (sn_Text (last snaps)) = dialogOnTarget))"
proof (cases "splitNavKeys keys")
  case None
  then show ?thesis using assms by (auto simp: navigate_def)
next
  case (Some p)
  obtain nav confirm where p: "p = (nav, confirm)" by (cases p)
  obtain e s1 where w: "conv_write nav s = Some (e, s1)"
    using assms by (auto simp: navigate_def Some p split: option.splits)
  note nw = conv_write_added [OF w]
  show ?thesis
  proof (cases e)
    case (Some err)
    then have "r = Inl (Some (Failed err))" "s' = s1" using assms w by (auto simp: navigate_def \<open>splitNavKeys keys = Some p\<close> p)
    then show ?thesis using nw by (auto simp: \<open>splitNavKeys keys = Some p\<close> p intro!: exI [of _ "[Wrote nav]"])
  next
    case None
    obtain st seen err where aw: "awaitDialog fold_eq rd req label (\<lambda>st. st = dialogOnTarget \<or> st = dialogGone) s1 = Some ((st, seen, err), s')"
        and r: "r = (case err of Some e \<Rightarrow> Inl (Some (Failed e)) | None \<Rightarrow>
           if st = dialogGone then Inl None else if st \<noteq> dialogOnTarget then Inl (Some (unresolvedInput req seen answered)) else Inr confirm)"
      using assms w None by (auto simp: navigate_def \<open>splitNavKeys keys = Some p\<close> p split: option.splits prod.splits)
    obtain snaps where sn: "added s1 s' (map Saw snaps)" "snaps \<noteq> []" "seen = sn_Text (last snaps)" "st = dialogStateOf fold_eq rd req label seen"
      using awaitDialog_added [OF aw] by auto
    have c: "confirm = [CR]" using splitNavKeys_Some \<open>splitNavKeys keys = Some p\<close> p by auto
    have "added s s' (Wrote nav # map Saw snaps)" using added_trans [OF nw sn(1)] by simp
    then show ?thesis using r sn(2-4) c by (auto simp: \<open>splitNavKeys keys = Some p\<close> p split: option.splits if_splits)
  qed
qed

lemma confirm_added:
  assumes "confirm_answer fold_eq rd req label split keys answered s = Some (r, s')"
  shows "\<exists>snaps. added s s' (Wrote keys # map Saw snaps) \<and>
    (r = Inl None \<longrightarrow> snaps \<noteq> [] \<and> dialogStateOf fold_eq rd req label (sn_Text (last snaps)) = dialogGone) \<and>
    (\<forall>k. r = Inr k \<longrightarrow> split \<and> snaps \<noteq> [] \<and> keysOnLiveScreen fold_eq rd req label (sn_Text (last snaps)) = Some k)"
proof -
  obtain e s1 where w: "conv_write keys s = Some (e, s1)" using assms by (auto simp: confirm_answer_def split: option.splits)
  note nw = conv_write_added [OF w]
  show ?thesis
  proof (cases e)
    case (Some err)
    then show ?thesis using assms w nw by (auto simp: confirm_answer_def intro!: exI [of _ "[]"])
  next
    case None
    obtain st seen err s2 where
        aw: "awaitDialog fold_eq rd req label (\<lambda>st. st = dialogGone \<or> split \<and> st = dialogOffTarget) s1 = Some ((st, seen, err), s2)"
      using assms w None by (auto simp: confirm_answer_def split: option.splits prod.splits)
    obtain snaps where sn: "added s1 s2 (map Saw snaps)" "snaps \<noteq> []" "seen = sn_Text (last snaps)" "st = dialogStateOf fold_eq rd req label seen"
      using awaitDialog_added [OF aw] by auto
    have upto: "added s s2 (Wrote keys # map Saw snaps)" using added_trans [OF nw sn(1)] by simp
    show ?thesis
    proof (cases "err = None \<and> st \<noteq> dialogGone \<and> split \<and> st = dialogOffTarget \<and> answered + 1 < answerAttempts")
      case False
      then show ?thesis using assms w None aw upto sn(2-4)
        by (auto simp: confirm_answer_def split: option.splits if_splits intro!: exI [of _ snaps])
    next
      case True
      obtain e3 s3 where tw: "timed_wait s2 = Some (e3, s3)"
        using assms w None aw True by (auto simp: confirm_answer_def split: option.splits)
      have at3: "added s s3 (Wrote keys # map Saw snaps)" using added_trans [OF upto timed_wait_added [OF tw]] by simp
      show ?thesis
      proof (cases e3)
        case (Some err3)
        then show ?thesis using assms w None aw True tw at3 by (auto simp: confirm_answer_def intro!: exI [of _ snaps])
      next
        case e3: None
        obtain m where lk: "look s3 = Some (m, s')" and r: "r = (case keysOnLiveScreen fold_eq rd req label (mo_text m) of
              Some next \<Rightarrow> Inr next
            | None \<Rightarrow> if dialogStateOf fold_eq rd req label (mo_text m) = dialogGone then Inl None
                else Inl (Some (unresolvedInput req (mo_text m) (answered + 1))))"
          using assms w None aw True tw e3 by (auto simp: confirm_answer_def split: option.splits)
        have "added s s' (Wrote keys # map Saw (snaps @ [mo_snap m]))" using added_trans [OF at3 look_added [OF lk]] by simp
        then show ?thesis using r True by (intro exI [of _ "snaps @ [mo_snap m]"]) (auto split: option.splits if_splits)
      qed
    qed
  qed
qed

lemma pass_trace:
  assumes nav: "navigate fold_eq rd req label keys answered s = Some (Inr k, s1)" and sn: "added s1 s2 (Wrote k # map Saw snaps)"
  shows "\<exists>mid. added s s2 (Wrote (first_keys keys) # mid) \<and>
    writes_ok (licensed fold_eq rd req label) (Some (Wrote (first_keys keys))) mid \<and> length (writes mid) \<le> 1 \<and>
    (snaps \<noteq> [] \<longrightarrow> (\<forall>p. last_act p mid = Some (Saw (last snaps))))"
proof (cases "splitNavKeys keys")
  case None
  then have k: "k = keys" "added s s1 []" using navigate_added [OF nav] by auto
  then show ?thesis using None added_trans [OF k(2) sn]
    by (intro exI [of _ "map Saw snaps"]) (simp add: first_keys_def last_act_saws)
next
  case (Some p)
  obtain nv cf where p: "p = (nv, cf)" by (cases p)
  obtain sn0 where sn0: "added s s1 (Wrote nv # map Saw sn0)" "k = [CR]" "sn0 \<noteq> []"
      "dialogStateOf fold_eq rd req label (sn_Text (last sn0)) = dialogOnTarget"
    using navigate_added [OF nav] Some p by auto
  then show ?thesis using Some p added_trans [OF sn0(1) sn]
    by (intro exI [of _ "map Saw sn0 @ Wrote k # map Saw snaps"])
      (simp add: first_keys_def last_act_saws writes_ok_append licensed_def)
qed

lemma answer_loop_trace:
  assumes "answer_loop fold_eq rd req label keys answered s = Some (r, s')"
  shows "\<exists>rest. added s s' (Wrote (first_keys keys) # rest) \<and>
    writes_ok (licensed fold_eq rd req label) (Some (Wrote (first_keys keys))) rest \<and>
    length (writes rest) < 2 * (if answered < answerAttempts then answerAttempts - answered else 1) \<and>
    (r = None \<longrightarrow> (\<exists>snap. last_act None rest = Some (Saw snap) \<and> dialogStateOf fold_eq rd req label (sn_Text snap) = dialogGone))"
  using assms
proof (induction fold_eq rd req label keys answered s rule: answer_loop.induct)
  case (1 fold_eq rd req label keys answered s)
  let ?L = "licensed fold_eq rd req label" and ?st = "\<lambda>snaps. dialogStateOf fold_eq rd req label (sn_Text (last snaps))"
  obtain n s1 where nav: "navigate fold_eq rd req label keys answered s = Some (n, s1)"
    using "1.prems" by (auto simp: answer_loop.simps [of fold_eq rd req label keys answered s] split: option.splits)
  show ?case
  proof (cases n)
    case (Inl q)
    then have "r = q" "s' = s1" using "1.prems" nav by (simp_all add: answer_loop.simps [of fold_eq rd req label keys answered s])
    obtain nv cf where sp: "splitNavKeys keys = Some (nv, cf)" using navigate_added [OF nav] Inl by (auto split: option.splits)
    then obtain snaps where sn: "added s s1 (Wrote nv # map Saw snaps)" "n = Inl None \<longrightarrow> snaps \<noteq> [] \<and> ?st snaps = dialogGone"
      using navigate_added [OF nav] by auto
    moreover have "first_keys keys = nv" using sp by (simp add: first_keys_def)
    ultimately show ?thesis using Inl \<open>r = q\<close> \<open>s' = s1\<close> by (intro exI [of _ "map Saw snaps"]) (simp add: last_act_saws)
  next
    case (Inr k)
    obtain c s2 where conf: "confirm_answer fold_eq rd req label (splitNavKeys keys \<noteq> None) k answered s1 = Some (c, s2)"
      using "1.prems" nav Inr by (auto simp: answer_loop.simps [of fold_eq rd req label keys answered s] split: option.splits)
    obtain snaps where sn: "added s1 s2 (Wrote k # map Saw snaps)"
        and gone: "c = Inl None \<Longrightarrow> snaps \<noteq> [] \<and> ?st snaps = dialogGone"
        and again: "\<And>k'. c = Inr k' \<Longrightarrow> snaps \<noteq> [] \<and> keysOnLiveScreen fold_eq rd req label (sn_Text (last snaps)) = Some k'"
      using confirm_added [OF conf] by auto
    obtain mid where mid: "added s s2 (Wrote (first_keys keys) # mid)" "writes_ok ?L (Some (Wrote (first_keys keys))) mid"
        "length (writes mid) \<le> 1" "\<And>p. snaps \<noteq> [] \<Longrightarrow> last_act p mid = Some (Saw (last snaps))"
      using pass_trace [OF nav [unfolded Inr] sn] by blast
    show ?thesis
    proof (cases c)
      case (Inl q)
      then have rq: "r = q" "s' = s2" using "1.prems" nav \<open>n = Inr k\<close> conf
        by (simp_all add: answer_loop.simps [of fold_eq rd req label keys answered s])
      have "length (writes mid) < 2 * (if answered < answerAttempts then answerAttempts - answered else 1)" using mid(3) by auto
      then show ?thesis using mid(1,2,4) rq Inl gone by (intro exI [of _ mid]) auto
    next
      case (Inr k')
      have less: "answered + 1 < answerAttempts" using confirm_again conf Inr by blast
      have "answer_loop fold_eq rd req label k' (answered + 1) s2 = Some (r, s')"
        using "1.prems" nav \<open>n = Inr k\<close> conf Inr by (simp add: answer_loop.simps [of fold_eq rd req label keys answered s])
      then obtain rest where rest: "added s2 s' (Wrote (first_keys k') # rest)" "writes_ok ?L (Some (Wrote (first_keys k'))) rest"
          "length (writes rest) < 2 * (answerAttempts - (answered + 1))"
          "r = None \<longrightarrow> (\<exists>snap. last_act None rest = Some (Saw snap) \<and> dialogStateOf fold_eq rd req label (sn_Text snap) = dialogGone)"
        using "1.IH" [OF nav _ \<open>n = Inr k\<close> conf _ Inr] less by auto
      have lic: "?L (Some (Saw (last snaps))) (first_keys k')" using again [OF Inr] by (auto simp: licensed_def)
      have "added s s' (Wrote (first_keys keys) # (mid @ Wrote (first_keys k') # rest))" using added_trans [OF mid(1) rest(1)] by simp
      moreover have "writes_ok ?L (Some (Wrote (first_keys keys))) (mid @ Wrote (first_keys k') # rest)"
        using mid(2,4) again [OF Inr] lic rest(2) by (simp add: writes_ok_append)
      moreover have "length (writes (mid @ Wrote (first_keys k') # rest)) < 2 * (answerAttempts - answered)"
        using mid(3) rest(3) less by simp
      moreover have "last_act None (mid @ Wrote (first_keys k') # rest) = last_act (Some (Wrote (first_keys k'))) rest" by simp
      moreover have "rest \<noteq> [] \<Longrightarrow> last_act (Some (Wrote (first_keys k'))) rest = last_act None rest" by (simp add: last_act_def)
      ultimately show ?thesis using rest(4) less by (intro exI [of _ "mid @ Wrote (first_keys k') # rest"]) (cases "rest = []"; auto)
    qed
  qed
qed

section \<open>A planned answer\<close>

text \<open>Every step is written to the request's own dialog.\<close>

definition on_own_dialog :: "reader \<Rightarrow> TRequest \<Rightarrow> act option \<Rightarrow> string \<Rightarrow> bool" where
  "on_own_dialog rd req prev keys \<longleftrightarrow> (\<exists>snap. prev = Some (Saw snap) \<and> live_dialog rd req (sn_Text snap) \<noteq> None)"

lemma waitAfterRaised_added: "waitAfterRaised d s = Some (e, s') \<Longrightarrow> added s s' []"
  using timed_wait_added by (auto simp: waitAfterRaised_def split: if_splits)

lemma plan_step_trace:
  assumes "plan_step rd req i st s = Some (r, s')"
  shows "\<exists>new n. added s s' new \<and> n \<le> 1 \<and> writes new = map st_Keys (take n [st]) \<and>
    (\<forall>p. writes_ok (on_own_dialog rd req) p new) \<and> (\<forall>q seen k. r = Some (InputUnresolved q seen k) \<longrightarrow> k = i + n) \<and>
    (r = None \<longrightarrow> n = 1 \<and> (\<exists>snap. (\<forall>p. last_act p new = Some (Saw snap)) \<and> evidenceHolds rd req (st_Until st) (sn_Text snap)))"
proof -
  obtain e1 s1 where w: "waitAfterRaised (st_After st) s = Some (e1, s1)" using assms by (auto simp: plan_step_def split: option.splits)
  note a1 = waitAfterRaised_added [OF w]
  show ?thesis
  proof (cases e1)
    case (Some e)
    then show ?thesis using assms w a1 by (intro exI [of _ "[]"] exI [of _ 0]) (auto simp: plan_step_def)
  next
    case e1: None
    obtain on seen err s2 where aw: "awaitScreen (\<lambda>text. live_dialog rd req text \<noteq> None) s1 = Some ((on, seen, err), s2)"
      using assms w e1 by (auto simp: plan_step_def split: option.splits)
    obtain snaps where sn: "added s1 s2 (map Saw snaps)" "snaps \<noteq> []" "seen = sn_Text (last snaps)" "on \<longleftrightarrow> live_dialog rd req seen \<noteq> None"
      using awaitScreen_added [OF aw] by blast
    have a2: "added s s2 (map Saw snaps)" using added_trans [OF a1 sn(1)] by simp
    show ?thesis
    proof (cases "err = None \<and> on")
      case False
      then show ?thesis using assms w e1 aw a2
        by (intro exI [of _ "map Saw snaps"] exI [of _ 0]) (auto simp: plan_step_def unresolvedInput_def split: option.splits if_splits)
    next
      case True
      obtain e3 s3 where cw: "conv_write (st_Keys st) s2 = Some (e3, s3)"
        using assms w e1 aw True by (auto simp: plan_step_def split: option.splits)
      have a3: "added s s3 (map Saw snaps @ [Wrote (st_Keys st)])" using added_trans [OF a2 conv_write_added [OF cw]] by simp
      have ok: "writes_ok (on_own_dialog rd req) p (map Saw snaps @ [Wrote (st_Keys st)])" for p
        using sn(2-4) True by (simp add: writes_ok_append last_act_saws on_own_dialog_def)
      show ?thesis
      proof (cases e3)
        case (Some e)
        then show ?thesis using assms w e1 aw True cw a3 ok
          by (intro exI [of _ "map Saw snaps @ [Wrote (st_Keys st)]"] exI [of _ 1]) (auto simp: plan_step_def)
      next
        case e3: None
        obtain held seen' err' where aw': "awaitScreen (evidenceHolds rd req (st_Until st)) s3 = Some ((held, seen', err'), s')"
            and r: "r = (case err' of Some e \<Rightarrow> Some (Failed e) | None \<Rightarrow> if held then None else Some (unresolvedInput req seen' (i + 1)))"
          using assms w e1 aw True cw e3 by (auto simp: plan_step_def split: option.splits)
        obtain snaps' where sn': "added s3 s' (map Saw snaps')" "snaps' \<noteq> []" "seen' = sn_Text (last snaps')"
            "held \<longleftrightarrow> evidenceHolds rd req (st_Until st) seen'"
          using awaitScreen_added [OF aw'] by blast
        define mine where "mine = map Saw snaps @ [Wrote (st_Keys st)] @ map Saw snaps'"
        have "added s s' mine" using added_trans [OF a3 sn'(1)] by (simp add: mine_def)
        moreover have "writes mine = [st_Keys st]" "writes_ok (on_own_dialog rd req) p mine" "last_act q mine = Some (Saw (last snaps'))" for p q
          using ok [of p] sn'(2) by (auto simp: mine_def writes_ok_append last_act_saws)
        ultimately show ?thesis using r sn'(3,4)
          by (intro exI [of _ mine] exI [of _ 1]) (auto simp: unresolvedInput_def split: option.splits if_splits)
      qed
    qed
  qed
qed

lemma plan_steps_trace:
  "plan_steps rd req i steps s = Some (r, s') \<Longrightarrow>
     \<exists>new n. added s s' new \<and> n \<le> length steps \<and> writes new = map st_Keys (take n steps) \<and>
       (\<forall>p. writes_ok (on_own_dialog rd req) p new) \<and> (\<forall>q seen k. r = Some (InputUnresolved q seen k) \<longrightarrow> k = i + n) \<and>
       (r = None \<longrightarrow> n = length steps \<and> (steps \<noteq> [] \<longrightarrow>
          (\<exists>snap. (\<forall>p. last_act p new = Some (Saw snap)) \<and> evidenceHolds rd req (st_Until (last steps)) (sn_Text snap))))"
proof (induction steps arbitrary: i s)
  case (Cons st sts)
  obtain e s1 where one: "plan_step rd req i st s = Some (e, s1)" using Cons.prems by (auto split: option.splits)
  obtain mine n1 where mine: "added s s1 mine" "n1 \<le> 1" "writes mine = map st_Keys (take n1 [st])" "\<forall>p. writes_ok (on_own_dialog rd req) p mine"
      "\<forall>q seen k. e = Some (InputUnresolved q seen k) \<longrightarrow> k = i + n1"
      "e = None \<longrightarrow> n1 = 1 \<and> (\<exists>snap. (\<forall>p. last_act p mine = Some (Saw snap)) \<and> evidenceHolds rd req (st_Until st) (sn_Text snap))"
    using plan_step_trace [OF one] by blast
  show ?case
  proof (cases e)
    case (Some err)
    then have "r = Some err" "s' = s1" using Cons.prems one by simp_all
    moreover have "take n1 (st # sts) = take n1 [st]" using mine(2) by (cases n1) auto
    ultimately show ?thesis using Some mine by (intro exI [of _ mine] exI [of _ n1]) auto
  next
    case None
    then have rest: "plan_steps rd req (i + 1) sts s1 = Some (r, s')" using Cons.prems one by simp
    obtain new n where ih: "added s1 s' new" "n \<le> length sts" "writes new = map st_Keys (take n sts)"
        "\<forall>p. writes_ok (on_own_dialog rd req) p new" "\<forall>q seen k. r = Some (InputUnresolved q seen k) \<longrightarrow> k = i + 1 + n"
        "r = None \<longrightarrow> n = length sts \<and> (sts \<noteq> [] \<longrightarrow>
           (\<exists>snap. (\<forall>p. last_act p new = Some (Saw snap)) \<and> evidenceHolds rd req (st_Until (last sts)) (sn_Text snap)))"
      using Cons.IH [OF rest] by blast
    have n1: "n1 = 1" "writes mine = [st_Keys st]" using mine(3,6) None by simp_all
    have "sts = [] \<Longrightarrow> new = []" using rest ih(1) by (simp add: added_def)
    then show ?thesis using ih mine(4,6) None n1 added_trans [OF mine(1) ih(1)]
      by (intro exI [of _ "mine @ new"] exI [of _ "Suc n"]) (auto simp: writes_ok_append)
  qed
qed (auto intro!: exI [of _ "[]"] exI [of _ 0])

section \<open>An answer to Claude Code\<close>

lemma PlanAnswer_total:
  "\<exists>p. PlanAnswer req ids text = Some p \<and>
     (p = Unplanned \<longleftrightarrow> q_Options req = [] \<or> q_Kind req \<notin> {KindQuestion, KindQuestionReview}) \<and>
     (\<forall>steps. p = Planned steps \<longrightarrow> steps \<noteq> [] \<and> gone (last steps) \<and> list_all (\<lambda>st. \<not> gone st) (butlast steps) \<and>
        st_After (hd steps) = questionSettle)"
proof -
  have kinds: "KindQuestionReview \<noteq> KindQuestion" by (simp add: KindQuestion_def KindQuestionReview_def)
  have finish: "\<exists>p. map_option Planned (Option.bind (Some ss) settle_first) = Some p \<and> p \<noteq> Unplanned \<and>
      (\<forall>steps. p = Planned steps \<longrightarrow> steps \<noteq> [] \<and> gone (last steps) \<and> list_all (\<lambda>st. \<not> gone st) (butlast steps) \<and>
        st_After (hd steps) = questionSettle)" if "closing ss" for ss
    using settle_first_closing [OF that] by auto
  have review: "closing ss" if "planReview req ids text = Inr ss" for ss
    using that by (auto simp: planReview_def closing_def split: if_splits option.splits)
  consider "q_Options req = []" | "q_Options req \<noteq> []" "q_Kind req = KindQuestion" | "q_Options req \<noteq> []" "q_Kind req = KindQuestionReview"
    | "q_Options req \<noteq> []" "q_Kind req \<notin> {KindQuestion, KindQuestionReview}" by auto
  then show ?thesis
  proof cases
    case 2
    show ?thesis
    proof (cases "planQuestion req ids text")
      case (Inr steps)
      then obtain ss where "steps = Some ss" "closing ss" using planQuestion_closing by blast
      then show ?thesis using 2 Inr finish [of ss] by (simp add: PlanAnswer_def Let_def)
    qed (use 2 in \<open>simp add: PlanAnswer_def Let_def\<close>)
  next
    case 3
    show ?thesis
    proof (cases "planReview req ids text")
      case (Inr ss)
      then show ?thesis using 3 finish [OF review [OF Inr]] kinds by (simp add: PlanAnswer_def Let_def)
    qed (use 3 kinds in \<open>simp add: PlanAnswer_def Let_def\<close>)
  qed (simp_all add: PlanAnswer_def Let_def)
qed

lemma DetectInput_multi:
  assumes "DetectInput sum8 text = Some req"
  shows "q_Options req \<noteq> [] \<and> (q_MultiSelect req \<longrightarrow> q_Kind req = KindQuestion)"
proof -
  have ok: "DetectInputDetail sum8 text = (Some req, DetectOK)" using assms by (simp add: DetectInput_Some)
  have "q_MultiSelect req \<longrightarrow> q_Kind req = KindQuestion"
  proof (cases "liveAnchor text")
    case None
    then have "detectQuestion sum8 text = (Some req, DetectOK)" using ok by (simp add: DetectInputDetail_def)
    then show ?thesis
      by (auto simp: detectQuestion_def reviewRequest_def questionRequest_def zero_request_def Let_def split: option.splits if_splits)
  next
    case (Some l)
    then show ?thesis using ok
      by (cases l) (auto simp: DetectInputDetail_def zero_request_def Let_def split: if_splits)
  qed
  then show ?thesis using DetectInputDetail_OK [OF ok] by auto
qed

lemma gone_not_live:
  "dialogStateOf fold_eq rd req label text = dialogGone \<Longrightarrow> live_dialog rd req text = None"
  "ev_Kind ev = EvidenceGone \<Longrightarrow> evidenceHolds rd req ev text \<Longrightarrow> live_dialog rd req text = None"
  by (auto simp: dialogStateOf_def evidenceHolds_def live_dialog_def split: option.splits if_splits)

lemma last_trace: "added s s' new \<Longrightarrow> last_act None new = Some a \<Longrightarrow> last_act None (sc_trace s') = Some a"
  by (auto simp: added_def last_act_def split: if_splits)

lemma navigate_no_panic: "navigate fold_eq rd req label keys answered s = Some (r, s') \<Longrightarrow> r \<noteq> Inl (Some PlanPanic)"
  by (auto simp: navigate_def unresolvedInput_def split: option.splits prod.splits if_splits)

lemma confirm_no_panic: "confirm_answer fold_eq rd req label split keys answered s = Some (r, s') \<Longrightarrow> r \<noteq> Inl (Some PlanPanic)"
  by (auto simp: confirm_answer_def unresolvedInput_def split: option.splits prod.splits if_splits)

lemma answer_loop_no_panic: "answer_loop fold_eq rd req label keys answered s = Some (r, s') \<Longrightarrow> r \<noteq> Some PlanPanic"
proof (induction fold_eq rd req label keys answered s rule: answer_loop.induct)
  case (1 fold_eq rd req label keys answered s)
  then show ?case using navigate_no_panic [of fold_eq rd req label keys answered s]
      confirm_no_panic [of fold_eq rd req label "splitNavKeys keys \<noteq> None" _ answered]
    by (simp add: answer_loop.simps [of fold_eq rd req label keys answered s] split: option.splits prod.splits sum.splits) blast+
qed

lemma plan_steps_no_panic: "plan_steps rd req i steps s = Some (r, s') \<Longrightarrow> r \<noteq> Some PlanPanic"
proof (induction steps arbitrary: i s)
  case (Cons st sts)
  have "plan_step rd req i st s = Some (e, s1) \<Longrightarrow> e \<noteq> Some PlanPanic" for e s1
    by (auto simp: plan_step_def unresolvedInput_def split: option.splits if_splits)
  then show ?case using Cons by (auto split: option.splits prod.splits)
qed simp

text \<open>The dialog Claude Code shows before it runs without permissions, as far as the witnesses need it.\<close>

definition bypass_screen :: string where
  "bypass_screen = bypassAnchor @ [LF] @ ''1. No'' @ [LF] @ ''2. Yes''"

definition no_option :: TOption where
  "no_option = zero_option\<lparr>o_ID := ''1'', o_Alias := ''deny'', o_Label := ''No'', o_Keys := ''1'' @ [CR]\<rparr>"

definition yes_option :: TOption where
  "yes_option = zero_option\<lparr>o_ID := ''2'', o_Alias := ''proceed'', o_Label := ''Yes'', o_Keys := ''2'' @ [CR]\<rparr>"

definition bypass_request :: TRequest where
  "bypass_request = with_id length (zero_request\<lparr>q_Kind := KindBypassAcceptance, q_Prompt := bypassAnchor, q_Options := [no_option, yes_option]\<rparr>)"

lemma bypass_detected: "DetectInput length bypass_screen = Some bypass_request"
proof -
  have "liveAnchor bypass_screen = Some (bypassAnchor, 0, KindBypassAcceptance)" by code_simp
  moreover have "parseMenuOptions bypass_screen (drop (0 + length bypassAnchor) bypass_screen) = [no_option, yes_option]" by code_simp
  ultimately show ?thesis by (simp add: DetectInput_def DetectInputDetail_def bypass_request_def)
qed

lemma bypass_gone: "dialogStateOf (=) (claude_reader length) bypass_request ''Yes'' ''gone'' = dialogGone"
proof -
  have "DetectInput length ''gone'' = None" by code_simp
  moreover have "\<not> sublist bypassAnchor ''gone''" "bypassAnchor \<noteq> []" by (code_simp, code_simp)
  ultimately show ?thesis
    by (simp add: dialogStateOf_def live_dialog_def claude_reader_def dialogPainted_def bypass_request_def zero_request_def)
qed

definition answer_script :: script where
  "answer_script = \<lparr>sc_moments = [quiet\<lparr>mo_snap := screen ''gone''\<rparr>], sc_writes = [True], sc_waits = [], sc_trace = []\<rparr>"

lemma bypass_answered:
  "answerAndConfirm (=) (Some (claude_reader length)) bypass_request yes_option answer_script =
     Some (None, answer_script\<lparr>sc_moments := [], sc_writes := [], sc_trace := [Wrote (''2'' @ [CR]), Saw (screen ''gone'')]\<rparr>)"
proof -
  have "splitNavKeys (''2'' @ [CR]) = None" by code_simp
  then show ?thesis using bypass_gone
    by (simp add: answer_script_def quiet_def answerAndConfirm_def answer_loop.simps navigate_def confirm_answer_def conv_write_def awaitDialog_def awaitScreen.simps
        look_def yes_option_def zero_option_def screen_def)
qed





section \<open>Framing a paste\<close>

lemma replace_all_skip: "ESC \<notin> set q \<Longrightarrow> replace_all (ESC # old) new (q @ rest) = q @ replace_all (ESC # old) new rest"
  by (induction q) (simp_all add: replace_all.simps [of "ESC # old" new "_ # _"])

lemma replace_all_here: "old \<noteq> [] \<Longrightarrow> replace_all old new (old @ rest) = new @ replace_all old new rest"
  using replace_all.simps [of old new "old @ rest"] by simp

lemma replace_all_other:
  assumes "ESC \<notin> set q" and "\<not> prefix (ESC # old) ((ESC # q) @ rest)"
  shows "replace_all (ESC # old) new ((ESC # q) @ rest) = (ESC # q) @ replace_all (ESC # old) new rest"
  using assms replace_all_skip [OF assms(1), of old new rest] by (simp add: replace_all.simps [of "ESC # old" new "ESC # q @ rest"])

lemma replace_all_Nil [simp]: "replace_all old new [] = []"
  by (simp add: replace_all.simps)

text \<open>A text whose only escape characters begin a paste marker, as the list of its parts.\<close>

definition marker_free :: "string \<Rightarrow> bool" where
  "marker_free p \<longleftrightarrow> p \<noteq> pasteStartCSI200 \<and> p \<noteq> pasteEndCSI201"

definition paste_part :: "string \<Rightarrow> bool" where
  "paste_part p \<longleftrightarrow> ESC \<notin> set p \<or> \<not> marker_free p"

lemma strip_start:
  "list_all paste_part ps \<Longrightarrow> replace_all pasteStartCSI200 [] (concat ps) = concat (filter (\<lambda>p. p \<noteq> pasteStartCSI200) ps)"
proof (induction ps)
  case (Cons p ps)
  consider "p = pasteStartCSI200" | "p = pasteEndCSI201" | "ESC \<notin> set p" using Cons.prems by (auto simp: paste_part_def marker_free_def)
  then show ?case
  proof cases
    case 1
    then show ?thesis using Cons replace_all_here [of pasteStartCSI200 "[]" "concat ps"] by (simp add: pasteStartCSI200_def)
  next
    case 2
    then show ?thesis using Cons replace_all_other [of "''[201~''" "''[200~''" "concat ps" "[]"]
      by (simp add: pasteStartCSI200_def pasteEndCSI201_def)
  next
    case 3
    then show ?thesis using Cons replace_all_skip [OF 3, of "''[200~''" "[]" "concat ps"] by (auto simp: pasteStartCSI200_def)
  qed
qed simp

lemma strip_end:
  "list_all (\<lambda>p. ESC \<notin> set p \<or> p = pasteEndCSI201) ps \<Longrightarrow>
     replace_all pasteEndCSI201 [] (concat ps) = concat (filter (\<lambda>p. p \<noteq> pasteEndCSI201) ps)"
proof (induction ps)
  case (Cons p ps)
  show ?case
  proof (cases "p = pasteEndCSI201")
    case True
    then show ?thesis using Cons replace_all_here [of pasteEndCSI201 "[]" "concat ps"] by (simp add: pasteEndCSI201_def)
  next
    case False
    then have "ESC \<notin> set p" using Cons.prems by simp
    then show ?thesis using Cons False replace_all_skip [of p "''[201~''" "[]" "concat ps"] by (simp add: pasteEndCSI201_def)
  qed
qed simp

lemma framed_parts:
  assumes "list_all paste_part ps"
  shows "framePaste pre suf (concat ps) = pre @ concat (filter marker_free ps) @ suf"
proof -
  have "list_all (\<lambda>p. ESC \<notin> set p \<or> p = pasteEndCSI201) (filter (\<lambda>p. p \<noteq> pasteStartCSI200) ps)"
    using assms by (auto simp: list_all_iff paste_part_def marker_free_def)
  from strip_end [OF this] show ?thesis
    using strip_start [OF assms] by (simp add: framePaste_def marker_free_def [abs_def] conj_commute)
qed

lemma framed_rebuilt:
  assumes "ESC \<notin> set before" and "ESC \<notin> set behind"
  shows "framePaste pre suf (before @ (ESC # ''[20'') @ pasteEndCSI201 @ ''1~'' @ behind) = pre @ before @ pasteEndCSI201 @ behind @ suf"
proof -
  let ?mid = "(ESC # ''[20'') @ pasteEndCSI201 @ ''1~'' @ behind"
  have start: "replace_all pasteStartCSI200 [] ?mid = ?mid"
    using replace_all_other [of "''[20''" "''[200~''" "pasteEndCSI201 @ ''1~'' @ behind" "[]"]
      replace_all_other [of "''[201~''" "''[200~''" "''1~'' @ behind" "[]"]
      replace_all_skip [of "''1~'' @ behind" "''[200~''" "[]" "[]"] assms(2)
    by (simp add: pasteStartCSI200_def pasteEndCSI201_def)
  have stop: "replace_all pasteEndCSI201 [] ?mid = pasteEndCSI201 @ behind"
    using replace_all_other [of "''[20''" "''[201~''" "pasteEndCSI201 @ ''1~'' @ behind" "[]"]
      replace_all_here [of pasteEndCSI201 "[]" "''1~'' @ behind"]
      replace_all_skip [of "''1~'' @ behind" "''[201~''" "[]" "[]"] assms(2)
    by (simp add: pasteEndCSI201_def)
  have "replace_all pasteStartCSI200 [] (before @ ?mid) = before @ ?mid"
    unfolding pasteStartCSI200_def replace_all_skip [OF assms(1)] using start by (simp add: pasteStartCSI200_def)
  moreover have "replace_all pasteEndCSI201 [] (before @ ?mid) = before @ pasteEndCSI201 @ behind"
  proof -
    have "replace_all pasteEndCSI201 [] (before @ ?mid) = before @ replace_all pasteEndCSI201 [] ?mid"
      unfolding pasteEndCSI201_def by (rule replace_all_skip [OF assms(1)])
    then show ?thesis unfolding stop .
  qed
  ultimately show ?thesis by (simp add: framePaste_def)
qed



section \<open>Submitting\<close>

lemma await_echo_added: "await_echo needle pre h s = Some (e, s') \<Longrightarrow> \<exists>snaps. added s s' (map Saw snaps)"
proof (induction needle pre h s rule: await_echo.induct)
  case (1 needle pre h s)
  obtain m s1 where l: "look s = Some (m, s1)" using "1.prems" by (auto simp: await_echo.simps [of needle pre h s] split: option.splits)
  have here: "\<exists>snaps. added s s1 (map Saw snaps)" using look_added [OF l] by (intro exI [of _ "[mo_snap m]"]) simp
  have more: "\<exists>snaps. added s s' (map Saw snaps)" if "\<exists>snaps. added s1 s' (map Saw snaps)"
    using that added_trans [OF look_added [OF l]] by (metis (no_types, opaque_lifting) append_Cons append_Nil list.simps(9))
  show ?case using "1.prems" "1.IH" [OF l refl] here more l
    by (auto simp: await_echo.simps [of needle pre h s] split: if_splits echo_event.splits)
qed

lemma submit_trace:
  assumes "writeMessageAndSubmit True harness text pre key s = Some (r, s')"
  shows "\<exists>snaps fin. added s s' ([Wrote (case shouldPaste harness text of Some (p, q) \<Rightarrow> framePaste p q text | None \<Rightarrow> text)] @ map Saw snaps @ fin) \<and>
    (fin = [] \<and> r \<noteq> None \<or> fin = [Wrote key])"
proof -
  define payload where "payload = (case shouldPaste harness text of Some (p, q) \<Rightarrow> framePaste p q text | None \<Rightarrow> text)"
  obtain e1 s1 where w: "conv_write payload s = Some (e1, s1)"
    using assms by (auto simp: writeMessageAndSubmit_def Let_def payload_def split: option.splits)
  note a1 = conv_write_added [OF w]
  show ?thesis unfolding payload_def [symmetric]
  proof (cases e1)
    case (Some e)
    then show "\<exists>snaps fin. added s s' ([Wrote payload] @ map Saw snaps @ fin) \<and> (fin = [] \<and> r \<noteq> None \<or> fin = [Wrote key])"
      using assms w a1 by (intro exI [of _ "[]"] exI [of _ "[]"]) (auto simp: writeMessageAndSubmit_def Let_def payload_def)
  next
    case None
    obtain e2 s2 where aw: "awaitComposerEcho text pre (shouldPaste harness text \<noteq> None) s1 = Some (e2, s2)"
      using assms w None by (auto simp: writeMessageAndSubmit_def Let_def payload_def split: option.splits)
    obtain snaps where sn: "added s1 s2 (map Saw snaps)" using await_echo_added aw unfolding awaitComposerEcho_def by blast
    have a2: "added s s2 ([Wrote payload] @ map Saw snaps)" using added_trans [OF a1 sn] .
    show "\<exists>snaps fin. added s s' ([Wrote payload] @ map Saw snaps @ fin) \<and> (fin = [] \<and> r \<noteq> None \<or> fin = [Wrote key])"
    proof (cases e2)
      case (Some e)
      then show ?thesis using assms w None aw a2
        by (intro exI [of _ snaps] exI [of _ "[]"]) (auto simp: writeMessageAndSubmit_def Let_def payload_def)
    next
      case e2: None
      have cw: "conv_write key s2 = Some (r, s')"
        using assms w None aw e2 by (auto simp: writeMessageAndSubmit_def Let_def payload_def)
      then show ?thesis using added_trans [OF a2 conv_write_added [OF cw]] by (intro exI [of _ snaps] exI [of _ "[Wrote key]"]) simp
    qed
  qed
qed

section \<open>Emptying the composer\<close>

definition clears_what_was_read :: "(Snapshot \<Rightarrow> string option) \<Rightarrow> (string \<Rightarrow> string) \<Rightarrow> string \<Rightarrow> act option \<Rightarrow> string \<Rightarrow> bool" where
  "clears_what_was_read composer clearKeys hint prev keys \<longleftrightarrow>
     (case prev of
        Some (Saw snap) \<Rightarrow>
          (case composer snap of Some held \<Rightarrow> held \<noteq> [] \<and> keys = clearKeys held | None \<Rightarrow> hint \<noteq> [] \<and> keys = clearKeys hint)
      | _ \<Rightarrow> False)"

lemma clear_loop_trace:
  "clear_loop composer clearKeys hint rnd s = Some (r, s') \<Longrightarrow>
     \<exists>new. added s s' new \<and> length (writes new) \<le> composerClearRounds - rnd \<and>
       (\<forall>p. writes_ok (clears_what_was_read composer clearKeys hint) p new) \<and>
       (r = None \<longrightarrow> (\<exists>snap. (\<forall>p. last_act p new = Some (Saw snap)) \<and>
          (composer snap = Some [] \<or> composer snap = None \<and> hint = [] \<and> rnd = 0 \<and> writes new = [])))"
proof (induction composer clearKeys hint rnd s rule: clear_loop.induct)
  case (1 composer clearKeys hint rnd s)
  let ?L = "clears_what_was_read composer clearKeys hint"
  have rnd: "rnd \<le> composerClearRounds" using "1.prems" by (auto simp: clear_loop.simps [of composer clearKeys hint rnd s] split: if_splits)
  obtain m s1 where l: "look s = Some (m, s1)"
    using "1.prems" rnd by (auto simp: clear_loop.simps [of composer clearKeys hint rnd s] split: option.splits)
  note a1 = look_added [OF l]
  show ?case
  proof (cases "clear_round hint rnd (composer (mo_snap m))")
    case (Inl q)
    then have "r = q" "s' = s1" using "1.prems" rnd l by (simp_all add: clear_loop.simps [of composer clearKeys hint rnd s])
    then show ?thesis using a1 Inl
      by (intro exI [of _ "[Saw (mo_snap m)]"]) (auto simp: clear_round_def split: option.splits if_splits)
  next
    case (Inr held)
    have less: "rnd < composerClearRounds" using clear_round_less [OF Inr] rnd by simp
    have lic: "?L (Some (Saw (mo_snap m))) (clearKeys held)"
      using Inr by (auto simp: clear_round_def clears_what_was_read_def split: option.splits if_splits)
    obtain e2 s2 where w: "conv_write (clearKeys held) s1 = Some (e2, s2)"
      using "1.prems" rnd l Inr by (auto simp: clear_loop.simps [of composer clearKeys hint rnd s] split: option.splits)
    have a2: "added s s2 [Saw (mo_snap m), Wrote (clearKeys held)]" using added_trans [OF a1 conv_write_added [OF w]] by simp
    show ?thesis
    proof (cases e2)
      case (Some e)
      then show ?thesis using "1.prems" rnd l Inr w a2 lic less
        by (intro exI [of _ "[Saw (mo_snap m), Wrote (clearKeys held)]"]) (auto simp: clear_loop.simps [of composer clearKeys hint rnd s])
    next
      case e2: None
      obtain e3 s3 where tw: "timed_wait s2 = Some (e3, s3)"
        using "1.prems" rnd l Inr w e2 by (auto simp: clear_loop.simps [of composer clearKeys hint rnd s] split: option.splits)
      have a3: "added s s3 [Saw (mo_snap m), Wrote (clearKeys held)]" using added_trans [OF a2 timed_wait_added [OF tw]] by simp
      show ?thesis
      proof (cases e3)
        case (Some e)
        then show ?thesis using "1.prems" rnd l Inr w e2 tw a3 lic less
          by (intro exI [of _ "[Saw (mo_snap m), Wrote (clearKeys held)]"]) (auto simp: clear_loop.simps [of composer clearKeys hint rnd s])
      next
        case e3: None
        have rest: "clear_loop composer clearKeys hint (rnd + 1) s3 = Some (r, s')"
          using "1.prems" rnd l Inr w e2 tw e3 by (simp add: clear_loop.simps [of composer clearKeys hint rnd s])
        obtain new where "added s3 s' new" "length (writes new) \<le> composerClearRounds - (rnd + 1)" "\<forall>p. writes_ok ?L p new"
            "r = None \<longrightarrow> (\<exists>snap. (\<forall>p. last_act p new = Some (Saw snap)) \<and> composer snap = Some [])"
          using "1.IH" [OF _ l _ Inr w _ e2 tw _ e3 rest] rnd by auto
        then show ?thesis using added_trans [OF a3] lic less
          by (intro exI [of _ "[Saw (mo_snap m), Wrote (clearKeys held)] @ new"]) auto
      qed
    qed
  qed
qed

section \<open>A request arrives\<close>

lemma codex_approval_surfaced:
  assumes "detectApproval sum8 text = Some req" and "policyOption fold_eq (op_policy opts) req = None" and "op_on_input opts = None"
  shows "handleInputRequested fold_eq codex_adapter opts (Some req) i s =
    Some (i\<lparr>is_current := Some req, is_surfaced := True, is_unresolved := None,
      is_events := is_events i @ [EmitRequest (toClientInputRequest req)]\<rparr>, s)"
proof -
  have "q_Kind req = KindApproval" using detectApproval_Some [OF assms(1)] by simp
  then have "codex_DismissKeys (Some req) auto = None" for auto by (simp add: codex_DismissKeys_def AutoDismissKeys_def)
  then show ?thesis using assms(2,3)
    by (simp add: handleInputRequested_def tryAutoDismiss_def tryResolveInput_def codex_adapter_def Let_def)
qed

lemma take_answer_state:
  "take_answer fold_eq ad opts req ans i s = Some (ok, i', s') \<Longrightarrow>
     is_current i' = is_current i \<and> (ok \<longrightarrow> i' = i)"
proof -
  have "is_current (recordUnresolvedInput e i) = is_current i" for e by (cases e) (simp_all add: recordUnresolvedInput_def)
  then show "take_answer fold_eq ad opts req ans i s = Some (ok, i', s') \<Longrightarrow>
     is_current i' = is_current i \<and> (ok \<longrightarrow> i' = i)"
    by (auto simp: take_answer_def split: option.splits)
qed

lemma tryResolveInput_state:
  "tryResolveInput fold_eq ad opts req i s = Some (ok, i', s') \<Longrightarrow> is_current i' = is_current i \<and> (ok \<longrightarrow> i' = i)"
  by (auto simp: tryResolveInput_def Let_def dest: take_answer_state split: option.splits)

text \<open>A request that arrives keeps messages from being sent exactly when the client is asked about it; one that goes keeps none.\<close>

lemma inputBlocked_surfaced:
  assumes "handleInputRequested fold_eq ad opts (Some req) i s = Some (i', s')"
  shows "inputBlocked i' \<noteq> None \<longleftrightarrow> inputAwaitingClient i'"
proof -
  let ?i = "i\<lparr>is_current := Some req, is_surfaced := False, is_unresolved := None\<rparr>"
  have quiet: "inputBlocked ?i = None \<and> \<not> inputAwaitingClient ?i" by (simp add: inputBlocked_def inputAwaitingClient_def)
  obtain dismissed s1 where d: "tryAutoDismiss ad opts req s = Some (dismissed, s1)"
    using assms by (auto simp: handleInputRequested_def Let_def split: option.splits)
  show ?thesis
  proof (cases dismissed)
    case True
    then show ?thesis using assms d quiet by (simp add: handleInputRequested_def Let_def)
  next
    case False
    then obtain ok i2 s2 where r: "tryResolveInput fold_eq ad opts req ?i s1 = Some (ok, i2, s2)"
      using assms d by (auto simp: handleInputRequested_def Let_def split: option.splits)
    have st: "is_current i2 = Some req" "ok \<longrightarrow> i2 = ?i" using tryResolveInput_state [OF r] by simp_all
    show ?thesis
    proof (cases ok)
      case True
      then show ?thesis using assms d False r st(2) quiet by (simp add: handleInputRequested_def Let_def)
    next
      case no: False
      then have "i' = i2\<lparr>is_surfaced := True, is_events := is_events i2 @ [EmitRequest (toClientInputRequest req)]\<rparr>"
        using assms d False r by (simp add: handleInputRequested_def Let_def)
      then show ?thesis using st(1) by (simp add: inputBlocked_def inputAwaitingClient_def split: option.splits)
    qed
  qed
qed

lemma inputBlocked_resolved: "inputBlocked (handleInputResolved i) = None"
  by (simp add: inputBlocked_def handleInputResolved_def Let_def split: option.splits)

end
