(* ===== verification/Chat_Permission.thy ===== *)
theory Chat_Permission
  imports Chat_Terminal_Properties
begin

text \<open>
  Switching the permission mode of a running harness (\<^verbatim>\<open>internal/chatcore/permmode.go\<close>): the targets of a harness, the
  ring that Shift+Tab walks, the loop that presses it and reads the posture back, Codex's \<^verbatim>\<open>/plan\<close>, and what is made of a
  switch that did not happen. How an adapter reads the posture is the locale \<open>posture_reader\<close>; both adapters interpret it.
\<close>

section \<open>Postures\<close>

definition zero_posture :: PermissionPosture where
  "zero_posture = \<lparr>pp_Rung = [], pp_Native = [], pp_OnRing = False\<rparr>"

text \<open>\<open>permissionPosture\<close>: Claude Code's adapter reads the posture; Codex's reads the mode, and any it reads is on the ring.\<close>

definition claude_posture :: "Snapshot \<Rightarrow> PermissionPosture option" where
  "claude_posture snap = permissionPostureFromFooter (sn_Text snap)"

definition codex_posture :: "(string \<Rightarrow> nat) \<Rightarrow> Snapshot \<Rightarrow> PermissionPosture option" where
  "codex_posture sum8 snap = map_option (\<lambda>rung. \<lparr>pp_Rung = rung, pp_Native = [], pp_OnRing = True\<rparr>) (codex_PermissionMode sum8 snap)"

definition posture_or :: "PermissionPosture \<Rightarrow> PermissionPosture option \<Rightarrow> PermissionPosture" where
  "posture_or p r = (case r of Some q \<Rightarrow> q | None \<Rightarrow> p)"

definition matchTarget :: "string \<Rightarrow> PermissionPosture \<Rightarrow> bool" where
  "matchTarget target p \<longleftrightarrow> pp_Rung p = target \<and> pp_OnRing p"

definition matchRung :: "string \<Rightarrow> PermissionPosture \<Rightarrow> bool" where
  "matchRung rung p \<longleftrightarrow> pp_Rung p = rung"

section \<open>Targets and ring\<close>

datatype PermErr = PermFailed ChatErr | PermissionModeUnsupported | PermissionModeUnreachable | PermissionModeSwitchFailed
  | PermissionModeIndeterminate | PermissionModeBlocked InputRequest string | CodexPlanRefusedBusy "PermErr option" | BoundExhausted

definition codexCollabPlan :: string where "codexCollabPlan = ''plan''"
definition codexCollabDefault :: string where "codexCollabDefault = ''default''"
definition permissionRungBypass :: string where "permissionRungBypass = ''bypass''"
definition codexPlanRetryAttempts :: nat where "codexPlanRetryAttempts = 5"

definition quoted_item :: item where "quoted_item = Runes [apostrophe, utf8 0x2018, utf8 0x2019, quote]"

definition codexPlanRefusalRE :: re where
  "codexPlanRefusalRE =
     seq ([Opt (One quoted_item), lit ''/plan'', Opt (One quoted_item)] @
       concat (map (\<lambda>w. [Plus space_item, lit w]) [''is'', ''disabled'', ''while'', ''a'', ''task'', ''is'', ''in'', ''progress'']))"

record perm_opts =
  po_harness :: string
  po_args :: "string list"
  po_mode :: string

definition permissionModeCapabilities :: "string \<Rightarrow> string list option" where
  "permissionModeCapabilities harness =
     (if Canonical harness = ''claude-code'' then Some PermissionRungs
      else if Canonical harness = ''codex'' then Some [codexCollabPlan, codexCollabDefault]
      else None)"

definition argsContainFlag :: "string list \<Rightarrow> string list \<Rightarrow> bool" where
  "argsContainFlag args flags = list_ex (\<lambda>a. list_ex (\<lambda>f. a = f \<or> prefix (f @ ''='') a) flags) args"

definition cycleRing :: "perm_opts \<Rightarrow> nat \<times> bool" where
  "cycleRing po =
     (if po_harness po = ''codex'' then (2, False)
      else
        let rung = EffectiveLaunchRung ''claude-code'' (po_args po) (po_mode po) in
        if rung = permissionRungBypass then (5, True)
        else if argsContainFlag (po_args po) (BypassReachableFlags ''claude-code'') then (5, True)
        else if rung = [] then (5, True)
        else (4, False))"

section \<open>Pressing and reading\<close>

function pressGate :: "string \<Rightarrow> script \<Rightarrow> (PermErr option \<times> script) option" where
  "pressGate observed s =
     (case look_input s of
        None \<Rightarrow> None
      | Some (m, s1) \<Rightarrow>
          (case mo_pending m of
             None \<Rightarrow> Some (None, s1)
           | Some req \<Rightarrow>
               if mo_surfaced m then Some (Some (PermissionModeBlocked (toClientInputRequest req) observed), s1)
               else if mo_ctx m then Some (Some (PermFailed ErrCtx), s1)
               else if mo_closed m then Some (Some (PermFailed ErrClosed), s1)
               else if mo_expired m then Some (Some (PermissionModeBlocked (toClientInputRequest req) observed), s1)
               else pressGate observed s1))"
  by pat_completeness auto
termination
  by (relation "measure (\<lambda>(observed, s). length (sc_moments s))") (auto simp: look_input_less)

declare pressGate.simps [simp del]

text \<open>
  A pass of the loop of \<^verbatim>\<open>awaitPostureChange\<close>: what the call returns, or \<open>None\<close> to go on. \<open>blocked_poll\<close> is the look for
  a request that waits for the client, \<open>posture_poll\<close> the rest.
\<close>

definition surfaced_request :: "moment \<Rightarrow> TRequest option" where
  "surfaced_request m = (if mo_surfaced m then mo_pending m else None)"

definition blocked_poll ::
    "(Snapshot \<Rightarrow> PermissionPosture option) \<Rightarrow> PermissionPosture \<Rightarrow> script \<Rightarrow> ((PermissionPosture \<times> PermErr option) option \<times> script) option" where
  "blocked_poll detect prev s =
     (case look_input s of
        None \<Rightarrow> None
      | Some (m, s1) \<Rightarrow>
          if surfaced_request m = None then Some (None, s1)
          else case look_input s1 of
              None \<Rightarrow> None
            | Some (m', s2) \<Rightarrow>
                (case surfaced_request m' of
                   None \<Rightarrow> Some (None, s2)
                 | Some req \<Rightarrow>
                     (case look s2 of
                        None \<Rightarrow> None
                      | Some (m'', s3) \<Rightarrow>
                          let observed = posture_or prev (detect (mo_snap m'')) in
                          Some (Some (observed, Some (PermissionModeBlocked (toClientInputRequest req) (pp_Rung observed))), s3))))"

text \<open>The call ends at a moment when it is cancelled, closed or out of time, with the posture as it reads then.\<close>

definition give_up ::
    "(Snapshot \<Rightarrow> PermissionPosture option) \<Rightarrow> moment \<Rightarrow> script \<Rightarrow> ((PermissionPosture \<times> PermErr option) option \<times> script) option" where
  "give_up detect m s =
     (if \<not> (mo_ctx m \<or> mo_closed m \<or> mo_expired m) then Some (None, s)
      else case look s of
          None \<Rightarrow> None
        | Some (m', s1) \<Rightarrow>
            Some (Some (posture_or zero_posture (detect (mo_snap m')),
              if mo_ctx m then Some (PermFailed ErrCtx) else if mo_closed m then Some (PermFailed ErrClosed) else None), s1))"

definition posture_poll ::
    "(Snapshot \<Rightarrow> PermissionPosture option) \<Rightarrow> PermissionPosture \<Rightarrow> script \<Rightarrow> ((PermissionPosture \<times> PermErr option) option \<times> script) option" where
  "posture_poll detect prev s =
     (case look s of
        None \<Rightarrow> None
      | Some (m, s1) \<Rightarrow>
          (case detect (mo_snap m) of
             Some p \<Rightarrow> if p \<noteq> prev then Some (Some (p, None), s1) else give_up detect m s1
           | None \<Rightarrow> give_up detect m s1))"

lemma give_up_le: "give_up detect m s = Some (r, s') \<Longrightarrow> length (sc_moments s') \<le> length (sc_moments s)"
  by (auto simp: give_up_def dest!: look_less split: option.splits if_splits)

lemma posture_poll_less: "posture_poll detect prev s = Some (r, s') \<Longrightarrow> length (sc_moments s') < length (sc_moments s)"
  by (auto simp: posture_poll_def dest!: look_less give_up_le split: option.splits if_splits)

lemma blocked_poll_less: "blocked_poll detect prev s = Some (r, s') \<Longrightarrow> length (sc_moments s') < length (sc_moments s)"
  by (auto simp: blocked_poll_def Let_def dest!: look_less look_input_less split: option.splits if_splits)

function awaitPostureChange ::
    "(Snapshot \<Rightarrow> PermissionPosture option) \<Rightarrow> PermissionPosture \<Rightarrow> script \<Rightarrow> ((PermissionPosture \<times> PermErr option) \<times> script) option" where
  "awaitPostureChange detect prev s =
     (case blocked_poll detect prev s of
        None \<Rightarrow> None
      | Some (Some r, s1) \<Rightarrow> Some (r, s1)
      | Some (None, s1) \<Rightarrow>
          (case posture_poll detect prev s1 of
             None \<Rightarrow> None
           | Some (Some r, s2) \<Rightarrow> Some (r, s2)
           | Some (None, s2) \<Rightarrow> awaitPostureChange detect prev s2))"
  by pat_completeness auto
termination
  by (relation "measure (\<lambda>(detect, prev, s). length (sc_moments s))") (auto dest!: posture_poll_less blocked_poll_less)

declare awaitPostureChange.simps [simp del]

definition keep_readable :: "PermissionPosture \<Rightarrow> PermissionPosture \<Rightarrow> PermissionPosture" where
  "keep_readable prev observed = (if pp_Rung observed \<noteq> [] then observed else prev)"

section \<open>The cycle\<close>

fun cycle_loop ::
    "(Snapshot \<Rightarrow> PermissionPosture option) \<Rightarrow> (PermissionPosture \<Rightarrow> bool) \<Rightarrow> string \<Rightarrow> nat \<Rightarrow> PermissionPosture \<Rightarrow> script \<Rightarrow>
      ((string \<times> PermErr option) \<times> script) option" where
  "cycle_loop detect arrived keys 0 p s = Some ((pp_Rung p, if arrived p then None else Some BoundExhausted), s)"
| "cycle_loop detect arrived keys (Suc n) p s =
     (if arrived p then Some ((pp_Rung p, None), s)
      else case pressGate (pp_Rung p) s of
          None \<Rightarrow> None
        | Some (Some e, s1) \<Rightarrow> Some ((pp_Rung p, Some e), s1)
        | Some (None, s1) \<Rightarrow>
            (case conv_write keys s1 of
               None \<Rightarrow> None
             | Some (Some e, s2) \<Rightarrow> Some ((pp_Rung p, Some (PermFailed e)), s2)
             | Some (None, s2) \<Rightarrow>
                 (case awaitPostureChange detect p s2 of
                    None \<Rightarrow> None
                  | Some ((observed, Some e), s3) \<Rightarrow> Some ((pp_Rung (keep_readable p observed), Some e), s3)
                  | Some ((observed, None), s3) \<Rightarrow> cycle_loop detect arrived keys n (keep_readable p observed) s3)))"

definition cyclePermissionMode ::
    "(Snapshot \<Rightarrow> PermissionPosture option) \<Rightarrow> string \<Rightarrow> (PermissionPosture \<Rightarrow> bool) \<Rightarrow> nat \<Rightarrow> script \<Rightarrow> ((string \<times> PermErr option) \<times> script) option" where
  "cyclePermissionMode detect harness arrived bound s =
     (case peek s of
        None \<Rightarrow> None
      | Some (_, s1) \<Rightarrow>
          (case look s1 of
             None \<Rightarrow> None
           | Some (m, s2) \<Rightarrow>
               let p = posture_or zero_posture (detect (mo_snap m)) in
               if shiftTabForHarness harness = [] then Some ((pp_Rung p, Some PermissionModeUnsupported), s2)
               else cycle_loop detect arrived (shiftTabForHarness harness) bound p s2))"

text \<open>Codex's own command; \<open>n\<close> is how many more times it may be submitted after this one.\<close>

definition busy_wrap :: "bool \<Rightarrow> PermErr \<Rightarrow> PermErr" where
  "busy_wrap refused e = (if refused \<and> e = PermFailed ErrCtx then CodexPlanRefusedBusy (Some e) else e)"

fun codex_plan_loop ::
    "(Snapshot \<Rightarrow> PermissionPosture option) \<Rightarrow> string \<Rightarrow> nat \<Rightarrow> bool \<Rightarrow> PermissionPosture \<Rightarrow> script \<Rightarrow> ((string \<times> PermErr option) \<times> script) option" where
  "codex_plan_loop detect harness n refused p s =
     (case pressGate (pp_Rung p) s of
        None \<Rightarrow> None
      | Some (Some e, s1) \<Rightarrow> Some ((pp_Rung p, Some (busy_wrap refused e)), s1)
      | Some (None, s1) \<Rightarrow>
          (case peek s1 of
             None \<Rightarrow> None
           | Some (_, s2) \<Rightarrow>
               (case conv_write (''/plan'' @ submitKeyForHarness harness) s2 of
                  None \<Rightarrow> None
                | Some (Some e, s3) \<Rightarrow> Some ((pp_Rung p, Some (PermFailed e)), s3)
                | Some (None, s3) \<Rightarrow>
                    (case awaitPostureChange detect p s3 of
                       None \<Rightarrow> None
                     | Some ((observed, Some e), s4) \<Rightarrow> Some ((pp_Rung (keep_readable p observed), Some (busy_wrap refused e)), s4)
                     | Some ((observed, None), s4) \<Rightarrow>
                         let p' = keep_readable p observed in
                         if pp_Rung p' = codexCollabPlan then Some ((pp_Rung p', None), s4)
                         else case peek s4 of
                             None \<Rightarrow> None
                           | Some (m, s5) \<Rightarrow>
                               let refused' = (refused \<or> MatchString codexPlanRefusalRE (mo_text m)) in
                               case n of
                                 0 \<Rightarrow> Some ((pp_Rung p', Some (if refused' then CodexPlanRefusedBusy None else BoundExhausted)), s5)
                               | Suc n' \<Rightarrow> codex_plan_loop detect harness n' refused' p' s5))))"

declare codex_plan_loop.simps [simp del]

definition codexEnterPlan :: "(Snapshot \<Rightarrow> PermissionPosture option) \<Rightarrow> string \<Rightarrow> script \<Rightarrow> ((string \<times> PermErr option) \<times> script) option" where
  "codexEnterPlan detect harness s =
     (case look s of
        None \<Rightarrow> None
      | Some (m, s1) \<Rightarrow>
          codex_plan_loop detect harness (codexPlanRetryAttempts - 1) False (posture_or zero_posture (detect (mo_snap m))) s1)"

definition driveToPermissionMode ::
    "(Snapshot \<Rightarrow> PermissionPosture option) \<Rightarrow> string \<Rightarrow> string \<Rightarrow> (PermissionPosture \<Rightarrow> bool) \<Rightarrow> nat \<Rightarrow> script \<Rightarrow>
      ((string \<times> PermErr option) \<times> script) option" where
  "driveToPermissionMode detect harness target arrived bound s =
     (if harness = ''codex'' \<and> target = codexCollabPlan then codexEnterPlan detect harness s
      else cyclePermissionMode detect harness arrived bound s)"

section \<open>The switch\<close>

text \<open>
  \<open>held\<close> is whether control is held, \<open>reserved\<close> the refusal of the write claim and \<open>ready\<close> the outcome of the wait for a
  ready prompt. The texts of the errors are not kept.
\<close>

definition after_drive ::
    "(Snapshot \<Rightarrow> PermissionPosture option) \<Rightarrow> string \<Rightarrow> nat \<Rightarrow> PermissionPosture \<Rightarrow> string \<times> PermErr option \<Rightarrow> script \<Rightarrow>
      ((string \<times> PermErr option) \<times> script) option" where
  "after_drive detect harness bound start result s =
     (if snd result \<noteq> Some BoundExhausted then Some (result, s)
      else case cyclePermissionMode detect harness (matchRung (pp_Rung start)) bound s of
          None \<Rightarrow> None
        | Some ((restored, None), s1) \<Rightarrow> Some ((restored, Some PermissionModeSwitchFailed), s1)
        | Some ((restored, Some e), s1) \<Rightarrow>
            Some ((restored,
              Some (if e \<noteq> BoundExhausted then e
                else if MorePermissive restored (pp_Rung start) then PermissionModeIndeterminate
                else PermissionModeSwitchFailed)), s1))"

definition SetPermissionMode ::
    "(Snapshot \<Rightarrow> PermissionPosture option) \<Rightarrow> perm_opts \<Rightarrow> bool \<Rightarrow> bool \<Rightarrow> ChatErr option \<Rightarrow> ChatErr option \<Rightarrow> string \<Rightarrow> script \<Rightarrow>
      ((string \<times> PermErr option) \<times> script) option" where
  "SetPermissionMode detect po isClosed held reserved ready target s =
     (if isClosed then Some (([], Some (PermFailed ErrClosed)), s)
      else case permissionModeCapabilities (po_harness po) of
          None \<Rightarrow> Some (([], Some PermissionModeUnsupported), s)
        | Some targets \<Rightarrow>
            if target \<notin> set targets then Some (([], Some PermissionModeUnreachable), s)
            else if \<not> held then Some (([], Some (PermFailed ErrNoControl)), s)
            else case reserved of
                Some e \<Rightarrow> Some (([], Some (PermFailed e)), s)
              | None \<Rightarrow>
                  let (ringLen, bypassOnRing) = cycleRing po in
                  if target = permissionRungBypass \<and> \<not> bypassOnRing then Some (([], Some PermissionModeUnreachable), s)
                  else case look s of
                      None \<Rightarrow> None
                    | Some (m, s1) \<Rightarrow>
                        let start = posture_or zero_posture (detect (mo_snap m)) in
                        case ready of
                          Some e \<Rightarrow> Some ((pp_Rung start, Some (PermFailed e)), s1)
                        | None \<Rightarrow>
                            if matchTarget target start then Some ((pp_Rung start, None), s1)
                            else case driveToPermissionMode detect (po_harness po) target (matchTarget target) (2 * ringLen) s1 of
                                None \<Rightarrow> None
                              | Some (result, s2) \<Rightarrow> after_drive detect (po_harness po) (2 * ringLen) start result s2)"

end
