(* ===== verification/Chat_Permission_Properties.thy ===== *)
theory Chat_Permission_Properties
  imports Chat_Permission
begin

text \<open>
  What holds of a switch of the permission mode: the mode it returns is the last one that could be read, no key goes into
  a dialog, the presses are bounded, and a session left more permissive than it was found is reported as such.
\<close>

section \<open>Traces of a switch\<close>

lemma canonical_claude: "Canonical ''claude-code'' = ''claude-code''"
  by code_simp

text \<open>A key is written only when the last look at the input state showed no request, and that look is used up by it.\<close>

fun gated :: "bool \<Rightarrow> act list \<Rightarrow> bool" where
  "gated b [] = True"
| "gated b (Gate p f # as) = gated (p = None) as"
| "gated b (Wrote k # as) = (b \<and> gated False as)"
| "gated b (_ # as) = gated b as"

fun gate_after :: "bool \<Rightarrow> act list \<Rightarrow> bool" where
  "gate_after b [] = b"
| "gate_after b (Gate p f # as) = gate_after (p = None) as"
| "gate_after b (Wrote k # as) = gate_after False as"
| "gate_after b (_ # as) = gate_after b as"

lemma gated_append: "gated b (as @ bs) \<longleftrightarrow> gated b as \<and> gated (gate_after b as) bs"
  by (induction b as rule: gated.induct) simp_all

lemma gated_quiet: "writes as = [] \<Longrightarrow> gated b as"
  by (induction b as rule: gated.induct) simp_all

text \<open>The last posture that could be read, from \<open>p\<close> on.\<close>

definition read_act :: "(Snapshot \<Rightarrow> PermissionPosture option) \<Rightarrow> act \<Rightarrow> PermissionPosture \<Rightarrow> PermissionPosture" where
  "read_act detect a p = (case a of Saw snap \<Rightarrow> posture_or p (detect snap) | _ \<Rightarrow> p)"

definition last_posture :: "(Snapshot \<Rightarrow> PermissionPosture option) \<Rightarrow> PermissionPosture \<Rightarrow> act list \<Rightarrow> PermissionPosture" where
  "last_posture detect p as = fold (read_act detect) as p"

lemma last_posture_simps [simp]:
  "last_posture detect p [] = p" "last_posture detect p (a # as) = last_posture detect (read_act detect a p) as"
  "last_posture detect p (as @ bs) = last_posture detect (last_posture detect p as) bs"
  by (simp_all add: last_posture_def)

lemma read_act_simps [simp]:
  "read_act detect (Saw snap) p = posture_or p (detect snap)" "read_act detect (Gate r b) p = p"
  "read_act detect (Peek snap) p = p" "read_act detect (Wrote k) p = p"
  by (simp_all add: read_act_def)

lemma posture_or_simps [simp]: "posture_or p None = p" "posture_or p (Some q) = q"
  by (simp_all add: posture_or_def)

text \<open>The errors that end a press or a wait.\<close>

definition inner_err :: "PermErr option \<Rightarrow> bool" where
  "inner_err e \<longleftrightarrow> (case e of None \<Rightarrow> True | Some (PermFailed _) \<Rightarrow> True | Some (PermissionModeBlocked _ _) \<Rightarrow> True | _ \<Rightarrow> False)"

lemma inner_err_simps [simp]:
  "inner_err None" "inner_err (Some (PermFailed x))" "inner_err (Some (PermissionModeBlocked q obs))"
  "\<not> inner_err (Some PermissionModeSwitchFailed)" "\<not> inner_err (Some PermissionModeIndeterminate)" "\<not> inner_err (Some BoundExhausted)"
  by (simp_all add: inner_err_def)

lemma pressGate_added:
  "pressGate observed s = Some (e, s') \<Longrightarrow>
     \<exists>gs. added s s' gs \<and> writes gs = [] \<and> last_posture detect p gs = p \<and> (e = None \<longrightarrow> (\<forall>b. gate_after b gs)) \<and> inner_err e"
proof (induction observed s rule: pressGate.induct)
  case (1 observed s)
  obtain m s1 where l: "look_input s = Some (m, s1)" using "1.prems" by (auto simp: pressGate.simps [of observed s] split: option.splits)
  note a1 = look_input_added [OF l]
  show ?case
  proof (cases "mo_pending m = None \<or> mo_surfaced m \<or> mo_ctx m \<or> mo_closed m \<or> mo_expired m")
    case True
    then show ?thesis using "1.prems" l a1
      by (intro exI [of _ "[Gate (mo_pending m) (mo_surfaced m)]"]) (auto simp: pressGate.simps [of observed s] split: option.splits if_splits)
  next
    case False
    then obtain req where req: "mo_pending m = Some req" by auto
    have "pressGate observed s1 = Some (e, s')" using "1.prems" l False req by (simp add: pressGate.simps [of observed s])
    then obtain gs where "added s1 s' gs" "writes gs = []" "last_posture detect p gs = p" "e = None \<longrightarrow> (\<forall>b. gate_after b gs)" "inner_err e"
      using "1.IH" [OF l refl req] False by auto
    then show ?thesis using added_trans [OF a1] by (intro exI [of _ "[Gate (mo_pending m) (mo_surfaced m)] @ gs"]) auto
  qed
qed

lemma blocked_poll_added:
  assumes "blocked_poll detect prev s = Some (r, s')"
  shows "\<exists>new. added s s' new \<and> writes new = [] \<and>
    (case r of None \<Rightarrow> last_posture detect prev new = prev | Some (observed, e) \<Rightarrow> last_posture detect prev new = observed \<and> e \<noteq> None \<and> inner_err e)"
proof -
  obtain m s1 where l: "look_input s = Some (m, s1)" using assms by (auto simp: blocked_poll_def split: option.splits)
  note a1 = look_input_added [OF l]
  show ?thesis
  proof (cases "surfaced_request m")
    case None
    then show ?thesis using assms l a1 by (auto simp: blocked_poll_def intro!: exI [of _ "[Gate (mo_pending m) (mo_surfaced m)]"])
  next
    case (Some q)
    obtain m' s2 where l2: "look_input s1 = Some (m', s2)" using assms l Some by (auto simp: blocked_poll_def split: option.splits)
    have a2: "added s s2 [Gate (mo_pending m) (mo_surfaced m), Gate (mo_pending m') (mo_surfaced m')]"
      using added_trans [OF a1 look_input_added [OF l2]] by simp
    show ?thesis
    proof (cases "surfaced_request m'")
      case None
      then show ?thesis using assms l Some l2 a2
        by (auto simp: blocked_poll_def intro!: exI [of _ "[Gate (mo_pending m) (mo_surfaced m), Gate (mo_pending m') (mo_surfaced m')]"])
    next
      case req: (Some req)
      obtain m'' where l3: "look s2 = Some (m'', s')"
          and r: "r = Some (posture_or prev (detect (mo_snap m'')), Some (PermissionModeBlocked (toClientInputRequest req) (pp_Rung (posture_or prev (detect (mo_snap m''))))))"
        using assms l Some l2 req by (auto simp: blocked_poll_def Let_def split: option.splits)
      show ?thesis using added_trans [OF a2 look_added [OF l3]] r
        by (intro exI [of _ "[Gate (mo_pending m) (mo_surfaced m), Gate (mo_pending m') (mo_surfaced m'), Saw (mo_snap m'')]"]) simp
    qed
  qed
qed

section \<open>Scripts of a switch\<close>

definition press_view :: "Snapshot \<Rightarrow> moment list" where
  "press_view z = [quiet, quiet, quiet\<lparr>mo_snap := z\<rparr>]"

definition switch_view :: "Snapshot \<Rightarrow> Snapshot list \<Rightarrow> moment list" where
  "switch_view zi zs = [quiet\<lparr>mo_snap := zi\<rparr>, quiet, quiet\<lparr>mo_snap := zi\<rparr>] @ concat (map press_view zs)"

definition press_stuck :: "Snapshot \<Rightarrow> moment list" where
  "press_stuck z = [quiet, quiet, quiet\<lparr>mo_snap := z, mo_expired := True\<rparr>, quiet\<lparr>mo_snap := z\<rparr>]"

section \<open>Reading the posture\<close>

text \<open>What the driver relies on of an adapter's reading: a posture it reads has a name.\<close>

locale posture_reader =
  fixes detect :: "Snapshot \<Rightarrow> PermissionPosture option"
  assumes named: "detect snap = Some p \<Longrightarrow> pp_Rung p \<noteq> []"
begin

lemma keep_read: "keep_readable p (posture_or zero_posture (detect snap)) = posture_or p (detect snap)"
  using named [of snap] by (cases "detect snap") (auto simp: keep_readable_def zero_posture_def)

lemma posture_poll_added:
  assumes "posture_poll detect prev s = Some (r, s')"
  shows "\<exists>new. added s s' new \<and> writes new = [] \<and>
    (case r of None \<Rightarrow> last_posture detect prev new = prev
     | Some (observed, e) \<Rightarrow> last_posture detect prev new = keep_readable prev observed \<and> inner_err e)"
proof -
  obtain m s1 where l: "look s = Some (m, s1)" using assms by (auto simp: posture_poll_def split: option.splits)
  note a1 = look_added [OF l]
  show ?thesis
  proof (cases "detect (mo_snap m) = None \<or> detect (mo_snap m) = Some prev")
    case False
    then obtain p where p: "detect (mo_snap m) = Some p" "p \<noteq> prev" by auto
    then show ?thesis using assms l a1 named [OF p(1)]
      by (intro exI [of _ "[Saw (mo_snap m)]"]) (auto simp: posture_poll_def keep_readable_def)
  next
    case True
    then have same: "posture_or prev (detect (mo_snap m)) = prev" and g: "give_up detect m s1 = Some (r, s')"
      using assms l by (auto simp: posture_poll_def)
    show ?thesis
    proof (cases "mo_ctx m \<or> mo_closed m \<or> mo_expired m")
      case False
      then show ?thesis using g a1 same by (intro exI [of _ "[Saw (mo_snap m)]"]) (auto simp: give_up_def)
    next
      case True
      then obtain m' e where l2: "look s1 = Some (m', s')" and r: "r = Some (posture_or zero_posture (detect (mo_snap m')), e)" "inner_err e"
        using g by (auto simp: give_up_def split: option.splits)
      show ?thesis using added_trans [OF a1 look_added [OF l2]] r same keep_read [of prev "mo_snap m'"]
        by (intro exI [of _ "[Saw (mo_snap m), Saw (mo_snap m')]"]) simp
    qed
  qed
qed

lemma await_added:
  "awaitPostureChange detect prev s = Some ((observed, e), s') \<Longrightarrow>
     \<exists>new. added s s' new \<and> writes new = [] \<and> last_posture detect prev new = keep_readable prev observed \<and> inner_err e"
proof (induction "length (sc_moments s)" arbitrary: s rule: less_induct)
  case less
  obtain b s1 where bl: "blocked_poll detect prev s = Some (b, s1)"
    using less.prems by (auto simp: awaitPostureChange.simps [of detect prev s] split: option.splits)
  obtain n1 where n1: "added s s1 n1" "writes n1 = []"
      "case b of None \<Rightarrow> last_posture detect prev n1 = prev | Some (o', e') \<Rightarrow> last_posture detect prev n1 = o' \<and> e' \<noteq> None \<and> inner_err e'"
    using blocked_poll_added [OF bl] by blast
  show ?case
  proof (cases b)
    case (Some r)
    then have r: "r = (observed, e)" "s' = s1" using less.prems bl by (simp_all add: awaitPostureChange.simps [of detect prev s])
    have "keep_readable prev observed = observed"
    proof -
      have "observed = prev \<or> pp_Rung observed \<noteq> []"
        using bl Some r named by (auto simp: blocked_poll_def Let_def posture_or_def split: option.splits if_splits)
      then show ?thesis by (auto simp: keep_readable_def)
    qed
    then show ?thesis using n1 Some r by auto
  next
    case None
    obtain q s2 where po: "posture_poll detect prev s1 = Some (q, s2)"
      using less.prems bl None by (auto simp: awaitPostureChange.simps [of detect prev s] split: option.splits)
    obtain n2 where n2: "added s1 s2 n2" "writes n2 = []"
        "case q of None \<Rightarrow> last_posture detect prev n2 = prev
         | Some (o', e') \<Rightarrow> last_posture detect prev n2 = keep_readable prev o' \<and> inner_err e'"
      using posture_poll_added [OF po] by blast
    have a2: "added s s2 (n1 @ n2)" using added_trans [OF n1(1) n2(1)] .
    have p1: "last_posture detect prev n1 = prev" using n1(3) None by simp
    show ?thesis
    proof (cases q)
      case (Some r)
      then have "r = (observed, e)" "s' = s2" using less.prems bl None po by (simp_all add: awaitPostureChange.simps [of detect prev s])
      then show ?thesis using n1(2) n2 a2 p1 Some by (intro exI [of _ "n1 @ n2"]) simp
    next
      case q: None
      have rest: "awaitPostureChange detect prev s2 = Some ((observed, e), s')"
        using less.prems bl None po q by (simp add: awaitPostureChange.simps [of detect prev s])
      obtain n3 where "added s2 s' n3" "writes n3 = []" "last_posture detect prev n3 = keep_readable prev observed" "inner_err e"
        using less.hyps [OF _ rest] blocked_poll_less [OF bl] posture_poll_less [OF po] by auto
      then show ?thesis using added_trans [OF a2] n1(2) n2 p1 q by (intro exI [of _ "(n1 @ n2) @ n3"]) auto
    qed
  qed
qed

section \<open>The cycle\<close>

lemma cycle_loop_trace:
  "cycle_loop detect arrived keys n p s = Some ((rung, err), s') \<Longrightarrow> (inner_err err \<or> err = Some BoundExhausted) \<and>
     (\<exists>new. added s s' new \<and> rung = pp_Rung (last_posture detect p new) \<and> (err = None \<longrightarrow> arrived (last_posture detect p new)) \<and>
       (\<forall>b. gated b new) \<and> length (writes new) \<le> n \<and> set (writes new) \<subseteq> {keys})"
proof (induction n arbitrary: p s)
  case 0
  then show ?case by (auto split: if_splits intro!: exI [of _ "[]"])
next
  case (Suc n)
  show ?case
  proof (cases "arrived p")
    case True
    then show ?thesis using Suc.prems by (auto intro!: exI [of _ "[]"])
  next
    case False
    obtain e1 s1 where pg: "pressGate (pp_Rung p) s = Some (e1, s1)" using Suc.prems False by (auto split: option.splits)
    obtain gs where gs: "added s s1 gs" "writes gs = []" "last_posture detect p gs = p" "e1 = None \<longrightarrow> (\<forall>b. gate_after b gs)" "inner_err e1"
      using pressGate_added [OF pg, of detect p] by blast
    show ?thesis
    proof (cases e1)
      case (Some e)
      then show ?thesis using Suc.prems False pg gs by (auto simp: gated_quiet intro!: exI [of _ gs])
    next
      case e1: None
      obtain e2 s2 where w: "conv_write keys s1 = Some (e2, s2)" using Suc.prems False pg e1 by (auto split: option.splits)
      have a2: "added s s2 (gs @ [Wrote keys])" using added_trans [OF gs(1) conv_write_added [OF w]] .
      have g2: "gated b (gs @ [Wrote keys])" for b using gs(2,4) e1 by (simp add: gated_append gated_quiet)
      show ?thesis
      proof (cases e2)
        case (Some e)
        then show ?thesis using Suc.prems False pg e1 w a2 g2 gs(2,3) by (auto intro!: exI [of _ "gs @ [Wrote keys]"])
      next
        case e2: None
        obtain observed e3 s3 where aw: "awaitPostureChange detect p s2 = Some ((observed, e3), s3)"
          using Suc.prems False pg e1 w e2 by (auto split: option.splits)
        obtain n3 where n3: "added s2 s3 n3" "writes n3 = []" "last_posture detect p n3 = keep_readable p observed" "inner_err e3"
          using await_added [OF aw] by blast
        define mine where "mine = (gs @ [Wrote keys]) @ n3"
        have a3: "added s s3 mine" using added_trans [OF a2 n3(1)] by (simp add: mine_def)
        have mine: "writes mine = [keys]" "gated b mine" "last_posture detect p mine = keep_readable p observed" for b
          using g2 [of b] n3 gs(2,3) by (simp_all add: mine_def gated_append gated_quiet)
        show ?thesis
        proof (cases e3)
          case (Some e)
          then show ?thesis using Suc.prems False pg e1 w e2 aw a3 mine n3(4) by (auto intro!: exI [of _ mine])
        next
          case e3: None
          have "cycle_loop detect arrived keys n (keep_readable p observed) s3 = Some ((rung, err), s')"
            using Suc.prems False pg e1 w e2 aw e3 by simp
          then obtain new where "added s3 s' new" "rung = pp_Rung (last_posture detect (keep_readable p observed) new)"
              "err = None \<longrightarrow> arrived (last_posture detect (keep_readable p observed) new)" "\<forall>b. gated b new"
              "length (writes new) \<le> n" "set (writes new) \<subseteq> {keys}" "inner_err err \<or> err = Some BoundExhausted"
            using Suc.IH by blast
          then show ?thesis using added_trans [OF a3] mine by (auto simp: gated_append intro!: exI [of _ "mine @ new"])
        qed
      qed
    qed
  qed
qed

lemma cycle_trace:
  assumes "cyclePermissionMode detect harness arrived bound s = Some ((rung, err), s')"
  shows "(inner_err err \<or> err \<in> {Some BoundExhausted, Some PermissionModeUnsupported}) \<and>
    (\<exists>new. added s s' new \<and> rung = pp_Rung (last_posture detect zero_posture new) \<and>
    (err = None \<longrightarrow> arrived (last_posture detect zero_posture new)) \<and>
    (\<forall>b. gated b new) \<and> length (writes new) \<le> bound \<and> set (writes new) \<subseteq> {shiftTabForHarness harness})"
proof -
  obtain m s1 where p: "peek s = Some (m, s1)" using assms by (auto simp: cyclePermissionMode_def split: option.splits)
  obtain m' s2 where l: "look s1 = Some (m', s2)" using assms p by (auto simp: cyclePermissionMode_def split: option.splits)
  have a2: "added s s2 [Peek (mo_snap m), Saw (mo_snap m')]" using added_trans [OF peek_added [OF p] look_added [OF l]] by simp
  show ?thesis
  proof (cases "shiftTabForHarness harness = []")
    case True
    then show ?thesis using assms p l a2
      by (auto simp: cyclePermissionMode_def Let_def intro!: exI [of _ "[Peek (mo_snap m), Saw (mo_snap m')]"])
  next
    case False
    then have "cycle_loop detect arrived (shiftTabForHarness harness) bound (posture_or zero_posture (detect (mo_snap m'))) s2 = Some ((rung, err), s')"
      using assms p l by (simp add: cyclePermissionMode_def Let_def)
    then obtain new where "added s2 s' new" "rung = pp_Rung (last_posture detect (posture_or zero_posture (detect (mo_snap m'))) new)"
        "err = None \<longrightarrow> arrived (last_posture detect (posture_or zero_posture (detect (mo_snap m'))) new)" "\<forall>b. gated b new"
        "length (writes new) \<le> bound" "set (writes new) \<subseteq> {shiftTabForHarness harness}" "inner_err err \<or> err = Some BoundExhausted"
      using cycle_loop_trace by blast
    then show ?thesis using added_trans [OF a2] by (auto intro!: exI [of _ "[Peek (mo_snap m), Saw (mo_snap m')] @ new"])
  qed
qed

lemma last_posture_forget:
  "pp_Rung (last_posture detect zero_posture as) \<noteq> [] \<Longrightarrow> last_posture detect p as = last_posture detect zero_posture as"
proof (induction as rule: rev_induct)
  case (snoc a as)
  then show ?case by (cases a) (auto simp: posture_or_def split: option.splits)
qed (simp add: zero_posture_def)

section \<open>The switch\<close>

lemma after_drive_trace:
  assumes run: "after_drive detect harness bound start (final, e) s = Some ((mode, err), s')" and plain: "e \<noteq> Some PermissionModeSwitchFailed \<and> e \<noteq> Some PermissionModeIndeterminate"
  shows "(err = None \<longrightarrow> mode = final \<and> e = None \<and> s' = s) \<and>
    (\<exists>new. added s s' new \<and> (\<forall>b. gated b new) \<and> length (writes new) \<le> bound \<and> set (writes new) \<subseteq> {shiftTabForHarness harness} \<and>
       (new = [] \<and> mode = final \<or> mode = [] \<or> mode = pp_Rung (last_posture detect zero_posture new))) \<and>
    (err = Some PermissionModeSwitchFailed \<longrightarrow> \<not> MorePermissive mode (pp_Rung start)) \<and>
    (err = Some PermissionModeIndeterminate \<longrightarrow> MorePermissive mode (pp_Rung start))"
proof (cases "e = Some BoundExhausted")
  case False
  then show ?thesis using run plain by (auto simp: after_drive_def intro!: exI [of _ "[]"])
next
  case True
  obtain restored re where c: "cyclePermissionMode detect harness (matchRung (pp_Rung start)) bound s = Some ((restored, re), s')"
      and mode: "mode = restored" and err: "err = Some (case re of None \<Rightarrow> PermissionModeSwitchFailed
        | Some x \<Rightarrow> if x \<noteq> BoundExhausted then x else if MorePermissive restored (pp_Rung start) then PermissionModeIndeterminate else PermissionModeSwitchFailed)"
    using run True by (auto simp: after_drive_def split: option.splits)
  obtain new where new: "added s s' new" "restored = pp_Rung (last_posture detect zero_posture new)"
      "re = None \<longrightarrow> matchRung (pp_Rung start) (last_posture detect zero_posture new)"
      "\<forall>b. gated b new" "length (writes new) \<le> bound" "set (writes new) \<subseteq> {shiftTabForHarness harness}"
    using cycle_trace [OF c] by blast
  have "\<not> MorePermissive r r" for r by (auto simp: MorePermissive_def split: option.splits)
  moreover have "re \<noteq> Some PermissionModeSwitchFailed" "re \<noteq> Some PermissionModeIndeterminate" using cycle_trace [OF c] by auto
  ultimately show ?thesis using new err mode by (auto simp: matchRung_def split: option.splits if_splits)
qed

text \<open>A switch on Claude Code, whose ring is walked; \<open>start\<close> is the posture the switch finds.\<close>

lemma switch_trace:
  assumes run: "SetPermissionMode detect po isClosed held reserved ready target s = Some ((mode, err), s')" and h: "po_harness po = ''claude-code''"
  shows "\<exists>new start. added s s' new \<and> (\<forall>b. gated b new) \<and> length (writes new) \<le> 4 * fst (cycleRing po) \<and>
    set (writes new) \<subseteq> {shiftTabCSI9_2u} \<and> (new \<noteq> [] \<longrightarrow> (\<exists>snap. hd new = Saw snap \<and> start = posture_or zero_posture (detect snap))) \<and>
    (mode = [] \<or> mode = pp_Rung (last_posture detect zero_posture new)) \<and>
    (err = None \<longrightarrow> mode = target \<and> target \<in> set PermissionRungs \<and> matchTarget target (last_posture detect zero_posture new)) \<and>
    (err = Some PermissionModeSwitchFailed \<longrightarrow> \<not> MorePermissive mode (pp_Rung start)) \<and>
    (err = Some PermissionModeIndeterminate \<longrightarrow> MorePermissive mode (pp_Rung start)) \<and>
    (target = permissionRungBypass \<and> \<not> snd (cycleRing po) \<longrightarrow> new = [] \<and> err \<noteq> None)"
proof -
  have cap: "permissionModeCapabilities (po_harness po) = Some PermissionRungs"
    by (simp add: h permissionModeCapabilities_def canonical_claude)
  have keys: "shiftTabForHarness (po_harness po) = shiftTabCSI9_2u" by (simp add: h shiftTabForHarness_def Unalias_def)
  have ne: "target \<in> set PermissionRungs \<Longrightarrow> target \<noteq> []" by (auto simp: PermissionRungs_def)
  let ?bound = "2 * fst (cycleRing po)"
  show ?thesis
  proof (cases "isClosed \<or> target \<notin> set PermissionRungs \<or> \<not> held \<or> reserved \<noteq> None \<or> target = permissionRungBypass \<and> \<not> snd (cycleRing po)")
    case True
    then show ?thesis using run cap
      by (auto simp: SetPermissionMode_def Let_def split: prod.splits option.splits if_splits intro!: exI [of _ "[]"])
  next
    case False
    then obtain m s1 where l: "look s = Some (m, s1)"
      using run cap by (auto simp: SetPermissionMode_def Let_def split: prod.splits option.splits)
    note a1 = look_added [OF l]
    define start where "start = posture_or zero_posture (detect (mo_snap m))"
    show ?thesis
    proof (cases "ready \<noteq> None \<or> matchTarget target start")
      case True
      then show ?thesis using run cap False l a1
        by (auto simp: SetPermissionMode_def Let_def start_def [symmetric] matchTarget_def split: prod.splits option.splits if_splits
            intro!: exI [of _ "[Saw (mo_snap m)]"] exI [of _ start])
    next
      case drive: False
      obtain final e s2 where d: "cyclePermissionMode detect (po_harness po) (matchTarget target) ?bound s1 = Some ((final, e), s2)"
          and ad: "after_drive detect (po_harness po) ?bound start (final, e) s2 = Some ((mode, err), s')"
        using run cap False l drive h
        by (auto simp: SetPermissionMode_def driveToPermissionMode_def Let_def start_def [symmetric] split: prod.splits option.splits if_splits)
      obtain n1 where n1: "added s1 s2 n1" "final = pp_Rung (last_posture detect zero_posture n1)" "\<forall>b. gated b n1"
          "e = None \<longrightarrow> matchTarget target (last_posture detect zero_posture n1)" "length (writes n1) \<le> ?bound" "set (writes n1) \<subseteq> {shiftTabCSI9_2u}"
        using cycle_trace [OF d] keys by auto
      have "e \<noteq> Some PermissionModeSwitchFailed \<and> e \<noteq> Some PermissionModeIndeterminate" using cycle_trace [OF d] by auto
      note ads = after_drive_trace [OF ad this]
      obtain n2 where n2: "added s2 s' n2" "\<forall>b. gated b n2" "length (writes n2) \<le> ?bound" "set (writes n2) \<subseteq> {shiftTabCSI9_2u}"
          "n2 = [] \<and> mode = final \<or> mode = [] \<or> mode = pp_Rung (last_posture detect zero_posture n2)"
        using ads keys by auto
      define new where "new = [Saw (mo_snap m)] @ n1 @ n2"
      have added: "added s s' new" using added_trans [OF a1 added_trans [OF n1(1) n2(1)]] by (simp add: new_def)
      have last1: "last_posture detect p n1 = last_posture detect zero_posture n1" if "final \<noteq> []" for p
        using last_posture_forget that n1(2) by blast
      have mode: "mode = [] \<or> mode = pp_Rung (last_posture detect zero_posture new)"
      proof (cases "mode = []")
        case False
        then consider "n2 = []" "mode = final" | "mode = pp_Rung (last_posture detect zero_posture n2)" using n2(5) by blast
        then show ?thesis
        proof cases
          case 1
          then show ?thesis using last1 [of "posture_or zero_posture (detect (mo_snap m))"] n1(2) False by (simp add: new_def)
        next
          case 2
          then show ?thesis using last_posture_forget [of n2 "last_posture detect (posture_or zero_posture (detect (mo_snap m))) n1"] False
            by (simp add: new_def)
        qed
      qed simp
      have ok: "mode = target \<and> target \<in> set PermissionRungs \<and> matchTarget target (last_posture detect zero_posture new)" if none: "err = None"
      proof -
        have f: "mode = final" "e = None" "s' = s2" using ads none by auto
        then have "n2 = []" using n2(1) by (simp add: added_def)
        moreover have t: "matchTarget target (last_posture detect zero_posture n1)" using n1(4) f by simp
        moreover have "final = target" using t n1(2) by (simp add: matchTarget_def)
        ultimately show ?thesis using f last1 [of "posture_or zero_posture (detect (mo_snap m))"] False ne by (simp add: new_def)
      qed
      show ?thesis
        by (intro exI [of _ new] exI [of _ start] conjI)
          (use added mode ok ads False n1 n2 in \<open>auto simp: new_def start_def gated_append\<close>)
    qed
  qed
qed

text \<open>A harness that takes every key and repaints at once: what the loop reads for a press, with the screen it leaves.\<close>

lemma press_moves:
  assumes "sc_moments s = press_view z @ ms" and "sc_writes s = True # ws" and "\<not> arrived p" and "detect z = Some q" and "q \<noteq> p"
  shows "cycle_loop detect arrived keys (Suc n) p s =
    cycle_loop detect arrived keys n q (s\<lparr>sc_moments := ms, sc_writes := ws,
      sc_trace := sc_trace s @ [Gate None False, Wrote keys, Gate None False, Saw z]\<rparr>)"
  using assms named [OF assms(4)]
  by (cases s) (simp add: press_view_def quiet_def pressGate.simps look_input_def conv_write_def awaitPostureChange.simps blocked_poll_def
      surfaced_request_def posture_poll_def look_def keep_readable_def)

lemma cycle_arrives:
  "map detect zs = map Some ps \<Longrightarrow> distinct_adj (p # ps) \<Longrightarrow> list_all (\<lambda>q. \<not> arrived q) (butlast (p # ps)) \<Longrightarrow> arrived (last (p # ps)) \<Longrightarrow>
     length zs \<le> n \<Longrightarrow> sc_moments s = concat (map press_view zs) @ ms \<Longrightarrow> sc_writes s = replicate (length zs) True @ ws \<Longrightarrow>
     \<exists>s' new. cycle_loop detect arrived keys n p s = Some ((pp_Rung (last (p # ps)), None), s') \<and> added s s' new \<and>
       writes new = replicate (length zs) keys \<and> sc_moments s' = ms"
proof (induction zs arbitrary: ps p n s)
  case Nil
  then show ?case by (cases n) (auto intro!: exI [of _ "[]"])
next
  case (Cons z zs)
  then obtain q qs where ps: "ps = q # qs" "detect z = Some q" "map detect zs = map Some qs" by auto
  obtain k where n: "n = Suc k" using Cons.prems(5) by (cases n) auto
  define s1 where "s1 = s\<lparr>sc_moments := concat (map press_view zs) @ ms, sc_writes := replicate (length zs) True @ ws,
      sc_trace := sc_trace s @ [Gate None False, Wrote keys, Gate None False, Saw z]\<rparr>"
  have one: "cycle_loop detect arrived keys (Suc k) p s = cycle_loop detect arrived keys k q s1"
    unfolding s1_def using Cons.prems ps by (intro press_moves) (auto split: if_splits)
  obtain s' new where "cycle_loop detect arrived keys k q s1 = Some ((pp_Rung (last (q # qs)), None), s')" "added s1 s' new"
      "writes new = replicate (length zs) keys" "sc_moments s' = ms"
    using Cons.IH [OF ps(3), of q k s1] Cons.prems ps(1) n by (auto simp: s1_def split: if_splits)
  moreover have "added s s' ([Gate None False, Wrote keys, Gate None False, Saw z] @ new)" using calculation(2) by (simp add: added_def s1_def)
  ultimately show ?case unfolding n one ps(1)
    by (intro exI [of _ s'] exI [of _ "[Gate None False, Wrote keys, Gate None False, Saw z] @ new"]) simp
qed

lemma switch_arrives:
  assumes h: "po_harness po = ''claude-code''" and target: "target \<in> set PermissionRungs" "target = permissionRungBypass \<longrightarrow> snd (cycleRing po)"
    and ring: "detect zi = Some p" "map detect zs = map Some ps" "distinct_adj (p # ps)" "length zs \<le> 2 * fst (cycleRing po)"
    and arrive: "list_all (\<lambda>q. \<not> matchTarget target q) (butlast (p # ps))" "matchTarget target (last (p # ps))"
    and s: "sc_moments s = switch_view zi zs @ ms" "sc_writes s = replicate (length zs) True @ ws" and some: "zs \<noteq> []"
  shows "\<exists>s' new. SetPermissionMode detect po False True None None target s = Some ((target, None), s') \<and> added s s' new \<and>
    writes new = replicate (length zs) shiftTabCSI9_2u"
proof -
  have cap: "permissionModeCapabilities (po_harness po) = Some PermissionRungs"
    by (simp add: h permissionModeCapabilities_def canonical_claude)
  have keys: "shiftTabForHarness ''claude-code'' = shiftTabCSI9_2u" by (simp add: shiftTabForHarness_def Unalias_def)
  have tab: "shiftTabCSI9_2u \<noteq> []" by (simp add: shiftTabCSI9_2u_def)
  have no: "\<not> matchTarget target p" using arrive(1) some ring(2) by (cases ps) auto
  define s1 where "s1 = s\<lparr>sc_moments := concat (map press_view zs) @ ms,
      sc_trace := sc_trace s @ [Saw zi, Peek (mo_snap quiet), Saw zi]\<rparr>"
  obtain s' new where c: "cycle_loop detect (matchTarget target) shiftTabCSI9_2u (2 * fst (cycleRing po)) p s1 = Some ((pp_Rung (last (p # ps)), None), s')"
      and new: "added s1 s' new" "writes new = replicate (length zs) shiftTabCSI9_2u"
    using cycle_arrives [OF ring(2,3) arrive ring(4), of s1 ms ws shiftTabCSI9_2u] s by (auto simp: s1_def)
  have rung: "pp_Rung (last (p # ps)) = target" using arrive(2) by (simp only: matchTarget_def)
  have "cyclePermissionMode detect ''claude-code'' (matchTarget target) (2 * fst (cycleRing po))
      (s\<lparr>sc_moments := quiet # quiet\<lparr>mo_snap := zi\<rparr> # concat (map press_view zs) @ ms, sc_trace := sc_trace s @ [Saw zi]\<rparr>) = Some ((target, None), s')"
    using c rung keys tab ring(1) by (cases s) (simp add: cyclePermissionMode_def peek_def look_def s1_def Let_def)
  then have "SetPermissionMode detect po False True None None target s = Some ((target, None), s')"
    using cap target h no ring(1) s
    by (cases s) (auto simp: SetPermissionMode_def switch_view_def look_def driveToPermissionMode_def after_drive_def Let_def split: prod.splits)
  moreover have "added s s' ([Saw zi, Peek (mo_snap quiet), Saw zi] @ new)" using new(1) by (simp add: added_def s1_def)
  ultimately show ?thesis using new(2) by (intro exI [of _ s'] exI [of _ "[Saw zi, Peek (mo_snap quiet), Saw zi] @ new"]) simp
qed

text \<open>And one that takes the keys and shows nothing new before the wait for each is over.\<close>

lemma cycle_stuck:
  "\<not> arrived p \<Longrightarrow> detect z = None \<or> detect z = Some p \<Longrightarrow> sc_moments s = concat (replicate n (press_stuck z)) @ ms \<Longrightarrow>
     sc_writes s = replicate n True @ ws \<Longrightarrow>
     \<exists>s' new. cycle_loop detect arrived keys n p s = Some ((pp_Rung p, Some BoundExhausted), s') \<and> added s s' new \<and>
       last_posture detect p new = p \<and> set new \<subseteq> {Gate None False, Wrote keys, Saw z} \<and> sc_moments s' = ms \<and> sc_writes s' = ws"
proof (induction n arbitrary: s)
  case 0
  then show ?case by (auto intro!: exI [of _ "[]"])
next
  case (Suc n)
  define step where "step = [Gate None False, Wrote keys, Gate None False, Saw z, Saw z]"
  define s1 where "s1 = s\<lparr>sc_moments := concat (replicate n (press_stuck z)) @ ms, sc_writes := replicate n True @ ws, sc_trace := sc_trace s @ step\<rparr>"
  have kept: "posture_or p (detect z) = p" "keep_readable p (posture_or zero_posture (detect z)) = p"
    using Suc.prems(2) keep_read [of p z] by auto
  have aw: "awaitPostureChange detect p s0 = Some ((posture_or zero_posture (detect z), None), s0\<lparr>sc_moments := ms0, sc_trace := sc_trace s0 @ [Gate None False, Saw z, Saw z]\<rparr>)"
    if "sc_moments s0 = quiet # quiet\<lparr>mo_snap := z, mo_expired := True\<rparr> # quiet\<lparr>mo_snap := z\<rparr> # ms0" for s0 ms0
    using that Suc.prems(2)
    by (auto simp: awaitPostureChange.simps quiet_def look_input_def blocked_poll_def surfaced_request_def posture_poll_def look_def give_up_def)
  have one: "cycle_loop detect arrived keys (Suc n) p s = cycle_loop detect arrived keys n p s1"
    using Suc.prems aw kept
    by (cases s) (simp add: press_stuck_def quiet_def pressGate.simps look_input_def conv_write_def s1_def step_def)
  obtain s' new where "cycle_loop detect arrived keys n p s1 = Some ((pp_Rung p, Some BoundExhausted), s')" "added s1 s' new"
      "last_posture detect p new = p" "set new \<subseteq> {Gate None False, Wrote keys, Saw z}" "sc_moments s' = ms" "sc_writes s' = ws"
    using Suc.IH [of s1] Suc.prems by (auto simp: s1_def)
  moreover have "added s s' (step @ new)" using calculation(2) by (simp add: added_def s1_def)
  moreover have "last_posture detect p step = p" "set step \<subseteq> {Gate None False, Wrote keys, Saw z}" using kept by (simp_all add: step_def)
  ultimately show ?case unfolding one by (intro exI [of _ s'] exI [of _ "step @ new"]) simp
qed

end

section \<open>The two adapters\<close>

interpretation claude_mode: posture_reader claude_posture
proof
  fix snap p
  assume "claude_posture snap = Some p"
  then have "pp_Rung p \<in> set PermissionRungs" using permission_posture by (simp add: claude_posture_def)
  then show "pp_Rung p \<noteq> []" by (auto simp: PermissionRungs_def)
qed

interpretation codex_mode: posture_reader "codex_posture sum8" for sum8 :: "string \<Rightarrow> nat"
  by unfold_locales
    (auto simp: codex_posture_def codex_PermissionMode_def collaborationMode_def collabPlan_def collabDefault_def split: if_splits)

section \<open>Switching Claude Code\<close>

definition plan_screen :: Snapshot where "plan_screen = screen (utf8 0x23F8 @ '' plan mode on'')"
definition auto_screen :: Snapshot where "auto_screen = screen (utf8 0x23F5 @ '' auto mode on'')"
definition manual_screen :: Snapshot where "manual_screen = screen (utf8 0x23F8 @ '' manual mode on'')"

abbreviation plan_posture :: PermissionPosture where "plan_posture \<equiv> \<lparr>pp_Rung = ''plan'', pp_Native = ''plan'', pp_OnRing = True\<rparr>"
abbreviation auto_posture :: PermissionPosture where "auto_posture \<equiv> \<lparr>pp_Rung = ''auto'', pp_Native = ''auto'', pp_OnRing = True\<rparr>"
abbreviation manual_posture :: PermissionPosture where "manual_posture \<equiv> \<lparr>pp_Rung = ''manual'', pp_Native = ''default'', pp_OnRing = True\<rparr>"

lemma screens:
  "claude_posture plan_screen = Some plan_posture"
  "claude_posture auto_screen = Some auto_posture"
  "claude_posture manual_screen = Some manual_posture"
  "claude_posture (screen []) = None"
  by (code_simp, code_simp, code_simp, code_simp)

definition plan_session :: perm_opts where
  "plan_session = \<lparr>po_harness = ''claude-code'', po_args = [], po_mode = ''plan''\<rparr>"

lemma plan_ring: "cycleRing plan_session = (4, False)"
  by code_simp

definition plan_script :: "Snapshot list \<Rightarrow> script" where
  "plan_script zs = \<lparr>sc_moments = switch_view plan_screen zs, sc_writes = replicate (length zs) True, sc_waits = [], sc_trace = []\<rparr>"

lemma plan_session_harness [simp]: "po_harness plan_session = ''claude-code''"
  by (simp add: plan_session_def)

lemma plan_to_auto:
  "\<exists>s' new. SetPermissionMode claude_posture plan_session False True None None ''auto'' (plan_script [manual_screen, auto_screen]) = Some ((''auto'', None), s') \<and>
     added (plan_script [manual_screen, auto_screen]) s' new \<and> writes new = replicate (length [manual_screen, auto_screen]) shiftTabCSI9_2u"
  by (rule claude_mode.switch_arrives [where p = plan_posture and zi = plan_screen and ps = "[manual_posture, auto_posture]" and ms = "[]" and ws = "[]"])
    (simp_all add: screens plan_ring PermissionRungs_def matchTarget_def plan_script_def permissionRungBypass_def)



text \<open>
  C19: When the harness takes every Shift+Tab and repaints its footer at once, with another posture each time, and one of the
  screens within the bound shows the target in a spelling that is on the ring, the switch returns the target without
  an error, and has pressed Shift+Tab exactly as often as it took to get there.
\<close>

theorem permission_switch_arrives:
  assumes "po_harness po = ''claude-code''" and "target \<in> set PermissionRungs" and "target = permissionRungBypass \<longrightarrow> snd (cycleRing po)"
    and "claude_posture zi = Some p" and "map claude_posture zs = map Some ps" and "distinct_adj (p # ps)" and "length zs \<le> 2 * fst (cycleRing po)"
    and "list_all (\<lambda>q. \<not> matchTarget target q) (butlast (p # ps))" and "matchTarget target (last (p # ps))" and "zs \<noteq> []"
    and "sc_moments s = switch_view zi zs @ ms" and "sc_writes s = replicate (length zs) True @ ws"
  shows "\<exists>s' new. SetPermissionMode claude_posture po False True None None target s = Some ((target, None), s') \<and> added s s' new \<and>
    writes new = replicate (length zs) shiftTabCSI9_2u"
  using claude_mode.switch_arrives [OF assms(1-9,11,12,10)] .

theorem permission_switch_arrives_witness:
  "\<exists>s' new. SetPermissionMode claude_posture plan_session False True None None ''manual'' (plan_script [auto_screen, manual_screen]) = Some ((''manual'', None), s') \<and>
     added (plan_script [auto_screen, manual_screen]) s' new \<and> writes new = replicate (length [auto_screen, manual_screen]) shiftTabCSI9_2u"
  by (rule permission_switch_arrives [where p = plan_posture and zi = plan_screen and ps = "[auto_posture, manual_posture]" and ms = "[]" and ws = "[]"])
    (simp_all add: screens plan_ring PermissionRungs_def matchTarget_def plan_script_def permissionRungBypass_def)

text \<open>A session in plan mode that a switch to manual takes to auto, where it stays, and whose footer then is covered.\<close>

definition stuck_script :: script where
  "stuck_script =
     \<lparr>sc_moments = [quiet\<lparr>mo_snap := plan_screen\<rparr>, quiet, quiet\<lparr>mo_snap := auto_screen\<rparr>] @ concat (replicate 8 (press_stuck auto_screen)) @
        [quiet, quiet\<lparr>mo_snap := screen []\<rparr>] @ concat (replicate 8 (press_stuck (screen []))),
      sc_writes = replicate 8 True @ replicate 8 True, sc_waits = [], sc_trace = []\<rparr>"

text \<open>
  C20: The switch forgets what it saw. A session found in plan mode that a failed switch to manual leaves in auto, with a
  footer that cannot be read during the restoring, is reported as \<^verbatim>\<open>ErrPermissionModeSwitchFailed\<close> with an empty mode, though
  the last posture it read is more permissive than the one it found: the comparison is with what the restoring itself read.
\<close>

theorem permission_switch_forgets:
  "\<exists>s'. SetPermissionMode claude_posture plan_session False True None None ''manual'' stuck_script = Some (([], Some PermissionModeSwitchFailed), s') \<and>
     hd (sc_trace s') = Saw plan_screen \<and> claude_posture plan_screen = Some plan_posture \<and>
     MorePermissive (pp_Rung (last_posture claude_posture zero_posture (sc_trace s'))) (pp_Rung plan_posture)"
proof -
  let ?keys = shiftTabCSI9_2u
  define restore where "restore = [quiet, quiet\<lparr>mo_snap := screen []\<rparr>] @ concat (replicate 8 (press_stuck (screen [])))"
  have cap: "permissionModeCapabilities ''claude-code'' = Some PermissionRungs" by (simp add: permissionModeCapabilities_def canonical_claude)
  have keys: "shiftTabForHarness ''claude-code'' = ?keys" "?keys \<noteq> []" by (simp_all add: shiftTabForHarness_def Unalias_def shiftTabCSI9_2u_def)
  define s1 where "s1 = \<lparr>sc_moments = concat (replicate 8 (press_stuck auto_screen)) @ restore, sc_writes = replicate 8 True @ replicate 8 True,
      sc_waits = [], sc_trace = [Saw plan_screen, Peek (mo_snap quiet), Saw auto_screen]\<rparr>"
  obtain s2 n2 where s2: "cycle_loop claude_posture (matchTarget ''manual'') ?keys 8 auto_posture s1 = Some ((''auto'', Some BoundExhausted), s2)"
      "added s1 s2 n2" "last_posture claude_posture auto_posture n2 = auto_posture" "sc_moments s2 = restore" "sc_writes s2 = replicate 8 True"
    using claude_mode.cycle_stuck [of "matchTarget ''manual''" auto_posture auto_screen s1 8 restore "replicate 8 True" ?keys]
    by (auto simp: s1_def screens matchTarget_def)
  define s3 where "s3 = s2\<lparr>sc_moments := concat (replicate 8 (press_stuck (screen []))) @ [],
      sc_trace := sc_trace s2 @ [Peek (mo_snap quiet), Saw (screen [])]\<rparr>"
  obtain s4 n4 where s4: "cycle_loop claude_posture (matchRung ''plan'') ?keys 8 zero_posture s3 = Some (([], Some BoundExhausted), s4)"
      "added s3 s4 n4" "set n4 \<subseteq> {Gate None False, Wrote ?keys, Saw (screen [])}"
    using claude_mode.cycle_stuck [of "matchRung ''plan''" zero_posture "screen []" s3 8 "[]" "[]" ?keys] s2(5)
    by (auto simp: s3_def screens matchRung_def zero_posture_def)
  have drive: "cyclePermissionMode claude_posture ''claude-code'' (matchTarget ''manual'') 8
      \<lparr>sc_moments = quiet # quiet\<lparr>mo_snap := auto_screen\<rparr> # concat (replicate 8 (press_stuck auto_screen)) @ restore,
       sc_writes = replicate 8 True @ replicate 8 True, sc_waits = [], sc_trace = [Saw plan_screen]\<rparr> = Some ((''auto'', Some BoundExhausted), s2)"
    using s2(1) keys screens by (simp add: cyclePermissionMode_def peek_def look_def s1_def Let_def)
  have undo: "cyclePermissionMode claude_posture ''claude-code'' (matchRung ''plan'') 8 s2 = Some (([], Some BoundExhausted), s4)"
    using s4(1) s2(4) keys screens by (simp add: cyclePermissionMode_def peek_def look_def s3_def restore_def Let_def)
  have "\<not> MorePermissive [] ''plan''" by (simp add: MorePermissive_def rungIndex_def PermissionRungs_def)
  then have "SetPermissionMode claude_posture plan_session False True None None ''manual'' stuck_script = Some (([], Some PermissionModeSwitchFailed), s4)"
    using cap drive undo screens(1)
    by (simp add: SetPermissionMode_def stuck_script_def restore_def look_def driveToPermissionMode_def after_drive_def plan_ring matchTarget_def
        permissionRungBypass_def PermissionRungs_def)
  moreover have trace: "sc_trace s4 = [Saw plan_screen, Peek (mo_snap quiet), Saw auto_screen] @ n2 @ [Peek (mo_snap quiet), Saw (screen [])] @ n4"
    using s2(2) s4(2) by (simp add: added_def s1_def s3_def)
  moreover have "last_posture claude_posture q n4 = q" for q
    using s4(3) by (induction n4) (auto simp: screens)
  ultimately show ?thesis using s2(3) screens
    by (intro exI [of _ s4]) (simp add: MorePermissive_def rungIndex_def PermissionRungs_def)
qed

end
