(* ===== verification/Spec2Isabelle.thy ===== *)
theory Spec2Isabelle
  imports Delivery_Queue Contract_Properties Adapter_Cursor Adapter_Open Wrap_Session Wrap_Harnesses Transcript_Follower Chat_Stream_Properties Turns_Properties Chat_Permission_Properties
begin

text \<open>
  A verification development of harness-wrapper (Go): it runs a coding agent's command line
  program, a \<^emph>\<open>harness\<close>, as a child process, watches and classifies what it prints, and offers it to
  programs as a conversation and to orchestrators as the Harness Adapter Interface.

  \<^bold>\<open>The program.\<close> \<^verbatim>\<open>internal/wrapcore\<close> starts a harness under a pseudoterminal: it checks the
  configuration and injects flags (\<^verbatim>\<open>wrapper.go\<close>), reads the output into a line tap and a buffer of
  recent output (\<^verbatim>\<open>linetap.go\<close>, \<^verbatim>\<open>recent_output.go\<close>), polls a classifier over that buffer
  (\<^verbatim>\<open>classifier.go\<close>, \<^verbatim>\<open>harness_adapter.go\<close>, \<^verbatim>\<open>finished.go\<close>) and supervises the run to a Result
  (\<^verbatim>\<open>session.go\<close>). Its events go to a callback through the bounded queue of \<^verbatim>\<open>internal/delivery\<close>, as do
  those of \<^verbatim>\<open>internal/chatcore\<close>, which makes conversations of turns, over claude's stream-json
  protocol or over the terminal. There it types and answers what the adapters of \<^verbatim>\<open>pkg/turns\<close> read off the
  screen: the end of a turn, the reply, the dialog that waits for a key, the permission mode. \<^verbatim>\<open>pkg/transcript\<close> follows the file a harness records itself in.
  \<^verbatim>\<open>pkg/contract\<close> is the vocabulary of the Adapter Interface with its validators, and
  \<^verbatim>\<open>pkg/adapter\<close> implements it over a harness's Transport: a Session hands inputs to the harness, marks each
  one durably before (\<^verbatim>\<open>markers.go\<close>), and delivers observations as acknowledged batches
  (\<^verbatim>\<open>cursor.go\<close>); a record handle answers for inputs after a crash (\<^verbatim>\<open>record.go\<close>).

  \<^bold>\<open>The theories.\<close>
  \<^item> \<^verbatim>\<open>Prelude\<close>: first-error checks over lists, \<open>reachable\<close>, and the two contracts the components
    interpret: \<open>inductive_invariant\<close> (an invariant holds in every reachable state) and
    \<open>chunked_stream\<close> (what a byte stream gives does not depend on how it was cut).
  \<^item> \<^verbatim>\<open>Go_Lib\<close>, \<^verbatim>\<open>Go_Bytes\<close>, \<^verbatim>\<open>Go_Regex\<close>, \<^verbatim>\<open>Go_Text\<close>: what the code uses of Go and its library: byte strings,
    \<^verbatim>\<open>strings\<close>, \<^verbatim>\<open>strconv\<close>, UTF-8, paths, lines, wrapping 64-bit integers, and leftmost-first
    regular expressions with case folding and groups.
  \<^item> \<^verbatim>\<open>Delivery_Queue\<close>: \<^verbatim>\<open>internal/delivery/queue.go\<close>. A queue is a record, each region under its mutex
    an operation, producers and worker a transition system. Values are delivered in the order they were taken, within
    the bounds, with no lost wake-up; a closed queue drains.
  \<^item> \<^verbatim>\<open>Contract_Core\<close>, \<^verbatim>\<open>Contract_Paths\<close>, \<^verbatim>\<open>Contract_Provision\<close>, \<^verbatim>\<open>Contract_Broker\<close>,
    \<^verbatim>\<open>Contract_Session\<close>, \<^verbatim>\<open>Contract_Properties\<close>: \<^verbatim>\<open>pkg/contract\<close>. A validator gives the first
    error or \<open>None\<close>; the lemmas say what an accepted value satisfies (safe layouts, injective relocation,
    placeholders that do not leak, round trips of versions).
  \<^item> \<^verbatim>\<open>Adapter_Frontend\<close>, \<^verbatim>\<open>Adapter_Cursor\<close>, \<^verbatim>\<open>Adapter_Markers\<close>, \<^verbatim>\<open>Adapter_Record\<close>,
    \<^verbatim>\<open>Adapter_Session\<close>, \<^verbatim>\<open>Adapter_Session_Inv\<close>, \<^verbatim>\<open>Adapter_Session_Properties\<close>, \<^verbatim>\<open>Adapter_Open\<close>: \<^verbatim>\<open>pkg/adapter\<close>.
    The cursor delivers each observation once; a marker survives a crash and has one writer;
    over any number of Hosts, interleavings and crashes no input is handed over twice, and \<open>not_found\<close> means it never
    was; a Session runs one turn at a time and reports each once; an open either holds everything it needs or leaves
    nothing behind.
  \<^item> \<^verbatim>\<open>Transcript_Follower\<close>: \<^verbatim>\<open>pkg/transcript/follower.go\<close>. Polling, committing and restarting refine one
    pass over the covered bytes.
  \<^item> \<^verbatim>\<open>Wrap_Streams\<close>: the line tap, the recent output and \<^verbatim>\<open>pkg/screen/csifilter.go\<close>, each equal to
    a specification on the whole stream. \<^verbatim>\<open>Wrap_Launch\<close>: configuration, harness names and permission modes.
    \<^verbatim>\<open>Wrap_Classify\<close> and \<^verbatim>\<open>Wrap_Harnesses\<close>: escape sequences, error classes, classifiers, the residual rows and the
    built-in patterns. \<^verbatim>\<open>Wrap_Session\<close>: the supervised run as a transition system of supervisor,
    classifier goroutine and output goroutine; its final event, its result, its changes of status.
  \<^item> \<^verbatim>\<open>Chat_Control\<close>, \<^verbatim>\<open>Chat_Core\<close>, \<^verbatim>\<open>Chat_Stream\<close>, \<^verbatim>\<open>Chat_Stream_Sys\<close>, \<^verbatim>\<open>Chat_Stream_Inv\<close>,
    \<^verbatim>\<open>Chat_Stream_Properties\<close>: the control token, turns and events, and the stream-json conversation:
    each turn is announced and ends at most once and in that order, and the exit is the last event.
  \<^item> \<^verbatim>\<open>Turns_Core\<close>: events, requests, the tracker of the dialog on screen, the intent of a menu label, and the contracts
    \<open>screen_adapter\<close> and \<open>turn_reporter\<close> of an adapter, which Claude Code's and Codex's adapters interpret.
    \<^verbatim>\<open>Turns_Claude_Screen\<close>, \<^verbatim>\<open>Turns_Claude_Dialog\<close>, \<^verbatim>\<open>Turns_Claude\<close> (with \<^verbatim>\<open>_Properties\<close> and \<^verbatim>\<open>_Reply\<close>):
    \<^verbatim>\<open>pkg/turns/harness/claudecode\<close>, that is rows and expressions, menus and questions, planned answers, the adapter.
    \<^verbatim>\<open>Turns_Codex\<close>: \<^verbatim>\<open>pkg/turns/harness/codex\<close>. \<^verbatim>\<open>Turns_Properties\<close>: requests are raised and resolved in
    turn, a turn is reported once, a menu's keys take their own row, only the status region makes a screen busy; a painted reply is
    read back; Codex's approvals are never confirmed unasked.
  \<^item> \<^verbatim>\<open>Chat_Terminal\<close>, \<^verbatim>\<open>Chat_Terminal_Properties\<close>: what \<^verbatim>\<open>internal/chatcore\<close> writes to a terminal (\<^verbatim>\<open>input.go\<close>,
    \<^verbatim>\<open>answer_plan.go\<close>, \<^verbatim>\<open>submit.go\<close>, \<^verbatim>\<open>clearComposer\<close>) with the screens each write waits for. An answer goes on
    only on the evidence of a screen and returns without an error only when the dialog has gone.
    \<^verbatim>\<open>Chat_Permission\<close>, \<^verbatim>\<open>Chat_Permission_Properties\<close>: \<^verbatim>\<open>permmode.go\<close>. A switch presses only when no request is
    pending, reports the mode it last read, and arrives on a ring that moves.

  \<^bold>\<open>How the code is modelled.\<close> A struct is a record and an enumeration a datatype, with a constructor for values outside
  of it where the code handles them. A handler that takes a mutex several times is one definition per region, and
  a goroutine is a program counter; the step relation interleaves the regions. An error is a value. A Go \<open>int\<close> is an \<open>int\<close>, with
  \<open>wrap64\<close> where a product can overflow. Loops are structural recursion or functions with a
  termination proof; a loop that waits for the screen consumes a script of what it gets to see, and a call whose script has run out has not
  returned (\<open>None\<close>). There is no fuel, except that \<open>delivery_drains\<close> bounds the worker's moves by the queue's length.
  A string is its bytes; lower-casing is exact for the ASCII text that is searched for.

  \<^bold>\<open>Parameters.\<close> What is not in the sources is an argument: a harness's Transport and its answers, the decoder of a
  transcript format and its digest, the sizes of JSON encodings, the outcomes of system calls, \<^verbatim>\<open>strconv.Quote\<close>, the RFC 3339 text of
  a time and the calendar, a caller's Classifier (which may panic), the check of a containment request; the SHA-256 sum behind a request's ID (\<open>sum8\<close>), the letters of
  Unicode, \<^verbatim>\<open>strings.EqualFold\<close> (\<open>fold_eq\<close>), and the script of a terminal: the screens, writes and waits of a call. Hypotheses about
  them are stated in the theorems.

  \<^bold>\<open>Not modelled.\<close> The terminal itself, attaching, signals and process groups, login and containment of
  \<^verbatim>\<open>internal/wrapcore\<close> are calls into the operating system; the screen is a third-party emulator, whose text the readers take as
  given. Of the terminal transport the wait for a ready prompt, the idle end of a turn and the texts of errors are left out, and of \<^verbatim>\<open>pkg/turns\<close>
  the Watcher's goroutines, the OpenCode adapter and the reading of session files. The adapter profiles speak the harnesses' own protocols behind
  the interfaces the Session model takes as parameters; \<^verbatim>\<open>cmd\<close>, the environments, the conformance suite, the fakes, the
  generators and the benchmarks are glue, tests or tools.

  \<^bold>\<open>Plan.\<close> Next are the wait for a ready prompt and the settling of terminal turns (\<^verbatim>\<open>ready.go\<close>, \<^verbatim>\<open>conversation.go\<close>), which
  join the turn ledger of \<open>Chat_Stream\<close> to the screen readers; the termination of a process group (\<^verbatim>\<open>procgroup.go\<close>) as steps of
  the run; and the classification of errors in the adapter profiles.
\<close>

end
